(* ===== verification/Prelude.thy ===== *)
theory Prelude
  imports Complex_Main "HOL-Library.Word" "HOL-Library.Char_ord" "HOL-Library.List_Lexorder"
begin

text \<open>
  Shared vocabulary of the development: Python exceptions as values, the result type every
  fallible operation returns, its sequencing operators and the loops over lists that may stop
  with an exception, and the string predicates the checks of the source use.

  A Python \<open>str\<close> is modelled as \<open>string\<close>, so the code points 0 to 255; the
  canonical encoder works on code points (\<open>nat list\<close>) and is general.
  Messages of the exceptions the source raises itself are kept; a message that interpolates
  run-time values is cut at its first interpolated value.
\<close>

named_theorems res_simps "rewriting rules for results"
named_theorems py_simps "rewriting rules for Python values"

datatype exn =
    is_ValueError: ValueError (exn_msg: string)
  | is_TypeError: TypeError (exn_msg: string)
  | is_KeyError: KeyError (exn_msg: string)
  | is_PermissionError: PermissionError (exn_msg: string)
  | is_AttributeError: AttributeError (exn_msg: string)
  | is_IndexError: IndexError (exn_msg: string)
  | is_OverflowError: OverflowError (exn_msg: string)
  | is_TrustedClockError: TrustedClockError (exn_msg: string)
  | is_RuntimeError: RuntimeError (exn_msg: string)
  | is_TimeoutError: TimeoutError (exn_msg: string)
  | is_ConnectionError: ConnectionError (exn_msg: string)

type_synonym 'a res = "exn + 'a"

text \<open>The name \<open>type(exc).__name__\<close> evaluates to.\<close>

fun exn_name :: "exn \<Rightarrow> string" where
  "exn_name (ValueError _) = ''ValueError''"
| "exn_name (TypeError _) = ''TypeError''"
| "exn_name (KeyError _) = ''KeyError''"
| "exn_name (PermissionError _) = ''PermissionError''"
| "exn_name (AttributeError _) = ''AttributeError''"
| "exn_name (IndexError _) = ''IndexError''"
| "exn_name (OverflowError _) = ''OverflowError''"
| "exn_name (TrustedClockError _) = ''TrustedClockError''"
| "exn_name (RuntimeError _) = ''RuntimeError''"
| "exn_name (TimeoutError _) = ''TimeoutError''"
| "exn_name (ConnectionError _) = ''ConnectionError''"

definition rbind :: "'a res \<Rightarrow> ('a \<Rightarrow> 'b res) \<Rightarrow> 'b res" where
  "rbind m f = (case m of Inl e \<Rightarrow> Inl e | Inr x \<Rightarrow> f x)"

lemma rbind_Inl [simp]: "rbind (Inl e) f = Inl e"
  by (simp add: rbind_def)

lemma rbind_Inr [simp]: "rbind (Inr x) f = f x"
  by (simp add: rbind_def)

lemma rbind_eq_Inr [res_simps]: "rbind m f = Inr y \<longleftrightarrow> (\<exists>x. m = Inr x \<and> f x = Inr y)"
  by (cases m) auto

lemma rbind_eq_Inl [res_simps]:
  "rbind m f = Inl e \<longleftrightarrow> m = Inl e \<or> (\<exists>x. m = Inr x \<and> f x = Inl e)"
  by (cases m) auto

lemma rbind_assoc: "rbind (rbind m f) g = rbind m (\<lambda>x. rbind (f x) g)"
  by (cases m) simp_all

lemma rbind_cong [fundef_cong]:
  "m = m' \<Longrightarrow> (\<And>x. m' = Inr x \<Longrightarrow> f x = f' x) \<Longrightarrow> rbind m f = rbind m' f'"
  by (cases m') auto

lemma rbind_split:
  "P (rbind m f) \<longleftrightarrow> (\<forall>e. m = Inl e \<longrightarrow> P (Inl e)) \<and> (\<forall>x. m = Inr x \<longrightarrow> P (f x))"
  by (cases m) auto

text \<open>\<open>if not b: raise e\<close>\<close>

definition require :: "bool \<Rightarrow> exn \<Rightarrow> unit res" where
  "require b e = (if b then Inr () else Inl e)"

lemma require_simps [simp]: "require True e = Inr ()" "require False e = Inl e"
  by (simp_all add: require_def)

lemma require_eq_Inr [res_simps]: "require b e = Inr u \<longleftrightarrow> b"
  by (simp add: require_def)

lemma require_eq_Inl [res_simps]: "require b e = Inl e' \<longleftrightarrow> \<not> b \<and> e' = e"
  by (auto simp: require_def)

text \<open>
  Elimination rules that take a successful run apart check by check:
  \<open>by (elim res_elims) auto\<close> instead of one large case split.
\<close>

named_theorems res_elims "taking a successful run apart"

lemma rbindE [res_elims]:
  "rbind m f = Inr y \<Longrightarrow> (\<And>x. m = Inr x \<Longrightarrow> f x = Inr y \<Longrightarrow> P) \<Longrightarrow> P"
  by (auto simp: res_simps)

lemma if_InlE [res_elims]:
  "(if b then Inl e else r) = Inr y \<Longrightarrow> (\<not> b \<Longrightarrow> r = Inr y \<Longrightarrow> P) \<Longrightarrow> P"
  by (cases b) auto

lemma if_Inl2E [res_elims]:
  "(if b then r else Inl e) = Inr y \<Longrightarrow> (b \<Longrightarrow> r = Inr y \<Longrightarrow> P) \<Longrightarrow> P"
  by (cases b) auto

lemma prod_InrE [res_elims]:
  "(case x of (a, b) \<Rightarrow> f a b) = Inr y \<Longrightarrow> (\<And>a b. x = (a, b) \<Longrightarrow> f a b = Inr y \<Longrightarrow> P) \<Longrightarrow> P"
  by (cases x) auto

lemma option_InlE [res_elims]:
  "(case x of None \<Rightarrow> Inl e | Some z \<Rightarrow> f z) = Inr y \<Longrightarrow> (\<And>z. x = Some z \<Longrightarrow> f z = Inr y \<Longrightarrow> P) \<Longrightarrow> P"
  by (cases x) auto

text \<open>A check that returns \<open>None\<close> or \<open>False\<close> instead of raising.\<close>

lemma if_NoneE [res_elims]:
  "(if b then Inr None else r) = Inr (Some y) \<Longrightarrow> (\<not> b \<Longrightarrow> r = Inr (Some y) \<Longrightarrow> P) \<Longrightarrow> P"
  by (cases b) auto

lemma if_FalseE [res_elims]:
  "(if b then Inr False else r) = Inr True \<Longrightarrow> (\<not> b \<Longrightarrow> r = Inr True \<Longrightarrow> P) \<Longrightarrow> P"
  by (cases b) auto

text \<open>Loops over a list whose body may raise.\<close>

fun rmapM :: "('a \<Rightarrow> 'b res) \<Rightarrow> 'a list \<Rightarrow> 'b list res" where
  "rmapM f [] = Inr []"
| "rmapM f (x # xs) = rbind (f x) (\<lambda>y. rbind (rmapM f xs) (\<lambda>ys. Inr (y # ys)))"

text \<open>\<open>any(f(x) for x in xs)\<close> and \<open>all(f(x) for x in xs)\<close>: both stop early.\<close>

fun rany :: "('a \<Rightarrow> bool res) \<Rightarrow> 'a list \<Rightarrow> bool res" where
  "rany f [] = Inr False"
| "rany f (x # xs) = rbind (f x) (\<lambda>b. if b then Inr True else rany f xs)"

fun rall :: "('a \<Rightarrow> bool res) \<Rightarrow> 'a list \<Rightarrow> bool res" where
  "rall f [] = Inr True"
| "rall f (x # xs) = rbind (f x) (\<lambda>b. if b then rall f xs else Inr False)"

fun rfilter :: "('a \<Rightarrow> bool res) \<Rightarrow> 'a list \<Rightarrow> 'a list res" where
  "rfilter f [] = Inr []"
| "rfilter f (x # xs) =
     rbind (f x) (\<lambda>b. rbind (rfilter f xs) (\<lambda>ys. Inr (if b then x # ys else ys)))"

text \<open>A \<open>for\<close> loop that only checks.\<close>

fun rforeach :: "('a \<Rightarrow> unit res) \<Rightarrow> 'a list \<Rightarrow> unit res" where
  "rforeach f [] = Inr ()"
| "rforeach f (x # xs) = rbind (f x) (\<lambda>_. rforeach f xs)"

lemma rmapM_cong [fundef_cong]:
  "xs = ys \<Longrightarrow> (\<And>x. x \<in> set ys \<Longrightarrow> f x = g x) \<Longrightarrow> rmapM f xs = rmapM g ys"
proof (induction ys arbitrary: xs)
  case (Cons y ys)
  then show ?case by (auto intro: rbind_cong)
qed simp

lemma rmapM_append: "rmapM f (xs @ ys) = rbind (rmapM f xs) (\<lambda>us. rbind (rmapM f ys) (\<lambda>vs. Inr (us @ vs)))"
proof (induction xs)
  case Nil
  then show ?case by (cases "rmapM f ys") simp_all
qed (simp add: rbind_assoc)

lemma rmapM_Inr_map: "(\<And>x. x \<in> set xs \<Longrightarrow> f x = Inr (g x)) \<Longrightarrow> rmapM f xs = Inr (map g xs)"
  by (induction xs) auto

lemma rmapM_total: "(\<And>x. x \<in> set xs \<Longrightarrow> \<exists>y. f x = Inr y) \<Longrightarrow> \<exists>ys. rmapM f xs = Inr ys"
  by (induction xs) fastforce+

lemma rmapM_length: "rmapM f xs = Inr ys \<Longrightarrow> length ys = length xs"
  by (induction xs arbitrary: ys) (auto simp: res_simps)

lemma rmapM_nth: "rmapM f xs = Inr ys \<Longrightarrow> i < length xs \<Longrightarrow> f (xs ! i) = Inr (ys ! i)"
proof (induction xs arbitrary: ys i)
  case (Cons x xs)
  then show ?case by (cases i) (auto simp: res_simps)
qed simp

lemma rmapM_set: "rmapM f xs = Inr ys \<Longrightarrow> y \<in> set ys \<Longrightarrow> \<exists>x\<in>set xs. f x = Inr y"
  by (induction xs arbitrary: ys) (auto simp: res_simps)

lemma rfilter_set: "rfilter f xs = Inr ys \<Longrightarrow> y \<in> set ys \<longleftrightarrow> y \<in> set xs \<and> f y = Inr True"
  by (induction xs arbitrary: ys) (auto simp: res_simps split: if_splits)

lemma rfilter_total: "rfilter f xs = Inr ys \<Longrightarrow> x \<in> set xs \<Longrightarrow> \<exists>b. f x = Inr b"
  by (induction xs arbitrary: ys) (auto simp: res_simps)

lemma rforeach_Inr [res_simps]: "rforeach f xs = Inr u \<longleftrightarrow> (\<forall>x\<in>set xs. f x = Inr ())"
  by (induction xs) (auto simp: res_simps)

lemma rany_True: "rany f xs = Inr True \<Longrightarrow> \<exists>x\<in>set xs. f x = Inr True"
  by (induction xs) (auto simp: res_simps split: if_splits)

lemma rany_False: "rany f xs = Inr False \<longleftrightarrow> (\<forall>x\<in>set xs. f x = Inr False)"
  by (induction xs) (auto simp: res_simps split: if_splits)

lemma rall_True: "rall f xs = Inr True \<longleftrightarrow> (\<forall>x\<in>set xs. f x = Inr True)"
  by (induction xs) (auto simp: res_simps split: if_splits)

lemma rall_False: "rall f xs = Inr False \<Longrightarrow> \<exists>x\<in>set xs. f x = Inr False"
  by (induction xs) (auto simp: res_simps split: if_splits)

lemma rany_cong: "(\<And>x. x \<in> set xs \<Longrightarrow> f x = g x) \<Longrightarrow> rany f xs = rany g xs"
  by (induction xs) (auto intro: rbind_cong)

lemma rany_pure [simp]: "rany (\<lambda>x. Inr (p x)) xs = Inr (list_ex p xs)"
  by (induction xs) auto

lemma rall_pure [simp]: "rall (\<lambda>x. Inr (p x)) xs = Inr (list_all p xs)"
  by (induction xs) auto

lemma rfilter_pure [simp]: "rfilter (\<lambda>x. Inr (p x)) xs = Inr (filter p xs)"
  by (induction xs) auto

section \<open>Characters and strings\<close>

text \<open>\<open>str.isspace\<close> on the code points 0 to 255.\<close>

definition py_isspace :: "char \<Rightarrow> bool" where
  "py_isspace c \<longleftrightarrow> (let n = (of_char c :: nat) in
     (9 \<le> n \<and> n \<le> 13) \<or> (28 \<le> n \<and> n \<le> 32) \<or> n = 133 \<or> n = 160)"

text \<open>\<open>not s.strip()\<close>\<close>

definition blank :: "string \<Rightarrow> bool" where
  "blank s \<longleftrightarrow> list_all py_isspace s"

definition py_lstrip :: "string \<Rightarrow> string" where
  "py_lstrip s = dropWhile py_isspace s"

definition py_strip :: "string \<Rightarrow> string" where
  "py_strip s = rev (dropWhile py_isspace (rev (py_lstrip s)))"

lemma blank_Nil [simp]: "blank []"
  by (simp add: blank_def)

lemma blank_Cons [simp]: "blank (c # s) \<longleftrightarrow> py_isspace c \<and> blank s"
  by (simp add: blank_def)

lemma blank_iff_strip: "blank s \<longleftrightarrow> py_strip s = []"
proof -
  have "py_lstrip s = [] \<longleftrightarrow> blank s"
    by (auto simp: py_lstrip_def blank_def list_all_iff dropWhile_eq_Nil_conv)
  moreover have "py_strip s = [] \<longleftrightarrow> py_lstrip s = []"
  proof
    assume "py_strip s = []"
    then have all: "\<forall>x \<in> set (py_lstrip s). py_isspace x"
      by (simp add: py_strip_def dropWhile_eq_Nil_conv)
    show "py_lstrip s = []"
    proof (rule ccontr)
      assume ne: "py_lstrip s \<noteq> []"
      then have "\<not> py_isspace (hd (py_lstrip s))"
        using hd_dropWhile [of py_isspace s] by (simp add: py_lstrip_def)
      with all ne show False by simp
    qed
  qed (simp add: py_strip_def)
  ultimately show ?thesis by simp
qed

definition is_digit :: "char \<Rightarrow> bool" where
  "is_digit c \<longleftrightarrow> (let n = (of_char c :: nat) in 48 \<le> n \<and> n \<le> 57)"

definition digit_val :: "char \<Rightarrow> nat" where
  "digit_val c = of_char c - 48"

definition is_lower_hex :: "char \<Rightarrow> bool" where
  "is_lower_hex c \<longleftrightarrow> (let n = (of_char c :: nat) in (48 \<le> n \<and> n \<le> 57) \<or> (97 \<le> n \<and> n \<le> 102))"

text \<open>\<open>s.startswith(p)\<close>\<close>

definition startswith :: "string \<Rightarrow> string \<Rightarrow> bool" where
  "startswith s p \<longleftrightarrow> take (length p) s = p"

lemma startswith_append [simp]: "startswith (p @ s) p"
  by (simp add: startswith_def)

lemma startswithE: "startswith s p \<Longrightarrow> s = p @ drop (length p) s"
  unfolding startswith_def by (metis append_take_drop_id)

text \<open>Decimal rendering of a number, \<open>str(n)\<close>, and the digits of a natural number.\<close>

fun nat_str :: "nat \<Rightarrow> string" where
  "nat_str n = (if n < 10 then [char_of (48 + n)] else nat_str (n div 10) @ [char_of (48 + n mod 10)])"

declare nat_str.simps [simp del]

definition int_str :: "int \<Rightarrow> string" where
  "int_str i = (if i < 0 then CHR ''-'' # nat_str (nat (- i)) else nat_str (nat i))"

text \<open>Zero-padded rendering with a fixed number of digits, \<open>'%0kd'\<close> for small values.\<close>

fun pad_nat :: "nat \<Rightarrow> nat \<Rightarrow> string" where
  "pad_nat 0 n = []"
| "pad_nat (Suc k) n = pad_nat k (n div 10) @ [char_of (48 + n mod 10)]"

definition digits_val :: "string \<Rightarrow> nat" where
  "digits_val s = foldl (\<lambda>a c. 10 * a + digit_val c) 0 s"

lemma digits_val_snoc [simp]: "digits_val (s @ [c]) = 10 * digits_val s + digit_val c"
  by (simp add: digits_val_def)

lemma digits_val_Nil [simp]: "digits_val [] = 0"
  by (simp add: digits_val_def)

lemma digit_val_char_of [simp]: "(n::nat) < 10 \<Longrightarrow> digit_val (char_of (48 + n)) = n"
  by (simp add: digit_val_def)

lemma is_digit_char_of [simp]: "(n::nat) < 10 \<Longrightarrow> is_digit (char_of (48 + n))"
  by (simp add: is_digit_def Let_def)

lemma pad_nat_length [simp]: "length (pad_nat k n) = k"
  by (induction k arbitrary: n) auto

lemma pad_nat_digits: "list_all is_digit (pad_nat k n)"
  by (induction k arbitrary: n) auto

lemma digits_val_pad_nat: "n < 10 ^ k \<Longrightarrow> digits_val (pad_nat k n) = n"
proof (induction k arbitrary: n)
  case (Suc k)
  then have "n div 10 < 10 ^ k" by auto
  then show ?case using Suc.IH by simp
qed simp

lemma nat_str_digits: "list_all is_digit (nat_str n)"
proof (induction n rule: nat_str.induct)
  case (1 n)
  then show ?case by (subst nat_str.simps) auto
qed

lemma nat_str_nonempty [simp]: "nat_str n \<noteq> []"
  by (subst nat_str.simps) simp

lemma digits_val_nat_str [simp]: "digits_val (nat_str n) = n"
proof (induction n rule: nat_str.induct)
  case (1 n)
  show ?case
  proof (cases "n < 10")
    case True
    then have "digits_val ([] @ [char_of (48 + n)]) = n"
      by (simp only: digits_val_snoc digit_val_char_of) simp
    with True show ?thesis by (subst nat_str.simps) simp
  next
    case False
    with 1 show ?thesis by (subst nat_str.simps) simp
  qed
qed

lemma nat_str_inject: "nat_str m = nat_str n \<longleftrightarrow> m = n"
  by (metis digits_val_nat_str)

end
