(* ===== verification/PyValue.thy ===== *)
theory PyValue
  imports Prelude
begin

text \<open>
  The Python values that travel through the program: what \<open>json.loads\<close> returns and what
  the builders assemble. Dictionaries are association lists in insertion order with string
  keys. The operations on values (equality, ordering, truth, hashing, \<open>dict\<close> access) are
  the interpreter's, including the places where it raises.
\<close>

section \<open>Values\<close>

text \<open>A float is given by the exact rational it denotes; the sign of zero is not observed.\<close>

datatype pyfloat = FFin rat | FInf | FNegInf | FNan

datatype json =
    JNull
  | JBool bool
  | JInt int
  | JFloat pyfloat
  | JStr string
  | JList "json list"
  | JDict "(string \<times> json) list"

type_synonym dict = "(string \<times> json) list"

section \<open>Kinds of values\<close>

fun is_str :: "json \<Rightarrow> bool" where
  "is_str (JStr _) = True" | "is_str _ = False"

fun is_list :: "json \<Rightarrow> bool" where
  "is_list (JList _) = True" | "is_list _ = False"

fun is_dict :: "json \<Rightarrow> bool" where
  "is_dict (JDict _) = True" | "is_dict _ = False"

fun is_bool :: "json \<Rightarrow> bool" where
  "is_bool (JBool _) = True" | "is_bool _ = False"

text \<open>\<open>isinstance(x, int)\<close> holds for booleans too.\<close>

fun is_int :: "json \<Rightarrow> bool" where
  "is_int (JInt _) = True" | "is_int (JBool _) = True" | "is_int _ = False"

text \<open>\<open>isinstance(x, int) and not isinstance(x, bool)\<close>\<close>

fun is_int_nb :: "json \<Rightarrow> bool" where
  "is_int_nb (JInt _) = True" | "is_int_nb _ = False"

text \<open>\<open>isinstance(x, (int, float)) and not isinstance(x, bool)\<close>\<close>

fun is_num_nb :: "json \<Rightarrow> bool" where
  "is_num_nb (JInt _) = True" | "is_num_nb (JFloat _) = True" | "is_num_nb _ = False"

text \<open>A non-empty string, and a string with a character that is not white space.\<close>

fun nonempty_str :: "json \<Rightarrow> bool" where
  "nonempty_str (JStr s) = (s \<noteq> [])" | "nonempty_str _ = False"

fun nonblank_str :: "json \<Rightarrow> bool" where
  "nonblank_str (JStr s) = (\<not> blank s)" | "nonblank_str _ = False"

text \<open>The truth value of \<open>if x\<close>.\<close>

fun truthy :: "json \<Rightarrow> bool" where
  "truthy JNull = False"
| "truthy (JBool b) = b"
| "truthy (JInt i) = (i \<noteq> 0)"
| "truthy (JFloat f) = (f \<noteq> FFin 0)"
| "truthy (JStr s) = (s \<noteq> [])"
| "truthy (JList xs) = (xs \<noteq> [])"
| "truthy (JDict d) = (d \<noteq> [])"

fun the_str :: "json \<Rightarrow> string" where
  "the_str (JStr s) = s" | "the_str _ = []"

fun the_list :: "json \<Rightarrow> json list" where
  "the_list (JList xs) = xs" | "the_list _ = []"

fun the_dict :: "json \<Rightarrow> dict" where
  "the_dict (JDict d) = d" | "the_dict _ = []"

fun the_int :: "json \<Rightarrow> int" where
  "the_int (JInt i) = i" | "the_int (JBool b) = (if b then 1 else 0)" | "the_int _ = 0"

lemma is_str_iff: "is_str v \<longleftrightarrow> (\<exists>s. v = JStr s)"
  by (cases v) auto

lemma is_list_iff: "is_list v \<longleftrightarrow> (\<exists>xs. v = JList xs)"
  by (cases v) auto

lemma is_dict_iff: "is_dict v \<longleftrightarrow> (\<exists>d. v = JDict d)"
  by (cases v) auto

lemma is_bool_iff: "is_bool v \<longleftrightarrow> (\<exists>b. v = JBool b)"
  by (cases v) auto

lemma is_int_nb_iff: "is_int_nb v \<longleftrightarrow> (\<exists>i. v = JInt i)"
  by (cases v) auto

lemma nonempty_str_iff: "nonempty_str v \<longleftrightarrow> (\<exists>s. v = JStr s \<and> s \<noteq> [])"
  by (cases v) auto

lemma nonblank_str_iff: "nonblank_str v \<longleftrightarrow> (\<exists>s. v = JStr s \<and> \<not> blank s)"
  by (cases v) auto

lemmas kind_iffs = is_str_iff is_list_iff is_dict_iff is_bool_iff is_int_nb_iff
  nonempty_str_iff nonblank_str_iff

lemma case_JListE [res_elims]:
  "(case v of JList xs \<Rightarrow> f xs | _ \<Rightarrow> Inl e) = Inr y \<Longrightarrow> (\<And>xs. v = JList xs \<Longrightarrow> f xs = Inr y \<Longrightarrow> P) \<Longrightarrow> P"
  by (cases v) auto

lemma case_JDictE [res_elims]:
  "(case v of JDict d \<Rightarrow> g d | _ \<Rightarrow> Inl e) = Inr y \<Longrightarrow> (\<And>d. v = JDict d \<Longrightarrow> g d = Inr y \<Longrightarrow> P) \<Longrightarrow> P"
  by (cases v) auto

lemma case_JStrE [res_elims]:
  "(case v of JStr s \<Rightarrow> h s | _ \<Rightarrow> Inl e) = Inr y \<Longrightarrow> (\<And>s. v = JStr s \<Longrightarrow> h s = Inr y \<Longrightarrow> P) \<Longrightarrow> P"
  by (cases v) auto

lemma case_JStr_NoneE [res_elims]:
  "(case v of JStr s \<Rightarrow> h s | _ \<Rightarrow> Inr None) = Inr (Some y) \<Longrightarrow>
     (\<And>s. v = JStr s \<Longrightarrow> h s = Inr (Some y) \<Longrightarrow> P) \<Longrightarrow> P"
  by (cases v) auto

lemma case_JList_FalseE [res_elims]:
  "(case v of JList xs \<Rightarrow> f xs | _ \<Rightarrow> Inr False) = Inr True \<Longrightarrow>
     (\<And>xs. v = JList xs \<Longrightarrow> f xs = Inr True \<Longrightarrow> P) \<Longrightarrow> P"
  by (cases v) auto

lemma case_JStr_FalseE [res_elims]:
  "(case v of JStr s \<Rightarrow> h s | _ \<Rightarrow> Inr False) = Inr True \<Longrightarrow>
     (\<And>s. v = JStr s \<Longrightarrow> h s = Inr True \<Longrightarrow> P) \<Longrightarrow> P"
  by (cases v) auto

section \<open>Numbers\<close>

fun num_of :: "json \<Rightarrow> pyfloat option" where
  "num_of (JBool b) = Some (FFin (if b then 1 else 0))"
| "num_of (JInt i) = Some (FFin (of_int i))"
| "num_of (JFloat f) = Some f"
| "num_of _ = None"

fun f_eq :: "pyfloat \<Rightarrow> pyfloat \<Rightarrow> bool" where
  "f_eq (FFin a) (FFin b) = (a = b)"
| "f_eq FInf FInf = True"
| "f_eq FNegInf FNegInf = True"
| "f_eq _ _ = False"

fun f_less :: "pyfloat \<Rightarrow> pyfloat \<Rightarrow> bool" where
  "f_less FNan _ = False"
| "f_less _ FNan = False"
| "f_less (FFin a) (FFin b) = (a < b)"
| "f_less FNegInf b = (b \<noteq> FNegInf)"
| "f_less _ FNegInf = False"
| "f_less a FInf = (a \<noteq> FInf)"
| "f_less FInf _ = False"

lemma f_less_irrefl [simp]: "\<not> f_less a a"
  by (cases a) auto

lemma f_less_trans: "f_less a b \<Longrightarrow> f_less b c \<Longrightarrow> f_less a c"
  by (cases a; cases b; cases c) auto

section \<open>Equality\<close>

text \<open>
  \<open>a == b\<close>. Numbers of different types compare by value (\<open>True == 1 == 1.0\<close>);
  dictionaries compare without regard to order. (CPython compares list elements by identity
  first, which differs only for a shared NaN object.)
\<close>

fun py_eq :: "json \<Rightarrow> json \<Rightarrow> bool"
and py_eq_list :: "json list \<Rightarrow> json list \<Rightarrow> bool"
and py_eq_items :: "dict \<Rightarrow> dict \<Rightarrow> bool" where
  "py_eq (JStr a) w = (w = JStr a)"
| "py_eq JNull w = (w = JNull)"
| "py_eq (JList xs) w = (case w of JList ys \<Rightarrow> py_eq_list xs ys | _ \<Rightarrow> False)"
| "py_eq (JDict d) w = (case w of JDict e \<Rightarrow> length d = length e \<and> py_eq_items d e | _ \<Rightarrow> False)"
| "py_eq (JBool b) w = (case num_of w of None \<Rightarrow> False | Some y \<Rightarrow> f_eq (FFin (if b then 1 else 0)) y)"
| "py_eq (JInt i) w = (case num_of w of None \<Rightarrow> False | Some y \<Rightarrow> f_eq (FFin (of_int i)) y)"
| "py_eq (JFloat f) w = (case num_of w of None \<Rightarrow> False | Some y \<Rightarrow> f_eq f y)"
| "py_eq_list [] ys = (ys = [])"
| "py_eq_list (x # xs) ys = (case ys of [] \<Rightarrow> False | z # zs \<Rightarrow> py_eq x z \<and> py_eq_list xs zs)"
| "py_eq_items [] e = True"
| "py_eq_items ((k, v) # d) e =
     ((case map_of e k of None \<Rightarrow> False | Some w \<Rightarrow> py_eq v w) \<and> py_eq_items d e)"

lemma py_eq_JStr_right [simp]: "py_eq v (JStr s) \<longleftrightarrow> v = JStr s"
  by (cases v) auto

lemma py_eq_JNull_right [simp]: "py_eq v JNull \<longleftrightarrow> v = JNull"
  by (cases v) auto

lemma py_eq_JInt_JInt [simp]: "py_eq (JInt i) (JInt j) \<longleftrightarrow> i = j"
  by simp

text \<open>Values without NaN, with distinct keys: what equality is reflexive on.\<close>

fun wf_json :: "json \<Rightarrow> bool"
and wf_list :: "json list \<Rightarrow> bool"
and wf_items :: "dict \<Rightarrow> bool" where
  "wf_json (JFloat f) = (f \<noteq> FNan)"
| "wf_json (JList xs) = wf_list xs"
| "wf_json (JDict d) = (distinct (map fst d) \<and> wf_items d)"
| "wf_json _ = True"
| "wf_list [] = True"
| "wf_list (x # xs) = (wf_json x \<and> wf_list xs)"
| "wf_items [] = True"
| "wf_items ((k, v) # d) = (wf_json v \<and> wf_items d)"

lemma f_eq_refl [simp]: "f \<noteq> FNan \<Longrightarrow> f_eq f f"
  by (cases f) auto

lemma py_eq_items_cong_Cons:
  "k \<notin> fst ` set d \<Longrightarrow> py_eq_items d e \<Longrightarrow> py_eq_items d ((k, v) # e)"
  by (induction d) (auto split: if_splits)

lemma py_eq_refl:
  "wf_json v \<Longrightarrow> py_eq v v"
  "wf_list xs \<Longrightarrow> py_eq_list xs xs"
  "distinct (map fst d) \<Longrightarrow> wf_items d \<Longrightarrow> py_eq_items d d"
proof (induction v and xs and d rule: wf_json_wf_list_wf_items.induct)
  case (8 k v d)
  then show ?case by (auto intro: py_eq_items_cong_Cons)
qed auto

text \<open>\<open>x in xs\<close> for a list or tuple.\<close>

definition py_in :: "json \<Rightarrow> json list \<Rightarrow> bool" where
  "py_in x xs \<longleftrightarrow> list_ex (py_eq x) xs"

lemma py_in_JStr [simp]: "py_in (JStr s) xs \<longleftrightarrow> JStr s \<in> set xs"
  by (auto simp: py_in_def list_ex_iff)

section \<open>Hashing\<close>

text \<open>\<open>x in s\<close> for a set or dictionary of strings raises for unhashable values.\<close>

fun hashable :: "json \<Rightarrow> bool" where
  "hashable (JList _) = False" | "hashable (JDict _) = False" | "hashable _ = True"

definition unhashable_exn :: exn where
  "unhashable_exn = TypeError ''unhashable type''"

definition in_str_set :: "json \<Rightarrow> string list \<Rightarrow> bool res" where
  "in_str_set v xs = (if hashable v then Inr (\<exists>s\<in>set xs. v = JStr s) else Inl unhashable_exn)"

lemma in_str_set_JStr [simp]: "in_str_set (JStr s) xs = Inr (s \<in> set xs)"
  by (auto simp: in_str_set_def)

lemma in_str_set_True [res_simps]:
  "in_str_set v xs = Inr True \<longleftrightarrow> (\<exists>s. v = JStr s \<and> s \<in> set xs)"
  by (cases v) (auto simp: in_str_set_def)

lemma in_str_set_False [res_simps]:
  "in_str_set v xs = Inr False \<longleftrightarrow> hashable v \<and> (\<forall>s\<in>set xs. v \<noteq> JStr s)"
  by (auto simp: in_str_set_def)

text \<open>\<open>set(a).issubset(set(b))\<close>\<close>

definition py_subset :: "json list \<Rightarrow> json list \<Rightarrow> bool res" where
  "py_subset a b =
     (if list_all hashable a \<and> list_all hashable b
      then Inr (list_all (\<lambda>x. py_in x b) a) else Inl unhashable_exn)"

section \<open>Ordering\<close>

definition unorderable_exn :: exn where
  "unorderable_exn = TypeError ''values not orderable''"

text \<open>\<open>a < b\<close>; lists compare at their first difference.\<close>

fun py_less :: "json \<Rightarrow> json \<Rightarrow> bool res"
and py_less_list :: "json list \<Rightarrow> json list \<Rightarrow> bool res" where
  "py_less (JStr a) w = (case w of JStr b \<Rightarrow> Inr (a < b) | _ \<Rightarrow> Inl unorderable_exn)"
| "py_less (JList xs) w = (case w of JList ys \<Rightarrow> py_less_list xs ys | _ \<Rightarrow> Inl unorderable_exn)"
| "py_less (JBool b) w =
     (case num_of w of None \<Rightarrow> Inl unorderable_exn | Some y \<Rightarrow> Inr (f_less (FFin (if b then 1 else 0)) y))"
| "py_less (JInt i) w =
     (case num_of w of None \<Rightarrow> Inl unorderable_exn | Some y \<Rightarrow> Inr (f_less (FFin (of_int i)) y))"
| "py_less (JFloat f) w =
     (case num_of w of None \<Rightarrow> Inl unorderable_exn | Some y \<Rightarrow> Inr (f_less f y))"
| "py_less JNull w = Inl unorderable_exn"
| "py_less (JDict _) w = Inl unorderable_exn"
| "py_less_list [] ys = Inr (ys \<noteq> [])"
| "py_less_list (x # xs) ys =
     (case ys of [] \<Rightarrow> Inr False
      | z # zs \<Rightarrow> if py_eq x z then py_less_list xs zs else py_less x z)"

text \<open>\<open>a > b\<close> is answered by the reflected comparison.\<close>

definition py_greater :: "json \<Rightarrow> json \<Rightarrow> bool res" where
  "py_greater a b = py_less b a"

lemma py_less_num:
  "num_of v = Some x \<Longrightarrow> num_of w = Some y \<Longrightarrow> py_less v w = Inr (f_less x y)"
  by (cases v) auto

text \<open>Negative as a number: \<open>value < 0\<close> after the type has been checked.\<close>

definition num_neg :: "json \<Rightarrow> bool" where
  "num_neg v \<longleftrightarrow> (case num_of v of None \<Rightarrow> False | Some y \<Rightarrow> f_less y (FFin 0))"

section \<open>Dictionaries\<close>

text \<open>\<open>d.get(k)\<close>, \<open>d.get(k, default)\<close>, \<open>d[k]\<close>, \<open>k in d\<close>\<close>

definition dget :: "dict \<Rightarrow> string \<Rightarrow> json" where
  "dget d k = (case map_of d k of None \<Rightarrow> JNull | Some v \<Rightarrow> v)"

definition dget_or :: "dict \<Rightarrow> string \<Rightarrow> json \<Rightarrow> json" where
  "dget_or d k dv = (case map_of d k of None \<Rightarrow> dv | Some v \<Rightarrow> v)"

definition dindex :: "dict \<Rightarrow> string \<Rightarrow> json res" where
  "dindex d k = (case map_of d k of None \<Rightarrow> Inl (KeyError k) | Some v \<Rightarrow> Inr v)"

definition dhas :: "dict \<Rightarrow> string \<Rightarrow> bool" where
  "dhas d k \<longleftrightarrow> map_of d k \<noteq> None"

text \<open>\<open>d[k] = v\<close> keeps the place of an existing key and appends a new one.\<close>

fun dset :: "(string \<times> 'v) list \<Rightarrow> string \<Rightarrow> 'v \<Rightarrow> (string \<times> 'v) list" where
  "dset [] k v = [(k, v)]"
| "dset ((k', v') # d) k v = (if k' = k then (k, v) # d else (k', v') # dset d k v)"

text \<open>\<open>{key: value for key, value in d.items() if key not in ks}\<close>\<close>

definition dwithout :: "string list \<Rightarrow> (string \<times> 'v) list \<Rightarrow> (string \<times> 'v) list" where
  "dwithout ks d = filter (\<lambda>(k, _). k \<notin> set ks) d"

text \<open>\<open>set(d) == fields\<close> for a set of names.\<close>

definition dkeys_eq :: "dict \<Rightarrow> string list \<Rightarrow> bool" where
  "dkeys_eq d ks \<longleftrightarrow> list_all (\<lambda>(k, _). k \<in> set ks) d \<and> list_all (dhas d) ks"

lemma map_of_dset: "map_of (dset d k v) = (map_of d)(k \<mapsto> v)"
  by (induction d k v rule: dset.induct) auto

lemma dset_keys: "fst ` set (dset d k v) = insert k (fst ` set d)"
  by (induction d k v rule: dset.induct) auto

text \<open>\<open>m[k] = m.get(k, 0) + 1\<close>\<close>

definition count_up :: "(string \<times> int) list \<Rightarrow> string \<Rightarrow> (string \<times> int) list" where
  "count_up m k = dset m k (case map_of m k of None \<Rightarrow> 1 | Some n \<Rightarrow> n + 1)"

lemma count_up_sum: "sum_list (map snd (count_up m k)) = sum_list (map snd m) + 1"
proof -
  have "sum_list (map snd (dset m k v)) = sum_list (map snd m) + v - (case map_of m k of None \<Rightarrow> 0 | Some n \<Rightarrow> n)" for v :: int
    by (induction m k v rule: dset.induct) (auto split: option.splits)
  then show ?thesis by (auto simp: count_up_def split: option.splits)
qed

lemma distinct_dset: "distinct (map fst d) \<Longrightarrow> distinct (map fst (dset d k v))"
proof (induction d k v rule: dset.induct)
  case (2 k' v' d k v)
  then show ?case using dset_keys [of d k v] by (auto simp: image_iff)
qed simp

lemma map_of_dwithout: "map_of (dwithout ks d) k = (if k \<in> set ks then None else map_of d k)"
  by (induction d) (auto simp: dwithout_def)

lemma dget_dset [simp]: "dget (dset d k v) k' = (if k' = k then v else dget d k')"
  by (simp add: dget_def map_of_dset)

lemma dhas_dset [simp]: "dhas (dset d k v) k' \<longleftrightarrow> k' = k \<or> dhas d k'"
  by (auto simp: dhas_def map_of_dset)

lemma dhas_dget: "dget d k \<noteq> JNull \<Longrightarrow> dhas d k"
  by (auto simp: dhas_def dget_def split: option.splits)

lemma dindex_Inr [res_simps]: "dindex d k = Inr v \<longleftrightarrow> map_of d k = Some v"
  by (auto simp: dindex_def split: option.splits)

lemma dget_dindex: "dindex d k = Inr v \<Longrightarrow> dget d k = v"
  by (simp add: res_simps dget_def)

lemma dkeys_eq_set: "dkeys_eq d ks \<longleftrightarrow> fst ` set d = set ks"
  unfolding dkeys_eq_def dhas_def list_all_iff
  by (auto simp: map_of_eq_None_iff) (metis fst_conv image_eqI)

lemma dkeys_eq_dhas: "dkeys_eq d ks \<Longrightarrow> dhas d k \<longleftrightarrow> k \<in> set ks"
  by (auto simp: dkeys_eq_set dhas_def map_of_eq_None_iff)

lemma dget_Cons [simp]:
  "dget [] k = JNull" "dget ((k', v) # d) k = (if k' = k then v else dget d k)"
  by (simp_all add: dget_def)

lemma dget_or_Cons [simp]:
  "dget_or [] k dv = dv" "dget_or ((k', v) # d) k dv = (if k' = k then v else dget_or d k dv)"
  by (simp_all add: dget_or_def)

lemma dindex_Cons [simp]:
  "dindex [] k = Inl (KeyError k)" "dindex ((k', v) # d) k = (if k' = k then Inr v else dindex d k)"
  by (simp_all add: dindex_def)

lemma dhas_Cons [simp]: "\<not> dhas [] k" "dhas ((k', v) # d) k \<longleftrightarrow> k' = k \<or> dhas d k"
  by (simp_all add: dhas_def)

lemma dwithout_Cons [simp]:
  "dwithout ks [] = []"
  "dwithout ks ((k, v) # d) = (if k \<in> set ks then dwithout ks d else (k, v) # dwithout ks d)"
  by (simp_all add: dwithout_def)

lemma dget_dwithout [simp]: "dget (dwithout ks d) k = (if k \<in> set ks then JNull else dget d k)"
  by (simp add: dget_def map_of_dwithout)

lemma dget_append [simp]: "dget (d @ e) k = (if dhas d k then dget d k else dget e k)"
  by (auto simp: dget_def dhas_def map_add_def split: option.splits)

lemma dget_or_append [simp]: "dget_or (d @ e) k dv = (if dhas d k then dget_or d k dv else dget_or e k dv)"
  by (auto simp: dget_or_def dhas_def map_add_def split: option.splits)

lemma dindex_append [simp]: "dindex (d @ e) k = (if dhas d k then dindex d k else dindex e k)"
  by (auto simp: dindex_def dhas_def map_add_def split: option.splits)

lemma dhas_append [simp]: "dhas (d @ e) k \<longleftrightarrow> dhas d k \<or> dhas e k"
  by (auto simp: dhas_def map_add_def split: option.splits)

lemma dwithout_append [simp]: "dwithout ks (d @ e) = dwithout ks d @ dwithout ks e"
  by (simp add: dwithout_def)

lemma wf_items_iff: "wf_items d \<longleftrightarrow> (\<forall>(k, v)\<in>set d. wf_json v)"
  by (induction d) auto

lemma wf_list_iff: "wf_list xs \<longleftrightarrow> (\<forall>x\<in>set xs. wf_json x)"
  by (induction xs) auto

lemma wf_dget: "wf_items d \<Longrightarrow> wf_json (dget d k)"
  by (auto simp: dget_def wf_items_iff dest: map_of_SomeD split: option.splits)

lemma wf_dget_or: "wf_items d \<Longrightarrow> wf_json dv \<Longrightarrow> wf_json (dget_or d k dv)"
  by (auto simp: dget_or_def wf_items_iff dest: map_of_SomeD split: option.splits)

lemma dset_new: "\<not> dhas d k \<Longrightarrow> dset d k v = d @ [(k, v)]"
  by (induction d k v rule: dset.induct) auto

lemma dwithout_absent: "\<not> dhas d k \<Longrightarrow> dwithout [k] d = d"
  by (induction d) auto

lemmas dict_simps = dget_Cons dget_or_Cons dindex_Cons dhas_Cons dwithout_Cons

text \<open>\<open>iter(v)\<close>: strings give their characters, dictionaries their keys.\<close>

definition py_iter :: "json \<Rightarrow> json list res" where
  "py_iter v = (case v of
      JList xs \<Rightarrow> Inr xs
    | JStr s \<Rightarrow> Inr (map (\<lambda>c. JStr [c]) s)
    | JDict d \<Rightarrow> Inr (map (\<lambda>(k, _). JStr k) d)
    | _ \<Rightarrow> Inl (TypeError ''object is not iterable''))"

text \<open>\<open>int(x)\<close>: booleans and numbers convert, floats truncate, strings are parsed.\<close>

definition parse_int_digits :: "string \<Rightarrow> nat option" where
  "parse_int_digits s =
     (let ok = (\<lambda>t. t \<noteq> [] \<and> list_all (\<lambda>c. is_digit c \<or> c = CHR ''_'') t
                   \<and> hd t \<noteq> CHR ''_'' \<and> last t \<noteq> CHR ''_''
                   \<and> list_all (\<lambda>(a, b). \<not> (a = CHR ''_'' \<and> b = CHR ''_'')) (zip t (tl t)))
      in if ok s then Some (digits_val (filter is_digit s)) else None)"

definition py_int :: "json \<Rightarrow> int res" where
  "py_int v = (case v of
      JInt i \<Rightarrow> Inr i
    | JBool b \<Rightarrow> Inr (if b then 1 else 0)
    | JFloat (FFin r) \<Rightarrow> Inr (if r < 0 then - \<lfloor>- r\<rfloor> else \<lfloor>r\<rfloor>)
    | JFloat FNan \<Rightarrow> Inl (ValueError ''cannot convert float NaN to integer'')
    | JFloat _ \<Rightarrow> Inl (OverflowError ''cannot convert float infinity to integer'')
    | JStr s \<Rightarrow>
        (let t = py_strip s;
             (neg, u) = (case t of c # r \<Rightarrow>
               if c = CHR ''-'' then (True, r) else if c = CHR ''+'' then (False, r) else (False, t)
               | [] \<Rightarrow> (False, []))
         in case parse_int_digits u of
              None \<Rightarrow> Inl (ValueError ''invalid literal for int() with base 10'')
            | Some n \<Rightarrow> Inr (if neg then - int n else int n))
    | _ \<Rightarrow> Inl (TypeError ''int() argument must be a string, a bytes-like object or a real number''))"

end
