(* ===== verification/Calendar.thy ===== *)
theory Calendar
  imports Main
begin

text \<open>
  The proleptic Gregorian calendar as \<open>datetime.py\<close> computes it: the ordinal of a date
  (\<open>_ymd2ord\<close>) and the date of an ordinal (\<open>_ord2ymd\<close>), and the proof that the
  first inverts the second on the years 1 to 9999.
\<close>

section \<open>The calendar\<close>

definition is_leap :: "nat \<Rightarrow> bool" where
  "is_leap y \<longleftrightarrow> y mod 4 = 0 \<and> (y mod 100 \<noteq> 0 \<or> y mod 400 = 0)"

definition days_before_year :: "nat \<Rightarrow> nat" where
  "days_before_year y = (let p = y - 1 in p * 365 + p div 4 - p div 100 + p div 400)"

definition days_in_month_tab :: "nat list" where
  "days_in_month_tab = [0, 31, 28, 31, 30, 31, 30, 31, 31, 30, 31, 30, 31]"

definition days_before_month_tab :: "nat list" where
  "days_before_month_tab = [0, 0, 31, 59, 90, 120, 151, 181, 212, 243, 273, 304, 334]"

definition days_in_month :: "nat \<Rightarrow> nat \<Rightarrow> nat" where
  "days_in_month y m = (if m = 2 \<and> is_leap y then 29 else days_in_month_tab ! m)"

definition days_before_month :: "nat \<Rightarrow> nat \<Rightarrow> nat" where
  "days_before_month y m = days_before_month_tab ! m + (if m > 2 \<and> is_leap y then 1 else 0)"

definition ymd2ord :: "nat \<Rightarrow> nat \<Rightarrow> nat \<Rightarrow> nat" where
  "ymd2ord y m d = days_before_year y + days_before_month y m + d"

text \<open>Month and day of the \<open>n\<close>-th day of a year, counted from 0.\<close>

definition month_day :: "bool \<Rightarrow> nat \<Rightarrow> nat \<times> nat" where
  "month_day leap n =
     (let month = (n + 50) div 32;
          preceding = days_before_month_tab ! month + (if month > 2 \<and> leap then 1 else 0)
      in if preceding > n
         then (month - 1,
               n - (preceding - (days_in_month_tab ! (month - 1)
                      + (if month - 1 = 2 \<and> leap then 1 else 0))) + 1)
         else (month, n - preceding + 1))"

definition ord2ymd :: "nat \<Rightarrow> nat \<times> nat \<times> nat" where
  "ord2ymd ord =
     (let n = ord - 1;
          n400 = n div 146097; n = n mod 146097;
          n100 = n div 36524; n = n mod 36524;
          n4 = n div 1461; n = n mod 1461;
          n1 = n div 365; n = n mod 365;
          year = n400 * 400 + 1 + n100 * 100 + n4 * 4 + n1
      in if n1 = 4 \<or> n100 = 4 then (year - 1, 12, 31)
         else (year, month_day (n1 = 3 \<and> (n4 \<noteq> 24 \<or> n100 = 3)) n))"

section \<open>The two directions agree\<close>

lemma tab_simps:
  "days_in_month_tab ! 1 = 31" "days_in_month_tab ! Suc 0 = 31" "days_in_month_tab ! 2 = 28" "days_in_month_tab ! 3 = 31"
  "days_in_month_tab ! 4 = 30" "days_in_month_tab ! 5 = 31" "days_in_month_tab ! 6 = 30"
  "days_in_month_tab ! 7 = 31" "days_in_month_tab ! 8 = 31" "days_in_month_tab ! 9 = 30"
  "days_in_month_tab ! 10 = 31" "days_in_month_tab ! 11 = 30" "days_in_month_tab ! 12 = 31"
  "days_before_month_tab ! 1 = 0" "days_before_month_tab ! Suc 0 = 0" "days_before_month_tab ! 2 = 31" "days_before_month_tab ! 3 = 59"
  "days_before_month_tab ! 4 = 90" "days_before_month_tab ! 5 = 120" "days_before_month_tab ! 6 = 151"
  "days_before_month_tab ! 7 = 181" "days_before_month_tab ! 8 = 212" "days_before_month_tab ! 9 = 243"
  "days_before_month_tab ! 10 = 273" "days_before_month_tab ! 11 = 304" "days_before_month_tab ! 12 = 334"
  "days_in_month_tab ! 0 = 0" "days_before_month_tab ! 0 = 0"
  by (simp_all add: days_in_month_tab_def days_before_month_tab_def)

lemma month_day_ok:
  assumes "n < (if leap then 366 else 365)" and md: "month_day leap n = (m, d)"
  shows "1 \<le> m" "m \<le> 12" "1 \<le> d"
    "d \<le> (if m = 2 \<and> leap then 29 else days_in_month_tab ! m)"
    "days_before_month_tab ! m + (if m > 2 \<and> leap then 1 else 0) + d = n + 1"
proof -
  define k where "k = (n + 50) div 32"
  have b: "32 * k \<le> n + 50" "n + 50 < 32 * k + 32" unfolding k_def by presburger+
  have n: "n \<le> 365" using assms(1) by (simp split: if_splits)
  have "1 \<le> k" "k \<le> 12" using b n by linarith+
  then have "k = 1 \<or> k = 2 \<or> k = 3 \<or> k = 4 \<or> k = 5 \<or> k = 6 \<or> k = 7 \<or> k = 8 \<or> k = 9
    \<or> k = 10 \<or> k = 11 \<or> k = 12" by arith
  then have "1 \<le> m \<and> m \<le> 12 \<and> 1 \<le> d \<and> d \<le> (if m = 2 \<and> leap then 29 else days_in_month_tab ! m)
    \<and> days_before_month_tab ! m + (if m > 2 \<and> leap then 1 else 0) + d = n + 1"
    using md b assms(1)
    by (elim disjE; cases leap; auto simp: month_day_def k_def [symmetric] Let_def tab_simps split: if_splits)
  then show "1 \<le> m" "m \<le> 12" "1 \<le> d"
    "d \<le> (if m = 2 \<and> leap then 29 else days_in_month_tab ! m)"
    "days_before_month_tab ! m + (if m > 2 \<and> leap then 1 else 0) + d = n + 1" by auto
qed

lemma year_parts:
  fixes a b c d :: nat
  assumes bnd: "b \<le> 3" "c \<le> 24" "d \<le> 3" and y: "y = a * 400 + 1 + b * 100 + c * 4 + d"
  shows "days_before_year y = a * 146097 + b * 36524 + c * 1461 + d * 365"
    and "is_leap y \<longleftrightarrow> d = 3 \<and> (c \<noteq> 24 \<or> b = 3)"
proof -
  define q where "q = y - 1"
  have p: "q = a * 400 + b * 100 + c * 4 + d" using y by (simp add: q_def)
  have 1: "q div 4 = a * 100 + b * 25 + c"
    by (rule div_nat_eqI) (use bnd in \<open>simp_all add: p\<close>)
  have 2: "q div 100 = a * 4 + b"
    by (rule div_nat_eqI) (use bnd in \<open>simp_all add: p\<close>)
  have 3: "q div 400 = a"
    by (rule div_nat_eqI) (use bnd in \<open>simp_all add: p\<close>)
  show "days_before_year y = a * 146097 + b * 36524 + c * 1461 + d * 365"
    unfolding days_before_year_def Let_def q_def [symmetric] 1 2 3 by (simp add: p)
  have "y = (a * 100 + b * 25 + c) * 4 + (d + 1)" using y by simp
  then have "y mod 4 = (d + 1) mod 4" by (simp only: mod_mult_self3)
  then have 4: "y mod 4 = 0 \<longleftrightarrow> d = 3"
    using bnd by (cases "d + 1 = 4") auto
  have "y = (a * 4 + b) * 100 + (c * 4 + d + 1)" using y by simp
  then have "y mod 100 = (c * 4 + d + 1) mod 100" by (simp only: mod_mult_self3)
  moreover have "c * 4 + d + 1 = 100 \<longleftrightarrow> c = 24 \<and> d = 3" using bnd by arith
  moreover have "c * 4 + d + 1 \<le> 100" using bnd by simp
  ultimately have 5: "y mod 100 = 0 \<longleftrightarrow> c = 24 \<and> d = 3"
    by (cases "c * 4 + d + 1 = 100") auto
  have "y = a * 400 + (b * 100 + c * 4 + d + 1)" using y by simp
  then have "y mod 400 = (b * 100 + c * 4 + d + 1) mod 400" by (simp only: mod_mult_self3)
  moreover have "b * 100 + c * 4 + d + 1 = 400 \<longleftrightarrow> b = 3 \<and> c = 24 \<and> d = 3"
    using bnd by arith
  moreover have "b * 100 + c * 4 + d + 1 \<le> 400" using bnd by simp
  ultimately have 6: "y mod 400 = 0 \<longleftrightarrow> b = 3 \<and> c = 24 \<and> d = 3"
    by (cases "b * 100 + c * 4 + d + 1 = 400") auto
  show "is_leap y \<longleftrightarrow> d = 3 \<and> (c \<noteq> 24 \<or> b = 3)"
    unfolding is_leap_def 4 5 6 by auto
qed

lemma ord2ymd_ok:
  assumes n: "1 \<le> n" "n \<le> 3652059" and o: "ord2ymd n = (y, m, d)"
  shows "ymd2ord y m d = n" "1 \<le> y" "y \<le> 9999" "1 \<le> m" "m \<le> 12" "1 \<le> d" "d \<le> days_in_month y m"
proof -
  define a where "a = (n - 1) div 146097"
  define r1 where "r1 = (n - 1) mod 146097"
  define b where "b = r1 div 36524"
  define r2 where "r2 = r1 mod 36524"
  define c where "c = r2 div 1461"
  define r3 where "r3 = r2 mod 1461"
  define e where "e = r3 div 365"
  define r4 where "r4 = r3 mod 365"
  note defs = a_def r1_def b_def r2_def c_def r3_def e_def r4_def
  have N: "n - 1 = a * 146097 + r1" "r1 = b * 36524 + r2" "r2 = c * 1461 + r3" "r3 = e * 365 + r4"
    by (simp_all add: defs)
  have bd: "r1 < 146097" "r2 < 36524" "r3 < 1461" "r4 < 365" by (simp_all add: defs)
  have bnd: "b \<le> 4" "c \<le> 24" "e \<le> 4" using N bd by linarith+
  have a: "a \<le> 24" unfolding a_def using n by linarith
  have o': "(if e = 4 \<or> b = 4 then (a * 400 + 1 + b * 100 + c * 4 + e - 1, 12, 31)
         else (a * 400 + 1 + b * 100 + c * 4 + e, month_day (e = 3 \<and> (c \<noteq> 24 \<or> b = 3)) r4)) = (y, m, d)"
    using o unfolding ord2ymd_def Let_def defs by simp
  have "ymd2ord y m d = n \<and> 1 \<le> y \<and> y \<le> 9999 \<and> 1 \<le> m \<and> m \<le> 12 \<and> 1 \<le> d \<and> d \<le> days_in_month y m"
  proof (cases "e = 4 \<or> b = 4")
    case True
    have md: "m = 12" "d = 31" and y: "y = a * 400 + b * 100 + c * 4 + e" using o' True by auto
    show ?thesis
    proof (cases "b = 4")
      case True
      with N bd have z: "r2 = 0" "c = 0" "e = 0" by simp_all
      have y': "y = a * 400 + 1 + 3 * 100 + 24 * 4 + 3" using y True z by simp
      note yp = year_parts [OF _ _ _ y']
      show ?thesis using yp N z True n a
        by (simp add: md ymd2ord_def days_before_month_def days_in_month_def tab_simps y', linarith)
    next
      case False
      with True have e: "e = 4" by simp
      with N bd have r4: "r4 = 0" by simp
      have c: "b = 3 \<or> c < 24" using N bd e by linarith
      have b3: "b \<le> 3" using False bnd by simp
      have y': "y = a * 400 + 1 + b * 100 + c * 4 + 3" using y e by simp
      note yp = year_parts [OF b3 bnd(2) _ y']
      show ?thesis using yp N r4 e n a b3 bnd c
        by (auto simp: md ymd2ord_def days_before_month_def days_in_month_def tab_simps y')
    qed
  next
    case False
    then have y: "y = a * 400 + 1 + b * 100 + c * 4 + e" and md: "month_day (e = 3 \<and> (c \<noteq> 24 \<or> b = 3)) r4 = (m, d)"
      using o' by auto
    have b3: "b \<le> 3" "e \<le> 3" using False bnd by simp_all
    note yp = year_parts [OF b3(1) bnd(2) b3(2) y]
    have lt: "r4 < (if e = 3 \<and> (c \<noteq> 24 \<or> b = 3) then 366 else 365)" using bd by simp
    note mo = month_day_ok [OF lt md]
    have "y \<le> 9999"
    proof -
      have "n - 1 < 3652059" using n by simp
      then have "a * 146097 + b * 36524 + c * 1461 + e * 365 < 3652059" using N by linarith
      then show ?thesis using y a b3 bnd by simp
    qed
    moreover have "ymd2ord y m d = n"
      using mo(5) yp N n by (simp add: ymd2ord_def days_before_month_def)
    ultimately show ?thesis
      using mo yp y by (auto simp: days_in_month_def)
  qed
  then show "ymd2ord y m d = n" "1 \<le> y" "y \<le> 9999" "1 \<le> m" "m \<le> 12" "1 \<le> d" "d \<le> days_in_month y m"
    by auto
qed
end
