(* ===== verification/PyTime.thy ===== *)
theory PyTime
  imports PyValue Calendar
begin

text \<open>
  \<open>datetime\<close> as the program uses it: aware values are instants, counted in microseconds
  from 0001-01-01T00:00 UTC, with the offset of their time zone; naive values (no zone) carry
  their wall clock. \<open>isoformat\<close> and \<open>parse_time\<close> of \<open>models.py\<close> are built on
  \<open>datetime.isoformat\<close> and \<open>datetime.fromisoformat\<close> (CPython 3.11), whose
  grammar is written out.
\<close>

section \<open>Instants\<close>

record datetime =
  dt_us :: int
  dt_tz :: "int option"

definition us_per_day :: int where "us_per_day = 86400000000"

definition max_us :: int where "max_us = 3652059 * us_per_day"

definition seconds :: "int \<Rightarrow> int" where "seconds s = s * 1000000"

abbreviation naive :: "datetime \<Rightarrow> bool" where
  "naive d \<equiv> dt_tz d = None"

abbreviation utc_dt :: "int \<Rightarrow> datetime" where
  "utc_dt us \<equiv> \<lparr>dt_us = us, dt_tz = Some 0\<rparr>"

text \<open>The wall clock of a value must stay in the years 1 to 9999.\<close>

definition dt_local :: "datetime \<Rightarrow> int" where
  "dt_local d = dt_us d + (case dt_tz d of None \<Rightarrow> 0 | Some off \<Rightarrow> off)"

definition dt_valid :: "datetime \<Rightarrow> bool" where
  "dt_valid d \<longleftrightarrow> 0 \<le> dt_local d \<and> dt_local d < max_us"

definition overflow_exn :: exn where
  "overflow_exn = OverflowError ''date value out of range''"

text \<open>\<open>d + timedelta(...)\<close>, with the duration in microseconds.\<close>

definition dt_add :: "datetime \<Rightarrow> int \<Rightarrow> datetime res" where
  "dt_add d us =
     (let r = d\<lparr>dt_us := dt_us d + us\<rparr> in if dt_valid r then Inr r else Inl overflow_exn)"

text \<open>\<open>a < b\<close>: comparing a naive with an aware value raises.\<close>

definition dt_less :: "datetime \<Rightarrow> datetime \<Rightarrow> bool res" where
  "dt_less a b =
     (if naive a \<longleftrightarrow> naive b then Inr (dt_us a < dt_us b)
      else Inl (TypeError ''can't compare offset-naive and offset-aware datetimes''))"

definition dt_diff :: "datetime \<Rightarrow> datetime \<Rightarrow> int res" where
  "dt_diff a b =
     (if naive a \<longleftrightarrow> naive b then Inr (dt_us a - dt_us b)
      else Inl (TypeError ''can't subtract offset-naive and offset-aware datetimes''))"

text \<open>\<open>timedelta(seconds=n)\<close> covers less than a billion days.\<close>

definition timedelta_seconds :: "int \<Rightarrow> int res" where
  "timedelta_seconds n =
     (if \<bar>n div 86400\<bar> \<le> 999999999 then Inr (seconds n)
      else Inl (OverflowError ''days out of range; must have magnitude <= 999999999''))"

lemma dt_add_Inr [res_simps]:
  "dt_add d us = Inr r \<longleftrightarrow> r = d\<lparr>dt_us := dt_us d + us\<rparr> \<and> dt_valid r"
  by (auto simp: dt_add_def Let_def)

lemma dt_diff_Inr [res_simps]:
  "dt_diff a b = Inr n \<longleftrightarrow> (naive a \<longleftrightarrow> naive b) \<and> n = dt_us a - dt_us b"
  by (auto simp: dt_diff_def)

lemma dt_less_Inr [res_simps]:
  "dt_less a b = Inr x \<longleftrightarrow> (naive a \<longleftrightarrow> naive b) \<and> x = (dt_us a < dt_us b)"
  by (auto simp: dt_less_def)

lemma dt_less_aware [simp]:
  "\<not> naive a \<Longrightarrow> \<not> naive b \<Longrightarrow> dt_less a b = Inr (dt_us a < dt_us b)"
  by (simp add: dt_less_def)

section \<open>Rendering\<close>

text \<open>\<open>isoformat\<close> of a UTC value: \<open>YYYY-MM-DDTHH:MM:SS[.ffffff]\<close>\<close>

definition iso_date :: "nat \<Rightarrow> string" where
  "iso_date day =
     (case ord2ymd (day + 1) of (y, m, d) \<Rightarrow> pad_nat 4 y @ ''-'' @ pad_nat 2 m @ ''-'' @ pad_nat 2 d)"

definition iso_clock :: "nat \<Rightarrow> string" where
  "iso_clock us =
     (let s = us div 1000000; f = us mod 1000000
      in pad_nat 2 (s div 3600) @ '':'' @ pad_nat 2 (s div 60 mod 60) @ '':'' @ pad_nat 2 (s mod 60)
         @ (if f = 0 then [] else ''.'' @ pad_nat 6 f))"

definition iso_text :: "int \<Rightarrow> string" where
  "iso_text us = iso_date (nat (us div us_per_day)) @ ''T'' @ iso_clock (nat (us mod us_per_day))"

text \<open>\<open>models.isoformat\<close>: the \<open>+00:00\<close> of a UTC value is written \<open>Z\<close>.\<close>

definition isoformat :: "datetime \<Rightarrow> string res" where
  "isoformat d =
     (if naive d then Inl (ValueError ''timestamps must include a timezone'')
      else if 0 \<le> dt_us d \<and> dt_us d < max_us then Inr (iso_text (dt_us d) @ ''Z'')
      else Inl overflow_exn)"

section \<open>Parsing\<close>

definition parse_digits :: "nat \<Rightarrow> string \<Rightarrow> (nat \<times> string) option" where
  "parse_digits n s =
     (if length (take n s) = n \<and> list_all is_digit (take n s)
      then Some (digits_val (take n s), drop n s) else None)"

definition char_at :: "string \<Rightarrow> nat \<Rightarrow> char" where
  "char_at s i = (if i < length s then s ! i else CHR 0x00)"

text \<open>\<open>_find_isoformat_datetime_separator\<close>\<close>

definition find_separator :: "string \<Rightarrow> nat" where
  "find_separator s =
     (let len = length s in
      if len = 7 then 7
      else if char_at s 4 = CHR ''-'' then
        (if char_at s 5 = CHR ''W'' then
           (if len < 8 then 0
            else if len > 8 \<and> char_at s 8 = CHR ''-'' then
              (if len = 9 then 0
               else if len > 10 \<and> is_digit (char_at s 10) then 8 else 10)
            else 8)
         else 10)
      else if char_at s 4 = CHR ''W'' then
        (let idx = 7 + length (takeWhile is_digit (drop 7 s))
         in if idx < 9 then idx else if idx mod 2 = 0 then 7 else 8)
      else 8)"

definition weekday :: "nat \<Rightarrow> nat \<Rightarrow> nat \<Rightarrow> nat" where
  "weekday y m d = (ymd2ord y m d + 6) mod 7"

definition iso_week1_monday :: "nat \<Rightarrow> int" where
  "iso_week1_monday y =
     (let first_day = int (ymd2ord y 1 1);
          first_weekday = (first_day + 6) mod 7;
          week1_monday = first_day - first_weekday
      in if first_weekday > 3 then week1_monday + 7 else week1_monday)"

definition iso_to_ymd :: "nat \<Rightarrow> nat \<Rightarrow> nat \<Rightarrow> (nat \<times> nat \<times> nat) option" where
  "iso_to_ymd y w d =
     (if y = 0 \<or> w = 0 \<or> 53 < w
         \<or> (w = 53 \<and> \<not> (weekday y 1 1 = 3 \<or> (weekday y 1 1 = 2 \<and> is_leap y)))
         \<or> d = 0 \<or> 7 < d then None
      else let ord = iso_week1_monday y + int ((w - 1) * 7 + d - 1)
           in if ord < 1 then None else Some (ord2ymd (nat ord)))"

definition parse_iso_date :: "nat \<Rightarrow> string \<Rightarrow> (nat \<times> nat \<times> nat) option" where
  "parse_iso_date len s =
     Option.bind (parse_digits 4 s) (\<lambda>(y, p).
       let sep = (p \<noteq> [] \<and> hd p = CHR ''-''); q = (if sep then tl p else p) in
       if q \<noteq> [] \<and> hd q = CHR ''W'' then
         Option.bind (parse_digits 2 (tl q)) (\<lambda>(w, r).
           if length s - length r < len then
             (if sep \<and> \<not> (r \<noteq> [] \<and> hd r = CHR ''-'') then None
              else Option.bind (parse_digits 1 (if sep then tl r else r)) (\<lambda>(d, _). iso_to_ymd y w d))
           else iso_to_ymd y w 1)
       else
         Option.bind (parse_digits 2 q) (\<lambda>(m, r).
           if sep \<and> \<not> (r \<noteq> [] \<and> hd r = CHR ''-'') then None
           else Option.bind (parse_digits 2 (if sep then tl r else r)) (\<lambda>(d, _). Some (y, m, d))))"

text \<open>
  \<open>parse_hh_mm_ss_ff\<close>: at most three two-digit groups and a fraction; the last component
  of the result says that something other than the end of the string follows.
\<close>

definition parse_frac :: "bool \<Rightarrow> string \<Rightarrow> (nat \<times> bool) option" where
  "parse_frac nul s =
     (let k = min 6 (length s) in
      Option.bind (parse_digits k s) (\<lambda>(v, _).
        let r = dropWhile is_digit (drop k s)
        in Some (v * 10 ^ (6 - k), if r = [] then \<not> nul else hd r \<noteq> CHR 0x00)))"

fun parse_hms :: "nat \<Rightarrow> bool \<Rightarrow> bool \<Rightarrow> nat list \<Rightarrow> string \<Rightarrow> (nat list \<times> nat \<times> bool) option" where
  "parse_hms 0 sep nul vals s = map_option (\<lambda>(us, more). (vals, us, more)) (parse_frac nul s)"
| "parse_hms (Suc k) sep nul vals s =
     Option.bind (parse_digits 2 s) (\<lambda>(v, r).
       let vals' = vals @ [v] in
       case r of
         [] \<Rightarrow> Some (vals', 0, \<not> nul)
       | c # r' \<Rightarrow>
           let sep' = (if vals = [] then c = CHR '':'' else sep) in
           if r' = [] then Some (vals', 0, c \<noteq> CHR 0x00)
           else if sep' \<and> c = CHR '':'' then parse_hms k sep' nul vals' r'
           else if c = CHR ''.'' \<or> c = CHR '','' then
             map_option (\<lambda>(us, more). (vals', us, more)) (parse_frac nul r')
           else if \<not> sep' then parse_hms k sep' nul vals' r
           else None)"

definition time_comps :: "nat list \<Rightarrow> nat \<times> nat \<times> nat" where
  "time_comps vals =
     (vals ! 0, if length vals > 1 then vals ! 1 else 0, if length vals > 2 then vals ! 2 else 0)"

definition is_tz_start :: "char \<Rightarrow> bool" where
  "is_tz_start c \<longleftrightarrow> c = CHR ''+'' \<or> c = CHR ''-'' \<or> c = CHR ''Z''"

text \<open>Hour, minute, second, microsecond and the offset in microseconds, if there is one.\<close>

definition parse_iso_time :: "string \<Rightarrow> ((nat \<times> nat \<times> nat) \<times> nat \<times> int option) option" where
  "parse_iso_time s =
     (let t = takeWhile (\<lambda>c. \<not> is_tz_start c) s; z = dropWhile (\<lambda>c. \<not> is_tz_start c) s in
      Option.bind (parse_hms 3 True (z = []) [] t) (\<lambda>(vals, us, more).
        case z of
          [] \<Rightarrow> if more then None else Some (time_comps vals, us, None)
        | c # z' \<Rightarrow>
            if c = CHR ''Z'' then (if z' = [] then Some (time_comps vals, us, Some 0) else None)
            else Option.bind (parse_hms 3 True True [] z') (\<lambda>(zv, zus, zmore).
              if zmore then None
              else case time_comps zv of (zh, zm, zs) \<Rightarrow>
                let secs = int (zh * 3600 + zm * 60 + zs); sgn = (if c = CHR ''-'' then -1 else 1)
                in Some (time_comps vals, us,
                         Some (if secs = 0 then 0 else sgn * (secs * 1000000 + int zus))))))"

definition invalid_iso :: exn where
  "invalid_iso = ValueError ''Invalid isoformat string''"

definition mk_datetime ::
  "nat \<times> nat \<times> nat \<Rightarrow> nat \<times> nat \<times> nat \<Rightarrow> nat \<Rightarrow> int option \<Rightarrow> datetime res" where
  "mk_datetime ymd hms us off =
     (case ymd of (y, m, d) \<Rightarrow> case hms of (hh, mm, ss) \<Rightarrow>
        if 1 \<le> y \<and> y \<le> 9999 \<and> 1 \<le> m \<and> m \<le> 12 \<and> 1 \<le> d \<and> d \<le> days_in_month y m
           \<and> hh \<le> 23 \<and> mm \<le> 59 \<and> ss \<le> 59 \<and> us \<le> 999999
           \<and> (case off of None \<Rightarrow> True | Some z \<Rightarrow> \<bar>z\<bar> < us_per_day)
        then Inr \<lparr>dt_us = int (ymd2ord y m d - 1) * us_per_day
                     + int (((hh * 60 + mm) * 60 + ss) * 1000000 + us)
                     - (case off of None \<Rightarrow> 0 | Some z \<Rightarrow> z),
                  dt_tz = off\<rparr>
        else Inl invalid_iso)"

definition fromisoformat :: "string \<Rightarrow> datetime res" where
  "fromisoformat s =
     (if length s < 7 then Inl invalid_iso
      else let sep = find_separator s in
        case parse_iso_date sep s of
          None \<Rightarrow> Inl invalid_iso
        | Some ymd \<Rightarrow>
            if length s - sep > 1 then
              (case parse_iso_time (drop (Suc sep) s) of
                 None \<Rightarrow> Inl invalid_iso
               | Some (hms, us, off) \<Rightarrow> mk_datetime ymd hms us off)
            else mk_datetime ymd (0, 0, 0) 0 None)"

text \<open>\<open>value.replace("Z", "+00:00")\<close>\<close>

definition replace_Z :: "string \<Rightarrow> string" where
  "replace_Z s = concat (map (\<lambda>c. if c = CHR ''Z'' then ''+00:00'' else [c]) s)"

text \<open>\<open>models.parse_time\<close>; only strings have a \<open>replace\<close> method.\<close>

definition parse_time :: "json \<Rightarrow> datetime res" where
  "parse_time v = (case v of
      JStr s \<Rightarrow>
        rbind (fromisoformat (replace_Z s)) (\<lambda>d.
          if naive d then Inl (ValueError ''timestamps must include a timezone'')
          else if 0 \<le> dt_us d \<and> dt_us d < max_us then Inr (utc_dt (dt_us d))
          else Inl overflow_exn)
    | _ \<Rightarrow> Inl (AttributeError ''object has no attribute 'replace' ''))"

lemma parse_time_aware: "parse_time v = Inr d \<Longrightarrow> dt_tz d = Some 0"
  by (auto simp: parse_time_def res_simps split: json.splits if_splits)

section \<open>What is written can be read back\<close>

lemma parse_digits_pad: "n < 10 ^ k \<Longrightarrow> parse_digits k (pad_nat k n @ r) = Some (n, r)"
  by (simp add: parse_digits_def pad_nat_digits digits_val_pad_nat)

lemma parse_digits_pad2: "n < 100 \<Longrightarrow> parse_digits 2 (pad_nat 2 n @ r) = Some (n, r)"
  using parse_digits_pad [of n 2 r] by simp

lemma parse_digits_pad4: "n < 10000 \<Longrightarrow> parse_digits 4 (pad_nat 4 n @ r) = Some (n, r)"
  using parse_digits_pad [of n 4 r] by simp

lemma is_digit_not: "is_digit c \<Longrightarrow> c \<noteq> CHR ''W'' \<and> c \<noteq> CHR ''Z'' \<and> c \<noteq> CHR ''+'' \<and> c \<noteq> CHR ''-''"
  by (auto simp: is_digit_def)

lemma pad_nat_nth_digit: "i < k \<Longrightarrow> is_digit (pad_nat k n ! i)"
  using pad_nat_digits [of k n] by (simp add: list_all_length)

lemma pad_nat_hd: "0 < k \<Longrightarrow> is_digit (hd (pad_nat k n @ r))"
  using pad_nat_nth_digit [of 0 k n] by (cases "pad_nat k n") (auto simp: hd_append dest: arg_cong [where f = length])

lemma replace_Z_id: "list_all (\<lambda>c. c \<noteq> CHR ''Z'') s \<Longrightarrow> replace_Z (s @ t) = s @ replace_Z t"
  by (induction s) (auto simp: replace_Z_def)

lemma pad_nat_no: "list_all (\<lambda>c. c \<noteq> CHR ''Z'') (pad_nat k n)" "list_all (\<lambda>c. \<not> is_tz_start c) (pad_nat k n)"
  using pad_nat_digits [of k n] by (auto simp: list_all_iff is_tz_start_def dest: is_digit_not)

lemma iso_clock_no: "list_all (\<lambda>c. c \<noteq> CHR ''Z'') (iso_clock n)" "list_all (\<lambda>c. \<not> is_tz_start c) (iso_clock n)"
  by (simp_all add: iso_clock_def Let_def pad_nat_no) (simp_all add: is_tz_start_def)

lemma iso_date_no: "list_all (\<lambda>c. c \<noteq> CHR ''Z'') (iso_date n)"
  by (simp add: iso_date_def pad_nat_no split: prod.split)

lemma parse_hms_clock:
  assumes "n < 86400000000"
  shows "parse_hms 3 True False [] (iso_clock n) =
    Some ([n div 3600000000, n div 60000000 mod 60, n div 1000000 mod 60], n mod 1000000, True)"
proof -
  define h where "h = n div 1000000 div 3600"
  define m where "m = n div 1000000 div 60 mod 60"
  define s where "s = n div 1000000 mod 60"
  define f where "f = n mod 1000000"
  have lt: "h < 100" "m < 100" "s < 100" "f < 10 ^ 6"
    using assms by (auto simp: h_def m_def s_def f_def)
  have c: "iso_clock n = pad_nat 2 h @ '':'' @ pad_nat 2 m @ '':'' @ pad_nat 2 s @ (if f = 0 then [] else ''.'' @ pad_nat 6 f)"
    by (simp add: iso_clock_def Let_def h_def m_def s_def f_def)
  have k: "3 = Suc (Suc (Suc 0))" by simp
  have fr: "parse_frac False (pad_nat 6 f) = Some (f, True)"
    using parse_digits_pad [OF lt(4), of "[]"] by (simp add: parse_frac_def)
  have ne: "pad_nat 2 a @ r \<noteq> []" for a r by (metis append_is_Nil_conv length_0_conv pad_nat_length zero_neq_numeral)
  have "parse_hms 3 True False [] (iso_clock n) = Some ([h, m, s], f, True)"
    unfolding c k using lt fr ne
    by (cases "f = 0") (auto simp: parse_digits_pad2 Let_def parse_digits_pad2 [of _ "[]", simplified] dest: arg_cong [where f = length])
  then show ?thesis
    by (simp add: h_def m_def s_def f_def div_mult2_eq [symmetric])
qed

lemma parse_hms_zero: "parse_hms 3 True True [] ''00:00'' = Some ([0, 0], 0, False)"
  by (simp add: numeral_3_eq_3 parse_digits_def is_digit_def digits_val_def digit_val_def)

lemma parse_iso_time_clock:
  assumes "n < 86400000000"
  shows "parse_iso_time (iso_clock n @ ''+00:00'') =
    Some ((n div 3600000000, n div 60000000 mod 60, n div 1000000 mod 60), n mod 1000000, Some 0)"
proof -
  have t: "takeWhile (\<lambda>c. \<not> is_tz_start c) (iso_clock n @ ''+00:00'') = iso_clock n"
    using iso_clock_no(2) [of n] by (simp add: list_all_iff takeWhile_append is_tz_start_def)
  have d: "dropWhile (\<lambda>c. \<not> is_tz_start c) (iso_clock n @ ''+00:00'') = ''+00:00''"
    using iso_clock_no(2) [of n] by (simp add: list_all_iff dropWhile_append is_tz_start_def)
  show ?thesis
    unfolding parse_iso_time_def t d Let_def
    by (simp add: parse_hms_clock [OF assms] parse_hms_zero time_comps_def)
qed

lemma parse_iso_date_text:
  assumes "y < 10000" "m < 100" "d < 100"
  shows "parse_iso_date 10 (pad_nat 4 y @ ''-'' @ pad_nat 2 m @ ''-'' @ pad_nat 2 d @ r) = Some (y, m, d)"
proof -
  have "hd (pad_nat 2 m @ x) \<noteq> CHR ''W''" for x using pad_nat_hd [of 2 m x] by (auto dest: is_digit_not)
  moreover have "hd (pad_nat 2 m @ x) \<noteq> CHR ''-''" for x using pad_nat_hd [of 2 m x] by (auto dest: is_digit_not)
  ultimately show ?thesis
    unfolding parse_iso_date_def using assms
    by (simp add: parse_digits_pad4 parse_digits_pad2 Let_def)
qed

lemma clock_recompose:
  fixes n :: nat
  shows "((n div 3600000000 * 60 + n div 60000000 mod 60) * 60 + n div 1000000 mod 60) * 1000000 + n mod 1000000 = n"
proof -
  define s where "s = n div 1000000"
  have "n div 3600000000 = s div 60 div 60" "n div 60000000 = s div 60"
    by (simp_all add: s_def div_mult2_eq [symmetric])
  then have "((n div 3600000000 * 60 + n div 60000000 mod 60) * 60 + n div 1000000 mod 60) = s"
    by (simp add: s_def [symmetric])
  then show ?thesis by (simp add: s_def)
qed

lemma isoformat_roundtrip:
  assumes us: "0 \<le> us" "us < max_us"
  shows "isoformat (utc_dt us) = Inr (iso_text us @ ''Z'')"
    and "parse_time (JStr (iso_text us @ ''Z'')) = Inr (utc_dt us)"
proof -
  show "isoformat (utc_dt us) = Inr (iso_text us @ ''Z'')"
    using us by (simp add: isoformat_def)
  define day where "day = nat (us div us_per_day)"
  define n where "n = nat (us mod us_per_day)"
  have n: "n < 86400000000" by (simp add: n_def us_per_day_def nat_less_iff)
  have day: "day < 3652059" using us by (simp add: day_def max_us_def us_per_day_def nat_less_iff div_less_iff_less_mult)
  have split: "us = int day * us_per_day + int n"
    using us by (simp add: day_def n_def us_per_day_def pos_imp_zdiv_nonneg_iff)
  obtain y m d where o: "ord2ymd (day + 1) = (y, m, d)" by (cases "ord2ymd (day + 1)") auto
  have ok: "ymd2ord y m d = day + 1" "1 \<le> y" "y \<le> 9999" "1 \<le> m" "m \<le> 12" "1 \<le> d" "d \<le> days_in_month y m"
    using ord2ymd_ok [OF _ _ o] day by auto
  have d31: "d \<le> 31"
  proof -
    have "m = 1 \<or> m = 2 \<or> m = 3 \<or> m = 4 \<or> m = 5 \<or> m = 6 \<or> m = 7 \<or> m = 8 \<or> m = 9
      \<or> m = 10 \<or> m = 11 \<or> m = 12" using ok(4,5) by arith
    then have "days_in_month y m \<le> 31"
      by (auto simp: days_in_month_def tab_simps)
    with ok(7) show ?thesis by simp
  qed
  define tm where "tm = iso_clock n @ ''+00:00''"
  have rep: "replace_Z (iso_text us @ ''Z'') = pad_nat 4 y @ ''-'' @ pad_nat 2 m @ ''-'' @ pad_nat 2 d @ ''T'' @ tm"
  proof -
    have e: "iso_text us @ ''Z'' = (iso_date day @ ''T'' @ iso_clock n) @ ''Z''"
      by (simp add: iso_text_def day_def n_def)
    have "list_all (\<lambda>c. c \<noteq> CHR ''Z'') (iso_date day @ ''T'' @ iso_clock n)"
      by (simp add: iso_date_no iso_clock_no)
    note r = replace_Z_id [OF this]
    show ?thesis
      unfolding e r tm_def using o by (simp add: replace_Z_def iso_date_def)
  qed
  have len: "length (pad_nat 4 y @ ''-'' @ pad_nat 2 m @ ''-'' @ pad_nat 2 d @ ''T'' @ tm) = 11 + length tm" (is "length ?s = _")
    by simp
  have "?s ! 4 = CHR ''-''" by (simp add: nth_append)
  moreover have "?s ! 5 = pad_nat 2 m ! 0" by (simp add: nth_append)
  ultimately have sep: "find_separator ?s = 10"
    using pad_nat_nth_digit [of 0 2 m] len
    by (auto simp: find_separator_def char_at_def Let_def dest: is_digit_not)
  have dr: "drop 11 ?s = tm" by simp
  have sl: "Suc 10 = 11" by simp
  have pt: "parse_iso_time tm = Some ((n div 3600000000, n div 60000000 mod 60, n div 1000000 mod 60), n mod 1000000, Some 0)"
    unfolding tm_def by (rule parse_iso_time_clock [OF n])
  have mk: "mk_datetime (y, m, d) (n div 3600000000, n div 60000000 mod 60, n div 1000000 mod 60) (n mod 1000000) (Some 0) = Inr (utc_dt us)"
  proof -
    have "n div 3600000000 \<le> 23" using n by linarith
    moreover have "n div 60000000 mod 60 \<le> 59" "n div 1000000 mod 60 \<le> 59" "n mod 1000000 \<le> 999999" by linarith+
    ultimately show ?thesis
      unfolding mk_datetime_def prod.case clock_recompose
      using ok by (simp add: split us_per_day_def)
  qed
  have ne: "tm \<noteq> []" by (simp add: tm_def)
  have "fromisoformat ?s = Inr (utc_dt us)"
    unfolding fromisoformat_def sep Let_def
    using len parse_iso_date_text [of y m d "''T'' @ tm"] ok d31
    by (simp add: dr sl mk pt ne)
  then show "parse_time (JStr (iso_text us @ ''Z'')) = Inr (utc_dt us)"
    using us by (simp add: parse_time_def rep)
qed
text \<open>UTC values in range, as \<open>utc_now()\<close> gives them.\<close>

definition utc_time :: "datetime \<Rightarrow> bool" where
  "utc_time d \<longleftrightarrow> dt_tz d = Some 0 \<and> 0 \<le> dt_us d \<and> dt_us d < max_us"

lemma utc_time_iso:
  "utc_time d \<Longrightarrow> \<exists>s. isoformat d = Inr s \<and> parse_time (JStr s) = Inr d"
  using isoformat_roundtrip [of "dt_us d"] by (cases d) (auto simp: utc_time_def)

lemma utc_time_parse: "utc_time d \<Longrightarrow> isoformat d = Inr s \<Longrightarrow> parse_time (JStr s) = Inr d"
  using utc_time_iso [of d] by auto

lemma utc_time_add: "utc_time d \<Longrightarrow> dt_add d us = Inr r \<Longrightarrow> utc_time r"
  by (auto simp: utc_time_def res_simps dt_valid_def dt_local_def)

lemma parse_time_utc: "parse_time v = Inr d \<Longrightarrow> utc_time d"
  by (auto simp: parse_time_def res_simps utc_time_def split: json.splits if_splits)

text \<open>The text of an instant as a value; it is never evaluated.\<close>

definition zulu :: "int \<Rightarrow> json" where
  "zulu us = JStr (iso_text us @ ''Z'')"

lemma max_us_val: "max_us = 315537897600000000"
  by (simp add: max_us_def us_per_day_def)

lemma parse_zulu [simp]: "0 \<le> us \<Longrightarrow> us < 315537897600000000 \<Longrightarrow> parse_time (zulu us) = Inr (utc_dt us)"
  unfolding zulu_def by (rule isoformat_roundtrip) (simp_all add: max_us_val)

lemma zulu_simps [simp]: "zulu us \<noteq> JNull" "is_str (zulu us)" "\<not> is_list (zulu us)" "hashable (zulu us)" "wf_json (zulu us)"
  by (simp_all add: zulu_def)

end
