(* ===== verification/Sha256.thy ===== *)
theory Sha256
  imports Prelude
begin

text \<open>
  \<open>hashlib.sha256\<close> (FIPS 180-4) on bytes, and its hexadecimal digest. Every content
  identifier and receipt link of the program is built from it. Nothing is assumed about it:
  statements about tampering end in an explicit collision.
\<close>

unbundle bit_operations_syntax

type_synonym byte = "8 word"
type_synonym u32 = "32 word"

text \<open>The round constants and the initial state, in decimal.\<close>

definition sha_k :: "u32 list" where
  "sha_k =
    [1116352408, 1899447441, 3049323471, 3921009573, 961987163, 1508970993, 2453635748, 2870763221,
     3624381080, 310598401, 607225278, 1426881987, 1925078388, 2162078206, 2614888103, 3248222580,
     3835390401, 4022224774, 264347078, 604807628, 770255983, 1249150122, 1555081692, 1996064986,
     2554220882, 2821834349, 2952996808, 3210313671, 3336571891, 3584528711, 113926993, 338241895,
     666307205, 773529912, 1294757372, 1396182291, 1695183700, 1986661051, 2177026350, 2456956037,
     2730485921, 2820302411, 3259730800, 3345764771, 3516065817, 3600352804, 4094571909, 275423344,
     430227734, 506948616, 659060556, 883997877, 958139571, 1322822218, 1537002063, 1747873779,
     1955562222, 2024104815, 2227730452, 2361852424, 2428436474, 2756734187, 3204031479, 3329325298]"

definition sha_init :: "u32 list" where
  "sha_init = [1779033703, 3144134277, 1013904242, 2773480762, 1359893119, 2600822924, 528734635, 1541459225]"

definition sha_ch :: "u32 \<Rightarrow> u32 \<Rightarrow> u32 \<Rightarrow> u32" where
  "sha_ch x y z = (x AND y) XOR (NOT x AND z)"

definition sha_maj :: "u32 \<Rightarrow> u32 \<Rightarrow> u32 \<Rightarrow> u32" where
  "sha_maj x y z = (x AND y) XOR (x AND z) XOR (y AND z)"

definition big_sigma0 :: "u32 \<Rightarrow> u32" where
  "big_sigma0 x = word_rotr 2 x XOR word_rotr 13 x XOR word_rotr 22 x"

definition big_sigma1 :: "u32 \<Rightarrow> u32" where
  "big_sigma1 x = word_rotr 6 x XOR word_rotr 11 x XOR word_rotr 25 x"

definition small_sigma0 :: "u32 \<Rightarrow> u32" where
  "small_sigma0 x = word_rotr 7 x XOR word_rotr 18 x XOR drop_bit 3 x"

definition small_sigma1 :: "u32 \<Rightarrow> u32" where
  "small_sigma1 x = word_rotr 17 x XOR word_rotr 19 x XOR drop_bit 10 x"

text \<open>Padding to a multiple of 64 bytes: a one bit, zeros, the length in bits.\<close>

definition be_bytes :: "nat \<Rightarrow> nat \<Rightarrow> byte list" where
  "be_bytes k n = map (\<lambda>i. of_nat (n div 256 ^ (k - 1 - i) mod 256)) [0..<k]"

definition sha_pad :: "byte list \<Rightarrow> byte list" where
  "sha_pad m = m @ [0x80] @ replicate ((64 - (length m + 9) mod 64) mod 64) 0 @ be_bytes 8 (8 * length m)"

fun words_of :: "byte list \<Rightarrow> u32 list" where
  "words_of (a # b # c # d # r) =
     (push_bit 24 (ucast a) OR push_bit 16 (ucast b) OR push_bit 8 (ucast c) OR ucast d) # words_of r"
| "words_of _ = []"

text \<open>The message schedule, kept in reverse: \<open>w (t-2)\<close> is the second element.\<close>

fun extend_schedule :: "nat \<Rightarrow> u32 list \<Rightarrow> u32 list" where
  "extend_schedule 0 ws = ws"
| "extend_schedule (Suc n) ws =
     extend_schedule n
       ((small_sigma1 (ws ! 1) + ws ! 6 + small_sigma0 (ws ! 14) + ws ! 15) # ws)"

fun sha_round :: "u32 list \<Rightarrow> u32 \<times> u32 \<Rightarrow> u32 list" where
  "sha_round [a, b, c, d, e, f, g, h] (k, w) =
     (let t1 = h + big_sigma1 e + sha_ch e f g + k + w;
          t2 = big_sigma0 a + sha_maj a b c
      in [t1 + t2, a, b, c, d + t1, e, f, g])"
| "sha_round st _ = st"

definition sha_block :: "u32 list \<Rightarrow> byte list \<Rightarrow> u32 list" where
  "sha_block st blk =
     map2 (+) st (foldl sha_round st (zip sha_k (rev (extend_schedule 48 (rev (words_of blk))))))"

function sha_blocks :: "u32 list \<Rightarrow> byte list \<Rightarrow> u32 list" where
  "sha_blocks st m = (if m = [] then st else sha_blocks (sha_block st (take 64 m)) (drop 64 m))"
  by pat_completeness auto
termination
  by (relation "measure (\<lambda>(st, m). length m)") auto

declare sha_blocks.simps [simp del]

definition bytes_of_u32 :: "u32 \<Rightarrow> byte list" where
  "bytes_of_u32 w = [ucast (drop_bit 24 w), ucast (drop_bit 16 w), ucast (drop_bit 8 w), ucast w]"

definition sha256 :: "byte list \<Rightarrow> byte list" where
  "sha256 m = concat (map bytes_of_u32 (sha_blocks sha_init (sha_pad m)))"

text \<open>Hexadecimal rendering.\<close>

definition hex_digit :: "nat \<Rightarrow> char" where
  "hex_digit n = char_of (if n < 10 then 48 + n else 87 + n)"

definition hex_of_byte :: "byte \<Rightarrow> string" where
  "hex_of_byte b = [hex_digit (unat b div 16), hex_digit (unat b mod 16)]"

definition hexdigest :: "byte list \<Rightarrow> string" where
  "hexdigest bs = concat (map hex_of_byte bs)"

text \<open>\<open>hashlib.sha256(data).hexdigest()\<close>\<close>

definition sha256_hex :: "byte list \<Rightarrow> string" where
  "sha256_hex m = hexdigest (sha256 m)"

definition sha_collision :: "byte list \<Rightarrow> byte list \<Rightarrow> bool" where
  "sha_collision x y \<longleftrightarrow> x \<noteq> y \<and> sha256 x = sha256 y"

section \<open>Shape of the digest\<close>

lemma sha_round_length: "length (sha_round st kw) = length st"
  by (cases "(st, kw)" rule: sha_round.cases) (simp_all add: Let_def)

lemma sha_block_length: "length (sha_block st blk) = length st"
proof -
  have "length (foldl sha_round st xs) = length st" for xs
    by (induction xs rule: rev_induct) (auto simp: sha_round_length)
  then show ?thesis by (simp add: sha_block_def)
qed

lemma sha_blocks_length: "length (sha_blocks st m) = length st"
proof (induction st m rule: sha_blocks.induct)
  case (1 st m)
  then show ?case by (subst sha_blocks.simps) (auto simp: sha_block_length)
qed

lemma sha256_length [simp]: "length (sha256 m) = 32"
proof -
  have "length (concat (map bytes_of_u32 ws)) = 4 * length ws" for ws
    by (induction ws) (auto simp: bytes_of_u32_def)
  then show ?thesis by (simp add: sha256_def sha_blocks_length sha_init_def)
qed

lemma hexdigest_length [simp]: "length (hexdigest bs) = 2 * length bs"
  by (induction bs) (auto simp: hexdigest_def hex_of_byte_def)

lemma hex_digit_lower: "n < 16 \<Longrightarrow> is_lower_hex (hex_digit n)"
  by (auto simp: hex_digit_def is_lower_hex_def Let_def)

lemma hexdigest_lower: "list_all is_lower_hex (hexdigest bs)"
proof -
  have "unat (b :: byte) < 256" for b using unsigned_less [of b, where 'a = nat] by simp
  then have "unat (b :: byte) div 16 < 16" for b by (simp add: less_mult_imp_div_less)
  then show ?thesis
    by (induction bs) (auto simp: hexdigest_def hex_of_byte_def hex_digit_lower)
qed

lemma hex_digit_inject: "m < 16 \<Longrightarrow> n < 16 \<Longrightarrow> hex_digit m = hex_digit n \<longleftrightarrow> m = n"
proof
  assume lt: "m < 16" "n < 16" and eq: "hex_digit m = hex_digit n"
  have v: "(of_char (hex_digit k) :: nat) = (if k < 10 then 48 + k else 87 + k)" if "k < 16" for k
    using that by (cases "k < 10") (simp_all add: hex_digit_def)
  have "(of_char (hex_digit m) :: nat) = of_char (hex_digit n)" by (simp only: eq)
  then show "m = n" unfolding v [OF lt(1)] v [OF lt(2)] by (simp split: if_splits)
qed simp

lemma hex_of_byte_inject: "hex_of_byte a = hex_of_byte b \<longleftrightarrow> a = b"
proof
  have lt: "unat (x :: byte) < 256" for x using unsigned_less [of x, where 'a = nat] by simp
  assume h: "hex_of_byte a = hex_of_byte b"
  have "unat a div 16 < 16" "unat b div 16 < 16" using lt [of a] lt [of b] by simp_all
  with h have "unat a div 16 = unat b div 16" "unat a mod 16 = unat b mod 16"
    by (simp_all add: hex_of_byte_def hex_digit_inject)
  then have "unat a = unat b" by (metis div_mult_mod_eq)
  then show "a = b" by (simp only: word_unat_eq_iff)
qed simp

lemma hexdigest_inject: "hexdigest x = hexdigest y \<longleftrightarrow> x = y"
proof (induction x arbitrary: y)
  case Nil
  then show ?case by (cases y) (auto simp: hexdigest_def hex_of_byte_def)
next
  case (Cons a x)
  have l: "length (hex_of_byte b) = 2" for b by (simp add: hex_of_byte_def)
  show ?case
  proof (cases y)
    case (Cons b z)
    then show ?thesis
      using Cons.IH [of z] l [of a] l [of b]
      by (auto simp: hexdigest_def hex_of_byte_inject append_eq_append_conv)
  qed (auto simp: hexdigest_def hex_of_byte_def)
qed

text \<open>Equal digests of different inputs are a collision.\<close>

lemma sha256_hex_eqD: "sha256_hex x = sha256_hex y \<Longrightarrow> x = y \<or> sha_collision x y"
  by (auto simp: sha256_hex_def hexdigest_inject sha_collision_def)

end
