(* ===== verification/Canonical.thy ===== *)
theory Canonical
  imports PyValue Sha256
begin

text \<open>
  \<open>canonical.py\<close>: the canonical JSON text of a value, its UTF-8 bytes, digests and content
  identifiers. Text is a list of code points, so the escaping and the UTF-16 ordering of member
  names are modelled for all of Unicode. The shortest decimal that reads back as a given float
  (\<open>repr\<close>) is computed by search over the number of digits.
\<close>

type_synonym cps = "nat list"

definition cps_of :: "string \<Rightarrow> cps" where
  "cps_of s = map of_char s"

lemma cps_of_append [simp]: "cps_of (a @ b) = cps_of a @ cps_of b"
  by (simp add: cps_of_def)

lemma cps_of_Nil [simp]: "cps_of [] = []"
  by (simp add: cps_of_def)

lemma cps_of_inject [simp]: "cps_of a = cps_of b \<longleftrightarrow> a = b"
  by (simp add: cps_of_def inj_map_eq_map inj_on_def)

section \<open>Numbers\<close>

definition max_safe_integer :: int where
  "max_safe_integer = 2 ^ 53 - 1"

text \<open>\<open>round_half_even n d\<close> is the integer nearest to the quotient.\<close>

definition round_half_even :: "nat \<Rightarrow> nat \<Rightarrow> nat" where
  "round_half_even n d =
     (let q = n div d; r = n mod d
      in if 2 * r < d then q else if d < 2 * r then q + 1 else if even q then q else q + 1)"

fun bitlen :: "nat \<Rightarrow> nat" where
  "bitlen n = (if n = 0 then 0 else Suc (bitlen (n div 2)))"

declare bitlen.simps [simp del]

text \<open>
  The double nearest to \<open>n / d\<close>, as a fraction: the exponent puts the quotient between
  \<open>2^52\<close> and \<open>2^53\<close>, but is at least -1074.
\<close>

definition scaled :: "nat \<Rightarrow> nat \<Rightarrow> int \<Rightarrow> nat" where
  "scaled n d e = (if 0 \<le> e then round_half_even n (d * 2 ^ nat e)
                   else round_half_even (n * 2 ^ nat (- e)) d)"

definition floor_log2 :: "nat \<Rightarrow> nat \<Rightarrow> int" where
  "floor_log2 n d =
     (let k = int (bitlen n) - int (bitlen d)
      in if (if 0 \<le> k then d * 2 ^ nat k \<le> n else d \<le> n * 2 ^ nat (- k)) then k else k - 1)"

definition double_of :: "nat \<Rightarrow> nat \<Rightarrow> nat \<times> int" where
  "double_of n d = (let e = max (floor_log2 n d - 52) (-1074) in (scaled n d e, e))"

text \<open>Whether the double nearest to \<open>n / d\<close> is exactly \<open>n' / d'\<close>.\<close>

definition reads_as :: "nat \<Rightarrow> nat \<Rightarrow> nat \<Rightarrow> nat \<Rightarrow> bool" where
  "reads_as n d n' d' =
     (case double_of n d of (m, e) \<Rightarrow>
        if 0 \<le> e then m * 2 ^ nat e * d' = n' else m * d' = n' * 2 ^ nat (- e))"

text \<open>The decimal exponent: \<open>10^(p-1) <= n/d < 10^p\<close>.\<close>

fun dec_up :: "nat \<Rightarrow> nat \<Rightarrow> nat \<Rightarrow> int" where
  "dec_up 0 n d = 0"
| "dec_up (Suc k) n d = (if n < d then 0 else 1 + dec_up k n (10 * d))"

fun dec_down :: "nat \<Rightarrow> nat \<Rightarrow> nat \<Rightarrow> int" where
  "dec_down 0 n d = 0"
| "dec_down (Suc k) n d = (if d \<le> 10 * n then 0 else dec_down k (10 * n) d - 1)"

definition dec_exp :: "nat \<Rightarrow> nat \<Rightarrow> int" where
  "dec_exp n d = (if d \<le> n then dec_up 400 n d else dec_down 400 n d)"

text \<open>\<open>k\<close>-digit candidates below and above, the closer one first; the first that reads back.\<close>

definition dec_candidate :: "nat \<Rightarrow> nat \<Rightarrow> int \<Rightarrow> nat \<Rightarrow> nat option" where
  "dec_candidate n d p k =
     (let sh = int k - p;
          a = (if 0 \<le> sh then n * 10 ^ nat sh else n);
          b = (if 0 \<le> sh then d else d * 10 ^ nat (- sh));
          lo = a div b; r = a mod b;
          ok = (\<lambda>s. if 0 \<le> sh then reads_as s (10 ^ nat sh) n d
                    else reads_as (s * 10 ^ nat (- sh)) 1 n d);
          first = (if 2 * r < b \<or> (2 * r = b \<and> even lo) then lo else lo + 1);
          second = (if first = lo then lo + 1 else lo)
      in if 0 < first \<and> ok first then Some first
         else if 0 < second \<and> ok second then Some second else None)"

fun shortest :: "nat \<Rightarrow> nat \<Rightarrow> nat \<Rightarrow> nat \<Rightarrow> int \<Rightarrow> nat \<times> nat" where
  "shortest 0 k n d p = (0, k)"
| "shortest (Suc f) k n d p =
     (case dec_candidate n d p k of Some s \<Rightarrow> (s, k) | None \<Rightarrow> shortest f (Suc k) n d p)"

text \<open>
  The digits \<open>repr\<close> shows for a positive float and the position of the point: the value is
  \<open>0.d1...dk * 10^p\<close>. Seventeen digits always suffice for a double.
\<close>

definition repr_digits :: "rat \<Rightarrow> string \<times> int" where
  "repr_digits q =
     (case quotient_of q of (ni, di) \<Rightarrow>
        let n = nat ni; d = nat di; p = dec_exp n d;
            (s, k) = shortest 17 1 n d p;
            ds = nat_str s
        in (rev (dropWhile (\<lambda>c. c = CHR ''0'') (rev ds)), p + int (length ds) - int k))"

text \<open>\<open>repr\<close> in exponent notation with the leading zeros of the exponent removed.\<close>

definition exp_text :: "string \<Rightarrow> int \<Rightarrow> string" where
  "exp_text ds p =
     take 1 ds @ (if drop 1 ds = [] then [] else ''.'' @ drop 1 ds) @ ''e'' @
     (if p - 1 < 0 then ''-'' else ''+'') @ nat_str (nat \<bar>p - 1\<bar>)"

text \<open>\<open>format(Decimal(repr(value)), "f")\<close> for a value that is not an integer.\<close>

definition fixed_text :: "string \<Rightarrow> int \<Rightarrow> string" where
  "fixed_text ds p =
     (if p \<le> 0 then ''0.'' @ replicate (nat (- p)) (CHR ''0'') @ ds
      else take (nat p) ds @ ''.'' @ drop (nat p) ds)"

text \<open>The literal \<open>1e-6\<close> of the source is a double, a little below \<open>10^-6\<close>.\<close>

definition lit_1em6 :: rat where
  "lit_1em6 = 4722366482869645 / 4722366482869645213696"

definition float_text :: "rat \<Rightarrow> string" where
  "float_text v =
     (if v = 0 then ''0''
      else let a = \<bar>v\<bar>; sg = (if v < 0 then ''-'' else '''')
        in if a \<ge> 10 ^ 21 \<or> a < lit_1em6 then (case repr_digits a of (ds, p) \<Rightarrow> sg @ exp_text ds p)
           else if v = of_int \<lfloor>v\<rfloor> then int_str \<lfloor>v\<rfloor>
           else (case repr_digits a of (ds, p) \<Rightarrow> sg @ fixed_text ds p))"

text \<open>\<open>_number\<close>\<close>

definition number_text :: "json \<Rightarrow> string res" where
  "number_text v = (case v of
      JFloat (FFin r) \<Rightarrow> Inr (float_text r)
    | JFloat _ \<Rightarrow> Inl (ValueError ''non-finite numbers are not allowed in canonical JSON'')
    | JInt i \<Rightarrow>
        if - max_safe_integer \<le> i \<and> i \<le> max_safe_integer then Inr (int_str i)
        else Inl (ValueError ''integer is outside the RFC 8785 safe range'')
    | _ \<Rightarrow> Inl (TypeError ''booleans must be serialized as true/false''))"

section \<open>Strings\<close>

definition hex4 :: "nat \<Rightarrow> cps" where
  "hex4 n = cps_of [hex_digit (n div 4096 mod 16), hex_digit (n div 256 mod 16),
                    hex_digit (n div 16 mod 16), hex_digit (n mod 16)]"

text \<open>\<open>_escape\<close>: the characters matched by \<open>_ESCAPE_RE\<close> and what replaces them.\<close>

definition escape_cp :: "nat \<Rightarrow> cps" where
  "escape_cp c =
     (if c = 34 then [92, 34]
      else if c = 92 then [92, 92]
      else if c = 8 then [92, 98]
      else if c = 12 then [92, 102]
      else if c = 10 then [92, 110]
      else if c = 13 then [92, 114]
      else if c = 9 then [92, 116]
      else if c < 32 \<or> c = 0x2028 \<or> c = 0x2029 then 92 # 117 # hex4 c
      else [c])"

definition string_cps :: "cps \<Rightarrow> cps" where
  "string_cps s = 34 # concat (map escape_cp s) @ [34]"

definition utf16_be :: "nat \<Rightarrow> nat list" where
  "utf16_be c =
     (if c < 0x10000 then [c div 256, c mod 256]
      else let v = c - 0x10000; hi = 0xD800 + v div 1024; lo = 0xDC00 + v mod 1024
        in [hi div 256, hi mod 256, lo div 256, lo mod 256])"

text \<open>The key by which \<open>_jcs\<close> sorts member names.\<close>

definition utf16_key :: "string \<Rightarrow> nat list" where
  "utf16_key s = concat (map utf16_be (cps_of s))"

section \<open>Values\<close>

fun rseq :: "'a res list \<Rightarrow> 'a list res" where
  "rseq [] = Inr []"
| "rseq (m # ms) = rbind m (\<lambda>x. rbind (rseq ms) (\<lambda>xs. Inr (x # xs)))"

text \<open>\<open>",".join(parts)\<close>\<close>

fun join_comma :: "cps list \<Rightarrow> cps" where
  "join_comma [] = []"
| "join_comma [x] = x"
| "join_comma (x # y # xs) = x @ 44 # join_comma (y # xs)"

definition member_text :: "string \<times> cps res \<Rightarrow> cps res" where
  "member_text m = (case m of (k, t) \<Rightarrow> rbind t (\<lambda>u. Inr (string_cps (cps_of k) @ 58 # u)))"

text \<open>\<open>_jcs\<close>: the members are serialised in the order of their sorted names.\<close>

fun jcs :: "json \<Rightarrow> cps res"
and jcs_list :: "json list \<Rightarrow> cps res list"
and jcs_items :: "dict \<Rightarrow> (string \<times> cps res) list" where
  "jcs JNull = Inr (cps_of ''null'')"
| "jcs (JBool b) = Inr (cps_of (if b then ''true'' else ''false''))"
| "jcs (JStr s) = Inr (string_cps (cps_of s))"
| "jcs (JInt i) = rbind (number_text (JInt i)) (\<lambda>t. Inr (cps_of t))"
| "jcs (JFloat f) = rbind (number_text (JFloat f)) (\<lambda>t. Inr (cps_of t))"
| "jcs (JList xs) = rbind (rseq (jcs_list xs)) (\<lambda>ts. Inr (91 # join_comma ts @ [93]))"
| "jcs (JDict d) =
     rbind (rseq (map member_text (sort_key (\<lambda>m. utf16_key (fst m)) (jcs_items d))))
       (\<lambda>ts. Inr (123 # join_comma ts @ [125]))"
| "jcs_list [] = []"
| "jcs_list (x # xs) = jcs x # jcs_list xs"
| "jcs_items [] = []"
| "jcs_items ((k, v) # d) = (k, jcs v) # jcs_items d"

section \<open>UTF-8, digests, identifiers\<close>

definition utf8 :: "nat \<Rightarrow> nat list" where
  "utf8 c =
     (if c < 0x80 then [c]
      else if c < 0x800 then [0xC0 + c div 64, 0x80 + c mod 64]
      else if c < 0x10000 then [0xE0 + c div 4096, 0x80 + c div 64 mod 64, 0x80 + c mod 64]
      else [0xF0 + c div 262144, 0x80 + c div 4096 mod 64, 0x80 + c div 64 mod 64, 0x80 + c mod 64])"

definition encode_utf8 :: "cps \<Rightarrow> byte list" where
  "encode_utf8 t = map of_nat (concat (map utf8 t))"

definition canonical_json :: "json \<Rightarrow> byte list res" where
  "canonical_json v = rbind (jcs v) (\<lambda>t. Inr (encode_utf8 t))"

definition digest :: "json \<Rightarrow> string res" where
  "digest v = rbind (canonical_json v) (\<lambda>b. Inr (''sha256:'' @ sha256_hex b))"

definition content_id :: "string \<Rightarrow> json \<Rightarrow> string res" where
  "content_id prefix v = rbind (canonical_json v) (\<lambda>b. Inr (prefix @ '':'' @ sha256_hex b))"

text \<open>\<open>re.compile(r"^sha256:[0-9a-f]{64}$").fullmatch(s)\<close>\<close>

definition is_sha256_text :: "string \<Rightarrow> bool" where
  "is_sha256_text s \<longleftrightarrow> startswith s ''sha256:'' \<and> length s = 71 \<and> list_all is_lower_hex (drop 7 s)"

text \<open>\<open>isinstance(v, str) and _SHA256_RE.fullmatch(v) is not None\<close>\<close>

fun is_sha256 :: "json \<Rightarrow> bool" where
  "is_sha256 (JStr s) = is_sha256_text s"
| "is_sha256 _ = False"

text \<open>\<open>_SHA256_RE.fullmatch(v)\<close> raises for a value that is not a string.\<close>

definition sha256_fullmatch :: "json \<Rightarrow> bool res" where
  "sha256_fullmatch v = (case v of JStr s \<Rightarrow> Inr (is_sha256_text s)
     | _ \<Rightarrow> Inl (TypeError ''expected string or bytes-like object''))"

lemma digest_shape: "digest v = Inr s \<Longrightarrow> is_sha256_text s"
  using hexdigest_lower
  by (auto simp: digest_def res_simps is_sha256_text_def startswith_def sha256_hex_def)

end
