(* ===== verification/Models.thy ===== *)
theory Models
  imports PyTime Canonical
begin

text \<open>
  \<open>models.py\<close>: action requests, policy rules and decisions. The constructors take the raw
  values and run the checks of \<open>__post_init__\<close>; the records hold what the checks
  guarantee. The fields a rule does not check (its obligations and its priority) stay values.
\<close>

section \<open>Action requests\<close>

record action_request =
  rq_request_id :: string
  rq_agent :: string
  rq_target :: string
  rq_action :: string
  rq_purpose :: string
  rq_issued_at :: datetime
  rq_context :: dict

definition nonblank_exn :: "string \<Rightarrow> exn" where
  "nonblank_exn name = ValueError (name @ '' must be a non-empty string'')"

text \<open>\<open>ActionRequest(...)\<close> with \<open>__post_init__\<close>\<close>

definition action_request_init ::
  "json \<Rightarrow> json \<Rightarrow> json \<Rightarrow> json \<Rightarrow> json \<Rightarrow> datetime \<Rightarrow> json \<Rightarrow> action_request res" where
  "action_request_init rid agent target action purpose issued_at context =
     rbind (rforeach (\<lambda>(name, v). require (nonblank_str v) (nonblank_exn name))
       [(''request_id'', rid), (''agent'', agent), (''target'', target), (''action'', action),
        (''purpose'', purpose)]) (\<lambda>_.
     if \<not> is_dict context then Inl (ValueError ''context must be an object'')
     else rbind (isoformat issued_at) (\<lambda>_.
       Inr \<lparr>rq_request_id = the_str rid, rq_agent = the_str agent, rq_target = the_str target,
            rq_action = the_str action, rq_purpose = the_str purpose, rq_issued_at = issued_at,
            rq_context = the_dict context\<rparr>))"

definition request_to_dict :: "action_request \<Rightarrow> dict res" where
  "request_to_dict q =
     rbind (isoformat (rq_issued_at q)) (\<lambda>iso. Inr
       [(''type'', JStr ''kinegrant:ActionRequest''), (''version'', JStr ''0.1''),
        (''request_id'', JStr (rq_request_id q)), (''agent'', JStr (rq_agent q)),
        (''target'', JStr (rq_target q)), (''action'', JStr (rq_action q)),
        (''purpose'', JStr (rq_purpose q)), (''issued_at'', JStr iso),
        (''context'', JDict (rq_context q))])"

text \<open>The \<open>digest\<close> property.\<close>

definition request_digest :: "action_request \<Rightarrow> string res" where
  "request_digest q = rbind (request_to_dict q) (\<lambda>d. digest (JDict d))"

section \<open>Policy rules\<close>

datatype effect = Allow | Deny

record policy_rule =
  pr_policy_id :: string
  pr_issuer :: string
  pr_target :: string
  pr_effect :: effect
  pr_actions :: "string list"
  pr_subjects :: "string list"
  pr_purposes :: "string list"
  pr_constraints :: dict
  pr_obligations :: "json list"
  pr_priority :: json
  pr_source :: dict

fun effect_name :: "effect \<Rightarrow> string" where
  "effect_name Allow = ''allow''" | "effect_name Deny = ''deny''"

definition parse_effect :: "json \<Rightarrow> effect option" where
  "parse_effect v = (if v = JStr ''allow'' then Some Allow else if v = JStr ''deny'' then Some Deny else None)"

definition nonblank_strs :: "json list \<Rightarrow> bool" where
  "nonblank_strs vs \<longleftrightarrow> vs \<noteq> [] \<and> list_all nonblank_str vs"

text \<open>\<open>PolicyRule(...)\<close> with \<open>__post_init__\<close>; the tuples have been built by the caller.\<close>

definition policy_rule_init ::
  "json \<Rightarrow> json \<Rightarrow> json \<Rightarrow> json \<Rightarrow> json list \<Rightarrow> json list \<Rightarrow> json list \<Rightarrow> json \<Rightarrow> json list \<Rightarrow> json
    \<Rightarrow> json \<Rightarrow> policy_rule res" where
  "policy_rule_init policy_id issuer target effect actions subjects purposes constraints obligations
     priority source =
     (case parse_effect effect of
        None \<Rightarrow> Inl (ValueError ''effect must be allow or deny'')
      | Some eff \<Rightarrow>
        if actions = [] then Inl (ValueError ''a policy rule must contain at least one action'')
        else
          rbind (rforeach (\<lambda>(name, v). require (nonblank_str v) (nonblank_exn name))
            [(''policy_id'', policy_id), (''issuer'', issuer), (''target'', target)]) (\<lambda>_.
          rbind (rforeach (\<lambda>(name, vs). require (nonblank_strs vs)
              (ValueError (name @ '' must contain non-empty strings'')))
            [(''actions'', actions), (''subjects'', subjects), (''purposes'', purposes)]) (\<lambda>_.
          if \<not> is_dict constraints \<or> \<not> is_dict source
          then Inl (ValueError ''constraints and source must be objects'')
          else Inr \<lparr>pr_policy_id = the_str policy_id, pr_issuer = the_str issuer,
                    pr_target = the_str target, pr_effect = eff, pr_actions = map the_str actions,
                    pr_subjects = map the_str subjects, pr_purposes = map the_str purposes,
                    pr_constraints = the_dict constraints, pr_obligations = obligations,
                    pr_priority = priority, pr_source = the_dict source\<rparr>)))"

definition JStrs :: "string list \<Rightarrow> json" where
  "JStrs ss = JList (map JStr ss)"

definition rule_to_dict :: "policy_rule \<Rightarrow> dict" where
  "rule_to_dict r =
     [(''policy_id'', JStr (pr_policy_id r)), (''issuer'', JStr (pr_issuer r)),
      (''target'', JStr (pr_target r)), (''effect'', JStr (effect_name (pr_effect r))),
      (''actions'', JStrs (pr_actions r)), (''subjects'', JStrs (pr_subjects r)),
      (''purposes'', JStrs (pr_purposes r)), (''constraints'', JDict (pr_constraints r)),
      (''obligations'', JList (pr_obligations r)), (''priority'', pr_priority r),
      (''source'', JDict (pr_source r))]"

section \<open>Decisions\<close>

record decision =
  dc_allowed :: bool
  dc_reason :: string
  dc_request_digest :: string
  dc_policy_digest :: string
  dc_matched :: "string list"
  dc_obligations :: "json list"
  dc_tier :: json

definition decision_to_dict :: "decision \<Rightarrow> dict" where
  "decision_to_dict d =
     [(''allowed'', JBool (dc_allowed d)), (''reason'', JStr (dc_reason d)),
      (''request_digest'', JStr (dc_request_digest d)), (''policy_digest'', JStr (dc_policy_digest d)),
      (''matched_policy_ids'', JStrs (dc_matched d)), (''obligations'', JList (dc_obligations d)),
      (''required_approval_tier'', dc_tier d)]"

section \<open>Facts\<close>

text \<open>What the constructors guarantee.\<close>

definition request_ok :: "action_request \<Rightarrow> bool" where
  "request_ok q \<longleftrightarrow> \<not> blank (rq_request_id q) \<and> \<not> blank (rq_agent q) \<and> \<not> blank (rq_target q)
     \<and> \<not> blank (rq_action q) \<and> \<not> blank (rq_purpose q) \<and> \<not> naive (rq_issued_at q)"

definition rule_ok :: "policy_rule \<Rightarrow> bool" where
  "rule_ok r \<longleftrightarrow> \<not> blank (pr_policy_id r) \<and> \<not> blank (pr_issuer r) \<and> \<not> blank (pr_target r)
     \<and> pr_actions r \<noteq> [] \<and> pr_subjects r \<noteq> [] \<and> pr_purposes r \<noteq> []
     \<and> list_all (\<lambda>s. \<not> blank s) (pr_actions r @ pr_subjects r @ pr_purposes r)"

lemma action_request_init_ok:
  "action_request_init a b c d e t x = Inr q \<Longrightarrow> request_ok q"
  by (auto simp: action_request_init_def res_simps request_ok_def nonblank_str_iff isoformat_def
      split: if_splits)

lemma nonblank_the_str: "nonblank_str v \<Longrightarrow> \<not> blank (the_str v)"
  by (auto simp: nonblank_str_iff)

lemma nonblank_strsD:
  "nonblank_strs vs \<Longrightarrow> vs \<noteq> [] \<and> list_all (\<lambda>s. \<not> blank s) (map the_str vs)"
  by (auto simp: nonblank_strs_def list_all_iff nonblank_the_str)

lemma policy_rule_init_ok:
  "policy_rule_init a b c d e f g h i j k = Inr r \<Longrightarrow> rule_ok r"
  by (auto simp: policy_rule_init_def res_simps rule_ok_def
      dest!: nonblank_strsD dest: nonblank_the_str split: if_splits option.splits)

lemma request_digest_binds:
  "request_digest q = Inr h \<Longrightarrow> \<exists>d. request_to_dict q = Inr d \<and> digest (JDict d) = Inr h"
  by (auto simp: request_digest_def res_simps)

end
