(* ===== verification/PyStr.thy ===== *)
theory PyStr
  imports Canonical
begin

text \<open>
  Text of Python values: \<open>str\<close>, \<open>repr\<close> (CPython 3.11), \<open>json.dumps\<close> with sorted keys and
  \<open>ensure_ascii=False\<close>, one field of \<open>csv.writer\<close> with the default dialect,
  \<open>urllib.parse.quote\<close> without safe characters and \<open>xml.sax.saxutils.escape\<close>.
\<close>

section \<open>Separated text\<close>

fun join_text :: "string \<Rightarrow> string list \<Rightarrow> string" where
  "join_text sep [] = []"
| "join_text sep [x] = x"
| "join_text sep (x # y # r) = x @ sep @ join_text sep (y # r)"

section \<open>\<open>repr\<close> and \<open>str\<close>\<close>

text \<open>The shortest digits, with an exponent of at least two digits outside \<open>1e-4 .. 1e16\<close>.\<close>

definition repr_pos :: "rat \<Rightarrow> string" where
  "repr_pos a = (case repr_digits a of (ds, p) \<Rightarrow>
     if p \<le> - 4 \<or> 16 < p
     then take 1 ds @ (if drop 1 ds = [] then [] else ''.'' @ drop 1 ds) @ ''e'' @ (if p - 1 < 0 then ''-'' else ''+'')
          @ (if \<bar>p - 1\<bar> < 10 then ''0'' else []) @ nat_str (nat \<bar>p - 1\<bar>)
     else if p \<le> 0 then ''0.'' @ replicate (nat (- p)) (CHR ''0'') @ ds
     else if int (length ds) \<le> p then ds @ replicate (nat p - length ds) (CHR ''0'') @ ''.0''
     else take (nat p) ds @ ''.'' @ drop (nat p) ds)"

definition repr_float :: "pyfloat \<Rightarrow> string" where
  "repr_float f = (case f of
      FFin r \<Rightarrow> if r = 0 then ''0.0'' else if r < 0 then CHR ''-'' # repr_pos (- r) else repr_pos r
    | FNan \<Rightarrow> ''nan'' | FInf \<Rightarrow> ''inf'' | FNegInf \<Rightarrow> ''-inf'')"

definition hex2 :: "nat \<Rightarrow> string" where
  "hex2 n = [hex_digit (n div 16 mod 16), hex_digit (n mod 16)]"

text \<open>The characters \<open>str.isprintable\<close> refuses: the controls, the no-break space and the soft hyphen.\<close>

definition repr_char :: "char \<Rightarrow> char \<Rightarrow> string" where
  "repr_char q c = (let n = of_char c :: nat in
     if c = q \<or> c = CHR 0x5C then [CHR 0x5C, c]
     else if n = 9 then [CHR 0x5C, CHR ''t'']
     else if n = 10 then [CHR 0x5C, CHR ''n'']
     else if n = 13 then [CHR 0x5C, CHR ''r'']
     else if n < 32 \<or> (127 \<le> n \<and> n \<le> 160) \<or> n = 173 then [CHR 0x5C, CHR ''x''] @ hex2 n
     else [c])"

definition repr_str :: "string \<Rightarrow> string" where
  "repr_str s =
     (let q = (if CHR 0x27 \<in> set s \<and> CHR 0x22 \<notin> set s then CHR 0x22 else CHR 0x27)
      in [q] @ concat (map (repr_char q) s) @ [q])"

fun py_repr :: "json \<Rightarrow> string" where
  "py_repr JNull = ''None''"
| "py_repr (JBool b) = (if b then ''True'' else ''False'')"
| "py_repr (JInt i) = int_str i"
| "py_repr (JFloat f) = repr_float f"
| "py_repr (JStr s) = repr_str s"
| "py_repr (JList xs) = ''['' @ join_text '', '' (map py_repr xs) @ '']''"
| "py_repr (JDict d) = ''{'' @ join_text '', '' (map (\<lambda>(k, v). repr_str k @ '': '' @ py_repr v) d) @ ''}''"

definition py_str :: "json \<Rightarrow> string" where
  "py_str v = (case v of JStr s \<Rightarrow> s | _ \<Rightarrow> py_repr v)"

lemma py_str_JStr [simp]: "py_str (JStr s) = s"
  by (simp add: py_str_def)

section \<open>\<open>json.dumps(..., sort_keys=True, ensure_ascii=False)\<close>\<close>

definition dumps_char :: "char \<Rightarrow> string" where
  "dumps_char c = (let n = of_char c :: nat in
     if n = 34 \<or> n = 92 then [CHR 0x5C, c]
     else if n = 8 then [CHR 0x5C, CHR ''b'']
     else if n = 9 then [CHR 0x5C, CHR ''t'']
     else if n = 10 then [CHR 0x5C, CHR ''n'']
     else if n = 12 then [CHR 0x5C, CHR ''f'']
     else if n = 13 then [CHR 0x5C, CHR ''r'']
     else if n < 32 then [CHR 0x5C, CHR ''u'', CHR ''0'', CHR ''0''] @ hex2 n
     else [c])"

definition dumps_str :: "string \<Rightarrow> string" where
  "dumps_str s = [CHR 0x22] @ concat (map dumps_char s) @ [CHR 0x22]"

definition dumps_float :: "pyfloat \<Rightarrow> string" where
  "dumps_float f = (case f of FNan \<Rightarrow> ''NaN'' | FInf \<Rightarrow> ''Infinity'' | FNegInf \<Rightarrow> ''-Infinity''
     | FFin _ \<Rightarrow> repr_float f)"

fun json_dumps :: "json \<Rightarrow> string" where
  "json_dumps JNull = ''null''"
| "json_dumps (JBool b) = (if b then ''true'' else ''false'')"
| "json_dumps (JInt i) = int_str i"
| "json_dumps (JFloat f) = dumps_float f"
| "json_dumps (JStr s) = dumps_str s"
| "json_dumps (JList xs) = ''['' @ join_text '', '' (map json_dumps xs) @ '']''"
| "json_dumps (JDict d) =
     ''{'' @ join_text '', '' (map (\<lambda>(k, t). dumps_str k @ '': '' @ t)
        (sort_key fst (map (\<lambda>(k, v). (k, json_dumps v)) d))) @ ''}''"

section \<open>Rows of \<open>csv.writer\<close>\<close>

definition csv_value :: "json \<Rightarrow> string" where
  "csv_value v = (if v = JNull then [] else py_str v)"

definition csv_special :: "char \<Rightarrow> bool" where
  "csv_special c \<longleftrightarrow> c = CHR '','' \<or> c = CHR 0x22 \<or> c = CHR 0x0A \<or> c = CHR 0x0D"

definition csv_field :: "string \<Rightarrow> string" where
  "csv_field s = (if list_ex csv_special s
     then [CHR 0x22] @ concat (map (\<lambda>c. if c = CHR 0x22 then [c, c] else [c]) s) @ [CHR 0x22] else s)"

text \<open>A row of at least two fields.\<close>

definition csv_row :: "json list \<Rightarrow> string" where
  "csv_row vs = join_text '','' (map (\<lambda>v. csv_field (csv_value v)) vs) @ [CHR 0x0D, CHR 0x0A]"

section \<open>\<open>quote(s, safe='')\<close>\<close>

definition unreserved :: "nat \<Rightarrow> bool" where
  "unreserved n \<longleftrightarrow> (48 \<le> n \<and> n \<le> 57) \<or> (65 \<le> n \<and> n \<le> 90) \<or> (97 \<le> n \<and> n \<le> 122)
     \<or> n = 45 \<or> n = 46 \<or> n = 95 \<or> n = 126"

definition upper_hex :: "nat \<Rightarrow> char" where
  "upper_hex n = (if n < 10 then char_of (48 + n) else char_of (55 + n))"

definition quote_byte :: "nat \<Rightarrow> string" where
  "quote_byte n = (if unreserved n then [char_of n] else [CHR 0x25, upper_hex (n div 16), upper_hex (n mod 16)])"

definition quote :: "string \<Rightarrow> string" where
  "quote s = concat (map quote_byte (concat (map (\<lambda>c. utf8 (of_char c)) s)))"

text \<open>Quoting is injective, and its text has no colon.\<close>

lemma concat_map_inject:
  assumes "\<And>a b u v. a \<in> A \<Longrightarrow> b \<in> A \<Longrightarrow> f a @ u = f b @ v \<Longrightarrow> a = b" "\<And>a. a \<in> A \<Longrightarrow> f a \<noteq> []"
    and "set xs \<subseteq> A" "set ys \<subseteq> A" "concat (map f xs) = concat (map f ys)"
  shows "xs = ys"
  using assms(3-5)
proof (induction xs arbitrary: ys)
  case Nil
  then show ?case using assms(2) by (cases ys) auto
next
  case (Cons x xs)
  show ?case
  proof (cases ys)
    case Nil
    then show ?thesis using Cons.prems assms(2) [of x] by simp
  next
    case (Cons y zs)
    then have "x = y" using Cons.prems assms(1) [of x y] by simp
    with Cons Cons.prems Cons.IH [of zs] show ?thesis by simp
  qed
qed

lemma upper_hex_inject: "m < 16 \<Longrightarrow> n < 16 \<Longrightarrow> upper_hex m = upper_hex n \<Longrightarrow> m = n"
  by (auto simp: upper_hex_def char_of_eq_iff take_bit_eq_mod split: if_splits)

lemma quote_byte_prefix:
  assumes "m < 256" "n < 256" "quote_byte m @ u = quote_byte n @ v"
  shows "m = n"
proof -
  have pct: "char_of k \<noteq> CHR 0x25" if "unreserved k" for k :: nat
    using that by (auto simp: unreserved_def char_of_eq_iff take_bit_eq_mod)
  have hx: "m = n" if "upper_hex (m div 16) = upper_hex (n div 16)" "upper_hex (m mod 16) = upper_hex (n mod 16)"
  proof -
    have "m div 16 < 16" "n div 16 < 16" using assms(1,2) by auto
    with that have "m div 16 = n div 16" "m mod 16 = n mod 16" using upper_hex_inject by auto
    then show ?thesis by (metis div_mult_mod_eq)
  qed
  have un: "m = n" if "char_of m = (char_of n :: char)"
    using that assms(1,2) by (simp add: char_of_eq_iff take_bit_eq_mod)
  from assms(3) show ?thesis
    using pct [of m] pct [of n] hx un by (cases "unreserved m"; cases "unreserved n") (auto simp: quote_byte_def)
qed

lemma utf8_byte: "c < 256 \<Longrightarrow> set (utf8 c) \<subseteq> {..<256}"
  by (auto simp: utf8_def)

lemma utf8_prefix: "a < 256 \<Longrightarrow> b < 256 \<Longrightarrow> utf8 a @ u = utf8 b @ v \<Longrightarrow> a = b"
proof -
  assume "a < 256" "b < 256" "utf8 a @ u = utf8 b @ v"
  moreover have "a div 64 = b div 64 \<Longrightarrow> a mod 64 = b mod 64 \<Longrightarrow> a = b"
    by (metis div_mult_mod_eq)
  ultimately show "a = b" by (auto simp: utf8_def split: if_splits)
qed

theorem quote_inject: "quote s = quote t \<longleftrightarrow> s = t"
proof
  let ?b = "\<lambda>s. concat (map (\<lambda>c. utf8 (of_char c)) s)"
  assume q: "quote s = quote t"
  have bytes: "set (?b s) \<subseteq> {..<256}" for s :: string
  proof -
    have "set (utf8 (of_char c)) \<subseteq> {..<256}" for c :: char by (rule utf8_byte) simp
    then show ?thesis by auto
  qed
  have "?b s = ?b t"
  proof (rule concat_map_inject [where A = "{..<256}" and f = quote_byte])
    show "a = b" if "a \<in> {..<256}" "b \<in> {..<256}" "quote_byte a @ u = quote_byte b @ v" for a b u v
      using that by (intro quote_byte_prefix [of a b u v]) simp_all
  qed (use q bytes in \<open>simp_all add: quote_def quote_byte_def\<close>)
  moreover have "utf8 (of_char c) \<noteq> []" for c :: char by (simp add: utf8_def)
  moreover have "utf8 (of_char c) @ u = utf8 (of_char d) @ v \<Longrightarrow> c = d" for c d :: char and u v
    using utf8_prefix [of "of_char c" "of_char d" u v] by simp
  ultimately show "s = t"
    using concat_map_inject [where A = UNIV and f = "\<lambda>c. utf8 (of_char c)" and xs = s and ys = t] by blast
qed simp

lemma quote_byte_plain: "n < 256 \<Longrightarrow> CHR '':'' \<notin> set (quote_byte n)"
proof -
  assume "n < 256"
  then have "n div 16 < 16" "n mod 16 < 16" by auto
  moreover have "upper_hex k \<noteq> CHR '':''" if "k < 16" for k
    using that by (auto simp: upper_hex_def char_of_eq_iff take_bit_eq_mod)
  moreover have "char_of k \<noteq> CHR '':''" if "unreserved k" for k :: nat
    using that by (auto simp: unreserved_def char_of_eq_iff take_bit_eq_mod)
  ultimately show ?thesis by (auto simp: quote_byte_def dest: sym)
qed

lemma quote_no_colon: "CHR '':'' \<notin> set (quote s)"
proof -
  have "n < 256" if "n \<in> set (utf8 (of_char c))" for n and c :: char
    using utf8_byte [of "of_char c"] that by auto
  then show ?thesis using quote_byte_plain by (auto simp: quote_def)
qed

section \<open>\<open>xml.sax.saxutils.escape\<close>\<close>

definition xml_escape :: "string \<Rightarrow> string" where
  "xml_escape s = concat (map (\<lambda>c. if c = CHR ''&'' then ''&amp;'' else if c = CHR ''>'' then ''&gt;''
     else if c = CHR ''<'' then ''&lt;'' else [c]) s)"

end
