(* ===== verification/CanonicalInj.thy ===== *)
theory CanonicalInj
  imports Canonical
begin

text \<open>
  The canonical encoding is unambiguous: two values with the same canonical bytes are the same
  value up to the order of dictionary members and the spelling of equal numbers
  (\<open>jequiv\<close>), and two values with the same digest are equivalent or exhibit a collision of
  SHA-256. The proof reads the text from the left: the text of a value, followed by something
  that cannot continue a number, determines the value and what follows.
\<close>

section \<open>Equivalence of values\<close>

inductive jequiv :: "json \<Rightarrow> json \<Rightarrow> bool" where
  jequiv_null: "jequiv JNull JNull"
| jequiv_bool: "jequiv (JBool b) (JBool b)"
| jequiv_str: "jequiv (JStr s) (JStr s)"
| jequiv_num: "number_text v = Inr t \<Longrightarrow> number_text w = Inr t \<Longrightarrow> jequiv v w"
| jequiv_list: "list_all2 jequiv xs ys \<Longrightarrow> jequiv (JList xs) (JList ys)"
| jequiv_dict: "list_all2 (rel_prod (=) jequiv)
      (sort_key (\<lambda>m. utf16_key (fst m)) d) (sort_key (\<lambda>m. utf16_key (fst m)) e) \<Longrightarrow>
    jequiv (JDict d) (JDict e)"

section \<open>Numbers\<close>

definition num_cp :: "nat \<Rightarrow> bool" where
  "num_cp c \<longleftrightarrow> (48 \<le> c \<and> c \<le> 57) \<or> c = 43 \<or> c = 45 \<or> c = 46 \<or> c = 101"

definition num_str :: "string \<Rightarrow> bool" where
  "num_str s \<longleftrightarrow> s \<noteq> [] \<and> list_all (\<lambda>c. num_cp (of_char c)) s"

lemma is_digit_num_cp: "is_digit c \<Longrightarrow> num_cp (of_char c)"
  by (simp add: is_digit_def num_cp_def Let_def)

lemma digits_num_cp: "list_all is_digit s \<Longrightarrow> list_all (\<lambda>c. num_cp (of_char c)) s"
  by (auto simp: list_all_iff is_digit_num_cp)

lemma int_str_num: "num_str (int_str i)"
  using digits_num_cp [OF nat_str_digits]
  by (auto simp: int_str_def num_str_def num_cp_def)

lemma repr_digits_num: "repr_digits q = (ds, p) \<Longrightarrow> list_all is_digit ds"
proof -
  assume "repr_digits q = (ds, p)"
  then obtain s where "ds = rev (dropWhile (\<lambda>c. c = CHR ''0'') (rev (nat_str s)))"
    by (auto simp: repr_digits_def Let_def split: prod.splits)
  with nat_str_digits [of s] show ?thesis
    by (auto simp: list_all_iff dest: set_dropWhileD)
qed

lemma num_cp_lits: "num_cp 43" "num_cp 45" "num_cp 46" "num_cp 101" "num_cp 48"
  by (simp_all add: num_cp_def)

lemma exp_text_num: "list_all is_digit ds \<Longrightarrow> num_str (sg @ exp_text ds p)"
  if "sg = '''' \<or> sg = ''-''"
  using that digits_num_cp [OF nat_str_digits, of "nat \<bar>p - 1\<bar>"] digits_num_cp [of ds]
  by (auto simp: exp_text_def num_str_def list_all_iff num_cp_lits
      dest!: in_set_takeD in_set_dropD)

lemma fixed_text_num: "list_all is_digit ds \<Longrightarrow> num_str (sg @ fixed_text ds p)"
  if "sg = '''' \<or> sg = ''-''"
  using that digits_num_cp [of ds]
  by (auto simp: fixed_text_def num_str_def list_all_iff num_cp_lits
      dest!: in_set_takeD in_set_dropD)

lemma float_text_num: "num_str (float_text v)"
proof -
  have sg: "(if v < 0 then ''-'' else '''') = '''' \<or> (if v < 0 then ''-'' else '''') = ''-''" by simp
  show ?thesis
    using exp_text_num [OF sg] fixed_text_num [OF sg] repr_digits_num int_str_num
    by (auto simp: float_text_def Let_def num_str_def num_cp_def split: prod.split)
qed

lemma number_text_num: "number_text v = Inr t \<Longrightarrow> num_str t"
  by (auto simp: number_text_def float_text_num int_str_num
      split: json.splits pyfloat.splits if_splits)

definition delim :: "nat list \<Rightarrow> bool" where
  "delim r \<longleftrightarrow> (r = [] \<or> \<not> num_cp (hd r))"

lemma num_split:
  assumes "num_str a" "num_str b" "delim r" "delim s" "cps_of a @ r = cps_of b @ s"
  shows "a = b \<and> r = s"
proof -
  have tw: "takeWhile num_cp (cps_of x @ y) = cps_of x" if "num_str x" "delim y" for x y
    using that by (cases y) (auto simp: num_str_def cps_of_def delim_def list_all_iff takeWhile_append)
  from tw [OF assms(1,3)] tw [OF assms(2,4)] assms(5) show ?thesis by simp
qed

section \<open>Strings\<close>

text \<open>Reading one escaped code point back.\<close>

definition unhex :: "nat \<Rightarrow> nat" where
  "unhex c = (if c < 58 then c - 48 else c - 87)"

definition unescape :: "cps \<Rightarrow> nat \<times> cps" where
  "unescape t = (if t ! 0 \<noteq> 92 then (t ! 0, drop 1 t)
     else if t ! 1 = 117 then (16 * unhex (t ! 4) + unhex (t ! 5), drop 6 t)
     else (if t ! 1 = 98 then 8 else if t ! 1 = 102 then 12 else if t ! 1 = 110 then 10
           else if t ! 1 = 114 then 13 else if t ! 1 = 116 then 9 else t ! 1, drop 2 t))"

lemma unhex_digit: "n < 16 \<Longrightarrow> unhex (of_char (hex_digit n)) = n"
  by (cases "n < 10") (simp_all add: unhex_def hex_digit_def)

lemma unescape_escape: "c < 256 \<Longrightarrow> unescape (escape_cp c @ r) = (c, r)"
proof (cases "c < 32 \<and> c \<noteq> 8 \<and> c \<noteq> 12 \<and> c \<noteq> 10 \<and> c \<noteq> 13 \<and> c \<noteq> 9")
  case True
  then have e: "escape_cp c = 92 # 117 # hex4 c" by (auto simp: escape_cp_def)
  have "c mod 16 < 16" "c div 16 mod 16 < 16" "c div 16 mod 16 = c div 16" using True by auto
  then have "16 * unhex (of_char (hex_digit (c div 16 mod 16))) + unhex (of_char (hex_digit (c mod 16))) = c"
    by (simp only: unhex_digit mult_div_mod_eq)
  then show ?thesis unfolding e by (simp add: unescape_def hex4_def cps_of_def)
next
  case False
  then have "32 \<le> c \<or> c = 8 \<or> c = 12 \<or> c = 10 \<or> c = 13 \<or> c = 9" by arith
  moreover have "32 \<le> c \<Longrightarrow> c < 256 \<Longrightarrow> escape_cp c = (if c = 34 \<or> c = 92 then [92, c] else [c])"
    by (simp add: escape_cp_def)
  moreover assume "c < 256"
  ultimately show ?thesis
    by (elim disjE) (simp_all add: unescape_def, simp_all add: escape_cp_def)
qed

lemma escape_split: "escape_cp c @ r = escape_cp d @ s \<Longrightarrow> c < 256 \<Longrightarrow> d < 256 \<Longrightarrow> c = d \<and> r = s"
  by (metis unescape_escape prod.inject)

lemma escape_start: "escape_cp c \<noteq> [] \<and> hd (escape_cp c) \<noteq> 34"
  by (simp add: escape_cp_def)

lemma escapes_split:
  assumes "list_all (\<lambda>c. c < 256) a" "list_all (\<lambda>c. c < 256) b"
    "concat (map escape_cp a) @ 34 # r = concat (map escape_cp b) @ 34 # s"
  shows "a = b \<and> r = s"
  using assms
proof (induction a arbitrary: b)
  case Nil
  then show ?case using escape_start [of "hd b"] by (cases b) (auto simp: hd_append, metis hd_append2 list.sel(1))
next
  case (Cons c a)
  show ?case
  proof (cases b)
    case Nil
    with Cons.prems escape_start [of c] show ?thesis
      by (auto, metis hd_append2 list.sel(1))
  next
    case (Cons d b')
    with Cons.prems have "escape_cp c @ (concat (map escape_cp a) @ 34 # r)
        = escape_cp d @ (concat (map escape_cp b') @ 34 # s)" and "c < 256" "d < 256" by auto
    from escape_split [OF this] Cons.IH [of b'] Cons.prems Cons show ?thesis by auto
  qed
qed

lemma cps_of_small: "list_all (\<lambda>c. c < 256) (cps_of s)"
proof -
  have "(of_char c :: nat) < 256" for c :: char
    using of_char_mod_256 [of c] by (metis mod_less_divisor zero_less_numeral)
  then show ?thesis by (auto simp: cps_of_def list_all_iff)
qed

lemma string_split: "string_cps (cps_of a) @ r = string_cps (cps_of b) @ s \<Longrightarrow> a = b \<and> r = s"
  using escapes_split [OF cps_of_small cps_of_small, of a r b s]
  by (simp add: string_cps_def)

section \<open>Sequences\<close>

lemma join_comma_Cons: "join_comma (t # ts) = t @ concat (map ((#) 44) ts)"
  by (induction ts arbitrary: t) auto

lemma tails_split:
  assumes step: "\<And>x y t u r s. x \<in> set xs \<Longrightarrow> f x = Inr t \<Longrightarrow> f y = Inr u \<Longrightarrow> t @ r = u @ s \<Longrightarrow>
        delim r \<Longrightarrow> delim s \<Longrightarrow> P x y \<and> r = s"
    and c: "c = 93 \<or> c = 125"
    and "rmapM f xs = Inr ts" "rmapM f ys = Inr us"
    and "concat (map ((#) 44) ts) @ c # r = concat (map ((#) 44) us) @ c # s"
  shows "list_all2 P xs ys \<and> r = s"
  using assms(1,3,4,5)
proof (induction xs arbitrary: ys ts us)
  case Nil
  then show ?case using c by (cases ys) (auto simp: res_simps)
next
  case (Cons x xs)
  from Cons.prems(2) obtain t ts' where t: "f x = Inr t" "rmapM f xs = Inr ts'" "ts = t # ts'"
    by (auto simp: res_simps)
  show ?case
  proof (cases ys)
    case Nil
    with Cons.prems t c show ?thesis by auto
  next
    case (Cons y ys')
    with Cons.prems(3) obtain u us' where u: "f y = Inr u" "rmapM f ys' = Inr us'" "us = u # us'"
      by (auto simp: res_simps)
    have d: "delim (concat (map ((#) 44) zs) @ c # q)" for zs q
      using c by (cases zs) (auto simp: delim_def num_cp_def)
    have "t @ (concat (map ((#) 44) ts') @ c # r) = u @ (concat (map ((#) 44) us') @ c # s)"
      using Cons.prems(4) t u by simp
    from Cons.prems(1) [OF _ t(1) u(1) this d d]
    have "P x y" "concat (map ((#) 44) ts') @ c # r = concat (map ((#) 44) us') @ c # s" by auto
    moreover from this(2) have "list_all2 P xs ys' \<and> r = s"
      by (rule Cons.IH [OF _ t(2) u(2), rotated]) (rule Cons.prems(1), auto)
    ultimately show ?thesis using Cons by simp
  qed
qed

lemma join_split:
  assumes step: "\<And>x y t u r s. x \<in> set xs \<Longrightarrow> f x = Inr t \<Longrightarrow> f y = Inr u \<Longrightarrow> t @ r = u @ s \<Longrightarrow>
        delim r \<Longrightarrow> delim s \<Longrightarrow> P x y \<and> r = s"
    and start: "\<And>x t. f x = Inr t \<Longrightarrow> t \<noteq> [] \<and> hd t \<noteq> 93 \<and> hd t \<noteq> 125"
    and c: "c = 93 \<or> c = 125"
    and ts: "rmapM f xs = Inr ts" and us: "rmapM f ys = Inr us"
    and eq: "join_comma ts @ c # r = join_comma us @ c # s"
  shows "list_all2 P xs ys \<and> r = s"
proof -
  have nonempty: "zs \<noteq> [] \<and> hd (join_comma zs @ q) \<noteq> c" if "rmapM f (z # l) = Inr zs" for z l zs q
    using that start c by (fastforce simp: res_simps join_comma_Cons hd_append)
  show ?thesis
  proof (cases "xs = [] \<or> ys = []")
    case True
    with ts us eq nonempty show ?thesis
      by (cases xs; cases ys) (auto, (metis list.sel(1))+)
  next
    case False
    then obtain x xs' y ys' where l: "xs = x # xs'" "ys = y # ys'" by (meson neq_Nil_conv)
    then obtain t ts' u us' where tu: "f x = Inr t" "rmapM f xs' = Inr ts'" "ts = t # ts'"
        "f y = Inr u" "rmapM f ys' = Inr us'" "us = u # us'"
      using ts us by (auto simp: res_simps)
    have d: "delim (concat (map ((#) 44) zs) @ c # q)" for zs q
      using c by (cases zs) (auto simp: delim_def num_cp_def)
    have "t @ (concat (map ((#) 44) ts') @ c # r) = u @ (concat (map ((#) 44) us') @ c # s)"
      using eq tu by (simp add: join_comma_Cons)
    from step [OF _ tu(1,4) this d d] l
    have 1: "P x y" and 2: "concat (map ((#) 44) ts') @ c # r = concat (map ((#) 44) us') @ c # s" by auto
    have "list_all2 P xs' ys' \<and> r = s"
      by (rule tails_split [OF _ c tu(2,5) 2]) (rule step, use l in auto)
    with 1 l show ?thesis by auto
  qed
qed

section \<open>Values\<close>

lemma rseq_jcs_list: "rseq (jcs_list xs) = rmapM jcs xs"
  by (induction xs) auto

lemma jcs_items_map: "jcs_items d = map (\<lambda>(k, v). (k, jcs v)) d"
  by (induction d) auto

lemma insort_key_map: "insort_key k (g x) (map g xs) = map g (insort_key (\<lambda>y. k (g y)) x xs)"
  by (induction xs) auto

lemma sort_key_map: "sort_key k (map g xs) = map g (sort_key (\<lambda>x. k (g x)) xs)"
  by (induction xs) (auto simp: insort_key_map)

definition member_jcs :: "string \<times> json \<Rightarrow> cps res" where
  "member_jcs m = rbind (jcs (snd m)) (\<lambda>u. Inr (string_cps (cps_of (fst m)) @ 58 # u))"

lemma rseq_map: "rseq (map f xs) = rmapM f xs"
  by (induction xs) auto

lemma jcs_dict:
  "jcs (JDict d) = rbind (rmapM member_jcs (sort_key (\<lambda>m. utf16_key (fst m)) d))
       (\<lambda>ts. Inr (123 # join_comma ts @ [125]))"
proof -
  have "map member_text (sort_key (\<lambda>m. utf16_key (fst m)) (jcs_items d))
      = map member_jcs (sort_key (\<lambda>m. utf16_key (fst m)) d)"
    by (simp add: jcs_items_map sort_key_map comp_def case_prod_beta member_text_def member_jcs_def)
  then show ?thesis by (simp add: rseq_map)
qed

lemma jcs_start: "jcs v = Inr t \<Longrightarrow> t \<noteq> [] \<and> hd t \<noteq> 93 \<and> hd t \<noteq> 125"
proof (cases v)
  case (JInt i)
  assume "jcs v = Inr t"
  with JInt obtain s where "num_str s" "t = cps_of s"
    using number_text_num by (auto simp: res_simps)
  then show ?thesis by (cases s) (auto simp: num_str_def num_cp_def cps_of_def)
next
  case (JFloat f)
  assume "jcs v = Inr t"
  with JFloat obtain s where "num_str s" "t = cps_of s"
    using number_text_num by (auto simp: res_simps)
  then show ?thesis by (cases s) (auto simp: num_str_def num_cp_def cps_of_def)
qed (auto simp: res_simps cps_of_def string_cps_def split: if_splits)

definition is_number :: "json \<Rightarrow> bool" where
  "is_number v \<longleftrightarrow> (\<exists>i. v = JInt i) \<or> (\<exists>f. v = JFloat f)"

lemma jcs_number: "is_number v \<Longrightarrow> jcs v = rbind (number_text v) (\<lambda>t. Inr (cps_of t))"
  by (auto simp: is_number_def)

text \<open>The first code point tells the kinds apart.\<close>

definition jkind :: "json \<Rightarrow> nat" where
  "jkind v = (case v of JNull \<Rightarrow> 110 | JBool b \<Rightarrow> (if b then 116 else 102) | JStr _ \<Rightarrow> 34
     | JList _ \<Rightarrow> 91 | JDict _ \<Rightarrow> 123 | _ \<Rightarrow> 48)"

lemma jcs_kind:
  "jcs v = Inr t \<Longrightarrow> (if is_number v then num_cp (hd (t @ r)) else hd (t @ r) = jkind v \<and> \<not> num_cp (hd (t @ r)))"
proof (cases "is_number v")
  case True
  assume "jcs v = Inr t"
  with True obtain s where "num_str s" "t = cps_of s"
    using number_text_num by (auto simp: jcs_number res_simps)
  with True show ?thesis by (cases s) (auto simp: num_str_def cps_of_def)
next
  case False
  assume "jcs v = Inr t"
  with False show ?thesis
    by (cases v) (auto simp: is_number_def jkind_def res_simps cps_of_def string_cps_def num_cp_def)
qed

lemma jkind_eq:
  "jkind v = jkind w \<Longrightarrow> \<not> is_number v \<Longrightarrow> \<not> is_number w \<Longrightarrow>
    (v = JNull \<and> w = JNull) \<or> (\<exists>b. v = JBool b \<and> w = JBool b) \<or> (\<exists>a b. v = JStr a \<and> w = JStr b)
    \<or> (\<exists>xs ys. v = JList xs \<and> w = JList ys) \<or> (\<exists>d e. v = JDict d \<and> w = JDict e)"
  by (cases v; cases w) (auto simp: jkind_def is_number_def split: if_splits)

lemma size_dict_member: "(k, v) \<in> set d \<Longrightarrow> size v < size (JDict d)"
  by (induction d) auto

lemma size_list_member: "v \<in> set xs \<Longrightarrow> size v < size (JList xs)"
  by (induction xs) auto

lemma jcs_split:
  "jcs v = Inr t \<Longrightarrow> jcs w = Inr u \<Longrightarrow> t @ r = u @ s \<Longrightarrow> delim r \<Longrightarrow> delim s \<Longrightarrow> jequiv v w \<and> r = s"
proof (induction v arbitrary: w t u r s rule: measure_induct_rule [of size])
  case (less v)
  note IH = less.IH and v = less.prems(1) and w = less.prems(2) and eq = less.prems(3)
  have k: "is_number v \<longleftrightarrow> is_number w" "\<not> is_number v \<Longrightarrow> jkind v = jkind w"
    using jcs_kind [OF v, of r] jcs_kind [OF w, of s] eq by (auto split: if_splits)
  show ?case
  proof (cases "is_number v")
    case True
    with k v w obtain a b where ab: "number_text v = Inr a" "t = cps_of a" "number_text w = Inr b" "u = cps_of b"
      by (auto simp: jcs_number res_simps)
    from num_split [of a b r s] ab eq less.prems(4,5) number_text_num have "a = b \<and> r = s" by auto
    with ab show ?thesis by (auto intro: jequiv_num)
  next
    case False
    then consider "v = JNull" "w = JNull" | b where "v = JBool b" "w = JBool b"
      | a b where "v = JStr a" "w = JStr b" | xs ys where "v = JList xs" "w = JList ys"
      | d e where "v = JDict d" "w = JDict e"
      using jkind_eq k by metis
    then show ?thesis
    proof cases
      case 3
      with v w eq have "string_cps (cps_of a) @ r = string_cps (cps_of b) @ s" by simp
      from string_split [OF this] 3 show ?thesis by (auto intro: jequiv_str)
    next
      case 4
      then obtain ts us where l: "rmapM jcs xs = Inr ts" "t = 91 # join_comma ts @ [93]"
          "rmapM jcs ys = Inr us" "u = 91 # join_comma us @ [93]"
        using v w by (auto simp: res_simps rseq_jcs_list)
      with eq have e': "join_comma ts @ 93 # r = join_comma us @ 93 # s" by simp
      have "list_all2 jequiv xs ys \<and> r = s"
        by (rule join_split [OF _ jcs_start _ l(1,3) e'])
          (use IH 4 size_list_member in blast)+
      with 4 show ?thesis by (auto intro: jequiv_list)
    next
      case 5
      let ?d = "sort_key (\<lambda>m. utf16_key (fst m)) d" and ?e = "sort_key (\<lambda>m. utf16_key (fst m)) e"
      from 5 obtain ts us where l: "rmapM member_jcs ?d = Inr ts" "t = 123 # join_comma ts @ [125]"
          "rmapM member_jcs ?e = Inr us" "u = 123 # join_comma us @ [125]"
        using v w by (auto simp: res_simps jcs_dict simp del: jcs.simps(7))
      with eq have e': "join_comma ts @ 125 # r = join_comma us @ 125 # s" by simp
      have step: "rel_prod (=) jequiv x y \<and> r' = s'"
        if x: "x \<in> set ?d" and mxy: "member_jcs x = Inr t'" "member_jcs y = Inr u'" and tu: "t' @ r' = u' @ s'"
          and dl: "delim r'" "delim s'" for x y t' u' r' s'
      proof -
        obtain a b where ab: "jcs (snd x) = Inr a" "t' = string_cps (cps_of (fst x)) @ 58 # a"
            "jcs (snd y) = Inr b" "u' = string_cps (cps_of (fst y)) @ 58 # b"
          using mxy by (auto simp: member_jcs_def res_simps)
        with tu have "string_cps (cps_of (fst x)) @ (58 # a @ r') = string_cps (cps_of (fst y)) @ (58 # b @ s')" by simp
        from string_split [OF this] have f: "fst x = fst y" and ar: "a @ r' = b @ s'" by auto
        have "size (snd x) < size v" using x 5 size_dict_member [of "fst x" "snd x" d] by simp
        from IH [OF this ab(1,3) ar dl] f show ?thesis by (simp add: rel_prod_sel)
      qed
      have st: "t' \<noteq> [] \<and> hd t' \<noteq> 93 \<and> hd t' \<noteq> 125" if "member_jcs x = Inr t'" for x t'
        using that by (auto simp: member_jcs_def res_simps string_cps_def)
      have "list_all2 (rel_prod (=) jequiv) ?d ?e \<and> r = s"
        by (rule join_split [OF step st _ l(1,3) e']) auto
      with 5 show ?thesis by (auto intro: jequiv_dict)
    qed (use v w eq in \<open>auto intro: jequiv.intros\<close>)
  qed
qed

section \<open>Bytes\<close>

lemma set_join_comma: "c \<in> set (join_comma ts) \<Longrightarrow> c = 44 \<or> (\<exists>t\<in>set ts. c \<in> set t)"
  by (induction ts rule: join_comma.induct) auto

lemma of_char_small: "(of_char c :: nat) < 256"
  using of_char_mod_256 [of c] by (metis mod_less_divisor zero_less_numeral)

lemma cps_small: "c \<in> set (cps_of s) \<Longrightarrow> c < 256"
  by (auto simp: cps_of_def of_char_small)

lemma hex_digit_printable: "n < 16 \<Longrightarrow> 32 \<le> (of_char (hex_digit n) :: nat)"
  by (cases "n < 10") (simp_all add: hex_digit_def)

lemma string_cps_chars: "c \<in> set (string_cps (cps_of s)) \<Longrightarrow> 32 \<le> c \<and> c < 256"
proof -
  have "32 \<le> c \<and> c < 256" if "c \<in> set (escape_cp d)" "d < 256" for d
  proof -
    have h: "x \<in> set (hex4 d) \<Longrightarrow> 32 \<le> x \<and> x < 256" for x
      by (auto simp: hex4_def cps_of_def of_char_small intro: hex_digit_printable)
    with that show ?thesis by (auto simp: escape_cp_def split: if_splits)
  qed
  then show "c \<in> set (string_cps (cps_of s)) \<Longrightarrow> 32 \<le> c \<and> c < 256"
    by (auto simp: string_cps_def dest: cps_small)
qed

lemma number_text_chars: "number_text v = Inr s \<Longrightarrow> c \<in> set (cps_of s) \<Longrightarrow> 32 \<le> c"
  using number_text_num [of v s] by (auto simp: num_str_def list_all_iff num_cp_def cps_of_def)

lemma jcs_chars: "jcs v = Inr t \<Longrightarrow> c \<in> set t \<Longrightarrow> 32 \<le> c \<and> c < 256"
proof (induction v arbitrary: t c rule: measure_induct_rule [of size])
  case (less v)
  show ?case
  proof (cases v)
    case (JList xs)
    with less.prems obtain ts where ts: "rmapM jcs xs = Inr ts" "t = 91 # join_comma ts @ [93]"
      by (auto simp: res_simps rseq_jcs_list)
    have "32 \<le> b \<and> b < 256" if "u \<in> set ts" "b \<in> set u" for u b
      using rmapM_set [OF ts(1) that(1)] less.IH size_list_member JList that(2) by blast
    with ts less.prems(2) show ?thesis by (auto dest: set_join_comma)
  next
    case (JDict d)
    with less.prems obtain ts where ts:
      "rmapM member_jcs (sort_key (\<lambda>m. utf16_key (fst m)) d) = Inr ts" "t = 123 # join_comma ts @ [125]"
      by (auto simp: res_simps jcs_dict simp del: jcs.simps(7))
    have "32 \<le> b \<and> b < 256" if "u \<in> set ts" "b \<in> set u" for u b
    proof -
      from rmapM_set [OF ts(1) that(1)] obtain m where m: "m \<in> set d" "member_jcs m = Inr u" by auto
      then have "size (snd m) < size v" using JDict size_dict_member [of "fst m" "snd m" d] by simp
      with m that(2) less.IH show ?thesis
        by (auto simp: member_jcs_def res_simps string_cps_chars)
    qed
    with ts less.prems(2) show ?thesis by (auto dest: set_join_comma)
  next
    case (JStr s)
    then show ?thesis using less.prems string_cps_chars by auto
  next
    case (JInt i)
    then show ?thesis using less.prems number_text_chars cps_small by (auto simp: res_simps)
  next
    case (JFloat f)
    then show ?thesis using less.prems number_text_chars cps_small by (auto simp: res_simps)
  qed (use less.prems in \<open>auto simp: cps_of_def split: if_splits\<close>)
qed

lemmas jcs_small = jcs_chars [THEN conjunct2]

section \<open>Bytes\<close>

lemma utf8_split: "utf8 c @ r = utf8 d @ s \<Longrightarrow> c < 0x800 \<Longrightarrow> d < 0x800 \<Longrightarrow> c = d \<and> r = s"
proof -
  assume eq: "utf8 c @ r = utf8 d @ s" and lt: "c < 0x800" "d < 0x800"
  have "c div 64 = d div 64 \<and> c mod 64 = d mod 64 \<Longrightarrow> c = d" by (metis div_mult_mod_eq)
  with eq lt show ?thesis by (auto simp: utf8_def split: if_splits)
qed

lemma utf8_nonempty: "utf8 c \<noteq> []"
  by (simp add: utf8_def)

lemma utf8_inject:
  "list_all (\<lambda>c. c < 256) a \<Longrightarrow> list_all (\<lambda>c. c < 256) b \<Longrightarrow>
    concat (map utf8 a) = concat (map utf8 b) \<Longrightarrow> a = b"
proof (induction a arbitrary: b)
  case Nil
  then show ?case using utf8_nonempty by (cases b) auto
next
  case (Cons c a)
  show ?case
  proof (cases b)
    case Nil
    with Cons.prems utf8_nonempty show ?thesis by auto
  next
    case (Cons d b')
    with Cons.prems have "utf8 c @ concat (map utf8 a) = utf8 d @ concat (map utf8 b')"
      "c < 0x800" "d < 0x800" by auto
    from utf8_split [OF this] Cons.IH [of b'] Cons.prems Cons show ?thesis by auto
  qed
qed

lemma of_nat_byte_inject:
  "\<forall>n\<in>set a. n < 256 \<Longrightarrow> \<forall>n\<in>set b. n < 256 \<Longrightarrow>
    (map of_nat a :: byte list) = map of_nat b \<Longrightarrow> a = b"
proof (induction a arbitrary: b)
  case (Cons m a)
  then obtain n b' where b: "b = n # b'" by (cases b) auto
  have eq: "(of_nat m :: byte) = of_nat n" "(map of_nat a :: byte list) = map of_nat b'"
    using Cons.prems(3) unfolding b by (simp_all only: list.map list.inject)
  from arg_cong [OF eq(1), of unat] have "m mod 256 = n mod 256" by (simp only: unat_of_nat) simp
  then have "m = n" using Cons.prems(1,2) b by simp
  moreover have "a = b'" by (rule Cons.IH [OF _ _ eq(2)]) (use Cons.prems(1,2) b in auto)
  ultimately show ?case using b by simp
qed auto

lemma encode_utf8_inject:
  assumes "list_all (\<lambda>c. c < 256) a" "list_all (\<lambda>c. c < 256) b" "encode_utf8 a = encode_utf8 b"
  shows "a = b"
proof -
  have "\<forall>n\<in>set (utf8 c). n < 256" if "c < 256" for c
  proof -
    have "192 + c div 64 < 256" "128 + c mod 64 < 256" using that by linarith+
    with that show ?thesis by (simp add: utf8_def)
  qed
  then have lt: "\<forall>n\<in>set (concat (map utf8 x)). n < 256" if "list_all (\<lambda>c. c < 256) x" for x
    using that by (auto simp: list_all_iff)
  show ?thesis
    using of_nat_byte_inject [OF lt [OF assms(1)] lt [OF assms(2)]] assms
    by (auto simp: encode_utf8_def intro: utf8_inject)
qed

section \<open>The encoding is unambiguous\<close>

lemma canonical_json_inject:
  assumes "canonical_json v = Inr b" "canonical_json w = Inr b"
  shows "jequiv v w"
proof -
  from assms obtain t u where tu: "jcs v = Inr t" "jcs w = Inr u" "encode_utf8 t = b" "encode_utf8 u = b"
    by (auto simp: canonical_json_def res_simps)
  have "list_all (\<lambda>c. c < 256) t" "list_all (\<lambda>c. c < 256) u"
    using tu jcs_small by (auto simp: list_all_iff)
  with tu encode_utf8_inject have "t = u" by auto
  with jcs_split [OF tu(1,2), of "[]" "[]"] show ?thesis by (simp add: delim_def)
qed

text \<open>
  Two given values exhibit a collision of SHA-256: their canonical texts differ and have one
  digest. Statements about identifiers name the two values; that some collision exists says
  nothing, there are more texts than digests.
\<close>

definition collide :: "json \<Rightarrow> json \<Rightarrow> bool" where
  "collide v w \<longleftrightarrow> (case (canonical_json v, canonical_json w) of
     (Inr x, Inr y) \<Rightarrow> sha_collision x y | _ \<Rightarrow> False)"

lemma digest_inject:
  assumes "digest v = Inr h" "digest w = Inr h"
  obtains "jequiv v w" | "collide v w"
proof -
  from assms obtain x y where xy: "canonical_json v = Inr x" "canonical_json w = Inr y"
      "sha256_hex x = sha256_hex y"
    by (auto simp: digest_def res_simps)
  with sha256_hex_eqD [OF xy(3)] canonical_json_inject that show ?thesis by (auto simp: collide_def)
qed

lemma content_id_inject:
  assumes "content_id p v = Inr h" "content_id p w = Inr h"
  obtains "jequiv v w" | "collide v w"
proof -
  from assms obtain x y where xy: "canonical_json v = Inr x" "canonical_json w = Inr y"
      "sha256_hex x = sha256_hex y"
    by (auto simp: content_id_def res_simps)
  with sha256_hex_eqD [OF xy(3)] canonical_json_inject that show ?thesis by (auto simp: collide_def)
qed

section \<open>Members of equivalent objects\<close>

lemma utf16_key_inject: "utf16_key a = utf16_key b \<longleftrightarrow> a = b"
proof -
  have be: "utf16_be (of_char c) = [0, of_char c]" for c :: char
  proof -
    have "(of_char c :: nat) < 65536" using nat_of_char_less_256 [of c] by linarith
    then show ?thesis by (simp add: utf16_be_def)
  qed
  have "a = b" if "utf16_key a = utf16_key b"
    using that
  proof (induction a arbitrary: b)
    case Nil
    then show ?case by (cases b) (auto simp: utf16_key_def cps_of_def be)
  next
    case (Cons c a)
    then show ?case by (cases b) (auto simp: utf16_key_def cps_of_def be)
  qed
  then show ?thesis by auto
qed

lemma map_of_filter_key: "map_of (filter (\<lambda>m. fst m = k) d) k = map_of d k"
  by (induction d) auto

lemma list_all2_rel_map_of:
  "list_all2 (rel_prod (=) R) xs ys \<Longrightarrow> rel_option R (map_of xs k) (map_of ys k)"
  by (induction rule: list_all2_induct) auto

lemma map_of_sort_key: "map_of (sort_key (\<lambda>m. utf16_key (fst m)) d) k = map_of d k"
proof -
  let ?f = "\<lambda>m. utf16_key (fst m)"
  have "filter (\<lambda>m. fst m = k) (sort_key ?f d) = filter (\<lambda>m. fst m = k) d"
    using sort_key_stable [of ?f "utf16_key k" d] by (simp add: utf16_key_inject)
  then show ?thesis by (metis map_of_filter_key)
qed

lemma jequiv_JDict_map_of:
  assumes "jequiv (JDict d) (JDict e)"
  shows "rel_option jequiv (map_of d k) (map_of e k)"
proof -
  have "list_all2 (rel_prod (=) jequiv) (sort_key (\<lambda>m. utf16_key (fst m)) d) (sort_key (\<lambda>m. utf16_key (fst m)) e)"
    using assms by (cases rule: jequiv.cases) (auto simp: number_text_def)
  from list_all2_rel_map_of [OF this, of k] show ?thesis by (simp add: map_of_sort_key)
qed

lemma jequiv_dget_str:
  assumes "jequiv (JDict d) (JDict e)" "dget d k = JStr s"
  shows "dget e k = JStr s"
  using jequiv_JDict_map_of [OF assms(1), of k] assms(2)
  by (auto simp: dget_def option_rel_Some1 split: option.splits elim!: jequiv.cases) (auto simp: number_text_def)
section \<open>Which values can be serialised\<close>

text \<open>Every number is safe.\<close>

fun serializable :: "json \<Rightarrow> bool" where
  "serializable (JInt i) = (- max_safe_integer \<le> i \<and> i \<le> max_safe_integer)"
| "serializable (JFloat f) = (\<exists>r. f = FFin r)"
| "serializable (JList xs) = list_all serializable xs"
| "serializable (JDict d) = list_all (\<lambda>(k, v). serializable v) d"
| "serializable _ = True"

lemma rseq_Inr_iff: "(\<exists>ys. rseq ms = Inr ys) \<longleftrightarrow> (\<forall>m\<in>set ms. \<exists>y. m = Inr y)"
proof (induction ms)
  case (Cons m ms)
  then show ?case by (cases m) (auto simp: res_simps)
qed simp

lemma member_text_Inr: "(\<exists>y. member_text m = Inr y) \<longleftrightarrow> (\<exists>y. snd m = Inr y)"
  by (cases m) (auto simp: member_text_def res_simps)

lemma jcs_total_iff:
  "(\<exists>t. jcs v = Inr t) \<longleftrightarrow> serializable v"
  "list_all (\<lambda>r. \<exists>t. r = Inr t) (jcs_list xs) \<longleftrightarrow> list_all serializable xs"
  "list_all (\<lambda>(k, r). \<exists>t. r = Inr t) (jcs_items d) \<longleftrightarrow> list_all (\<lambda>(k, v). serializable v) d"
proof (induction v and xs and d rule: jcs_jcs_list_jcs_items.induct)
  case (5 f)
  then show ?case by (cases f) (auto simp: number_text_def)
next
  case (6 xs)
  then show ?case using rseq_Inr_iff [of "jcs_list xs"] by (auto simp: res_simps list_all_iff)
next
  case (7 d)
  then show ?case
    using rseq_Inr_iff [of "map member_text (sort_key (\<lambda>m. utf16_key (fst m)) (jcs_items d))"]
    by (auto simp: res_simps list_all_iff member_text_Inr split_beta)
qed (auto simp: number_text_def res_simps)

lemma canonical_json_total: "(\<exists>b. canonical_json v = Inr b) \<longleftrightarrow> serializable v"
  using jcs_total_iff(1) [of v] by (auto simp: canonical_json_def res_simps)

lemma content_id_total: "serializable v \<Longrightarrow> \<exists>s. content_id p v = Inr s"
  using canonical_json_total [of v] by (auto simp: content_id_def)

lemma digest_total: "serializable v \<Longrightarrow> \<exists>s. digest v = Inr s"
  using canonical_json_total [of v] by (auto simp: digest_def)

end
