(* ===== verification/Crypto.thy ===== *)
theory Crypto
  imports CanonicalInj
begin

text \<open>
  \<open>crypto.py\<close>: base64url text, key identifiers and signed envelopes. The signature schemes
  are a third-party package (\<open>cryptography\<close>): verification is the parameter
  \<open>V\<close> of the operations (key type, raw public key, signature, message), and a private key
  is a record with its raw public key and its signing function. What the code relies on is the
  hypothesis \<open>good_key\<close>: keys and signatures have the documented lengths and a signature
  made with a key verifies under its public key.
\<close>

section \<open>base64url\<close>

definition b64_char :: "nat \<Rightarrow> char" where
  "b64_char n = char_of (if n < 26 then 65 + n else if n < 52 then 71 + n
     else if n < 62 then n - 4 else if n = 62 then 45 else 95)"

definition b64_val :: "char \<Rightarrow> nat option" where
  "b64_val c = (let n = of_char c in
     if 65 \<le> n \<and> n \<le> 90 then Some (n - 65)
     else if 97 \<le> n \<and> n \<le> 122 then Some (n - 71)
     else if 48 \<le> n \<and> n \<le> 57 then Some (n + 4)
     else if n = 45 then Some 62 else if n = 95 then Some 63 else None)"

text \<open>Bytes as numbers; the padding of the encoder is stripped, so a last group may be short.\<close>

definition sextets :: "nat \<Rightarrow> nat \<Rightarrow> nat \<Rightarrow> nat list" where
  "sextets a b c = [a div 4, a mod 4 * 16 + b div 16, b mod 16 * 4 + c div 64, c mod 64]"

definition octets :: "nat \<Rightarrow> nat \<Rightarrow> nat \<Rightarrow> nat \<Rightarrow> nat list" where
  "octets v w x y = [v * 4 + w div 16, w mod 16 * 16 + x div 4, x mod 4 * 64 + y]"

fun b64_encode :: "nat list \<Rightarrow> nat list" where
  "b64_encode [] = []"
| "b64_encode [a] = take 2 (sextets a 0 0)"
| "b64_encode [a, b] = take 3 (sextets a b 0)"
| "b64_encode (a # b # c # r) = sextets a b c @ b64_encode r"

fun b64_decode :: "nat list \<Rightarrow> nat list option" where
  "b64_decode [] = Some []"
| "b64_decode [v] = None"
| "b64_decode [v, w] = Some (take 1 (octets v w 0 0))"
| "b64_decode [v, w, x] = Some (take 2 (octets v w x 0))"
| "b64_decode (v # w # x # y # r) = map_option (\<lambda>t. octets v w x y @ t) (b64_decode r)"

definition b64url :: "byte list \<Rightarrow> string" where
  "b64url bs = map b64_char (b64_encode (map unat bs))"

definition b64_error :: exn where
  "b64_error = ValueError ''invalid base64url encoding''"

definition unb64url :: "string \<Rightarrow> byte list res" where
  "unb64url s =
     (if s = [] \<or> \<not> list_all (\<lambda>c. b64_val c \<noteq> None) s then Inl b64_error
      else case b64_decode (map (\<lambda>c. the (b64_val c)) s) of
        None \<Rightarrow> Inl b64_error
      | Some ns \<Rightarrow>
          let bs = map of_nat ns
          in if b64url bs \<noteq> s then Inl (ValueError ''non-canonical base64url encoding'')
             else Inr bs)"

lemma b64_val_char: "n < 64 \<Longrightarrow> b64_val (b64_char n) = Some n"
  by (auto simp: b64_val_def b64_char_def Let_def)

lemma sextets_bound: "a < 256 \<Longrightarrow> b < 256 \<Longrightarrow> c < 256 \<Longrightarrow> list_all (\<lambda>n. n < 64) (sextets a b c)"
proof -
  assume "a < 256" "b < 256" "c < 256"
  then have "a div 4 < 64" "b div 16 < 16" "c div 64 < 4" by (simp_all add: less_mult_imp_div_less)
  moreover have "a mod 4 * 16 \<le> 48" "b mod 16 * 4 \<le> 60" by simp_all
  ultimately have "a mod 4 * 16 + b div 16 < 64" "b mod 16 * 4 + c div 64 < 64" "a div 4 < 64"
    by linarith+
  then show ?thesis by (simp add: sextets_def)
qed

lemma b64_encode_bound: "list_all (\<lambda>n. n < 256) bs \<Longrightarrow> list_all (\<lambda>n. n < 64) (b64_encode bs)"
proof (induction bs rule: b64_encode.induct)
  case (2 a)
  then show ?case using sextets_bound [of a 0 0] by (auto simp: list_all_iff dest: in_set_takeD)
next
  case (3 a b)
  then show ?case using sextets_bound [of a b 0] by (auto simp: list_all_iff dest: in_set_takeD)
qed (auto simp: sextets_bound)

text \<open>Three bytes survive the way through four sextets.\<close>

lemma octets_sextets:
  assumes "b < 256" "c < 256"
  shows "octets (sextets a b c ! 0) (sextets a b c ! 1) (sextets a b c ! 2) (sextets a b c ! 3) = [a, b, c]"
proof -
  have lt: "b div 16 < 16" "c div 64 < 4" using assms by (simp_all add: less_mult_imp_div_less)
  have "(a mod 4 * 16 + b div 16) div 16 = a mod 4" "(a mod 4 * 16 + b div 16) mod 16 = b div 16"
    using lt by (metis add.commute div_mult_self3 div_less add_0 zero_neq_numeral, simp)
  moreover have "(b mod 16 * 4 + c div 64) div 4 = b mod 16" "(b mod 16 * 4 + c div 64) mod 4 = c div 64"
    using lt by (metis add.commute div_mult_self3 div_less add_0 zero_neq_numeral, simp)
  ultimately show ?thesis by (simp only: octets_def sextets_def) simp
qed

lemma sextets_cons: "sextets a b c = [sextets a b c ! 0, sextets a b c ! 1, sextets a b c ! 2, sextets a b c ! 3]"
  by (simp add: sextets_def)

lemma b64_decode_encode: "list_all (\<lambda>n. n < 256) bs \<Longrightarrow> b64_decode (b64_encode bs) = Some bs"
proof (induction bs rule: b64_encode.induct)
  case (2 a)
  have "b64_encode [a] = [sextets a 0 0 ! 0, sextets a 0 0 ! 1]" by (simp add: sextets_def)
  moreover have "sextets a 0 0 ! 2 = 0" "sextets a 0 0 ! 3 = 0" by (simp_all add: sextets_def)
  ultimately show ?case using octets_sextets [of 0 0 a] by simp
next
  case (3 a b)
  have "b64_encode [a, b] = [sextets a b 0 ! 0, sextets a b 0 ! 1, sextets a b 0 ! 2]" by (simp add: sextets_def)
  moreover have "sextets a b 0 ! 3 = 0" by (simp add: sextets_def)
  ultimately show ?case using 3 octets_sextets [of b 0 a] by simp
next
  case (4 a b c r)
  then have "octets (sextets a b c ! 0) (sextets a b c ! 1) (sextets a b c ! 2) (sextets a b c ! 3) = [a, b, c]"
    using octets_sextets by simp
  moreover have "b64_encode (a # b # c # r) =
      sextets a b c ! 0 # sextets a b c ! 1 # sextets a b c ! 2 # sextets a b c ! 3 # b64_encode r"
    using sextets_cons [of a b c] by simp
  ultimately show ?case using 4 by (simp only: b64_decode.simps) simp
qed simp

lemma unat_byte_less: "unat (b :: byte) < 256"
  using unsigned_less [of b, where 'a = nat] by simp

lemma b64url_chars: "list_all (\<lambda>c. b64_val c \<noteq> None) (b64url bs)"
proof -
  have "list_all (\<lambda>n. n < 64) (b64_encode (map unat bs))"
    by (rule b64_encode_bound) (simp add: list_all_iff unat_byte_less)
  then show ?thesis by (auto simp: b64url_def list_all_iff b64_val_char)
qed

lemma b64url_nonempty: "bs \<noteq> [] \<Longrightarrow> b64url bs \<noteq> []"
  by (cases "map unat bs" rule: b64_encode.cases) (auto simp: b64url_def sextets_def)

text \<open>What the encoder writes, the decoder reads back.\<close>

lemma unb64url_b64url: "bs \<noteq> [] \<Longrightarrow> unb64url (b64url bs) = Inr bs"
proof -
  assume ne: "bs \<noteq> []"
  have bnd: "list_all (\<lambda>n. n < 256) (map unat bs)" by (simp add: list_all_iff unat_byte_less)
  have "map (\<lambda>c. the (b64_val c)) (b64url bs) = b64_encode (map unat bs)"
    using b64_encode_bound [OF bnd] by (simp add: b64url_def list_all_iff b64_val_char map_idI)
  with b64_decode_encode [OF bnd]
  have "b64_decode (map (\<lambda>c. the (b64_val c)) (b64url bs)) = Some (map unat bs)" by simp
  moreover have "map of_nat (map unat bs) = bs" by (simp add: map_idI)
  ultimately show ?thesis
    using b64url_chars [of bs] b64url_nonempty [OF ne] by (simp add: unb64url_def Let_def)
qed

text \<open>Every accepted text is the canonical encoding of the bytes it denotes.\<close>

lemma unb64url_Inr: "unb64url s = Inr bs \<Longrightarrow> b64url bs = s"
  by (auto simp: unb64url_def Let_def split: if_splits option.splits)

section \<open>Keys\<close>

datatype key_type = Ed25519 | MLDSA65

type_synonym verifier = "key_type \<Rightarrow> byte list \<Rightarrow> byte list \<Rightarrow> byte list \<Rightarrow> bool"

record key_pair =
  kp_type :: key_type
  kp_public :: "byte list"
  kp_sign :: "byte list \<Rightarrow> byte list"

definition mldsa_name :: string where
  "mldsa_name = [CHR ''M'', CHR ''L''] @ ''-DSA-65''"

fun alg_name :: "key_type \<Rightarrow> string" where
  "alg_name Ed25519 = ''EdDSA''"
| "alg_name MLDSA65 = mldsa_name"

fun kid_prefix :: "key_type \<Rightarrow> string" where
  "kid_prefix Ed25519 = ''kinegrant:key:ed25519:''"
| "kid_prefix MLDSA65 = ''kinegrant:key:mldsa65:''"

fun public_length :: "key_type \<Rightarrow> nat" where
  "public_length Ed25519 = 32"
| "public_length MLDSA65 = 1952"

fun signature_length :: "key_type \<Rightarrow> nat" where
  "signature_length Ed25519 = 64"
| "signature_length MLDSA65 = 3309"

text \<open>\<open>key_id\<close> and the \<open>kid\<close> properties of the key pairs.\<close>

definition key_id :: "key_type \<Rightarrow> byte list \<Rightarrow> string" where
  "key_id kt raw = kid_prefix kt @ b64url raw"

definition kid :: "key_pair \<Rightarrow> string" where
  "kid k = key_id (kp_type k) (kp_public k)"

definition public_key_from_id :: "string \<Rightarrow> (key_type \<times> byte list) res" where
  "public_key_from_id s =
     (if startswith s ''kinegrant:key:ed25519:'' then
        rbind (unb64url (drop 22 s)) (\<lambda>raw.
          if length raw \<noteq> 32 then Inl (ValueError ''invalid Ed25519 public key length'')
          else Inr (Ed25519, raw))
      else if startswith s ''kinegrant:key:mldsa65:'' then
        rbind (unb64url (drop 22 s)) (\<lambda>raw.
          if length raw \<noteq> 1952 then Inl (ValueError ''invalid MLDSA65 public key length'')
          else Inr (MLDSA65, raw))
      else Inl (ValueError ''unsupported key identifier''))"

lemma public_key_from_id_kid:
  "length raw = public_length kt \<Longrightarrow> public_key_from_id (key_id kt raw) = Inr (kt, raw)"
proof -
  assume l: "length raw = public_length kt"
  then have ne: "raw \<noteq> []" by (cases kt) auto
  show ?thesis
    using l unb64url_b64url [OF ne]
    by (cases kt) (simp_all add: public_key_from_id_def key_id_def startswith_def)
qed

lemma public_key_from_id_Inr:
  assumes "public_key_from_id s = Inr (kt, raw)"
  shows "s = key_id kt raw \<and> length raw = public_length kt"
proof -
  have p: "s = q @ drop 22 s" if "startswith s q" "length q = 22" for q
    using startswithE [OF that(1)] that(2) by simp
  have l: "length ''kinegrant:key:ed25519:'' = 22" "length ''kinegrant:key:mldsa65:'' = 22" by simp_all
  consider "startswith s ''kinegrant:key:ed25519:''" "kt = Ed25519" "unb64url (drop 22 s) = Inr raw" "length raw = 32"
    | "startswith s ''kinegrant:key:mldsa65:''" "kt = MLDSA65" "unb64url (drop 22 s) = Inr raw" "length raw = 1952"
    using assms by (auto simp: public_key_from_id_def res_simps split: if_splits)
  then show ?thesis
  proof cases
    case 1
    with p [OF 1(1) l(1)] unb64url_Inr [OF 1(3)] show ?thesis by (simp add: key_id_def)
  next
    case 2
    with p [OF 2(1) l(2)] unb64url_Inr [OF 2(3)] show ?thesis by (simp add: key_id_def)
  qed
qed

section \<open>Envelopes\<close>

definition domain_tag :: "byte list" where
  "domain_tag = map of_char ''KINEGRANT-SIGNED-ENVELOPE-V1'' @ [0]"

definition protected_dict :: "string \<Rightarrow> string \<Rightarrow> dict \<Rightarrow> dict" where
  "protected_dict alg kd payload =
     [(''alg'', JStr alg), (''kid'', JStr kd), (''payload'', JDict payload)]"

text \<open>\<open>Ed25519KeyPair.sign_envelope\<close> and \<open>MLDSA65KeyPair.sign_envelope\<close>\<close>

definition sign_envelope :: "key_pair \<Rightarrow> dict \<Rightarrow> dict res" where
  "sign_envelope k payload =
     (let prot = protected_dict (alg_name (kp_type k)) (kid k) payload
      in rbind (canonical_json (JDict prot)) (\<lambda>b.
           Inr (prot @ [(''signature'', JStr (b64url (kp_sign k (domain_tag @ b))))])))"

definition invalid_signature :: exn where
  "invalid_signature = ValueError ''invalid signature''"

text \<open>The body of the \<open>try\<close> block of \<open>verify_envelope\<close>.\<close>

definition check_signature :: "verifier \<Rightarrow> string \<Rightarrow> string \<Rightarrow> dict \<Rightarrow> string \<Rightarrow> unit res" where
  "check_signature V alg kd payload signature =
     rbind (unb64url signature) (\<lambda>raw.
       if alg = ''EdDSA'' \<and> length raw \<noteq> 64 then Inl (ValueError ''invalid Ed25519 signature length'')
       else if alg = mldsa_name \<and> length raw \<noteq> 3309 then
         Inl (ValueError ''invalid MLDSA65 signature length'')
       else
         rbind (public_key_from_id kd) (\<lambda>(kt, pub).
           rbind (canonical_json (JDict (protected_dict alg kd payload))) (\<lambda>b.
             if V kt pub raw (domain_tag @ b) then Inr () else Inl invalid_signature)))"

definition verify_envelope :: "verifier \<Rightarrow> dict \<Rightarrow> dict res" where
  "verify_envelope V envelope =
     rbind (in_str_set (dget envelope ''alg'') [''EdDSA'', mldsa_name]) (\<lambda>known.
       if \<not> known then Inl (ValueError ''unsupported signature algorithm'')
       else case (dget envelope ''alg'', dget envelope ''kid'', dget envelope ''payload'',
                  dget envelope ''signature'') of
         (JStr alg, JStr kd, JDict payload, JStr signature) \<Rightarrow>
           (case check_signature V alg kd payload signature of
              Inr _ \<Rightarrow> Inr payload
            | Inl e \<Rightarrow> if is_ValueError e then Inl invalid_signature else Inl e)
       | _ \<Rightarrow> Inl (ValueError ''malformed signed envelope''))"

text \<open>The documented behaviour of the signature library for one key.\<close>

definition good_key :: "verifier \<Rightarrow> key_pair \<Rightarrow> bool" where
  "good_key V k \<longleftrightarrow>
     length (kp_public k) = public_length (kp_type k) \<and>
     (\<forall>m. length (kp_sign k m) = signature_length (kp_type k) \<and>
          V (kp_type k) (kp_public k) (kp_sign k m) m)"

lemma alg_name_iff:
  "alg_name kt = ''EdDSA'' \<longleftrightarrow> kt = Ed25519" "alg_name kt = mldsa_name \<longleftrightarrow> kt = MLDSA65"
  by (cases kt; simp add: mldsa_name_def)+

lemma alg_name_known: "alg_name kt \<in> set [''EdDSA'', mldsa_name]"
  by (cases kt) auto

lemma check_signature_ok:
  assumes "unb64url sig = Inr raw" "length raw = signature_length kt"
    "public_key_from_id kd = Inr (kt, pub)"
    "canonical_json (JDict (protected_dict (alg_name kt) kd payload)) = Inr b"
    "V kt pub raw (domain_tag @ b)"
  shows "check_signature V (alg_name kt) kd payload sig = Inr ()"
  using assms by (cases kt) (simp_all add: check_signature_def alg_name_iff del: alg_name.simps)

lemma verify_envelopeD:
  assumes "verify_envelope V env = Inr p"
  obtains alg kd sig raw kt pub b where
    "dget env ''alg'' = JStr alg" "dget env ''kid'' = JStr kd" "dget env ''payload'' = JDict p"
    "dget env ''signature'' = JStr sig" "unb64url sig = Inr raw"
    "kd = key_id kt pub" "length pub = public_length kt"
    "canonical_json (JDict (protected_dict alg kd p)) = Inr b" "V kt pub raw (domain_tag @ b)"
  using assms
  by (auto simp: verify_envelope_def check_signature_def res_simps
      split: json.splits sum.splits if_splits dest!: public_key_from_id_Inr)

lemma verify_envelope_kid: "verify_envelope V env = Inr p \<Longrightarrow> \<exists>s. dget env ''kid'' = JStr s"
  by (elim verify_envelopeD) auto

lemma sign_verify:
  assumes good: "good_key V k" and sgn: "sign_envelope k payload = Inr env"
  shows "verify_envelope V env = Inr payload" "dget env ''kid'' = JStr (kid k)"
    "dget env ''payload'' = JDict payload"
proof -
  from sgn obtain b where b: "canonical_json (JDict (protected_dict (alg_name (kp_type k)) (kid k) payload)) = Inr b"
    and env: "env = protected_dict (alg_name (kp_type k)) (kid k) payload
                @ [(''signature'', JStr (b64url (kp_sign k (domain_tag @ b))))]"
    by (auto simp: sign_envelope_def res_simps Let_def)
  show kd: "dget env ''kid'' = JStr (kid k)" and pl: "dget env ''payload'' = JDict payload"
    by (simp_all add: env protected_dict_def dget_def)
  have other: "dget env ''alg'' = JStr (alg_name (kp_type k))"
      "dget env ''signature'' = JStr (b64url (kp_sign k (domain_tag @ b)))"
    by (simp_all add: env protected_dict_def dget_def)
  have len: "length (kp_sign k m) = signature_length (kp_type k)" for m
    using good by (simp add: good_key_def)
  have "kp_sign k (domain_tag @ b) \<noteq> []"
    using len [of "domain_tag @ b"] by (cases "kp_type k") auto
  then have u: "unb64url (b64url (kp_sign k (domain_tag @ b))) = Inr (kp_sign k (domain_tag @ b))"
    by (rule unb64url_b64url)
  have pk: "public_key_from_id (kid k) = Inr (kp_type k, kp_public k)"
    using good by (simp add: kid_def good_key_def public_key_from_id_kid)
  have V: "V (kp_type k) (kp_public k) (kp_sign k m) m" for m
    using good by (simp add: good_key_def)
  have "check_signature V (alg_name (kp_type k)) (kid k) payload
      (b64url (kp_sign k (domain_tag @ b))) = Inr ()"
    by (rule check_signature_ok [OF u _ pk b]) (simp_all add: len V)
  then show "verify_envelope V env = Inr payload"
    using alg_name_known [of "kp_type k"]
    by (simp add: verify_envelope_def kd pl other del: alg_name.simps)
qed

lemma sign_envelope_total: "serializable (JDict p) \<Longrightarrow> \<exists>env. sign_envelope k p = Inr env"
proof -
  assume "serializable (JDict p)"
  then have "serializable (JDict (protected_dict (alg_name (kp_type k)) (kid k) p))"
    by (simp add: protected_dict_def)
  then obtain b where "canonical_json (JDict (protected_dict (alg_name (kp_type k)) (kid k) p)) = Inr b"
    using canonical_json_total by blast
  then show ?thesis by (simp add: sign_envelope_def Let_def)
qed

lemma sign_envelope_serializable:
  assumes "sign_envelope k p = Inr env"
  shows "serializable (JDict env)"
proof -
  from assms obtain b where b: "canonical_json (JDict (protected_dict (alg_name (kp_type k)) (kid k) p)) = Inr b"
    and e: "env = protected_dict (alg_name (kp_type k)) (kid k) p @ [(''signature'', JStr (b64url (kp_sign k (domain_tag @ b))))]"
    by (auto simp: sign_envelope_def res_simps Let_def)
  from b have "serializable (JDict (protected_dict (alg_name (kp_type k)) (kid k) p))" using canonical_json_total by blast
  then show ?thesis by (simp add: e)
qed

end
