(* ===== verification/Statement.thy ===== *)
theory Statement
  imports Crypto
begin

text \<open>
  What the signed statements of the program have in common (receipt checkpoints, device
  attestations, revocation bundles, policy bundles): a payload that carries its own content
  identifier and names its signer. The locale \<open>signed_statement\<close> states this contract of a
  verifier; its lemmas hold for every statement whose theory interprets it.
\<close>

text \<open>The payload an identifier covers: everything but the identifier itself.\<close>

definition statement_body :: "string \<Rightarrow> dict \<Rightarrow> json" where
  "statement_body id_field p = JDict (dwithout [id_field] p)"

definition content_addressed :: "string \<Rightarrow> string \<Rightarrow> dict \<Rightarrow> bool" where
  "content_addressed prefix id_field p \<longleftrightarrow>
     (\<exists>cid. content_id prefix (statement_body id_field p) = Inr cid \<and> dget p id_field = JStr cid)"

text \<open>The signature that an accepted envelope carries.\<close>

definition signed_by :: "verifier \<Rightarrow> dict \<Rightarrow> dict \<Rightarrow> string \<Rightarrow> bool" where
  "signed_by V env p s \<longleftrightarrow> (\<exists>kt pub alg sig b. s = key_id kt pub \<and> dget env ''kid'' = JStr s
     \<and> canonical_json (JDict (protected_dict alg s p)) = Inr b \<and> V kt pub sig (domain_tag @ b))"

lemma verify_envelope_signed_by:
  assumes "verify_envelope V env = Inr p"
  shows "\<exists>s. signed_by V env p s"
  using assms by (rule verify_envelopeD) (unfold signed_by_def, blast)

locale signed_statement =
  fixes verify :: "verifier \<Rightarrow> dict \<Rightarrow> 'o \<Rightarrow> 'r res"
    and prefix id_field signer_field :: string
  assumes accepted: "verify V env opts = Inr r \<Longrightarrow> \<exists>p. verify_envelope V env = Inr p
      \<and> content_addressed prefix id_field p \<and> dget p signer_field = dget env ''kid''"
begin

text \<open>An accepted statement is signed by the key its payload names.\<close>

lemma names_its_signer:
  assumes "verify V env opts = Inr r"
  shows "\<exists>p s. verify_envelope V env = Inr p \<and> dget p signer_field = JStr s \<and> signed_by V env p s"
proof -
  obtain p where p: "verify_envelope V env = Inr p" "dget p signer_field = dget env ''kid''"
    using accepted [OF assms] by blast
  from verify_envelope_signed_by [OF p(1)] obtain s where "signed_by V env p s" ..
  moreover from this have "dget env ''kid'' = JStr s" by (auto simp: signed_by_def)
  ultimately show ?thesis using p by metis
qed

text \<open>The identifier determines the content, or the two contents exhibit a collision of SHA-256.\<close>

lemma id_determines_content:
  assumes "verify V env opts = Inr r" "verify W env' opts' = Inr r'"
    and "verify_envelope V env = Inr p" "verify_envelope W env' = Inr q" "dget p id_field = dget q id_field"
  shows "jequiv (statement_body id_field p) (statement_body id_field q)
    \<or> collide (statement_body id_field p) (statement_body id_field q)"
proof -
  from accepted [OF assms(1)] accepted [OF assms(2)] assms(3-5) obtain cid where
    "content_id prefix (statement_body id_field p) = Inr cid" "content_id prefix (statement_body id_field q) = Inr cid"
    by (auto simp: content_addressed_def)
  then show ?thesis by (rule content_id_inject) auto
qed

end

text \<open>\<open>trusted is None or v in trusted\<close>\<close>

definition trusts :: "string list option \<Rightarrow> json \<Rightarrow> bool res" where
  "trusts trusted v = (case trusted of None \<Rightarrow> Inr True | Some ts \<Rightarrow> in_str_set v ts)"

lemma trusts_JStr [simp]: "trusts trusted (JStr s) = Inr (case trusted of None \<Rightarrow> True | Some ts \<Rightarrow> s \<in> set ts)"
  by (simp add: trusts_def split: option.splits)

lemma trusts_True [res_simps]:
  "trusts trusted v = Inr True \<longleftrightarrow> (\<forall>ts. trusted = Some ts \<longrightarrow> (\<exists>s\<in>set ts. v = JStr s))"
  by (auto simp: trusts_def res_simps split: option.splits)

text \<open>\<open>self.trusted_authorities or None\<close>: an empty set turns the check off.\<close>

definition set_or_none :: "string list \<Rightarrow> string list option" where
  "set_or_none ts = (if ts = [] then None else Some ts)"

text \<open>A statement as the builders make it: a body and its identifier, signed.\<close>

definition sign_statement :: "string \<Rightarrow> string \<Rightarrow> key_pair \<Rightarrow> dict \<Rightarrow> dict res" where
  "sign_statement prefix id_field k body =
     rbind (content_id prefix (JDict (dwithout [id_field] body))) (\<lambda>cid.
       sign_envelope k (dset body id_field (JStr cid)))"

lemma sign_statement_verifies:
  assumes "sign_statement prefix id_field k body = Inr env" "good_key V k" "\<not> dhas body id_field"
  obtains cid where "verify_envelope V env = Inr (body @ [(id_field, JStr cid)])" "dget env ''kid'' = JStr (kid k)"
    "content_id prefix (JDict (dwithout [id_field] (body @ [(id_field, JStr cid)]))) = Inr cid"
proof -
  from assms(1) obtain cid where cid: "content_id prefix (JDict (dwithout [id_field] body)) = Inr cid"
    and s: "sign_envelope k (dset body id_field (JStr cid)) = Inr env"
    by (auto simp: sign_statement_def res_simps)
  have "dwithout [id_field] (body @ [(id_field, JStr cid)]) = dwithout [id_field] body" by simp
  with cid sign_verify [OF assms(2) s] dset_new [OF assms(3)] show thesis by (intro that) auto
qed

lemma sign_statement_total:
  assumes "serializable (JDict body)" "\<not> dhas body id_field"
  shows "\<exists>env. sign_statement prefix id_field k body = Inr env"
proof -
  obtain cid where "content_id prefix (JDict (dwithout [id_field] body)) = Inr cid"
    using content_id_total [of "JDict body"] dwithout_absent [OF assms(2)] assms(1) by metis
  moreover have "serializable (JDict (dset body id_field (JStr cid)))"
    using assms dset_new [OF assms(2)] by (simp add: list_all_iff)
  ultimately show ?thesis using sign_envelope_total by (simp add: sign_statement_def)
qed

lemma sign_envelope_fields:
  "sign_envelope k p = Inr env \<Longrightarrow> map fst env = [''alg'', ''kid'', ''payload'', ''signature'']"
  by (auto simp: sign_envelope_def Let_def res_simps protected_dict_def)

lemma sign_statement_fields:
  "sign_statement prefix id_field k body = Inr env \<Longrightarrow> map fst env = [''alg'', ''kid'', ''payload'', ''signature'']"
  by (auto simp: sign_statement_def res_simps dest: sign_envelope_fields)

text \<open>A content identifier is its prefix, a colon and 64 hexadecimal digits.\<close>

lemma content_id_text:
  assumes "content_id prefix v = Inr s"
  obtains h where "s = prefix @ '':'' @ h" "length h = 64" "list_all is_lower_hex h"
  using assms hexdigest_lower by (auto simp: content_id_def res_simps sha256_hex_def)

end
