(* ===== verification/Revocation.thy ===== *)
theory Revocation
  imports Crypto PyTime "HOL-Library.AList"
begin

text \<open>
  \<open>revocation.py\<close>: revocation entries, the list of revoked capability ids and the signed
  bundle that distributes it. The list is an association list from ids to entries in insertion
  order, as the code's \<open>dict\<close> is.
\<close>

section \<open>Entries\<close>

record revocation_entry =
  re_id :: string
  re_reason :: json
  re_at :: datetime

definition revocation_entry_init :: "json \<Rightarrow> json \<Rightarrow> datetime \<Rightarrow> revocation_entry res" where
  "revocation_entry_init cid reason at_time =
     (if \<not> nonempty_str cid then Inl (ValueError ''capability_id must be a non-empty string'')
      else if reason \<noteq> JNull \<and> \<not> nonempty_str reason
        then Inl (ValueError ''reason must be a non-empty string or None'')
      else if naive at_time then Inl (ValueError ''revocation timestamps must include a timezone'')
      else Inr \<lparr>re_id = the_str cid, re_reason = reason, re_at = at_time\<rparr>)"

definition revocation_entry_to_dict :: "revocation_entry \<Rightarrow> dict res" where
  "revocation_entry_to_dict e =
     rbind (isoformat (re_at e)) (\<lambda>iso. Inr
       [(''capability_id'', JStr (re_id e)), (''reason'', re_reason e), (''at'', JStr iso)])"

text \<open>Subscripting anything but an object with a name raises \<open>TypeError\<close>.\<close>

definition revocation_entry_from_dict :: "json \<Rightarrow> revocation_entry res" where
  "revocation_entry_from_dict v = (case v of
      JDict d \<Rightarrow>
        rbind (dindex d ''capability_id'') (\<lambda>cid.
        rbind (dindex d ''at'') (\<lambda>at_value.
        rbind (parse_time at_value) (\<lambda>at_time.
          revocation_entry_init cid (dget d ''reason'') at_time)))
    | _ \<Rightarrow> Inl (TypeError ''object is not subscriptable''))"

section \<open>The list\<close>

type_synonym revocation_list = "(string \<times> revocation_entry) list"

definition rl_add :: "revocation_list \<Rightarrow> revocation_entry \<Rightarrow> revocation_list" where
  "rl_add m e = AList.update (re_id e) e m"

text \<open>\<open>RevocationList(entries)\<close>\<close>

definition revocation_list_init :: "revocation_entry list \<Rightarrow> revocation_list" where
  "revocation_list_init es = foldl rl_add [] es"

definition rl_entries :: "revocation_list \<Rightarrow> revocation_entry list" where
  "rl_entries m = map snd m"

definition revoke :: "revocation_list \<Rightarrow> json \<Rightarrow> json \<Rightarrow> datetime \<Rightarrow> (revocation_list \<times> revocation_entry) res" where
  "revoke m cid reason at_time =
     rbind (revocation_entry_init cid reason at_time) (\<lambda>e. Inr (rl_add m e, e))"

definition is_revoked :: "revocation_list \<Rightarrow> json \<Rightarrow> bool res" where
  "is_revoked m cid = (if cid = JNull then Inr False else in_str_set cid (map fst m))"

definition revocation_list_to_dict :: "revocation_list \<Rightarrow> dict res" where
  "revocation_list_to_dict m =
     rbind (rmapM revocation_entry_to_dict (rl_entries m)) (\<lambda>es. Inr
       [(''type'', JStr ''kinegrant:RevocationList''), (''schema_version'', JStr ''0.1''),
        (''entries'', JList (map JDict es))])"

definition revocation_list_from_dict :: "dict \<Rightarrow> revocation_list res" where
  "revocation_list_from_dict v =
     (if dget v ''type'' \<noteq> JStr ''kinegrant:RevocationList'' then Inl (ValueError ''wrong revocation list type'')
      else if dget v ''schema_version'' \<noteq> JStr ''0.1'' then Inl (ValueError ''unsupported revocation list version'')
      else case dget_or v ''entries'' (JList []) of
        JList es \<Rightarrow> rbind (rmapM revocation_entry_from_dict es) (\<lambda>rs. Inr (revocation_list_init rs))
      | _ \<Rightarrow> Inl (ValueError ''revocation entries must be an array''))"

definition revocation_list_digest :: "revocation_list \<Rightarrow> string res" where
  "revocation_list_digest m = rbind (revocation_list_to_dict m) (\<lambda>d. digest (JDict d))"

section \<open>Signed bundles\<close>

definition valid_version :: "json \<Rightarrow> bool" where
  "valid_version v \<longleftrightarrow> is_int_nb v \<and> 1 \<le> the_int v"

text \<open>\<open>x is not None and _SHA256_RE.fullmatch(x) is None\<close>\<close>

definition bad_previous :: "json \<Rightarrow> bool res" where
  "bad_previous v = (if v = JNull then Inr False else rbind (sha256_fullmatch v) (\<lambda>b. Inr (\<not> b)))"

definition build_revocation_bundle ::
  "revocation_list \<Rightarrow> json \<Rightarrow> json \<Rightarrow> json \<Rightarrow> datetime \<Rightarrow> dict res" where
  "build_revocation_bundle m issuer version previous issued_at =
     (if \<not> valid_version version then Inl (ValueError ''bundle version must be a positive integer'')
      else rbind (bad_previous previous) (\<lambda>bad.
        if bad then Inl (ValueError ''previous_bundle_digest must be a sha256 digest or None'')
        else if \<not> nonempty_str issuer then Inl (ValueError ''issuer must be a non-empty string'')
        else rbind (isoformat issued_at) (\<lambda>iso.
        rbind (rmapM revocation_entry_to_dict (rl_entries m)) (\<lambda>es.
        let body = [(''type'', JStr ''kinegrant:RevocationBundle''), (''schema_version'', JStr ''0.1''),
                    (''issuer'', issuer), (''version'', version), (''previous_bundle_digest'', previous),
                    (''issued_at'', JStr iso), (''revocations'', JList (map JDict es))]
        in rbind (content_id ''kinegrant:revocation-bundle'' (JDict (dwithout [''bundle_id''] body))) (\<lambda>cid.
          Inr (dset body ''bundle_id'' (JStr cid)))))))"

definition bundle_digest :: "dict \<Rightarrow> string res" where
  "bundle_digest d = digest (JDict d)"

definition sign_revocation_bundle :: "dict \<Rightarrow> key_pair \<Rightarrow> dict res" where
  "sign_revocation_bundle d k = sign_envelope k d"

definition verify_revocation_bundle ::
  "verifier \<Rightarrow> dict \<Rightarrow> string list option \<Rightarrow> string option \<Rightarrow> revocation_list res" where
  "verify_revocation_bundle V envelope trusted expected_previous =
     rbind (verify_envelope V envelope) (\<lambda>p.
     if dget p ''type'' \<noteq> JStr ''kinegrant:RevocationBundle'' then Inl (ValueError ''wrong revocation bundle type'')
     else if dget p ''schema_version'' \<noteq> JStr ''0.1'' then Inl (ValueError ''unsupported revocation bundle version'')
     else
     rbind (case trusted of None \<Rightarrow> Inr True | Some ts \<Rightarrow> in_str_set (dget p ''issuer'') ts) (\<lambda>ok.
     if \<not> ok then Inl (ValueError ''untrusted revocation authority'')
     else if \<not> py_eq (dget p ''issuer'') (dget envelope ''kid'')
       then Inl (ValueError ''revocation bundle issuer does not match signing key'')
     else if \<not> valid_version (dget p ''version'') then Inl (ValueError ''bundle version must be a positive integer'')
     else
     rbind (bad_previous (dget p ''previous_bundle_digest'')) (\<lambda>bad.
     if bad then Inl (ValueError ''previous_bundle_digest must be a sha256 digest or None'')
     else if (case expected_previous of None \<Rightarrow> False | Some s \<Rightarrow> dget p ''previous_bundle_digest'' \<noteq> JStr s)
       then Inl (ValueError ''previous bundle digest does not match the expected chain'')
     else
     rbind (content_id ''kinegrant:revocation-bundle'' (JDict (dwithout [''bundle_id''] p))) (\<lambda>cid.
     if dget p ''bundle_id'' \<noteq> JStr cid then Inl (ValueError ''revocation bundle identifier is inconsistent'')
     else case dget p ''revocations'' of
       JList rs \<Rightarrow> revocation_list_from_dict
         [(''type'', JStr ''kinegrant:RevocationList''), (''schema_version'', JStr ''0.1''),
          (''entries'', JList rs)]
     | _ \<Rightarrow> Inl (ValueError ''revocations must be an array'')))))"

section \<open>The list as a set of ids\<close>

definition entry_ok :: "revocation_entry \<Rightarrow> bool" where
  "entry_ok e \<longleftrightarrow> re_id e \<noteq> [] \<and> \<not> naive (re_at e) \<and> (re_reason e = JNull \<or> nonempty_str (re_reason e))"

definition rl_inv :: "revocation_list \<Rightarrow> bool" where
  "rl_inv m \<longleftrightarrow> distinct (map fst m) \<and> (\<forall>(k, e)\<in>set m. k = re_id e \<and> entry_ok e)"

lemma revocation_entry_init_ok: "revocation_entry_init c r t = Inr e \<Longrightarrow> entry_ok e"
  by (auto simp: revocation_entry_init_def entry_ok_def nonempty_str_iff split: if_splits)

lemma rl_inv_Nil [simp]: "rl_inv []"
  by (simp add: rl_inv_def)

lemma set_rl_add: "set (rl_add m e) \<subseteq> insert (re_id e, e) (set m)"
  unfolding rl_add_def by (induction m) auto

lemma rl_add_inv: "rl_inv m \<Longrightarrow> entry_ok e \<Longrightarrow> rl_inv (rl_add m e)"
proof -
  assume inv: "rl_inv m" and e: "entry_ok e"
  have "distinct (map fst (rl_add m e))"
    using inv by (auto simp: rl_inv_def rl_add_def intro: distinct_update)
  moreover have "k = re_id x \<and> entry_ok x" if "(k, x) \<in> set (rl_add m e)" for k x
    using that set_rl_add [of m e] inv e by (auto simp: rl_inv_def)
  ultimately show ?thesis by (auto simp: rl_inv_def)
qed
lemma revoke_inv: "rl_inv m \<Longrightarrow> revoke m c r t = Inr (m', e) \<Longrightarrow> rl_inv m'"
  by (auto simp: revoke_def res_simps intro: rl_add_inv revocation_entry_init_ok)

lemma fst_set_rl_add: "fst ` set (rl_add m e) = insert (re_id e) (fst ` set m)"
  by (auto simp: rl_add_def dom_map_of_conv_image_fst [symmetric] update_conv')

lemma fst_set_foldl: "fst ` set (foldl rl_add m es) = fst ` set m \<union> re_id ` set es"
  by (induction es arbitrary: m) (auto simp: fst_set_rl_add)

lemma is_revoked_JStr [simp]: "is_revoked m (JStr s) = Inr (s \<in> fst ` set m)"
  by (simp add: is_revoked_def)

lemma revoke_is_revoked:
  "revoke m c r t = Inr (m', e) \<Longrightarrow> is_revoked m' (JStr s) = Inr (s = the_str c \<or> s \<in> fst ` set m)"
proof -
  assume "revoke m c r t = Inr (m', e)"
  then have "re_id e = the_str c" "m' = rl_add m e"
    by (auto simp: revoke_def res_simps revocation_entry_init_def split: if_splits)
  then show ?thesis using fst_set_rl_add [of m e] by simp
qed

lemma init_distinct:
  "distinct (map re_id es) \<Longrightarrow> revocation_list_init es = map (\<lambda>e. (re_id e, e)) es"
proof -
  have "foldl rl_add m es = m @ map (\<lambda>e. (re_id e, e)) es"
    if "distinct (map re_id es)" "fst ` set m \<inter> re_id ` set es = {}" for m
    using that
  proof (induction es arbitrary: m)
    case (Cons e es)
    then have "re_id e \<notin> fst ` set m" by auto
    then have "rl_add m e = m @ [(re_id e, e)]"
      unfolding rl_add_def by (induction m) auto
    with Cons show ?case by auto
  qed simp
  from this [of "[]"] show "distinct (map re_id es) \<Longrightarrow> ?thesis" by (simp add: revocation_list_init_def)
qed

section \<open>Round trip of a bundle\<close>

lemma entry_roundtrip:
  assumes "entry_ok e" "utc_time (re_at e)" "revocation_entry_to_dict e = Inr d"
  shows "revocation_entry_from_dict (JDict d) = Inr e"
proof -
  obtain s where s: "isoformat (re_at e) = Inr s" "parse_time (JStr s) = Inr (re_at e)"
    using utc_time_iso [OF assms(2)] by blast
  with assms(3) have d: "d = [(''capability_id'', JStr (re_id e)), (''reason'', re_reason e), (''at'', JStr s)]"
    by (simp add: revocation_entry_to_dict_def)
  have "revocation_entry_init (JStr (re_id e)) (re_reason e) (re_at e) = Inr e"
    using assms(1) by (cases e) (auto simp: revocation_entry_init_def entry_ok_def)
  then show ?thesis by (simp add: revocation_entry_from_dict_def d dict_simps s)
qed

lemma entries_roundtrip:
  assumes "\<forall>e\<in>set es. entry_ok e \<and> utc_time (re_at e)" "rmapM revocation_entry_to_dict es = Inr ds"
  shows "rmapM revocation_entry_from_dict (map JDict ds) = Inr es"
  using assms by (induction es arbitrary: ds) (auto simp: res_simps entry_roundtrip)

lemma rl_inv_map: "rl_inv m \<Longrightarrow> map (\<lambda>e. (re_id e, e)) (rl_entries m) = m \<and> distinct (map re_id (rl_entries m))
    \<and> (\<forall>e\<in>set (rl_entries m). entry_ok e)"
proof -
  assume a: "rl_inv m"
  then have "map (\<lambda>e. (re_id e, e)) (map snd m) = m" by (auto simp: rl_inv_def intro!: map_idI)
  moreover have "map re_id (map snd m) = map fst m" using a by (auto simp: rl_inv_def)
  moreover have "\<forall>e\<in>set (map snd m). entry_ok e" using a by (auto simp: rl_inv_def)
  ultimately show ?thesis using a unfolding rl_entries_def rl_inv_def by metis
qed

lemma list_dict_roundtrip:
  assumes "rl_inv m" "\<forall>e\<in>set (rl_entries m). utc_time (re_at e)" "revocation_list_to_dict m = Inr d"
  shows "revocation_list_from_dict d = Inr m"
proof -
  from assms(3) obtain es where es: "rmapM revocation_entry_to_dict (rl_entries m) = Inr es"
    and d: "d = [(''type'', JStr ''kinegrant:RevocationList''), (''schema_version'', JStr ''0.1''),
        (''entries'', JList (map JDict es))]"
    by (auto simp: revocation_list_to_dict_def res_simps)
  have m: "map (\<lambda>e. (re_id e, e)) (rl_entries m) = m" "distinct (map re_id (rl_entries m))"
    "\<forall>e\<in>set (rl_entries m). entry_ok e"
    using rl_inv_map [OF assms(1)] by blast+
  then have "rmapM revocation_entry_from_dict (map JDict es) = Inr (rl_entries m)"
    using assms(2) es by (intro entries_roundtrip) auto
  then show ?thesis using m by (simp add: revocation_list_from_dict_def d dict_simps init_distinct)
qed

lemma bundle_roundtrip:
  assumes key: "good_key V k" and inv: "rl_inv m" "\<forall>e\<in>set (rl_entries m). utc_time (re_at e)"
    and build: "build_revocation_bundle m (JStr (kid k)) version previous issued_at = Inr b"
    and sgn: "sign_revocation_bundle b k = Inr env" and tr: "\<And>ts. trusted = Some ts \<Longrightarrow> kid k \<in> set ts"
    and ex: "\<And>s. expected = Some s \<Longrightarrow> previous = JStr s"
  shows "verify_revocation_bundle V env trusted expected = Inr m"
proof -
  from build obtain iso es body cid where v: "valid_version version" and prev: "bad_previous previous = Inr False"
    and es: "rmapM revocation_entry_to_dict (rl_entries m) = Inr es"
    and body: "body = [(''type'', JStr ''kinegrant:RevocationBundle''), (''schema_version'', JStr ''0.1''),
                    (''issuer'', JStr (kid k)), (''version'', version), (''previous_bundle_digest'', previous),
                    (''issued_at'', JStr iso), (''revocations'', JList (map JDict es))]"
    and cid: "content_id ''kinegrant:revocation-bundle'' (JDict body) = Inr cid"
    and b: "b = body @ [(''bundle_id'', JStr cid)]"
    by (auto simp: build_revocation_bundle_def Let_def res_simps dwithout_def split: if_splits)
  have env: "verify_envelope V env = Inr b" "dget env ''kid'' = JStr (kid k)"
    using sign_verify [OF key] sgn by (auto simp: sign_revocation_bundle_def)
  have "dwithout [''bundle_id''] b = body" by (simp add: b body dwithout_def)
  moreover have "revocation_list_from_dict [(''type'', JStr ''kinegrant:RevocationList''),
      (''schema_version'', JStr ''0.1''), (''entries'', JList (map JDict es))] = Inr m"
    using list_dict_roundtrip [OF inv] es by (simp add: revocation_list_to_dict_def)
  ultimately show ?thesis
    using v prev cid tr ex env
    by (auto simp: verify_revocation_bundle_def b body dict_simps split: option.splits)
qed

text \<open>What a bundle that verifies is: signed by its issuer, content-addressed, well-formed.\<close>

lemma verify_revocation_bundleD:
  assumes "verify_revocation_bundle V env trusted expected = Inr m"
  obtains p issuer cid rs es where "verify_envelope V env = Inr p" "dget p ''issuer'' = JStr issuer"
    "dget env ''kid'' = JStr issuer" "\<And>ts. trusted = Some ts \<Longrightarrow> issuer \<in> set ts"
    "content_id ''kinegrant:revocation-bundle'' (JDict (dwithout [''bundle_id''] p)) = Inr cid"
    "dget p ''bundle_id'' = JStr cid" "dget p ''revocations'' = JList rs"
    "rmapM revocation_entry_from_dict rs = Inr es" "m = revocation_list_init es"
    "\<And>s. expected = Some s \<Longrightarrow> dget p ''previous_bundle_digest'' = JStr s"
proof -
  have "\<exists>p cid rs es. verify_envelope V env = Inr p \<and> py_eq (dget p ''issuer'') (dget env ''kid'')
    \<and> (case trusted of None \<Rightarrow> True | Some ts \<Rightarrow> in_str_set (dget p ''issuer'') ts = Inr True)
    \<and> content_id ''kinegrant:revocation-bundle'' (JDict (dwithout [''bundle_id''] p)) = Inr cid
    \<and> dget p ''bundle_id'' = JStr cid \<and> dget p ''revocations'' = JList rs
    \<and> rmapM revocation_entry_from_dict rs = Inr es \<and> m = revocation_list_init es
    \<and> (case expected of None \<Rightarrow> True | Some s \<Rightarrow> dget p ''previous_bundle_digest'' = JStr s)"
    using assms unfolding verify_revocation_bundle_def revocation_list_from_dict_def
    by (elim res_elims) (auto simp: dict_simps split: option.splits)
  then obtain p cid rs es where *: "verify_envelope V env = Inr p" "py_eq (dget p ''issuer'') (dget env ''kid'')"
    "case trusted of None \<Rightarrow> True | Some ts \<Rightarrow> in_str_set (dget p ''issuer'') ts = Inr True"
    "content_id ''kinegrant:revocation-bundle'' (JDict (dwithout [''bundle_id''] p)) = Inr cid"
    "dget p ''bundle_id'' = JStr cid" "dget p ''revocations'' = JList rs"
    "rmapM revocation_entry_from_dict rs = Inr es" "m = revocation_list_init es"
    "case expected of None \<Rightarrow> True | Some s \<Rightarrow> dget p ''previous_bundle_digest'' = JStr s"
    by blast
  obtain s where s: "dget env ''kid'' = JStr s" using verify_envelope_kid [OF *(1)] by blast
  with *(2) have i: "dget p ''issuer'' = JStr s" by simp
  show thesis
    by (rule that [OF *(1) i s _ *(4-8)]) (use *(3,9) i in auto)
qed

end
