(* ===== verification/PolicyBundle.thy ===== *)
theory PolicyBundle
  imports Statement Models Revocation
begin

text \<open>
  \<open>policy_bundle.py\<close>, first part: the canonical rules of a bundle, building, signing and
  verifying it. The clock readings \<open>issued_at or utc_now()\<close> and \<open>now or utc_now()\<close> are
  arguments. A rule whose \<open>constraints\<close> or \<open>source\<close> is a list of pairs is converted as
  \<open>dict(pairs)\<close> does; pairs with keys that are not text are outside the model (they raise).
\<close>

section \<open>Rules\<close>

definition rules_digest :: "json \<Rightarrow> string res" where
  "rules_digest rules = digest (JDict [(''rules'', rules)])"

text \<open>One element of \<open>dict(iterable)\<close>.\<close>

definition dict_pair :: "json \<Rightarrow> (string \<times> json) res" where
  "dict_pair x = rbind (py_iter x) (\<lambda>kv. case kv of
      [k, v] \<Rightarrow> (case k of JStr s \<Rightarrow> Inr (s, v) | _ \<Rightarrow> Inl (TypeError ''key is not text''))
    | _ \<Rightarrow> Inl (ValueError ''dictionary update sequence element has the wrong length''))"

definition py_dict :: "json \<Rightarrow> dict res" where
  "py_dict x = (case x of
      JDict d \<Rightarrow> Inr d
    | _ \<Rightarrow> rbind (py_iter x) (\<lambda>xs. rbind (rmapM dict_pair xs) (\<lambda>ps.
        Inr (foldl (\<lambda>d (k, v). dset d k v) [] ps))))"

definition any_star :: json where
  "any_star = JList [JStr ''*'']"

text \<open>The body of the \<open>try\<close> block of \<open>_rule_from_dict\<close>.\<close>

definition rule_of_fields :: "dict \<Rightarrow> policy_rule res" where
  "rule_of_fields d =
     rbind (dindex d ''policy_id'') (\<lambda>pid.
     rbind (dindex d ''issuer'') (\<lambda>issuer.
     rbind (dindex d ''target'') (\<lambda>target.
     rbind (dindex d ''effect'') (\<lambda>eff.
     rbind (rbind (dindex d ''actions'') py_iter) (\<lambda>actions.
     rbind (py_iter (dget_or d ''subjects'' any_star)) (\<lambda>subjects.
     rbind (py_iter (dget_or d ''purposes'' any_star)) (\<lambda>purposes.
     rbind (py_dict (dget_or d ''constraints'' (JDict []))) (\<lambda>constraints.
     rbind (py_iter (dget_or d ''obligations'' (JList []))) (\<lambda>obligations.
     rbind (py_dict (dget_or d ''source'' (JDict []))) (\<lambda>source.
       policy_rule_init pid issuer target eff actions subjects purposes (JDict constraints)
         obligations (dget_or d ''priority'' (JInt 0)) (JDict source)))))))))))"

definition rule_from_dict :: "json \<Rightarrow> policy_rule res" where
  "rule_from_dict v = (case v of
      JDict d \<Rightarrow>
        (case rule_of_fields d of
           Inr r \<Rightarrow> Inr r
         | Inl e \<Rightarrow> if is_KeyError e \<or> is_TypeError e \<or> is_ValueError e
                    then Inl (ValueError ''invalid policy rule: '') else Inl e)
    | _ \<Rightarrow> Inl (ValueError ''each policy rule must be an object''))"

definition rule_json :: "policy_rule \<Rightarrow> json" where
  "rule_json r = JDict (rule_to_dict r)"

section \<open>Building and signing\<close>

definition validate_window :: "datetime \<Rightarrow> datetime \<Rightarrow> unit res" where
  "validate_window lower upper =
     (if naive lower \<or> naive upper then Inl (ValueError ''policy bundle times must include a timezone'')
      else if dt_us upper \<le> dt_us lower then Inl (ValueError ''not_after must be after not_before'')
      else Inr ())"

definition bundle_body ::
  "json \<Rightarrow> json \<Rightarrow> json \<Rightarrow> json \<Rightarrow> string \<Rightarrow> string \<Rightarrow> string \<Rightarrow> json list \<Rightarrow> dict" where
  "bundle_body policy issuer version previous issued lower upper rules =
     [(''type'', JStr ''kinegrant:PolicyBundle''), (''schema_version'', JStr ''0.1''),
      (''policy_id'', policy), (''issuer'', issuer), (''version'', version),
      (''previous_version_digest'', previous), (''issued_at'', JStr issued),
      (''not_before'', JStr lower), (''not_after'', JStr upper), (''rules'', JList rules)]"

definition build_policy_bundle ::
  "json \<Rightarrow> policy_rule list \<Rightarrow> json \<Rightarrow> json \<Rightarrow> json \<Rightarrow> datetime \<Rightarrow> datetime option \<Rightarrow> datetime option \<Rightarrow> dict res" where
  "build_policy_bundle policy rules issuer version previous now not_before not_after =
     (if \<not> nonblank_str policy then Inl (ValueError ''policy_id must be a non-empty string'')
      else if \<not> nonblank_str issuer then Inl (ValueError ''issuer must be a non-empty string'')
      else if \<not> valid_version version then Inl (ValueError ''bundle version must be a positive integer'')
      else
      rbind (bad_previous previous) (\<lambda>bad.
      if bad then Inl (ValueError ''previous_version_digest must be a sha256 digest or None'')
      else if rules = [] then Inl (ValueError ''a policy bundle must contain at least one rule'')
      else let lower = (case not_before of None \<Rightarrow> now | Some t \<Rightarrow> t) in
      case not_after of
        None \<Rightarrow> Inl (ValueError ''not_after is required'')
      | Some upper \<Rightarrow>
          rbind (validate_window lower upper) (\<lambda>_.
          rbind (isoformat now) (\<lambda>issued.
          rbind (isoformat lower) (\<lambda>lo.
          rbind (isoformat upper) (\<lambda>up.
          let values = map rule_json rules;
              body = bundle_body policy issuer version previous issued lo up values in
          rbind (rules_digest (JList values)) (\<lambda>pd.
          let body = dset body ''policy_digest'' (JStr pd) in
          rbind (content_id ''kinegrant:policy-bundle'' (JDict (dwithout [''bundle_id''] body))) (\<lambda>cid.
            Inr (dset body ''bundle_id'' (JStr cid))))))))))"

definition sign_policy_bundle :: "dict \<Rightarrow> key_pair \<Rightarrow> dict res" where
  "sign_policy_bundle body k =
     (if dget body ''type'' \<noteq> JStr ''kinegrant:PolicyBundle'' then Inl (ValueError ''not a policy bundle body'')
      else sign_envelope k body)"

section \<open>Verifying\<close>

definition in_bundle_window :: "dict \<Rightarrow> datetime \<Rightarrow> unit res" where
  "in_bundle_window p now =
     (if naive now then Inl (ValueError ''verification time must include a timezone'')
      else
      rbind (rbind (dindex p ''not_before'') parse_time) (\<lambda>lower.
      rbind (rbind (dindex p ''not_after'') parse_time) (\<lambda>upper.
      rbind (validate_window lower upper) (\<lambda>_.
      if dt_us now < dt_us lower \<or> dt_us upper \<le> dt_us now
        then Inl (ValueError ''policy bundle is outside its validity window'') else Inr ()))))"

definition verify_policy_bundle ::
  "verifier \<Rightarrow> dict \<Rightarrow> string list option \<Rightarrow> string option \<Rightarrow> datetime \<Rightarrow> dict res" where
  "verify_policy_bundle V envelope trusted expected now =
     rbind (verify_envelope V envelope) (\<lambda>p.
     if dget p ''type'' \<noteq> JStr ''kinegrant:PolicyBundle'' then Inl (ValueError ''wrong policy bundle type'')
     else if dget p ''schema_version'' \<noteq> JStr ''0.1'' then Inl (ValueError ''unsupported policy bundle version'')
     else
     rbind (trusts trusted (dget p ''issuer'')) (\<lambda>ok.
     if \<not> ok then Inl (ValueError ''untrusted policy authority'')
     else if \<not> py_eq (dget p ''issuer'') (dget envelope ''kid'')
       then Inl (ValueError ''policy bundle issuer does not match signing key'')
     else if \<not> nonblank_str (dget p ''policy_id'') then Inl (ValueError ''policy_id must be a non-empty string'')
     else if (case expected of None \<Rightarrow> False | Some s \<Rightarrow> dget p ''policy_id'' \<noteq> JStr s)
       then Inl (ValueError ''policy bundle is for a different policy'')
     else if \<not> valid_version (dget p ''version'') then Inl (ValueError ''bundle version must be a positive integer'')
     else
     rbind (bad_previous (dget p ''previous_version_digest'')) (\<lambda>bad.
     if bad then Inl (ValueError ''previous_version_digest must be a sha256 digest or None'')
     else case dget p ''rules'' of
       JList rules \<Rightarrow>
         if rules = [] then Inl (ValueError ''a policy bundle must contain at least one rule'')
         else
         rbind (rules_digest (JList rules)) (\<lambda>pd.
         if dget p ''policy_digest'' \<noteq> JStr pd then Inl (ValueError ''policy rules do not match the signed digest'')
         else
         rbind (rmapM rule_from_dict rules) (\<lambda>_.
         rbind (in_bundle_window p now) (\<lambda>_. Inr p)))
     | _ \<Rightarrow> Inl (ValueError ''a policy bundle must contain at least one rule''))))"

definition rules_from_bundle ::
  "verifier \<Rightarrow> dict \<Rightarrow> string list option \<Rightarrow> string option \<Rightarrow> datetime \<Rightarrow> policy_rule list res" where
  "rules_from_bundle V envelope trusted expected now =
     rbind (verify_policy_bundle V envelope trusted expected now) (\<lambda>p.
     rbind (dindex p ''rules'') (\<lambda>rules.
     rbind (py_iter rules) (rmapM rule_from_dict)))"

section \<open>What a verified bundle is\<close>

definition bundle_ok :: "verifier \<Rightarrow> string list option \<Rightarrow> dict \<Rightarrow> dict \<Rightarrow> bool" where
  "bundle_ok V trusted env p \<longleftrightarrow>
     verify_envelope V env = Inr p \<and> dget p ''issuer'' = dget env ''kid'' \<and>
     trusts trusted (dget p ''issuer'') = Inr True \<and>
     (\<exists>s. dget p ''policy_id'' = JStr s \<and> \<not> blank s) \<and> (\<exists>n\<ge>1. dget p ''version'' = JInt n) \<and>
     (\<exists>rules rs. dget p ''rules'' = JList rules \<and> rules \<noteq> [] \<and> rmapM rule_from_dict rules = Inr rs \<and>
        (\<exists>pd. rules_digest (JList rules) = Inr pd \<and> dget p ''policy_digest'' = JStr pd))"

definition bundle_window :: "dict \<Rightarrow> datetime \<Rightarrow> bool" where
  "bundle_window p now \<longleftrightarrow> \<not> naive now \<and> (\<exists>lo up. parse_time (dget p ''not_before'') = Inr lo
     \<and> parse_time (dget p ''not_after'') = Inr up \<and> dt_us lo \<le> dt_us now \<and> dt_us now < dt_us up)"

lemma in_bundle_window_Inr: "in_bundle_window p now = Inr u \<Longrightarrow> bundle_window p now"
  by (auto simp: in_bundle_window_def bundle_window_def res_simps dget_def split: if_splits)

lemma window_in_bundle:
  "bundle_window p now \<Longrightarrow> in_bundle_window p now = Inr ()"
proof -
  assume "bundle_window p now"
  then obtain lo up where a: "\<not> naive now" "parse_time (dget p ''not_before'') = Inr lo"
    "parse_time (dget p ''not_after'') = Inr up" "dt_us lo \<le> dt_us now" "dt_us now < dt_us up"
    by (auto simp: bundle_window_def)
  have "dget p ''not_before'' \<noteq> JNull" "dget p ''not_after'' \<noteq> JNull"
    using a(2,3) by (auto simp: parse_time_def)
  then have "dindex p ''not_before'' = Inr (dget p ''not_before'')" "dindex p ''not_after'' = Inr (dget p ''not_after'')"
    by (auto simp: dindex_def dget_def split: option.splits)
  moreover have "\<not> naive lo" "\<not> naive up" using parse_time_aware a(2,3) by auto
  ultimately show ?thesis using a by (simp add: in_bundle_window_def validate_window_def)
qed

lemma verify_policy_bundleD:
  assumes "verify_policy_bundle V env trusted expected now = Inr p"
  shows "bundle_ok V trusted env p" "bundle_window p now" "expected = Some s \<Longrightarrow> dget p ''policy_id'' = JStr s"
proof -
  have *: "verify_envelope V env = Inr p \<and> py_eq (dget p ''issuer'') (dget env ''kid'') \<and>
     trusts trusted (dget p ''issuer'') = Inr True \<and> nonblank_str (dget p ''policy_id'') \<and>
     \<not> (case expected of None \<Rightarrow> False | Some s \<Rightarrow> dget p ''policy_id'' \<noteq> JStr s) \<and> valid_version (dget p ''version'') \<and>
     (\<exists>rules rs pd. dget p ''rules'' = JList rules \<and> rules \<noteq> [] \<and> rmapM rule_from_dict rules = Inr rs \<and>
        rules_digest (JList rules) = Inr pd \<and> dget p ''policy_digest'' = JStr pd) \<and> in_bundle_window p now = Inr ()"
    using assms unfolding verify_policy_bundle_def by (elim res_elims) auto
  then obtain k where "dget env ''kid'' = JStr k" using verify_envelope_kid by blast
  with * have i: "dget p ''issuer'' = dget env ''kid''" by simp
  have "\<exists>n\<ge>1. dget p ''version'' = JInt n" using * by (auto simp: valid_version_def is_int_nb_iff)
  moreover have "\<exists>s. dget p ''policy_id'' = JStr s \<and> \<not> blank s" using * by (simp add: nonblank_str_iff)
  ultimately show "bundle_ok V trusted env p" using * i unfolding bundle_ok_def by blast
  show "bundle_window p now" using * in_bundle_window_Inr by blast
  show "expected = Some s \<Longrightarrow> dget p ''policy_id'' = JStr s" using * by simp
qed

lemma verify_policy_bundleI:
  assumes "bundle_ok V trusted env p" "bundle_window p now" "\<And>s. expected = Some s \<Longrightarrow> dget p ''policy_id'' = JStr s"
    and "dget p ''type'' = JStr ''kinegrant:PolicyBundle''" "dget p ''schema_version'' = JStr ''0.1''"
    "bad_previous (dget p ''previous_version_digest'') = Inr False"
  shows "verify_policy_bundle V env trusted expected now = Inr p"
proof -
  from assms(1) obtain s n rules rs pd where *: "verify_envelope V env = Inr p" "dget p ''issuer'' = dget env ''kid''"
    "trusts trusted (dget p ''issuer'') = Inr True" "dget p ''policy_id'' = JStr s" "\<not> blank s" "n \<ge> 1" "dget p ''version'' = JInt n"
    "dget p ''rules'' = JList rules" "rules \<noteq> []" "rmapM rule_from_dict rules = Inr rs" "rules_digest (JList rules) = Inr pd"
    "dget p ''policy_digest'' = JStr pd"
    by (auto simp: bundle_ok_def)
  obtain k where "dget env ''kid'' = JStr k" using verify_envelope_kid [OF *(1)] by blast
  then have "py_eq (dget p ''issuer'') (dget env ''kid'')" using *(2) by simp
  moreover have "\<not> (case expected of None \<Rightarrow> False | Some s \<Rightarrow> dget p ''policy_id'' \<noteq> JStr s)"
    using assms(3) by (auto split: option.splits)
  ultimately show ?thesis
    unfolding verify_policy_bundle_def *(1) rbind_Inr *(3)
    using * window_in_bundle [OF assms(2)] assms(4-6) by (simp add: valid_version_def)
qed

section \<open>Round trip\<close>

lemma py_dict_JDict [simp]: "py_dict (JDict d) = Inr d"
  by (simp add: py_dict_def)

lemma rforeach_require: "rforeach (\<lambda>(name, v). require (P v) (f name)) xs = Inr () \<longleftrightarrow> list_all (\<lambda>(_, v). P v) xs"
  by (auto simp: res_simps list_all_iff)

lemma nonblank_strs_map: "ss \<noteq> [] \<Longrightarrow> list_all (\<lambda>s. \<not> blank s) ss \<Longrightarrow> nonblank_strs (map JStr ss)"
  by (auto simp: nonblank_strs_def list_all_iff)

lemma rule_roundtrip:
  assumes "rule_ok r"
  shows "rule_from_dict (rule_json r) = Inr r"
proof -
  let ?d = "rule_to_dict r"
  have lists: "nonblank_strs (map JStr (pr_actions r))" "nonblank_strs (map JStr (pr_subjects r))" "nonblank_strs (map JStr (pr_purposes r))"
    using assms by (auto simp: rule_ok_def intro: nonblank_strs_map)
  have ids: "\<not> blank (pr_policy_id r)" "\<not> blank (pr_issuer r)" "\<not> blank (pr_target r)" "pr_actions r \<noteq> []"
    using assms by (auto simp: rule_ok_def)
  have eff: "parse_effect (JStr (effect_name (pr_effect r))) = Some (pr_effect r)"
    by (cases "pr_effect r") (simp_all add: parse_effect_def)
  have m: "map the_str (map JStr ss) = ss" for ss by (simp add: comp_def)
  have "policy_rule_init (JStr (pr_policy_id r)) (JStr (pr_issuer r)) (JStr (pr_target r)) (JStr (effect_name (pr_effect r)))
     (map JStr (pr_actions r)) (map JStr (pr_subjects r)) (map JStr (pr_purposes r)) (JDict (pr_constraints r))
     (pr_obligations r) (pr_priority r) (JDict (pr_source r)) = Inr r"
    using lists ids eff m by (simp add: policy_rule_init_def)
  then have "rule_of_fields ?d = Inr r"
    by (simp add: rule_of_fields_def rule_to_dict_def dict_simps JStrs_def py_iter_def)
  then show ?thesis by (simp add: rule_from_dict_def rule_json_def)
qed

lemma rules_roundtrip: "\<forall>r\<in>set rs. rule_ok r \<Longrightarrow> rmapM rule_from_dict (map rule_json rs) = Inr rs"
  by (induction rs) (auto simp: rule_roundtrip)

lemma build_policy_bundleD:
  assumes "build_policy_bundle policy rules issuer version previous now nb na = Inr b"
  obtains issued lo up pd cid lower upper where
    "b = bundle_body policy issuer version previous issued lo up (map rule_json rules)
           @ [(''policy_digest'', JStr pd), (''bundle_id'', JStr cid)]"
    "nonblank_str policy" "nonblank_str issuer" "valid_version version" "bad_previous previous = Inr False" "rules \<noteq> []"
    "lower = (case nb of None \<Rightarrow> now | Some t \<Rightarrow> t)" "na = Some upper" "validate_window lower upper = Inr ()"
    "isoformat now = Inr issued" "isoformat lower = Inr lo" "isoformat upper = Inr up"
    "rules_digest (JList (map rule_json rules)) = Inr pd"
    "content_id ''kinegrant:policy-bundle'' (JDict (dwithout [''bundle_id''] b)) = Inr cid"
proof -
  let ?lower = "case nb of None \<Rightarrow> now | Some t \<Rightarrow> t"
  from assms obtain upper issued lo up pd cid where
    *: "nonblank_str policy" "nonblank_str issuer" "valid_version version" "bad_previous previous = Inr False" "rules \<noteq> []"
      "na = Some upper" "validate_window ?lower upper = Inr ()"
      "isoformat now = Inr issued" "isoformat ?lower = Inr lo" "isoformat upper = Inr up"
      "rules_digest (JList (map rule_json rules)) = Inr pd"
    and cid: "content_id ''kinegrant:policy-bundle'' (JDict (dwithout [''bundle_id'']
        (dset (bundle_body policy issuer version previous issued lo up (map rule_json rules)) ''policy_digest'' (JStr pd)))) = Inr cid"
    and b: "b = dset (dset (bundle_body policy issuer version previous issued lo up (map rule_json rules)) ''policy_digest'' (JStr pd))
        ''bundle_id'' (JStr cid)"
    unfolding build_policy_bundle_def Let_def by (elim res_elims) auto
  have b': "b = bundle_body policy issuer version previous issued lo up (map rule_json rules)
           @ [(''policy_digest'', JStr pd), (''bundle_id'', JStr cid)]"
    unfolding b by (simp add: bundle_body_def)
  have "content_id ''kinegrant:policy-bundle'' (JDict (dwithout [''bundle_id''] b)) = Inr cid"
    using cid by (simp add: b' bundle_body_def)
  from that [OF b' *(1-5) refl *(6-11) this] show thesis .
qed

lemma iso_parse: "utc_time t \<Longrightarrow> isoformat t = Inr s \<Longrightarrow> parse_time (JStr s) = Inr t"
  by (rule utc_time_parse)

text \<open>A bundle that is built and signed by a trusted authority verifies inside its window.\<close>

theorem policy_bundle_roundtrip:
  assumes build: "build_policy_bundle (JStr policy) rules (JStr (kid k)) version previous now nb (Some upper) = Inr b"
    and sgn: "sign_policy_bundle b k = Inr env" and key: "good_key V k"
    and tr: "\<And>ts. trusted = Some ts \<Longrightarrow> kid k \<in> set ts" and ex: "\<And>s. expected = Some s \<Longrightarrow> policy = s"
    and rules: "\<forall>r\<in>set rules. rule_ok r"
    and times: "utc_time (case nb of None \<Rightarrow> now | Some t \<Rightarrow> t)" "utc_time upper"
    and t: "\<not> naive t" "dt_us (case nb of None \<Rightarrow> now | Some t \<Rightarrow> t) \<le> dt_us t" "dt_us t < dt_us upper"
  shows "verify_policy_bundle V env trusted expected t = Inr b \<and> rules_from_bundle V env trusted expected t = Inr rules"
proof -
  from build obtain issued lo up pd cid lower where
    b: "b = bundle_body (JStr policy) (JStr (kid k)) version previous issued lo up (map rule_json rules)
           @ [(''policy_digest'', JStr pd), (''bundle_id'', JStr cid)]"
    and c: "nonblank_str (JStr policy)" "valid_version version" "bad_previous previous = Inr False" "rules \<noteq> []"
    and lower: "lower = (case nb of None \<Rightarrow> now | Some t \<Rightarrow> t)"
    and iso: "isoformat lower = Inr lo" "isoformat upper = Inr up"
    and pd: "rules_digest (JList (map rule_json rules)) = Inr pd"
    by (rule build_policy_bundleD) auto
  have m: "dget b ''type'' = JStr ''kinegrant:PolicyBundle''" "dget b ''schema_version'' = JStr ''0.1''"
    "dget b ''policy_id'' = JStr policy" "dget b ''issuer'' = JStr (kid k)" "dget b ''version'' = version"
    "dget b ''previous_version_digest'' = previous" "dget b ''not_before'' = JStr lo" "dget b ''not_after'' = JStr up"
    "dget b ''rules'' = JList (map rule_json rules)" "dget b ''policy_digest'' = JStr pd"
    "map_of b ''rules'' = Some (JList (map rule_json rules))"
    unfolding b by (simp_all add: bundle_body_def)
  from sgn m(1) have sgn: "sign_envelope k b = Inr env" by (simp add: sign_policy_bundle_def)
  note sv = sign_verify [OF key sgn]
  have parse: "parse_time (JStr lo) = Inr lower" "parse_time (JStr up) = Inr upper"
    using iso_parse times iso lower by auto
  have "bundle_window b t" using t lower parse by (auto simp: bundle_window_def m)
  moreover have "bundle_ok V trusted env b"
    using sv c m pd rules_roundtrip [OF rules] tr
    by (auto simp: bundle_ok_def valid_version_def is_int_nb_iff split: option.splits)
  ultimately have v: "verify_policy_bundle V env trusted expected t = Inr b"
    using m c ex by (intro verify_policy_bundleI) auto
  with m(11) rules_roundtrip [OF rules] show ?thesis
    by (simp add: rules_from_bundle_def dindex_def py_iter_def)
qed

text \<open>The rules a verified bundle gives are well-formed rules, parsed from the signed payload.\<close>

lemma rule_of_fields_ok: "rule_of_fields d = Inr r \<Longrightarrow> rule_ok r"
  unfolding rule_of_fields_def by (elim rbindE) (rule policy_rule_init_ok)

lemma rule_from_dict_ok: "rule_from_dict v = Inr r \<Longrightarrow> rule_ok r"
proof (cases v)
  case (JDict d)
  assume "rule_from_dict v = Inr r"
  with JDict have "rule_of_fields d = Inr r" by (auto simp: rule_from_dict_def split: sum.splits if_splits)
  then show ?thesis by (rule rule_of_fields_ok)
qed (simp_all add: rule_from_dict_def)

lemma rules_from_bundle_ok:
  assumes "rules_from_bundle V env trusted expected now = Inr rs"
  shows "rs \<noteq> [] \<and> (\<forall>r\<in>set rs. rule_ok r)"
proof -
  from assms obtain p v xs where v: "verify_policy_bundle V env trusted expected now = Inr p"
    and x: "dindex p ''rules'' = Inr v" "py_iter v = Inr xs" "rmapM rule_from_dict xs = Inr rs"
    unfolding rules_from_bundle_def by (elim rbindE) blast
  from verify_policy_bundleD(1) [OF v] obtain rules where "dget p ''rules'' = JList rules" "rules \<noteq> []"
    unfolding bundle_ok_def by blast
  with dget_dindex [OF x(1)] x(2) have r: "rmapM rule_from_dict rules = Inr rs" "rules \<noteq> []"
    using x(3) by (auto simp: py_iter_def)
  note r = r(1) r
  have "rs \<noteq> []" using rmapM_length [OF r(1)] r(3) by auto
  moreover have "rule_ok x" if "x \<in> set rs" for x using rmapM_set [OF r(2) that] rule_from_dict_ok by blast
  ultimately show ?thesis by blast
qed

section \<open>What the verifier does not check\<close>

text \<open>The identifier of a bundle is never compared with its content: any text passes.\<close>

lemma bundle_id_not_checked:
  assumes build: "build_policy_bundle (JStr policy) rules (JStr (kid k)) version previous now nb (Some upper) = Inr b"
    and sgn: "sign_envelope k (dset b ''bundle_id'' other) = Inr env" and key: "good_key V k"
    and rules: "\<forall>r\<in>set rules. rule_ok r"
    and times: "utc_time (case nb of None \<Rightarrow> now | Some t \<Rightarrow> t)" "utc_time upper"
    and t: "\<not> naive t" "dt_us (case nb of None \<Rightarrow> now | Some t \<Rightarrow> t) \<le> dt_us t" "dt_us t < dt_us upper"
  shows "verify_policy_bundle V env None None t = Inr (dset b ''bundle_id'' other)"
proof -
  from build obtain issued lo up pd cid lower where
    b: "b = bundle_body (JStr policy) (JStr (kid k)) version previous issued lo up (map rule_json rules)
           @ [(''policy_digest'', JStr pd), (''bundle_id'', JStr cid)]"
    and c: "nonblank_str (JStr policy)" "valid_version version" "bad_previous previous = Inr False" "rules \<noteq> []"
    and lower: "lower = (case nb of None \<Rightarrow> now | Some t \<Rightarrow> t)"
    and iso: "isoformat lower = Inr lo" "isoformat upper = Inr up"
    and pd: "rules_digest (JList (map rule_json rules)) = Inr pd"
    by (rule build_policy_bundleD) auto
  let ?b = "dset b ''bundle_id'' other"
  have m: "dget ?b ''type'' = JStr ''kinegrant:PolicyBundle''" "dget ?b ''schema_version'' = JStr ''0.1''"
    "dget ?b ''policy_id'' = JStr policy" "dget ?b ''issuer'' = JStr (kid k)" "dget ?b ''version'' = version"
    "dget ?b ''previous_version_digest'' = previous" "dget ?b ''not_before'' = JStr lo" "dget ?b ''not_after'' = JStr up"
    "dget ?b ''rules'' = JList (map rule_json rules)" "dget ?b ''policy_digest'' = JStr pd"
    unfolding b by (simp_all add: bundle_body_def)
  have parse: "parse_time (JStr lo) = Inr lower" "parse_time (JStr up) = Inr upper"
    using iso_parse times iso lower by auto
  have "bundle_window ?b t" unfolding bundle_window_def m(7,8) using t lower parse by auto
  moreover have "bundle_ok V None env ?b"
    unfolding bundle_ok_def m using sign_verify [OF key sgn] c pd rules_roundtrip [OF rules]
    by (auto simp: valid_version_def is_int_nb_iff)
  ultimately show ?thesis using m c by (intro verify_policy_bundleI) (auto simp del: dget_dset)
qed

end
