(* ===== verification/PolicyRegistry.thy ===== *)
theory PolicyRegistry
  imports PolicyBundle
begin

text \<open>
  \<open>policy_bundle.py\<close>, second part: the registry of activated bundles with per-version
  revocation, the authority that publishes linked versions, and the distributor that applies one
  bundle to many registries. Registries are mutable objects that gates may share, so the
  distributor works on a store (addresses to registries). The calls with an explicit \<open>now\<close>
  are modelled; \<open>now=None\<close> reads the clock at each call.
\<close>

section \<open>The registry\<close>

record policy_revocation =
  pv_policy :: json
  pv_version :: json
  pv_reason :: json
  pv_at :: datetime

definition policy_revocation_to_dict :: "policy_revocation \<Rightarrow> dict res" where
  "policy_revocation_to_dict r =
     rbind (isoformat (pv_at r)) (\<lambda>iso. Inr
       [(''policy_id'', pv_policy r), (''version'', pv_version r), (''reason'', pv_reason r), (''at'', JStr iso)])"

type_synonym pkey = "string \<times> int"

record policy_registry =
  pg_trusted :: "string list"
  pg_bundles :: "(pkey \<times> dict) list"
  pg_revocations :: "(pkey \<times> policy_revocation) list"

definition policy_registry_init :: "string list \<Rightarrow> policy_registry" where
  "policy_registry_init trusted = \<lparr>pg_trusted = trusted, pg_bundles = [], pg_revocations = []\<rparr>"

text \<open>\<open>(payload["policy_id"], payload["version"])\<close> of a verified payload.\<close>

definition bundle_key :: "dict \<Rightarrow> pkey" where
  "bundle_key p = (the_str (dget p ''policy_id''), the_int (dget p ''version''))"

definition activate :: "verifier \<Rightarrow> policy_registry \<Rightarrow> dict \<Rightarrow> datetime \<Rightarrow> policy_registry \<times> dict res" where
  "activate V g envelope now =
     (case verify_policy_bundle V envelope (set_or_none (pg_trusted g)) None now of
        Inl x \<Rightarrow> (g, Inl x)
      | Inr p \<Rightarrow>
          (case map_of (pg_bundles g) (bundle_key p) of
             Some q \<Rightarrow>
               if \<not> py_eq (JDict q) (JDict p)
               then (g, Inl (ValueError ''a different bundle is already active for this version''))
               else (g\<lparr>pg_bundles := AList.update (bundle_key p) p (pg_bundles g)\<rparr>, Inr p)
           | None \<Rightarrow> (g\<lparr>pg_bundles := AList.update (bundle_key p) p (pg_bundles g)\<rparr>, Inr p)))"

text \<open>One round of the loop of \<open>current\<close>: whether the stored payload is a candidate.\<close>

definition is_candidate :: "policy_registry \<Rightarrow> string \<Rightarrow> datetime \<Rightarrow> pkey \<times> dict \<Rightarrow> bool res" where
  "is_candidate g pid now kp = (case kp of (k, p) \<Rightarrow>
     if fst k \<noteq> pid then Inr False
     else if map_of (pg_revocations g) k \<noteq> None then Inr False
     else
     rbind (rbind (dindex p ''not_before'') parse_time) (\<lambda>lower.
     rbind (rbind (dindex p ''not_after'') parse_time) (\<lambda>upper.
     rbind (dt_less now lower) (\<lambda>early.
     if early then Inr False else dt_less now upper))))"

text \<open>\<open>max(candidates, key=version)\<close>: the first of the largest.\<close>

fun max_version :: "(pkey \<times> dict) list \<Rightarrow> (pkey \<times> dict) option" where
  "max_version [] = None"
| "max_version (x # xs) = (case max_version xs of
      None \<Rightarrow> Some x
    | Some y \<Rightarrow> if snd (fst x) < snd (fst y) then Some y else Some x)"

definition current :: "policy_registry \<Rightarrow> string \<Rightarrow> datetime \<Rightarrow> dict option res" where
  "current g pid now =
     rbind (rfilter (is_candidate g pid now) (pg_bundles g)) (\<lambda>cs. Inr (map_option snd (max_version cs)))"

definition policy_revoke ::
  "policy_registry \<Rightarrow> json \<Rightarrow> json \<Rightarrow> json \<Rightarrow> datetime \<Rightarrow> policy_registry \<times> policy_revocation res" where
  "policy_revoke g pid version reason at_time =
     (if \<not> nonblank_str pid then (g, Inl (ValueError ''policy_id must be a non-empty string''))
      else if \<not> valid_version version then (g, Inl (ValueError ''version must be a positive integer''))
      else let r = \<lparr>pv_policy = pid, pv_version = version, pv_reason = reason, pv_at = at_time\<rparr> in
        (g\<lparr>pg_revocations := AList.update (the_str pid, the_int version) r (pg_revocations g)\<rparr>, Inr r))"

definition policy_is_revoked :: "policy_registry \<Rightarrow> string \<Rightarrow> int \<Rightarrow> bool" where
  "policy_is_revoked g pid version \<longleftrightarrow> map_of (pg_revocations g) (pid, version) \<noteq> None"

definition policy_versions :: "policy_registry \<Rightarrow> string \<Rightarrow> int list" where
  "policy_versions g pid = sort (map (snd \<circ> fst) (filter (\<lambda>(k, _). fst k = pid) (pg_bundles g)))"

section \<open>The registry keeps verified payloads and answers with the newest usable one\<close>

definition registry_ok :: "verifier \<Rightarrow> policy_registry \<Rightarrow> bool" where
  "registry_ok V g \<longleftrightarrow> distinct (map fst (pg_bundles g)) \<and>
     (\<forall>(k, p)\<in>set (pg_bundles g). k = bundle_key p \<and>
        (\<exists>env t. verify_policy_bundle V env (set_or_none (pg_trusted g)) None t = Inr p))"

lemma registry_init_ok: "registry_ok V (policy_registry_init ts)"
  by (simp add: registry_ok_def policy_registry_init_def)

lemma set_update: "distinct (map fst m) \<Longrightarrow> x \<in> set (AList.update k v m) \<longleftrightarrow> x = (k, v) \<or> (x \<in> set m \<and> fst x \<noteq> k)"
  by (induction m) (auto simp: image_iff)

lemma activate_cases:
  assumes "activate V g env now = (g', r)"
  obtains (refused) x where "g' = g" "r = Inl x"
  | (stored) p where "verify_policy_bundle V env (set_or_none (pg_trusted g)) None now = Inr p" "r = Inr p"
      "g' = g\<lparr>pg_bundles := AList.update (bundle_key p) p (pg_bundles g)\<rparr>"
      "\<And>q. map_of (pg_bundles g) (bundle_key p) = Some q \<Longrightarrow> py_eq (JDict q) (JDict p)"
proof (cases "verify_policy_bundle V env (set_or_none (pg_trusted g)) None now")
  case (Inl x)
  with assms have "g' = g" "r = Inl x" by (simp_all add: activate_def)
  then show thesis by (rule refused)
next
  case (Inr p)
  show thesis
  proof (cases "\<forall>q. map_of (pg_bundles g) (bundle_key p) = Some q \<longrightarrow> py_eq (JDict q) (JDict p)")
    case True
    then have "activate V g env now = (g\<lparr>pg_bundles := AList.update (bundle_key p) p (pg_bundles g)\<rparr>, Inr p)"
      by (auto simp: activate_def Inr split: option.splits)
    with assms True show thesis by (intro stored [OF Inr]) auto
  next
    case False
    then have "\<exists>x. activate V g env now = (g, Inl x)" by (auto simp: activate_def Inr)
    with assms refused show thesis by auto
  qed
qed

lemma activate_ok:
  assumes "registry_ok V g" "activate V g env now = (g', r)"
  shows "registry_ok V g' \<and> pg_revocations g' = pg_revocations g \<and> pg_trusted g' = pg_trusted g"
  using assms(2)
proof (cases rule: activate_cases)
  case (stored p)
  have d: "distinct (map fst (pg_bundles g))" using assms(1) by (simp add: registry_ok_def)
  have "k = bundle_key q \<and> (\<exists>env t. verify_policy_bundle V env (set_or_none (pg_trusted g)) None t = Inr q)"
    if "(k, q) \<in> set (AList.update (bundle_key p) p (pg_bundles g))" for k q
    using that assms(1) stored(1) unfolding set_update [OF d] registry_ok_def by auto
  then show ?thesis using stored(3) d by (auto simp: registry_ok_def distinct_update)
qed (use assms in simp)

lemma revoke_ok: "registry_ok V g \<Longrightarrow> registry_ok V (fst (policy_revoke g pid v reason t))"
  by (simp add: registry_ok_def policy_revoke_def Let_def)

text \<open>The specification: payload \<open>p\<close> may be used under key \<open>k\<close> at time \<open>now\<close>.\<close>

definition usable :: "policy_registry \<Rightarrow> datetime \<Rightarrow> pkey \<Rightarrow> dict \<Rightarrow> bool" where
  "usable g now k p \<longleftrightarrow> (k, p) \<in> set (pg_bundles g) \<and> map_of (pg_revocations g) k = None \<and> bundle_window p now"

lemma dindex_dget: "dget p k \<noteq> JNull \<Longrightarrow> dindex p k = Inr (dget p k)"
  by (auto simp: dindex_def dget_def split: option.splits)

lemma candidate_usable:
  assumes "registry_ok V g" "(k, p) \<in> set (pg_bundles g)" "\<not> naive now"
  shows "is_candidate g pid now (k, p) = Inr (fst k = pid \<and> usable g now k p)"
proof -
  from assms(1,2) obtain env t where "verify_policy_bundle V env (set_or_none (pg_trusted g)) None t = Inr p"
    by (auto simp: registry_ok_def)
  from verify_policy_bundleD(2) [OF this] obtain lo up where
    t: "parse_time (dget p ''not_before'') = Inr lo" "parse_time (dget p ''not_after'') = Inr up"
    by (auto simp: bundle_window_def)
  then have "dget p ''not_before'' \<noteq> JNull" "dget p ''not_after'' \<noteq> JNull" by (auto simp: parse_time_def)
  note i = dindex_dget [OF this(1)] dindex_dget [OF this(2)]
  have aware: "\<not> naive lo" "\<not> naive up" using parse_time_aware t by auto
  show ?thesis
    using assms(2,3) aware t i by (auto simp: is_candidate_def usable_def bundle_window_def not_less)
qed

lemma rfilter_total_eq:
  "(\<And>x. x \<in> set xs \<Longrightarrow> f x = Inr (P x)) \<Longrightarrow> rfilter f xs = Inr (filter P xs)"
  by (induction xs) auto

lemma max_version_None: "max_version xs = None \<longleftrightarrow> xs = []"
  by (cases xs) (auto split: option.splits)

lemma max_version_Some: "max_version xs = Some y \<Longrightarrow> y \<in> set xs \<and> (\<forall>x\<in>set xs. snd (fst x) \<le> snd (fst y))"
proof (induction xs arbitrary: y)
  case (Cons x xs)
  show ?case
  proof (cases "max_version xs")
    case None
    then have "xs = []" by (simp only: max_version_None)
    with Cons.prems show ?thesis by simp
  next
    case (Some z)
    with Cons.IH [of z] Cons.prems show ?thesis by (fastforce split: if_splits)
  qed
qed simp

theorem current_spec:
  assumes "registry_ok V g" "\<not> naive now"
  shows "\<exists>r. current g pid now = Inr r \<and> (case r of
      None \<Rightarrow> \<nexists>v p. usable g now (pid, v) p
    | Some p \<Rightarrow> \<exists>v. usable g now (pid, v) p \<and> dget p ''version'' = JInt v \<and> dget p ''policy_id'' = JStr pid
        \<and> (\<forall>v' p'. usable g now (pid, v') p' \<longrightarrow> v' \<le> v))"
proof -
  let ?cs = "filter (\<lambda>(k, p). fst k = pid \<and> usable g now k p) (pg_bundles g)"
  have "rfilter (is_candidate g pid now) (pg_bundles g) = Inr ?cs"
    by (rule rfilter_total_eq) (auto simp: candidate_usable [OF assms(1) _ assms(2)] split: prod.splits)
  then have c: "current g pid now = Inr (map_option snd (max_version ?cs))" by (simp add: current_def)
  have us: "usable g now (pid, v) p \<longleftrightarrow> ((pid, v), p) \<in> set ?cs" for v p by (auto simp: usable_def)
  show ?thesis
  proof (cases "max_version ?cs")
    case None
    then have "?cs = []" by (simp only: max_version_None)
    then have "\<nexists>v p. usable g now (pid, v) p" using us by (metis empty_iff list.set(1))
    then show ?thesis using c None by simp
  next
    case (Some y)
    obtain pid' v p where y: "y = ((pid', v), p)" by (cases y) auto
    from max_version_Some [OF Some] have m: "y \<in> set ?cs" "\<forall>x\<in>set ?cs. snd (fst x) \<le> v" using y by auto
    then have pid: "pid' = pid" "((pid, v), p) \<in> set (pg_bundles g)" using y by auto
    with assms(1) obtain env t where b: "(pid, v) = bundle_key p" "verify_policy_bundle V env (set_or_none (pg_trusted g)) None t = Inr p"
      by (auto simp: registry_ok_def)
    from verify_policy_bundleD(1) [OF b(2)] obtain s n where sn: "dget p ''policy_id'' = JStr s" "dget p ''version'' = JInt n"
      unfolding bundle_ok_def by blast
    then have "bundle_key p = (s, n)" by (simp add: bundle_key_def)
    with b(1) sn have f: "dget p ''version'' = JInt v" "dget p ''policy_id'' = JStr pid" by simp_all
    have "v' \<le> v" if u: "usable g now (pid, v') p'" for v' p'
    proof -
      have "((pid, v'), p') \<in> set ?cs" using u us by blast
      with m(2) have "snd (fst ((pid, v'), p')) \<le> v" by blast
      then show ?thesis by simp
    qed
    moreover have "usable g now (pid, v) p" using m(1) y pid(1) by simp
    moreover have "current g pid now = Inr (Some p)" using c Some y by simp
    ultimately show ?thesis unfolding option.case using f
      by (intro exI [of _ "Some p"]) (simp only: option.case, blast)
  qed
qed

text \<open>The version in use, as a number.\<close>

definition current_version :: "policy_registry \<Rightarrow> string \<Rightarrow> datetime \<Rightarrow> int option" where
  "current_version g pid now = (case current g pid now of
      Inr (Some p) \<Rightarrow> Some (the_int (dget p ''version'')) | _ \<Rightarrow> None)"

text \<open>Activation never lowers the version in use.\<close>

lemma activate_keeps_usable:
  assumes "registry_ok V g" "activate V g env t = (g', r)" "usable g now k p"
  shows "\<exists>q. usable g' now k q"
  using assms(2)
proof (cases rule: activate_cases)
  case (stored p')
  have d: "distinct (map fst (pg_bundles g))" using assms(1) by (simp add: registry_ok_def)
  show ?thesis
  proof (cases "k = bundle_key p'")
    case True
    with assms(3) d have "map_of (pg_bundles g) k = Some p" by (simp add: usable_def)
    with stored(4) True have e: "py_eq (JDict p) (JDict p')" by blast
    have same: "dget p' key = JStr s" if "dget p key = JStr s" for key s
    proof -
      from that have "(key, JStr s) \<in> set p" by (auto simp: dget_def split: option.splits dest: map_of_SomeD)
      moreover have "py_eq_items d e \<Longrightarrow> (key, JStr s) \<in> set d \<Longrightarrow> dget e key = JStr s" for d e
        by (induction d) (auto simp: dget_def split: option.splits)
      ultimately show ?thesis using e by auto
    qed
    from assms(3) have w: "bundle_window p now" by (simp add: usable_def)
    then obtain a b where "dget p ''not_before'' = JStr a" "dget p ''not_after'' = JStr b"
      by (auto simp: bundle_window_def parse_time_def split: json.splits)
    with same w have "bundle_window p' now" by (simp add: bundle_window_def)
    with True stored(3) assms(3) d have "usable g' now k p'" by (simp add: usable_def set_update)
    then show ?thesis ..
  next
    case False
    with stored(3) assms(3) d have "usable g' now k p" by (simp add: usable_def set_update)
    then show ?thesis ..
  qed
qed (use assms in auto)

lemma current_version_Some:
  assumes "registry_ok V g" "\<not> naive now"
  shows "current_version g pid now = Some v \<longleftrightarrow> (\<exists>p. usable g now (pid, v) p) \<and> (\<forall>v' p'. usable g now (pid, v') p' \<longrightarrow> v' \<le> v)"
proof -
  obtain r where r: "current g pid now = Inr r" "case r of
      None \<Rightarrow> \<nexists>v p. usable g now (pid, v) p
    | Some p \<Rightarrow> \<exists>v. usable g now (pid, v) p \<and> dget p ''version'' = JInt v \<and> dget p ''policy_id'' = JStr pid
        \<and> (\<forall>v' p'. usable g now (pid, v') p' \<longrightarrow> v' \<le> v)"
    using current_spec [OF assms] by blast
  show ?thesis
  proof (cases r)
    case None
    with r show ?thesis by (auto simp: current_version_def)
  next
    case (Some p)
    with r(2) obtain w where w: "usable g now (pid, w) p" "dget p ''version'' = JInt w"
      "\<forall>v' p'. usable g now (pid, v') p' \<longrightarrow> v' \<le> w" by auto
    then have "current_version g pid now = Some w" using r(1) Some by (simp add: current_version_def)
    then show ?thesis using w by (metis antisym option.inject)
  qed
qed

lemma activate_monotone:
  assumes "registry_ok V g" "activate V g env t = (g', r)" "\<not> naive now" "current_version g pid now = Some v"
  shows "\<exists>v'\<ge>v. current_version g' pid now = Some v'"
proof -
  have ok': "registry_ok V g'" using activate_ok [OF assms(1,2)] by blast
  from assms(4) obtain p where "usable g now (pid, v) p" unfolding current_version_Some [OF assms(1,3)] by blast
  from activate_keeps_usable [OF assms(1,2) this] obtain q where q: "usable g' now (pid, v) q" ..
  obtain r where c: "current g' pid now = Inr r" "case r of
      None \<Rightarrow> \<nexists>v p. usable g' now (pid, v) p
    | Some p \<Rightarrow> \<exists>v. usable g' now (pid, v) p \<and> dget p ''version'' = JInt v \<and> dget p ''policy_id'' = JStr pid
        \<and> (\<forall>v' p'. usable g' now (pid, v') p' \<longrightarrow> v' \<le> v)"
    using current_spec [OF ok' assms(3)] by blast
  with q obtain p' w where "r = Some p'" "dget p' ''version'' = JInt w" "\<forall>v' p'. usable g' now (pid, v') p' \<longrightarrow> v' \<le> w"
    by (cases r) auto
  with q c(1) show ?thesis by (auto simp: current_version_def)
qed

text \<open>A revoked version is never in use.\<close>

lemma revoked_not_current:
  assumes "registry_ok V g" "\<not> naive now" "policy_is_revoked g pid v"
  shows "current_version g pid now \<noteq> Some v"
  using assms by (simp add: current_version_Some usable_def policy_is_revoked_def)

end
