(* ===== verification/PolicyState.thy ===== *)
theory PolicyState
  imports PolicyRegistry
begin

text \<open>
  \<open>policy_bundle.py\<close>: saving a registry to its dictionary form and loading it. The dictionaries
  nest: policy id, then the decimal text of the version. The result: loading what was saved gives
  a registry with the same bundles and revocations, so it answers every query alike. Loading
  itself verifies nothing, as the last lemma shows.
\<close>

section \<open>Saving\<close>

text \<open>\<open>d.setdefault(pid, {})[str(version)] = x\<close> over all items.\<close>

definition put_version :: "(string \<times> dict) list \<Rightarrow> pkey \<times> json \<Rightarrow> (string \<times> dict) list" where
  "put_version d kx = (case kx of ((pid, v), x) \<Rightarrow>
     dset d pid (dset (case map_of d pid of None \<Rightarrow> [] | Some m \<Rightarrow> m) (int_str v) x))"

definition by_policy :: "(pkey \<times> json) list \<Rightarrow> (string \<times> dict) list" where
  "by_policy kxs = foldl put_version [] kxs"

definition nested :: "(string \<times> dict) list \<Rightarrow> json" where
  "nested d = JDict (map (\<lambda>(pid, m). (pid, JDict m)) d)"

definition policy_registry_to_dict :: "policy_registry \<Rightarrow> dict res" where
  "policy_registry_to_dict g =
     rbind (rmapM (\<lambda>(k, r). rbind (policy_revocation_to_dict r) (\<lambda>d. Inr (k, JDict d))) (pg_revocations g)) (\<lambda>revs.
       Inr [(''type'', JStr ''kinegrant:PolicyRegistryState''), (''schema_version'', JStr ''0.1''),
            (''bundles'', nested (by_policy (map (\<lambda>(k, p). (k, JDict p)) (pg_bundles g)))),
            (''revocations'', nested (by_policy revs))])"

section \<open>Loading\<close>

text \<open>The inner and the outer loop; \<open>f\<close> reads one stored value.\<close>

fun load_versions :: "(json \<Rightarrow> 'a res) \<Rightarrow> string \<Rightarrow> dict \<Rightarrow> (pkey \<times> 'a) list \<Rightarrow> (pkey \<times> 'a) list res" where
  "load_versions f pid [] acc = Inr acc"
| "load_versions f pid ((t, x) # r) acc =
     rbind (py_int (JStr t)) (\<lambda>v. rbind (f x) (\<lambda>y. load_versions f pid r (AList.update (pid, v) y acc)))"

definition dict_items :: "json \<Rightarrow> dict res" where
  "dict_items x = (case x of JDict d \<Rightarrow> Inr d | _ \<Rightarrow> Inl (AttributeError ''object has no attribute 'items' ''))"

fun load_policies :: "(json \<Rightarrow> 'a res) \<Rightarrow> dict \<Rightarrow> (pkey \<times> 'a) list \<Rightarrow> (pkey \<times> 'a) list res" where
  "load_policies f [] acc = Inr acc"
| "load_policies f ((pid, m) # r) acc =
     rbind (dict_items m) (\<lambda>d. rbind (load_versions f pid d acc) (load_policies f r))"

definition revocation_of :: "json \<Rightarrow> policy_revocation res" where
  "revocation_of x = (case x of
      JDict d \<Rightarrow>
        rbind (dindex d ''policy_id'') (\<lambda>pid.
        rbind (dindex d ''version'') (\<lambda>v.
        rbind (rbind (dindex d ''at'') parse_time) (\<lambda>at_time.
          Inr \<lparr>pv_policy = pid, pv_version = v, pv_reason = dget d ''reason'', pv_at = at_time\<rparr>)))
    | _ \<Rightarrow> Inl (TypeError ''record is not subscriptable by text''))"

definition policy_registry_from_dict :: "dict \<Rightarrow> string list \<Rightarrow> policy_registry res" where
  "policy_registry_from_dict value trusted =
     (if dget value ''type'' \<noteq> JStr ''kinegrant:PolicyRegistryState'' then Inl (ValueError ''wrong registry state type'')
      else if dget value ''schema_version'' \<noteq> JStr ''0.1'' then Inl (ValueError ''unsupported registry state version'')
      else
      rbind (rbind (dict_items (dget_or value ''bundles'' (JDict []))) (\<lambda>d. load_policies py_dict d [])) (\<lambda>bundles.
      rbind (rbind (dict_items (dget_or value ''revocations'' (JDict []))) (\<lambda>d. load_policies revocation_of d [])) (\<lambda>revs.
        Inr \<lparr>pg_trusted = trusted, pg_bundles = bundles, pg_revocations = revs\<rparr>)))"

section \<open>The text of a version reads back\<close>

lemma digit_not_space: "is_digit c \<Longrightarrow> \<not> py_isspace c \<and> c \<noteq> CHR ''_'' \<and> c \<noteq> CHR ''-'' \<and> c \<noteq> CHR ''+''"
  by (auto simp: is_digit_def py_isspace_def Let_def)

lemma py_strip_dense:
  assumes "s \<noteq> []" "\<not> py_isspace (hd s)" "\<not> py_isspace (last s)"
  shows "py_strip s = s"
proof -
  have "dropWhile py_isspace s = s" using assms(1,2) by (cases s) auto
  moreover have "dropWhile py_isspace (rev s) = rev s" using assms(1,3) by (cases s rule: rev_cases) auto
  ultimately show ?thesis by (simp add: py_strip_def py_lstrip_def)
qed

lemma parse_digits: "s \<noteq> [] \<Longrightarrow> list_all is_digit s \<Longrightarrow> parse_int_digits s = Some (digits_val s)"
proof -
  assume s: "s \<noteq> []" "list_all is_digit s"
  have "\<not> (\<exists>x\<in>set (zip s (tl s)). fst x = CHR ''_'')"
    using s(2) digit_not_space by (fastforce simp: list_all_iff dest: set_zip_leftD)
  moreover have "filter is_digit s = s" using s(2) by (simp add: filter_id_conv list_all_iff)
  ultimately show ?thesis
    using s digit_not_space by (auto simp: parse_int_digits_def Let_def list_all_iff case_prod_beta)
qed

lemma py_int_str [simp]: "py_int (JStr (int_str v)) = Inr v"
proof (cases "v < 0")
  case True
  let ?n = "nat_str (nat (- v))"
  have d: "list_all is_digit ?n" "?n \<noteq> []" by (simp_all add: nat_str_digits)
  have "py_strip (CHR ''-'' # ?n) = CHR ''-'' # ?n"
    using d digit_not_space by (intro py_strip_dense) (auto simp: py_isspace_def Let_def list_all_iff)
  then show ?thesis using True parse_digits [OF d(2,1)] by (simp add: py_int_def int_str_def Let_def)
next
  case False
  let ?n = "nat_str (nat v)"
  have d: "list_all is_digit ?n" "?n \<noteq> []" by (simp_all add: nat_str_digits)
  have h: "is_digit (hd ?n)" "is_digit (last ?n)" using d by (simp_all add: list_all_iff)
  have "py_strip ?n = ?n" using d(2) h digit_not_space by (intro py_strip_dense) auto
  moreover obtain c r where c: "?n = c # r" "c \<noteq> CHR ''-''" "c \<noteq> CHR ''+''"
    using d(2) h(1) digit_not_space by (cases ?n) auto
  moreover have "int (digits_val (c # r)) = v" using False digits_val_nat_str [of "nat v"] c(1) by simp
  ultimately show ?thesis using False parse_digits [OF d(2,1)] by (simp add: py_int_def int_str_def Let_def)
qed

lemma int_str_inject [simp]: "int_str u = int_str v \<longleftrightarrow> u = v"
proof
  assume "int_str u = int_str v"
  then have "py_int (JStr (int_str u)) = py_int (JStr (int_str v))" by (rule arg_cong)
  then show "u = v" by simp
qed simp

section \<open>What was saved\<close>

definition stored :: "(string \<times> dict) list \<Rightarrow> pkey \<Rightarrow> json option" where
  "stored d k = (case map_of d (fst k) of None \<Rightarrow> None | Some m \<Rightarrow> map_of m (int_str (snd k)))"

definition nested_ok :: "(string \<times> dict) list \<Rightarrow> bool" where
  "nested_ok d \<longleftrightarrow> distinct (map fst d)
     \<and> (\<forall>(pid, m)\<in>set d. distinct (map fst m) \<and> (\<forall>(t, x)\<in>set m. \<exists>v. t = int_str v))"

lemma stored_put: "stored (put_version d (k, x)) = (stored d)(k \<mapsto> x)"
  by (cases k) (rule ext, auto simp: stored_def put_version_def map_of_dset split: option.splits)

lemma set_dset_cases: "(a, b) \<in> set (dset d k v) \<Longrightarrow> (a = k \<and> b = v) \<or> (a, b) \<in> set d"
  by (induction d k v rule: dset.induct) (auto split: if_splits)

lemma nested_ok_put:
  assumes "nested_ok d"
  shows "nested_ok (put_version d (k, x))"
proof -
  obtain pid v where k: "k = (pid, v)" by (cases k)
  define m where "m = (case map_of d pid of None \<Rightarrow> [] | Some m \<Rightarrow> m)"
  have m: "distinct (map fst m) \<and> (\<forall>(t, x)\<in>set m. \<exists>v. t = int_str v)"
  proof (cases "map_of d pid")
    case None
    then show ?thesis by (simp add: m_def)
  next
    case (Some m')
    with assms map_of_SomeD [OF Some] show ?thesis by (auto simp: m_def nested_ok_def)
  qed
  have "put_version d (k, x) = dset d pid (dset m (int_str v) x)" by (simp add: put_version_def k m_def)
  moreover have "distinct (map fst (dset m (int_str v) x)) \<and> (\<forall>(t, x)\<in>set (dset m (int_str v) x). \<exists>v. t = int_str v)"
    using m by (auto simp: distinct_dset dest!: set_dset_cases)
  ultimately show ?thesis
    using assms by (auto simp: nested_ok_def distinct_dset dest!: set_dset_cases)
qed

lemma by_policy_snoc: "by_policy (kxs @ [kx]) = put_version (by_policy kxs) kx"
  by (simp add: by_policy_def)

lemma by_policy_ok: "nested_ok (by_policy kxs)"
proof (induction kxs rule: rev_induct)
  case Nil
  show ?case by (simp add: by_policy_def nested_ok_def)
next
  case (snoc kx kxs)
  then show ?case by (cases kx) (simp add: by_policy_snoc nested_ok_put)
qed

lemma by_policy_stored: "distinct (map fst kxs) \<Longrightarrow> stored (by_policy kxs) = map_of kxs"
proof (induction kxs rule: rev_induct)
  case Nil
  show ?case by (rule ext) (simp add: by_policy_def stored_def)
next
  case (snoc kx kxs)
  obtain k x where kx: "kx = (k, x)" by (cases kx)
  have "map_of kxs k = None" using snoc.prems by (auto simp: kx map_of_eq_None_iff)
  then show ?case using snoc by (auto simp: kx by_policy_snoc stored_put map_add_def fun_eq_iff split: option.splits)
qed

section \<open>What is loaded\<close>

lemma load_versions_map:
  assumes "distinct (map fst m)" "\<forall>(t, x)\<in>set m. (\<exists>v. t = int_str v) \<and> f x = Inr (h x)"
  shows "\<exists>acc'. load_versions f pid m acc = Inr acc' \<and> (distinct (map fst acc) \<longrightarrow> distinct (map fst acc'))
    \<and> (\<forall>p v. map_of acc' (p, v) =
      (if p = pid then (case map_of m (int_str v) of Some x \<Rightarrow> Some (h x) | None \<Rightarrow> map_of acc (p, v)) else map_of acc (p, v)))"
  using assms
proof (induction m arbitrary: acc)
  case (Cons tx m)
  obtain t x where tx: "tx = (t, x)" by (cases tx)
  obtain u where u: "t = int_str u" "f x = Inr (h x)" using Cons.prems(2) tx by auto
  have n: "map_of m t = None" using Cons.prems(1) by (auto simp: tx map_of_eq_None_iff)
  let ?acc = "AList.update (pid, u) (h x) acc"
  have "distinct (map fst m)" "\<forall>(t, x)\<in>set m. (\<exists>v. t = int_str v) \<and> f x = Inr (h x)" using Cons.prems by auto
  from Cons.IH [OF this, of ?acc] obtain acc' where
    c: "load_versions f pid m ?acc = Inr acc' \<and> (distinct (map fst ?acc) \<longrightarrow> distinct (map fst acc'))
      \<and> (\<forall>p v. map_of acc' (p, v) =
        (if p = pid then (case map_of m (int_str v) of Some x \<Rightarrow> Some (h x) | None \<Rightarrow> map_of ?acc (p, v)) else map_of ?acc (p, v)))" ..
  note a = c [THEN conjunct1] c [THEN conjunct2, THEN conjunct1] c [THEN conjunct2, THEN conjunct2, THEN spec, THEN spec]
  have dist: "distinct (map fst acc) \<longrightarrow> distinct (map fst ?acc)" by (rule impI) (rule distinct_update)
  have upd: "map_of ?acc (p, v) = (if p = pid \<and> v = u then Some (h x) else map_of acc (p, v))" for p v
    by (simp add: update_conv')
  have look: "map_of (tx # m) (int_str v) = (if v = u then Some x else map_of m (int_str v))" for v
    by (simp add: tx u(1) eq_commute [of u])
  have "map_of acc' (p, v) =
      (if p = pid then (case map_of (tx # m) (int_str v) of Some x \<Rightarrow> Some (h x) | None \<Rightarrow> map_of acc (p, v)) else map_of acc (p, v))" for p v
    unfolding look using a(3) [of p v] n by (cases "v = u") (simp_all add: upd u(1) cong: option.case_cong)
  with a(1,2) dist u(2) show ?case by (intro exI [of _ acc']) (simp add: tx u(1))
qed simp

lemma load_policies_map:
  assumes "nested_ok d" "\<forall>(pid, m)\<in>set d. \<forall>(t, x)\<in>set m. f x = Inr (h x)"
  shows "\<exists>acc'. load_policies f (map (\<lambda>(pid, m). (pid, JDict m)) d) acc = Inr acc'
    \<and> (distinct (map fst acc) \<longrightarrow> distinct (map fst acc'))
    \<and> (\<forall>k. map_of acc' k = (case stored d k of Some x \<Rightarrow> Some (h x) | None \<Rightarrow> map_of acc k))"
  using assms
proof (induction d arbitrary: acc)
  case Nil
  show ?case by (simp add: stored_def)
next
  case (Cons pm d)
  obtain pid m where pm: "pm = (pid, m)" by (cases pm)
  have m: "distinct (map fst m)" "\<forall>(t, x)\<in>set m. (\<exists>v. t = int_str v) \<and> f x = Inr (h x)" and d: "nested_ok d"
    and np: "map_of d pid = None"
    using Cons.prems by (auto simp: pm nested_ok_def map_of_eq_None_iff)
  from load_versions_map [OF m, of pid acc] obtain acc1 where
    1: "load_versions f pid m acc = Inr acc1" "distinct (map fst acc) \<longrightarrow> distinct (map fst acc1)"
      "\<forall>p v. map_of acc1 (p, v) = (if p = pid then (case map_of m (int_str v) of Some x \<Rightarrow> Some (h x) | None \<Rightarrow> map_of acc (p, v)) else map_of acc (p, v))"
    by blast
  from Cons.IH [OF d, of acc1] Cons.prems(2) obtain acc2 where
    2: "load_policies f (map (\<lambda>(pid, m). (pid, JDict m)) d) acc1 = Inr acc2" "distinct (map fst acc1) \<longrightarrow> distinct (map fst acc2)"
      "\<forall>k. map_of acc2 k = (case stored d k of Some x \<Rightarrow> Some (h x) | None \<Rightarrow> map_of acc1 k)" by auto
  have "map_of acc2 (p, v) = (case stored (pm # d) (p, v) of Some x \<Rightarrow> Some (h x) | None \<Rightarrow> map_of acc (p, v))" for p v
    using 1(3) 2(3) np by (auto simp: stored_def pm split: option.splits)
  with 1(1,2) 2(1,2) show ?case by (auto simp: pm dict_items_def)
qed

lemma load_saved:
  assumes "distinct (map fst kxs)" "\<forall>(k, x)\<in>set kxs. f x = Inr (h x)"
  shows "\<exists>acc. rbind (dict_items (nested (by_policy kxs))) (\<lambda>d. load_policies f d []) = Inr acc
    \<and> distinct (map fst acc) \<and> (\<forall>k. map_of acc k = map_option h (map_of kxs k))"
proof -
  have "f x = Inr (h x)" if "(pid, m) \<in> set (by_policy kxs)" "(t, x) \<in> set m" for pid m t x
  proof -
    have "\<exists>v. t = int_str v \<and> distinct (map fst m)"
      using by_policy_ok [of kxs] that by (auto simp: nested_ok_def)
    then obtain v where v: "t = int_str v" "distinct (map fst m)" by blast
    have "stored (by_policy kxs) (pid, v) = Some x"
      using by_policy_ok [of kxs] that v by (simp add: stored_def nested_ok_def)
    then have "(( pid, v), x) \<in> set kxs" using by_policy_stored [OF assms(1)] by (auto dest: map_of_SomeD)
    with assms(2) show ?thesis by auto
  qed
  then have "\<forall>(pid, m)\<in>set (by_policy kxs). \<forall>(t, x)\<in>set m. f x = Inr (h x)" by blast
  from load_policies_map [OF by_policy_ok this, of "[]"] obtain acc where
    "load_policies f (map (\<lambda>(pid, m). (pid, JDict m)) (by_policy kxs)) [] = Inr acc
      \<and> (distinct (map fst ([] :: (pkey \<times> 'a) list)) \<longrightarrow> distinct (map fst acc))
      \<and> (\<forall>k. map_of acc k = (case map_of kxs k of Some x \<Rightarrow> Some (h x) | None \<Rightarrow> map_of [] k))"
    unfolding by_policy_stored [OF assms(1)] ..
  then show ?thesis by (intro exI [of _ acc]) (simp add: nested_def dict_items_def map_option_case del: split_paired_All cong: option.case_cong)
qed

section \<open>Round trip\<close>

definition same_registry :: "policy_registry \<Rightarrow> policy_registry \<Rightarrow> bool" where
  "same_registry g g' \<longleftrightarrow> pg_trusted g' = pg_trusted g \<and> map_of (pg_bundles g') = map_of (pg_bundles g)
     \<and> map_of (pg_revocations g') = map_of (pg_revocations g)"

theorem registry_roundtrip:
  assumes "registry_ok V g" "distinct (map fst (pg_revocations g))" "\<forall>(k, r)\<in>set (pg_revocations g). utc_time (pv_at r)"
    and "policy_registry_to_dict g = Inr d"
  shows "\<exists>g'. policy_registry_from_dict d (pg_trusted g) = Inr g' \<and> registry_ok V g' \<and> same_registry g g'"
proof -
  let ?bs = "map (\<lambda>(k, p). (k, JDict p)) (pg_bundles g)"
  obtain revs where r: "rmapM (\<lambda>(k, r). rbind (policy_revocation_to_dict r) (\<lambda>d. Inr (k, JDict d))) (pg_revocations g) = Inr revs"
    and d: "d = [(''type'', JStr ''kinegrant:PolicyRegistryState''), (''schema_version'', JStr ''0.1''),
            (''bundles'', nested (by_policy ?bs)), (''revocations'', nested (by_policy revs))]"
    using assms(4) by (auto simp: policy_registry_to_dict_def res_simps)
  have dist: "distinct (map fst (pg_bundles g))" using assms(1) by (simp add: registry_ok_def)
  have "map fst ?bs = map fst (pg_bundles g)" by (simp add: comp_def case_prod_beta)
  with dist have "distinct (map fst ?bs)" by metis
  moreover have "\<forall>(k, x)\<in>set ?bs. py_dict x = Inr (the_dict x)" by auto
  ultimately obtain bs where
    bs: "rbind (dict_items (nested (by_policy ?bs))) (\<lambda>d. load_policies py_dict d []) = Inr bs" "distinct (map fst bs)"
      "\<forall>k. map_of bs k = map_option the_dict (map_of ?bs k)" using load_saved [of ?bs py_dict the_dict] by blast
  have "map_of ?bs k = map_option JDict (map_of (pg_bundles g) k)" for k by (simp add: map_of_map)
  with bs(3) have bm: "map_of bs = map_of (pg_bundles g)" by (auto simp: fun_eq_iff option.map_comp comp_def option.map_ident)
  have one: "fst (revs ! i) = fst (pg_revocations g ! i) \<and> revocation_of (snd (revs ! i)) = Inr (snd (pg_revocations g ! i))"
    if "i < length (pg_revocations g)" for i
  proof -
    obtain k v where kv: "pg_revocations g ! i = (k, v)" by (cases "pg_revocations g ! i")
    then have u: "utc_time (pv_at v)" using assms(3) nth_mem [OF that] by fastforce
    from rmapM_nth [OF r that] kv obtain iso where "isoformat (pv_at v) = Inr iso"
      "revs ! i = (k, JDict [(''policy_id'', pv_policy v), (''version'', pv_version v), (''reason'', pv_reason v), (''at'', JStr iso)])"
      by (auto simp: policy_revocation_to_dict_def res_simps)
    with utc_time_parse [OF u] kv show ?thesis by (simp add: revocation_of_def)
  qed
  have len: "length revs = length (pg_revocations g)" using rmapM_length [OF r] .
  define h where "h = (\<lambda>x. case revocation_of x of Inr y \<Rightarrow> y | Inl _ \<Rightarrow> undefined)"
  have keys: "map fst revs = map fst (pg_revocations g)" using one len by (auto intro: nth_equalityI)
  have vals: "map (\<lambda>(k, x). (k, h x)) revs = pg_revocations g"
    using one len by (intro nth_equalityI) (auto simp: h_def case_prod_beta prod_eq_iff)
  have f: "\<forall>(k, x)\<in>set revs. revocation_of x = Inr (h x)"
    using one len by (auto simp: h_def in_set_conv_nth) (metis old.sum.simps(6) snd_conv)
  have "distinct (map fst revs)" using keys assms(2) by simp
  from load_saved [OF this f] obtain rs where
    rs: "rbind (dict_items (nested (by_policy revs))) (\<lambda>d. load_policies revocation_of d []) = Inr rs"
      "\<forall>k. map_of rs k = map_option h (map_of revs k)" by blast
  have rm: "map_of rs = map_of (pg_revocations g)"
    using rs(2) by (simp add: fun_eq_iff vals [symmetric] map_of_map)
  let ?g = "\<lparr>pg_trusted = pg_trusted g, pg_bundles = bs, pg_revocations = rs\<rparr>"
  have "policy_registry_from_dict d (pg_trusted g) = Inr ?g"
    using bs(1) rs(1) by (simp add: policy_registry_from_dict_def d)
  moreover have "set bs = set (pg_bundles g)" using map_of_inject_set [OF bs(2) dist] bm by simp
  then have "registry_ok V ?g" using assms(1) bs(2) by (simp add: registry_ok_def)
  ultimately show ?thesis using bm rm by (auto simp: same_registry_def)
qed

text \<open>A registry that was loaded answers like the one that was saved.\<close>

lemma same_current:
  assumes "registry_ok V g" "registry_ok V g'" "same_registry g g'" "\<not> naive now"
  shows "current g' pid now = current g pid now"
proof -
  have d: "distinct (map fst (pg_bundles g))" "distinct (map fst (pg_bundles g'))" using assms(1,2) by (simp_all add: registry_ok_def)
  have s: "set (pg_bundles g') = set (pg_bundles g)"
    using map_of_inject_set [OF d(2,1)] assms(3) by (simp add: same_registry_def)
  have u: "usable g' now k p = usable g now k p" for k p using s assms(3) by (simp add: usable_def same_registry_def)
  have fun_g: "p = q" if "usable g now k p" "usable g now k q" for k p q
    using that eq_key_imp_eq_value [OF d(1), of k p q] by (simp add: usable_def)
  obtain r where r: "current g pid now = Inr r" "case r of None \<Rightarrow> \<nexists>v p. usable g now (pid, v) p
    | Some p \<Rightarrow> \<exists>v. usable g now (pid, v) p \<and> (\<forall>v' p'. usable g now (pid, v') p' \<longrightarrow> v' \<le> v)"
    using current_spec [OF assms(1,4), of pid] by (fastforce split: option.splits)
  obtain r' where r': "current g' pid now = Inr r'" "case r' of None \<Rightarrow> \<nexists>v p. usable g now (pid, v) p
    | Some p \<Rightarrow> \<exists>v. usable g now (pid, v) p \<and> (\<forall>v' p'. usable g now (pid, v') p' \<longrightarrow> v' \<le> v)"
    using current_spec [OF assms(2,4), of pid] unfolding u by (fastforce split: option.splits)
  have "r' = r"
    using r(2) r'(2) fun_g by (auto split: option.splits) (metis order_antisym)
  with r r' show ?thesis by simp
qed

section \<open>Loading verifies nothing\<close>

lemma loaded_unverified:
  assumes "in_bundle_window p now = Inr ()"
  shows "\<exists>g. policy_registry_from_dict [(''type'', JStr ''kinegrant:PolicyRegistryState''), (''schema_version'', JStr ''0.1''),
      (''bundles'', JDict [(pid, JDict [(''1'', JDict p)])])] trusted = Inr g \<and> current g pid now = Inr (Some p)"
proof -
  have one: "py_int (JStr ''1'') = Inr 1" by code_simp
  let ?g = "\<lparr>pg_trusted = trusted, pg_bundles = [((pid, 1), p)], pg_revocations = []\<rparr>"
  have w: "bundle_window p now" using assms by (rule in_bundle_window_Inr)
  then obtain lo up where t: "parse_time (dget p ''not_before'') = Inr lo" "parse_time (dget p ''not_after'') = Inr up"
    by (auto simp: bundle_window_def)
  then have "dget p ''not_before'' \<noteq> JNull" "dget p ''not_after'' \<noteq> JNull" by (auto simp: parse_time_def)
  note i = dindex_dget [OF this(1)] dindex_dget [OF this(2)]
  have "is_candidate ?g pid now ((pid, 1), p) = Inr True"
    using w t i parse_time_aware [OF t(1)] parse_time_aware [OF t(2)]
    by (auto simp: is_candidate_def bundle_window_def not_less)
  then have "current ?g pid now = Inr (Some p)" by (simp add: current_def)
  with one show ?thesis by (simp add: policy_registry_from_dict_def dict_items_def)
qed

end
