(* ===== verification/Adapters.thy ===== *)
theory Adapters
  imports Models PyStr PolicyState
begin

text \<open>
  \<open>adapters/_context.py\<close>, \<open>mcp.py\<close>, \<open>ros2.py\<close>, \<open>matter.py\<close>, \<open>opcua.py\<close>,
  \<open>wot.py\<close> and \<open>discovery.py\<close>: requests of other protocols as \<open>ActionRequest\<close>s, and
  the registry of discovered things. \<open>clock\<close> is the reading of \<open>utc_now()\<close> that the default
  of \<open>issued_at\<close> makes.
\<close>

section \<open>Requests\<close>

definition trusted_context :: "dict \<Rightarrow> dict option \<Rightarrow> dict res" where
  "trusted_context system supplied =
     (let user = (case supplied of None \<Rightarrow> [] | Some d \<Rightarrow> d) in
      if list_ex (\<lambda>(k, _). dhas user k) system then Inl (ValueError ''reserved adapter context keys: '')
      else Inr (user @ system))"

text \<open>What the caller of an adapter says about the request.\<close>

record request_args =
  rx_agent :: json
  rx_action :: json
  rx_purpose :: json
  rx_request_id :: json
  rx_context :: "dict option"

definition adapter_request :: "json \<Rightarrow> dict \<Rightarrow> request_args \<Rightarrow> datetime \<Rightarrow> action_request res" where
  "adapter_request target system a clock =
     rbind (trusted_context system (rx_context a)) (\<lambda>ctx.
       action_request_init (rx_request_id a) (rx_agent a) target (rx_action a) (rx_purpose a) clock (JDict ctx))"

definition profile_context :: "string \<Rightarrow> string \<Rightarrow> dict" where
  "profile_context transport profile = [(''transport'', JStr transport), (''adapter_profile'', JStr profile)]"

definition mcp_tool_request :: "json \<Rightarrow> json \<Rightarrow> request_args \<Rightarrow> datetime \<Rightarrow> action_request res" where
  "mcp_tool_request physical_target server_uri a clock =
     adapter_request physical_target
       (profile_context ''mcp'' ''mcp-tool-v0.1''
        @ [(''server_uri'', if truthy server_uri then server_uri else JStr ''mcp://local'')]) a clock"

definition ros_action_request :: "json \<Rightarrow> json \<Rightarrow> request_args \<Rightarrow> datetime \<Rightarrow> action_request res" where
  "ros_action_request physical_target namespace a clock =
     adapter_request physical_target (profile_context ''ros2'' ''ros2-action-v0.1'' @ [(''namespace'', namespace)]) a clock"

definition matter_target :: "json \<Rightarrow> json \<Rightarrow> string \<Rightarrow> string" where
  "matter_target node_id endpoint cluster =
     ''matter:'' @ quote (py_str node_id) @ '':'' @ py_str endpoint @ '':'' @ quote cluster"

definition matter_command_request :: "json \<Rightarrow> json \<Rightarrow> string \<Rightarrow> request_args \<Rightarrow> datetime \<Rightarrow> action_request res" where
  "matter_command_request node_id endpoint cluster a clock =
     adapter_request (JStr (matter_target node_id endpoint cluster)) (profile_context ''matter'' ''matter-command-v0.1'') a clock"

definition opcua_target :: "string \<Rightarrow> string \<Rightarrow> string" where
  "opcua_target server_uri node_id = ''opcua:'' @ quote server_uri @ '':'' @ quote node_id"

definition opcua_method_request :: "string \<Rightarrow> string \<Rightarrow> request_args \<Rightarrow> datetime \<Rightarrow> action_request res" where
  "opcua_method_request server_uri node_id a clock =
     adapter_request (JStr (opcua_target server_uri node_id)) (profile_context ''opcua'' ''opcua-method-v0.1'') a clock"

section \<open>Thing descriptions\<close>

definition wot_thing_id :: "dict \<Rightarrow> string res" where
  "wot_thing_id description =
     (case if truthy (dget description ''id'') then dget description ''id'' else dget description ''@id'' of
        JStr s \<Rightarrow> Inr s | _ \<Rightarrow> Inl (ValueError ''WoT Thing Description requires an id''))"

definition describe_action :: "dict \<Rightarrow> string \<times> json \<Rightarrow> (string \<times> dict) res" where
  "describe_action description = (\<lambda>(name, metadata).
     let md = (case metadata of JDict d \<Rightarrow> d | _ \<Rightarrow> []) in
     rbind (wot_thing_id description) (\<lambda>t. Inr (name,
       [(''target'', JStr t), (''title'', dget_or md ''title'' (JStr name)),
        (''safe'', JBool (truthy (dget_or md ''safe'' (JBool False)))),
        (''idempotent'', JBool (truthy (dget_or md ''idempotent'' (JBool False))))])))"

definition describe_wot_actions :: "dict \<Rightarrow> (string \<times> dict) list res" where
  "describe_wot_actions description = (case dget_or description ''actions'' (JDict []) of
      JDict acts \<Rightarrow> rmapM (describe_action description) acts
    | _ \<Rightarrow> Inl (ValueError ''WoT actions must be an object''))"

definition wot_action_request :: "dict \<Rightarrow> string \<Rightarrow> request_args \<Rightarrow> datetime \<Rightarrow> action_request res" where
  "wot_action_request description action_name a clock =
     rbind (describe_wot_actions description) (\<lambda>actions.
     if action_name \<notin> fst ` set actions then Inl (ValueError (''unknown WoT action: '' @ action_name))
     else
     rbind (wot_thing_id description) (\<lambda>t.
       adapter_request (JStr t) (profile_context ''wot'' ''wot-action-v0.1'') (a\<lparr>rx_action := JStr action_name\<rparr>) clock))"

section \<open>Discovery\<close>

record thing_actions =
  ta_name :: string
  ta_title :: string
  ta_safe :: bool
  ta_idempotent :: bool

record thing_record =
  tr_actions :: "(string \<times> thing_actions) list"
  tr_pointer :: json
  tr_authenticated :: bool
  tr_source :: string

type_synonym thing_registry = "(string \<times> thing_record) list"

definition thing_action :: "string \<times> dict \<Rightarrow> string \<times> thing_actions" where
  "thing_action = (\<lambda>(name, md). (name, \<lparr>ta_name = name, ta_title = py_str (dget md ''title''),
     ta_safe = truthy (dget md ''safe''), ta_idempotent = truthy (dget md ''idempotent'')\<rparr>))"

definition register_thing :: "thing_registry \<Rightarrow> dict \<Rightarrow> json \<Rightarrow> json \<Rightarrow> json \<Rightarrow> (thing_registry \<times> string) res" where
  "register_thing reg description policy_pointer authenticated source =
     rbind (describe_wot_actions description) (\<lambda>actions. case actions of
        [] \<Rightarrow> Inl (ValueError ''thing description has no actions to discover'')
      | (_, first) # _ \<Rightarrow>
          let thing_id = the_str (dget first ''target'') in
          if thing_id \<in> fst ` set reg then Inl (ValueError ''thing is already registered'')
          else if policy_pointer \<noteq> JNull \<and> \<not> truthy authenticated
            then Inl (ValueError ''unauthenticated discovery cannot carry a granting policy pointer'')
          else Inr (reg @ [(thing_id, \<lparr>tr_actions = map thing_action actions, tr_pointer = policy_pointer,
                      tr_authenticated = truthy authenticated,
                      tr_source = (if nonempty_str source then the_str source else ''wot-td'')\<rparr>)], thing_id))"

record discovery_resolution =
  dr_thing_id :: string
  dr_actions :: "thing_actions list"
  dr_pointer :: json
  dr_authenticated :: bool
  dr_source :: string

definition resolve_thing :: "thing_registry \<Rightarrow> string \<Rightarrow> discovery_resolution res" where
  "resolve_thing reg thing_id = (case map_of reg thing_id of
      None \<Rightarrow> Inl (ValueError ''unknown thing'')
    | Some r \<Rightarrow> Inr \<lparr>dr_thing_id = thing_id, dr_actions = map snd (tr_actions r), dr_pointer = tr_pointer r,
                    dr_authenticated = tr_authenticated r, dr_source = tr_source r\<rparr>)"

definition resolution_action :: "discovery_resolution \<Rightarrow> string \<Rightarrow> thing_actions res" where
  "resolution_action d name = (case find (\<lambda>t. ta_name t = name) (dr_actions d) of
      None \<Rightarrow> Inl (KeyError ''unknown action'') | Some t \<Rightarrow> Inr t)"

definition thing_ids :: "thing_registry \<Rightarrow> string list" where
  "thing_ids reg = sort (map fst reg)"

definition remove_thing :: "thing_registry \<Rightarrow> string \<Rightarrow> thing_registry res" where
  "remove_thing reg thing_id =
     (if thing_id \<notin> fst ` set reg then Inl (ValueError ''unknown thing'')
      else Inr (dwithout [thing_id] reg))"

section \<open>Facts\<close>

text \<open>The caller cannot spoof what the adapter says: its members are in the request's context as the
  adapter wrote them, and the caller's own members are there too.\<close>

lemma trusted_context_Inr:
  assumes "trusted_context system supplied = Inr ctx"
  shows "(\<forall>k. dhas system k \<longrightarrow> dget ctx k = dget system k)
    \<and> (\<forall>k d. supplied = Some d \<longrightarrow> dhas d k \<longrightarrow> dget ctx k = dget d k)"
proof -
  let ?u = "case supplied of None \<Rightarrow> [] | Some d \<Rightarrow> d"
  have ctx: "ctx = ?u @ system" and no: "\<forall>(k, v)\<in>set system. \<not> dhas ?u k"
    using assms by (auto simp: trusted_context_def Let_def list_ex_iff split: if_splits)
  have "\<not> dhas ?u k" if "dhas system k" for k
    using that no by (auto simp: dhas_def dest!: map_of_SomeD)
  then show ?thesis by (auto simp: ctx)
qed

lemma adapter_request_Inr:
  assumes "adapter_request target system a clock = Inr q"
  shows "rq_agent q = the_str (rx_agent a) \<and> rq_target q = the_str target \<and> rq_action q = the_str (rx_action a)
    \<and> trusted_context system (rx_context a) = Inr (rq_context q) \<and> request_ok q"
  using assms
  by (auto simp: adapter_request_def action_request_init_def res_simps request_ok_def nonblank_str_iff isoformat_def
      split: if_splits)

text \<open>Different Matter endpoints and different OPC UA nodes have different targets.\<close>

lemma int_str_no_colon: "CHR '':'' \<notin> set (py_str (JInt i))"
proof -
  have "c \<noteq> CHR '':''" if "is_digit c" for c using that by (auto simp: is_digit_def Let_def)
  then have "CHR '':'' \<notin> set (nat_str n)" for n using nat_str_digits [of n] by (auto simp: list_all_iff)
  then show ?thesis by (auto simp: py_str_def int_str_def)
qed

lemma colon_split: "CHR '':'' \<notin> set a \<Longrightarrow> CHR '':'' \<notin> set b \<Longrightarrow> a @ CHR '':'' # x = b @ CHR '':'' # y \<Longrightarrow> a = b \<and> x = y"
proof (induction a arbitrary: b)
  case Nil
  then show ?case by (cases b) auto
next
  case (Cons c a)
  then show ?case by (cases b) auto
qed

lemma py_str_JInt: "py_str (JInt i) = int_str i"
  by (simp add: py_str_def)

theorem matter_target_inject:
  assumes "matter_target (JStr n) (JInt e) c = matter_target (JStr n') (JInt e') c'"
  shows "n = n' \<and> e = e' \<and> c = c'"
proof -
  have "quote n @ CHR '':'' # (py_str (JInt e) @ CHR '':'' # quote c) = quote n' @ CHR '':'' # (py_str (JInt e') @ CHR '':'' # quote c')"
    using assms by (simp add: matter_target_def)
  from colon_split [OF quote_no_colon quote_no_colon this]
  have q: "quote n = quote n'" and r: "py_str (JInt e) @ CHR '':'' # quote c = py_str (JInt e') @ CHR '':'' # quote c'" by auto
  from colon_split [OF int_str_no_colon int_str_no_colon r] q show ?thesis
    by (simp add: quote_inject py_str_JInt)
qed

theorem opcua_target_inject:
  assumes "opcua_target s n = opcua_target s' n'"
  shows "s = s' \<and> n = n'"
proof -
  have "quote s @ CHR '':'' # quote n = quote s' @ CHR '':'' # quote n'" using assms by (simp add: opcua_target_def)
  from colon_split [OF quote_no_colon quote_no_colon this] show ?thesis by (simp add: quote_inject)
qed

text \<open>The registry: only authenticated sources carry a policy pointer, ids are unique, and every
  operation keeps it so.\<close>

definition things_ok :: "thing_registry \<Rightarrow> bool" where
  "things_ok reg \<longleftrightarrow> distinct (map fst reg)
     \<and> list_all (\<lambda>(_, r). tr_pointer r = JNull \<or> tr_authenticated r) reg"

lemma register_thingE:
  assumes "register_thing reg d p a src = Inr (reg', i)"
  obtains nm first acts r where "describe_wot_actions d = Inr ((nm, first) # acts)" "i \<notin> fst ` set reg"
    "p = JNull \<or> truthy a" "reg' = reg @ [(i, r)]" "tr_actions r = map thing_action ((nm, first) # acts)"
    "tr_pointer r = p" "tr_authenticated r = truthy a"
proof -
  obtain actions where a: "describe_wot_actions d = Inr actions" using assms by (auto simp: register_thing_def res_simps)
  obtain x acts where x: "actions = x # acts" using assms a by (cases actions) (auto simp: register_thing_def)
  obtain nm first where nm: "x = (nm, first)" by (cases x)
  show thesis
    by (rule that [OF a [unfolded x nm], where r = "\<lparr>tr_actions = map thing_action actions, tr_pointer = p,
        tr_authenticated = truthy a, tr_source = (if nonempty_str src then the_str src else ''wot-td'')\<rparr>"]) (use assms a in \<open>auto simp: x nm register_thing_def Let_def split: if_splits\<close>)
qed

lemma register_ok: "things_ok reg \<Longrightarrow> register_thing reg d p a src = Inr (reg', i) \<Longrightarrow> things_ok reg'"
  by (erule register_thingE) (auto simp: things_ok_def)

lemma remove_ok: "things_ok reg \<Longrightarrow> remove_thing reg i = Inr reg' \<Longrightarrow> things_ok reg'"
  by (auto simp: remove_thing_def things_ok_def dwithout_def distinct_map_filter list_all_iff split: if_splits)

lemma resolve_pointer:
  assumes "things_ok reg" "resolve_thing reg i = Inr d" "dr_pointer d \<noteq> JNull"
  shows "dr_authenticated d"
  using assms
  by (auto simp: resolve_thing_def things_ok_def list_all_iff dest!: map_of_SomeD split: option.splits)

text \<open>A registered thing resolves to what was registered, until it is removed.\<close>

lemma register_resolves:
  assumes "register_thing reg d p a src = Inr (reg', i)"
  shows "\<exists>r. resolve_thing reg' i = Inr r \<and> dr_pointer r = p \<and> dr_authenticated r = truthy a \<and> dr_actions r \<noteq> []"
proof -
  obtain nm first acts r where "i \<notin> fst ` set reg" and r: "reg' = reg @ [(i, r)]" "tr_actions r = map thing_action ((nm, first) # acts)"
    "tr_pointer r = p" "tr_authenticated r = truthy a"
    by (rule register_thingE [OF assms])
  then have "map_of reg i = None" by (simp add: map_of_eq_None_iff)
  with r show ?thesis by (simp add: resolve_thing_def map_add_def)
qed

lemma removed_unknown:
  assumes "remove_thing reg i = Inr reg'"
  shows "resolve_thing reg' i = Inl (ValueError ''unknown thing'')"
  using assms by (auto simp: remove_thing_def resolve_thing_def map_of_dwithout split: if_splits)

end
