(* ===== verification/Vocabulary.thy ===== *)
theory Vocabulary
  imports PyValue
begin

text \<open>
  \<open>vocabulary.py\<close> and \<open>obligations.py\<close>: the registry of canonical physical actions, the
  checks over it, and the known obligations.
\<close>

record action_spec =
  as_term :: string
  as_category :: string
  as_risk_tier :: int
  as_requires_target :: bool
  as_requires_purpose :: bool
  as_data_sensitivity :: bool
  as_description :: string

definition ACTIONS :: "action_spec list" where
  "ACTIONS = [
  \<lparr>as_term = ''kg.action.observe'', as_category = ''sense'', as_risk_tier = 1,
   as_requires_target = True, as_requires_purpose = True, as_data_sensitivity = False,
   as_description = ''Sensing a target without storing or transmitting the observation; e.g., a robot looking at a door to plan a delivery approach.''\<rparr>,
  \<lparr>as_term = ''kg.action.record'', as_category = ''data'', as_risk_tier = 2,
   as_requires_target = True, as_requires_purpose = True, as_data_sensitivity = True,
   as_description = ''Persisting an observation (audio, video, point cloud, or derived measurements) for a stated purpose.''\<rparr>,
  \<lparr>as_term = ''kg.action.touch'', as_category = ''manipulate'', as_risk_tier = 2,
   as_requires_target = True, as_requires_purpose = True, as_data_sensitivity = False,
   as_description = ''Making reversible contact with a target, such as pressing a button or nudging a light object.''\<rparr>,
  \<lparr>as_term = ''kg.action.grasp'', as_category = ''manipulate'', as_risk_tier = 3,
   as_requires_target = True, as_requires_purpose = True, as_data_sensitivity = False,
   as_description = ''Securely gripping and optionally lifting a target object, with damage risk to the object or environment.''\<rparr>,
  \<lparr>as_term = ''kg.action.move'', as_category = ''transform'', as_risk_tier = 3,
   as_requires_target = True, as_requires_purpose = True, as_data_sensitivity = False,
   as_description = ''Changing the position or configuration of a target, a robot locomotion step, or a payload relocation.''\<rparr>,
  \<lparr>as_term = ''kg.action.open'', as_category = ''access'', as_risk_tier = 2,
   as_requires_target = True, as_requires_purpose = True, as_data_sensitivity = False,
   as_description = ''Opening a barrier, door, lid, container, or software-adjacent physical lock for a stated purpose.''\<rparr>,
  \<lparr>as_term = ''kg.action.enter'', as_category = ''access'', as_risk_tier = 3,
   as_requires_target = True, as_requires_purpose = True, as_data_sensitivity = False,
   as_description = ''Causing a robot or carried item to pass through a boundary into an enclosed or restricted space.''\<rparr>,
  \<lparr>as_term = ''kg.action.retain'', as_category = ''transform'', as_risk_tier = 2,
   as_requires_target = True, as_requires_purpose = True, as_data_sensitivity = False,
   as_description = ''Keeping possession of a target after the immediate task, e.g., holding a delivered package until handoff.''\<rparr>,
  \<lparr>as_term = ''kg.action.train_on_data'', as_category = ''data'', as_risk_tier = 4,
   as_requires_target = True, as_requires_purpose = True, as_data_sensitivity = True,
   as_description = ''Using observations of a target or space to train, fine-tune, or improve an AI model. The most sensitive default-denied action.''\<rparr>]"

definition ACTION_TERMS :: "string list" where
  "ACTION_TERMS = sort (map as_term ACTIONS)"

definition CATEGORIES :: "string list" where
  "CATEGORIES = [''sense'', ''data'', ''manipulate'', ''transform'', ''access'']"

definition known_action :: "string \<Rightarrow> bool" where
  "known_action term \<longleftrightarrow> term \<in> set (map as_term ACTIONS)"

definition find_spec :: "string \<Rightarrow> action_spec option" where
  "find_spec term = List.find (\<lambda>s. as_term s = term) ACTIONS"

text \<open>\<open>action_spec\<close>\<close>

definition action_spec_of :: "string \<Rightarrow> action_spec res" where
  "action_spec_of term = (case find_spec term of
      None \<Rightarrow> Inl (KeyError ''unknown KineGrant action'') | Some s \<Rightarrow> Inr s)"

definition validate_actions :: "string list \<Rightarrow> unit res" where
  "validate_actions actions =
     (let unknown = sort (remdups (filter (\<lambda>a. \<not> known_action a) actions))
      in if unknown \<noteq> [] then Inl (ValueError ''unknown '') else Inr ())"

definition approval_tier_from_risk :: "json \<Rightarrow> int res" where
  "approval_tier_from_risk v = (case v of
      JInt r \<Rightarrow>
        if \<not> (1 \<le> r \<and> r \<le> 5) then Inl (ValueError ''risk_tier must be an integer between 1 and 5'')
        else if r \<le> 2 then Inr 0 else if r = 3 then Inr 1 else Inr 2
    | _ \<Rightarrow> Inl (ValueError ''risk_tier must be an integer between 1 and 5''))"

definition spec_to_json :: "action_spec \<Rightarrow> json" where
  "spec_to_json s = JDict
     [(''term'', JStr (as_term s)), (''category'', JStr (as_category s)),
      (''risk_tier'', JInt (as_risk_tier s)), (''requires_target'', JBool (as_requires_target s)),
      (''requires_purpose'', JBool (as_requires_purpose s)),
      (''data_sensitivity'', JBool (as_data_sensitivity s)),
      (''description'', JStr (as_description s))]"

definition registry :: dict where
  "registry = map (\<lambda>s. (as_term s, spec_to_json s)) ACTIONS"

text \<open>\<open>_validate_registry\<close>, run when the module is imported: no assertion fails.\<close>

definition validate_registry :: bool where
  "validate_registry \<longleftrightarrow> list_all (\<lambda>s.
     as_term s \<in> set ACTION_TERMS \<and> as_category s \<in> set CATEGORIES \<and>
     1 \<le> as_risk_tier s \<and> as_risk_tier s \<le> 5 \<and> as_requires_target s \<and> as_requires_purpose s) ACTIONS"

definition KNOWN_OBLIGATIONS :: "string list" where
  "KNOWN_OBLIGATIONS = [''emitActionReceipt'', ''logAuditEvent'', ''preserveEvidence'']"

lemma validate_actions_Inr [res_simps]:
  "validate_actions as = Inr u \<longleftrightarrow> list_all known_action as"
proof -
  have "sort (remdups xs) = [] \<longleftrightarrow> xs = []" for xs :: "string list"
    by (metis set_empty2 set_remdups set_sort)
  then show ?thesis
    by (auto simp: validate_actions_def Let_def filter_empty_conv list_all_iff)
qed

lemma action_spec_of_known: "known_action t \<longleftrightarrow> (\<exists>s. action_spec_of t = Inr s)"
proof -
  have "find_spec t = None \<longleftrightarrow> \<not> known_action t"
    by (auto simp: known_action_def find_spec_def find_None_iff)
  then show ?thesis by (auto simp: action_spec_of_def split: option.splits)
qed

lemma action_spec_of_term: "action_spec_of t = Inr s \<Longrightarrow> s \<in> set ACTIONS \<and> as_term s = t"
  by (auto simp: action_spec_of_def find_spec_def find_Some_iff split: option.splits)

lemma registry_valid: "validate_registry"
  by (simp add: validate_registry_def ACTION_TERMS_def CATEGORIES_def ACTIONS_def)

lemma terms_distinct: "distinct (map as_term ACTIONS)"
  by (simp add: ACTIONS_def)

end
