(* ===== verification/Fnmatch.thy ===== *)
theory Fnmatch
  imports Prelude
begin

text \<open>
  \<open>fnmatch.fnmatchcase\<close> of the standard library, which policies, capabilities and
  forbidden combinations use for their patterns: the translation of a shell pattern into a list
  of items follows \<open>fnmatch.translate\<close> (Python 3.11) step by step, including unclosed
  brackets, ranges and the removal of empty ranges; matching is the meaning of the regular
  expression it builds.
\<close>

section \<open>Pattern items\<close>

datatype cls_item = Single char | Range char char

datatype item =
    Star
  | AnyChar
  | Exact char
  | Class bool "cls_item list"  \<comment> \<open>negated, members\<close>
  | Never

fun in_cls :: "char \<Rightarrow> cls_item \<Rightarrow> bool" where
  "in_cls c (Single d) = (c = d)"
| "in_cls c (Range a b) = (a \<le> c \<and> c \<le> b)"

text \<open>Split the inside of a bracket at the hyphens that form ranges: \<open>chunk_stuff skip s\<close>
  looks for a hyphen after the first \<open>skip\<close> characters, then after two more.\<close>

fun find_hyphen :: "nat \<Rightarrow> string \<Rightarrow> nat option" where
  "find_hyphen _ [] = None"
| "find_hyphen (Suc k) (_ # s) = map_option Suc (find_hyphen k s)"
| "find_hyphen 0 (c # s) = (if c = CHR ''-'' then Some 0 else map_option Suc (find_hyphen 0 s))"

lemma find_hyphen_less: "find_hyphen k s = Some n \<Longrightarrow> n < length s"
  by (induction k s arbitrary: n rule: find_hyphen.induct) (auto split: if_splits)

function chunk_stuff :: "nat \<Rightarrow> string \<Rightarrow> string list" where
  "chunk_stuff k s = (case find_hyphen k s of
      None \<Rightarrow> [s]
    | Some n \<Rightarrow> take n s # chunk_stuff 2 (drop (Suc n) s))"
  by pat_completeness auto
termination
  by (relation "measure (\<lambda>(k, s). length s)") (auto dest: find_hyphen_less)

declare chunk_stuff.simps [simp del]

text \<open>An empty last chunk means the stuff ended in a hyphen: it belongs to the chunk before.\<close>

definition fix_last :: "string list \<Rightarrow> string list" where
  "fix_last cs = (if length cs \<ge> 2 \<and> last cs = []
     then butlast (butlast cs) @ [last (butlast cs) @ ''-''] else cs)"

text \<open>Remove empty ranges, from the back.\<close>

fun drop_empty_ranges :: "string list \<Rightarrow> string list" where
  "drop_empty_ranges [] = []"
| "drop_empty_ranges [c] = [c]"
| "drop_empty_ranges (c # cs) =
     (case drop_empty_ranges cs of
        [] \<Rightarrow> [c]
      | d # ds \<Rightarrow> if c \<noteq> [] \<and> d \<noteq> [] \<and> last c > hd d
                 then (butlast c @ tl d) # ds else c # d # ds)"

text \<open>The members the chunks denote: a range joins the end of a chunk with the start of the next.\<close>

fun cls_items :: "string list \<Rightarrow> cls_item list" where
  "cls_items [] = []"
| "cls_items [c] = map Single c"
| "cls_items ([] # d # cs) = Single (CHR ''-'') # cls_items (d # cs)"
| "cls_items (c # [] # cs) = map Single c @ Single (CHR ''-'') # cls_items ([] # cs)"
| "cls_items (c # (x # d) # cs) =
     map Single (butlast c) @ Range (last c) x # cls_items (d # cs)"

definition bracket_item :: "string \<Rightarrow> item" where
  "bracket_item stuff =
     (let chunks = (if CHR ''-'' \<in> set stuff
                    then drop_empty_ranges (fix_last (chunk_stuff
                           (if hd stuff = CHR ''!'' then 2 else 1) stuff))
                    else [stuff])
      in case chunks of
           [] \<Rightarrow> Never
         | c # cs \<Rightarrow>
             if c = [] \<and> cs = [] then Never
             else if c = ''!'' \<and> cs = [] then AnyChar
             else if c \<noteq> [] \<and> hd c = CHR ''!'' then Class True (cls_items (tl c # cs))
             else Class False (cls_items (c # cs)))"

text \<open>
  The text between the brackets: an optional \<open>!\<close>, then an optional first \<open>]\<close>, then up to
  the closing \<open>]\<close>; \<open>None\<close> when the bracket is not closed.
\<close>

definition bracket_split :: "string \<Rightarrow> (string \<times> string) option" where
  "bracket_split s =
     (let pre1 = (case s of c # _ \<Rightarrow> if c = CHR ''!'' then 1 else 0 | [] \<Rightarrow> 0);
          pre2 = pre1 + (case drop pre1 s of c # _ \<Rightarrow> if c = CHR '']'' then 1 else 0 | [] \<Rightarrow> 0);
          rest = drop pre2 s;
          body = takeWhile (\<lambda>c. c \<noteq> CHR '']'') rest
      in if length body = length rest then None
         else Some (take pre2 s @ body, drop (Suc (length body)) rest))"

lemma bracket_split_less: "bracket_split s = Some (a, r) \<Longrightarrow> length r < length s"
  by (auto simp: bracket_split_def Let_def split: if_splits list.splits)

function translate :: "string \<Rightarrow> item list" where
  "translate [] = []"
| "translate (c # s) =
     (if c = CHR ''*'' then Star # translate s
      else if c = CHR ''?'' then AnyChar # translate s
      else if c = CHR ''['' then
        (case bracket_split s of
           None \<Rightarrow> Exact c # translate s
         | Some (stuff, r) \<Rightarrow> bracket_item stuff # translate r)
      else Exact c # translate s)"
  by pat_completeness auto
termination
  by (relation "measure length") (auto dest: bracket_split_less)

section \<open>Matching\<close>

fun item_ok :: "item \<Rightarrow> char \<Rightarrow> bool" where
  "item_ok Star _ = False"
| "item_ok AnyChar _ = True"
| "item_ok (Exact d) c = (c = d)"
| "item_ok (Class neg ms) c = (list_ex (in_cls c) ms \<noteq> neg)"
| "item_ok Never _ = False"

fun match_items :: "item list \<Rightarrow> string \<Rightarrow> bool" where
  "match_items [] s = (s = [])"
| "match_items (Star # ps) [] = match_items ps []"
| "match_items (Star # ps) (c # s) = (match_items ps (c # s) \<or> match_items (Star # ps) s)"
| "match_items (p # ps) [] = False"
| "match_items (p # ps) (c # s) = (item_ok p c \<and> match_items ps s)"

definition fnmatchcase :: "string \<Rightarrow> string \<Rightarrow> bool" where
  "fnmatchcase name pat = match_items (translate pat) name"

text \<open>\<open>any(fnmatchcase(value, p) for p in patterns)\<close>\<close>

definition matches_any :: "string list \<Rightarrow> string \<Rightarrow> bool" where
  "matches_any patterns value \<longleftrightarrow> list_ex (fnmatchcase value) patterns"

section \<open>Facts\<close>

lemma match_star_iff: "match_items (Star # ps) s \<longleftrightarrow> (\<exists>u v. s = u @ v \<and> match_items ps v)"
proof (induction s)
  case (Cons c s)
  show ?case (is "?l \<longleftrightarrow> ?r")
  proof
    assume ?l
    with Cons.IH show ?r by (auto intro: exI [of _ "[]"]) (metis append_Cons)
  next
    assume ?r
    then obtain u v where uv: "c # s = u @ v" "match_items ps v" by blast
    with Cons.IH show ?l by (cases u) auto
  qed
qed auto

theorem fnmatch_star [simp]: "fnmatchcase name ''*''"
  by (simp add: fnmatchcase_def match_star_iff)

text \<open>A pattern without special characters matches itself only.\<close>

definition literal_pat :: "string \<Rightarrow> bool" where
  "literal_pat p \<longleftrightarrow> CHR ''*'' \<notin> set p \<and> CHR ''?'' \<notin> set p \<and> CHR ''['' \<notin> set p"

lemma translate_literal: "literal_pat p \<Longrightarrow> translate p = map Exact p"
  by (induction p) (auto simp: literal_pat_def)

lemma match_exact: "match_items (map Exact p) s \<longleftrightarrow> s = p"
proof (induction p arbitrary: s)
  case (Cons a p)
  then show ?case by (cases s) auto
qed auto

lemma fnmatch_literal: "literal_pat p \<Longrightarrow> fnmatchcase s p \<longleftrightarrow> s = p"
  by (simp add: fnmatchcase_def translate_literal match_exact)

lemma matches_any_mono: "set ps \<subseteq> set qs \<Longrightarrow> matches_any ps v \<Longrightarrow> matches_any qs v"
  by (auto simp: matches_any_def list_ex_iff)

lemma matches_any_singleton [simp]: "matches_any [p] v \<longleftrightarrow> fnmatchcase v p"
  by (simp add: matches_any_def)

lemma matches_any_star: "''*'' \<in> set ps \<Longrightarrow> matches_any ps v"
  by (force simp: matches_any_def list_ex_iff)

end
