(* ===== verification/Policy.thy ===== *)
theory Policy
  imports Models Vocabulary Fnmatch "HOL-Library.Product_Lexorder"
begin

text \<open>
  \<open>policy.py\<close>: the default-deny policy evaluator with deny-overrides semantics. The engine is
  a record; \<open>policy_engine_init\<close> and \<open>engine_add\<close> validate rules as the code does;
  \<open>evaluate\<close> takes the evaluation time (\<open>now or utc_now()\<close>) as an argument and can raise.
\<close>

section \<open>Loops over arbitrary values\<close>

definition fnmatch_json :: "string \<Rightarrow> json \<Rightarrow> bool res" where
  "fnmatch_json name pat = (case pat of JStr p \<Rightarrow> Inr (fnmatchcase name p)
     | _ \<Rightarrow> Inl (TypeError ''expected str, bytes or os.PathLike object''))"

text \<open>\<open>max(...)\<close> of a non-empty sequence keeps the first of equal elements.\<close>

fun py_max_from :: "json \<Rightarrow> json list \<Rightarrow> json res" where
  "py_max_from m [] = Inr m"
| "py_max_from m (x # xs) = rbind (py_greater x m) (\<lambda>g. py_max_from (if g then x else m) xs)"

text \<open>\<open>sorted(...)\<close> and the elements of a set.\<close>

fun py_insort :: "json \<Rightarrow> json list \<Rightarrow> json list res" where
  "py_insort x [] = Inr [x]"
| "py_insort x (y # ys) =
     rbind (py_less y x) (\<lambda>l. if l then rbind (py_insort x ys) (\<lambda>zs. Inr (y # zs)) else Inr (x # y # ys))"

fun py_sort :: "json list \<Rightarrow> json list res" where
  "py_sort [] = Inr []"
| "py_sort (x # xs) = rbind (py_sort xs) (\<lambda>ys. py_insort x ys)"

fun py_dedup :: "json list \<Rightarrow> json list \<Rightarrow> json list" where
  "py_dedup seen [] = rev seen"
| "py_dedup seen (x # xs) = (if py_in x seen then py_dedup seen xs else py_dedup (x # seen) xs)"

definition py_set :: "json list \<Rightarrow> json list res" where
  "py_set xs = (if list_all hashable xs then Inr (py_dedup [] xs) else Inl unhashable_exn)"

section \<open>Validation of rules\<close>

definition SUPPORTED_CONSTRAINTS :: "string list" where
  "SUPPORTED_CONSTRAINTS =
     [''not_before'', ''not_after'', ''required_context'', ''requires_human_present'',
      ''max_risk_tier'', ''max_force_newtons'', ''max_velocity_mps'', ''allowed_zones'',
      ''min_approval_tier'']"

text \<open>A limit that is given must be a number that is not negative; zones a list of names.\<close>

definition bad_limit :: "json \<Rightarrow> bool" where
  "bad_limit v \<longleftrightarrow> v \<noteq> JNull \<and> (\<not> is_num_nb v \<or> num_neg v)"

definition bad_zones :: "json \<Rightarrow> bool" where
  "bad_zones v \<longleftrightarrow> v \<noteq> JNull \<and> \<not> (\<exists>zs. v = JList zs \<and> nonblank_strs zs)"

definition bad_tier :: "json \<Rightarrow> bool" where
  "bad_tier v \<longleftrightarrow> \<not> (is_int_nb v \<and> 0 \<le> the_int v \<and> the_int v \<le> 2)"

definition validate_rule :: "policy_rule \<Rightarrow> bool \<Rightarrow> unit res" where
  "validate_rule r require_known =
     (let c = pr_constraints r in
      if \<not> list_all (\<lambda>(k, _). k \<in> set SUPPORTED_CONSTRAINTS) c
        then Inl (ValueError ''unsupported policy constraints: '')
      else if dhas c ''required_context'' \<and> \<not> is_dict (dget c ''required_context'')
        then Inl (ValueError ''required_context must be an object'')
      else if bad_limit (dget c ''max_force_newtons'')
        then Inl (ValueError ''max_force_newtons must be a non-negative number'')
      else if bad_limit (dget c ''max_velocity_mps'')
        then Inl (ValueError ''max_velocity_mps must be a non-negative number'')
      else if bad_zones (dget c ''allowed_zones'')
        then Inl (ValueError ''allowed_zones must be a non-empty list of non-empty strings'')
      else if dget c ''min_approval_tier'' \<noteq> JNull \<and> bad_tier (dget c ''min_approval_tier'')
        then Inl (ValueError ''min_approval_tier must be an integer between 0 and 2'')
      else if require_known then validate_actions (pr_actions r)
      else Inr ())"

lemma bad_zones_code [code]:
  "bad_zones v = (case v of JNull \<Rightarrow> False | JList zs \<Rightarrow> \<not> nonblank_strs zs | _ \<Rightarrow> True)"
  by (cases v) (auto simp: bad_zones_def)

section \<open>Constraints\<close>

text \<open>The context the rule requires: a list admits its members, anything else must be equal.\<close>

definition required_ok :: "dict \<Rightarrow> dict \<Rightarrow> bool" where
  "required_ok required ctx \<longleftrightarrow> list_all (\<lambda>(k, expected).
     case expected of JList xs \<Rightarrow> py_in (dget ctx k) xs | _ \<Rightarrow> py_eq (dget ctx k) expected) required"

text \<open>A declared quantity violates its limit when it is no number or too large.\<close>

definition violates :: "json \<Rightarrow> json \<Rightarrow> bool res" where
  "violates declared limit = (if \<not> is_num_nb declared then Inr True else py_greater declared limit)"

definition zone_ok :: "json \<Rightarrow> json \<Rightarrow> bool res" where
  "zone_ok zone zones =
     (if \<not> nonblank_str zone then Inr False
      else rbind (py_iter zones) (\<lambda>ps. rany (fnmatch_json (the_str zone)) ps))"

text \<open>The part of \<open>_constraints_hold\<close> before the physical limits: \<open>None\<close> to go on.\<close>

definition context_hold :: "dict \<Rightarrow> dict \<Rightarrow> datetime \<Rightarrow> bool res" where
  "context_hold c ctx now =
     rbind (if dhas c ''not_before''
            then rbind (parse_time (dget c ''not_before'')) (\<lambda>t. dt_less now t) else Inr False) (\<lambda>early.
     if early then Inr False
     else
     rbind (if dhas c ''not_after''
            then rbind (parse_time (dget c ''not_after'')) (\<lambda>t. rbind (dt_less now t) (\<lambda>b. Inr (\<not> b)))
            else Inr False) (\<lambda>late.
     if late then Inr False
     else case dget_or c ''required_context'' (JDict []) of
       JDict required \<Rightarrow>
         if \<not> required_ok required ctx then Inr False
         else if dget c ''requires_human_present'' = JBool True \<and> dget ctx ''human_present'' \<noteq> JBool True
           then Inr False
         else if dget c ''max_risk_tier'' \<noteq> JNull then
           (if \<not> is_int (dget ctx ''risk_tier'') then Inr False
            else rbind (py_int (dget c ''max_risk_tier'')) (\<lambda>m.
              Inr (\<not> the_int (dget ctx ''risk_tier'') > m)))
         else Inr True
     | _ \<Rightarrow> Inr False))"

text \<open>
  The physical limits fail closed for both effects: \<open>Some b\<close> when a limit decides. A rule
  whose limits all hold applies when it allows and does not when it denies.
\<close>

definition limit_step :: "bool \<Rightarrow> dict \<Rightarrow> dict \<Rightarrow> string \<Rightarrow> string \<Rightarrow> bool option res" where
  "limit_step is_deny c ctx limit_name ctx_name =
     (if dget c limit_name = JNull then Inr None
      else rbind (violates (dget ctx ctx_name) (dget c limit_name)) (\<lambda>v.
        Inr (if v then Some is_deny else None)))"

definition zone_step :: "bool \<Rightarrow> dict \<Rightarrow> dict \<Rightarrow> bool option res" where
  "zone_step is_deny c ctx =
     (if dget c ''allowed_zones'' = JNull then Inr None
      else rbind (zone_ok (dget ctx ''zone'') (dget c ''allowed_zones'')) (\<lambda>inz.
        Inr (if is_deny then (if inz then Some True else None)
             else if \<not> inz then Some False else None)))"

definition physical_hold :: "bool \<Rightarrow> dict \<Rightarrow> dict \<Rightarrow> bool res" where
  "physical_hold is_deny c ctx =
     rbind (limit_step is_deny c ctx ''max_force_newtons'' ''force_newtons'') (\<lambda>r1.
     case r1 of Some b \<Rightarrow> Inr b | None \<Rightarrow>
     rbind (limit_step is_deny c ctx ''max_velocity_mps'' ''velocity_mps'') (\<lambda>r2.
     case r2 of Some b \<Rightarrow> Inr b | None \<Rightarrow>
     rbind (zone_step is_deny c ctx) (\<lambda>r3.
     case r3 of Some b \<Rightarrow> Inr b | None \<Rightarrow>
       Inr (\<not> (is_deny \<and> (dget c ''max_force_newtons'' \<noteq> JNull
                     \<or> dget c ''max_velocity_mps'' \<noteq> JNull \<or> dget c ''allowed_zones'' \<noteq> JNull))))))"

definition constraints_hold :: "policy_rule \<Rightarrow> action_request \<Rightarrow> datetime \<Rightarrow> bool res" where
  "constraints_hold r q now =
     rbind (context_hold (pr_constraints r) (rq_context q) now) (\<lambda>b.
       if \<not> b then Inr False
       else physical_hold (pr_effect r = Deny) (pr_constraints r) (rq_context q))"

section \<open>The engine\<close>

record policy_engine =
  pe_rules :: "policy_rule list"
  pe_trusted :: "string list"
  pe_require_known :: bool
  pe_max_age :: int
  pe_skew :: int

definition duplicate_exn :: exn where
  "duplicate_exn = ValueError ''policy_id values must be unique within a policy snapshot''"

definition policy_engine_init ::
  "policy_rule list \<Rightarrow> string list \<Rightarrow> int \<Rightarrow> int \<Rightarrow> bool \<Rightarrow> policy_engine res" where
  "policy_engine_init rules trusted max_age_seconds skew_seconds require_known =
     rbind (rforeach (\<lambda>r. validate_rule r require_known) rules) (\<lambda>_.
     if \<not> distinct (map pr_policy_id rules) then Inl duplicate_exn
     else if max_age_seconds < 1 \<or> skew_seconds < 0
       then Inl (ValueError ''invalid request freshness settings'')
     else Inr \<lparr>pe_rules = rules, pe_trusted = trusted, pe_require_known = require_known,
               pe_max_age = seconds max_age_seconds, pe_skew = seconds skew_seconds\<rparr>)"

definition engine_add :: "policy_engine \<Rightarrow> policy_rule list \<Rightarrow> policy_engine res" where
  "engine_add e rules =
     rbind (rforeach (\<lambda>r. validate_rule r (pe_require_known e)) rules) (\<lambda>_.
     let incoming = map pr_policy_id rules in
     if set (map pr_policy_id (pe_rules e)) \<inter> set incoming \<noteq> {} \<or> \<not> distinct incoming
       then Inl duplicate_exn
     else Inr (e\<lparr>pe_rules := pe_rules e @ rules\<rparr>))"

definition policy_digest :: "policy_engine \<Rightarrow> string res" where
  "policy_digest e = digest (JDict
     [(''rules'', JList (map (\<lambda>r. JDict (rule_to_dict r)) (sort_key pr_policy_id (pe_rules e)))),
      (''trusted_policy_issuers'', JStrs (sort (remdups (pe_trusted e))))])"

text \<open>The loop body of \<open>evaluate\<close>: whether a rule applies to a request.\<close>

definition rule_applies :: "policy_engine \<Rightarrow> action_request \<Rightarrow> datetime \<Rightarrow> policy_rule \<Rightarrow> bool res" where
  "rule_applies e q now r =
     (if pr_effect r = Allow \<and> pr_issuer r \<notin> set (pe_trusted e) then Inr False
      else if \<not> fnmatchcase (rq_target q) (pr_target r) then Inr False
      else if \<not> matches_any (pr_actions r) (rq_action q) then Inr False
      else if \<not> matches_any (pr_subjects r) (rq_agent q) then Inr False
      else if \<not> matches_any (pr_purposes r) (rq_purpose q) then Inr False
      else constraints_hold r q now)"

text \<open>The sort key \<open>(-priority, policy_id)\<close>; a priority that is no number raises. (A float
  that is not finite has already been refused by the policy digest.)\<close>

definition priority_key :: "policy_rule \<Rightarrow> (rat \<times> string) res" where
  "priority_key r = (case num_of (pr_priority r) of
      Some (FFin p) \<Rightarrow> Inr (- p, pr_policy_id r)
    | _ \<Rightarrow> Inl (TypeError ''bad operand type for unary -''))"

definition sort_applicable :: "policy_rule list \<Rightarrow> policy_rule list res" where
  "sort_applicable rs =
     rbind (rmapM priority_key rs) (\<lambda>ks. Inr (map snd (sort_key fst (zip ks rs))))"

definition deny_decision :: "action_request \<Rightarrow> string \<Rightarrow> string \<Rightarrow> string list \<Rightarrow> decision res" where
  "deny_decision q reason pd matched =
     rbind (request_digest q) (\<lambda>rd. Inr
       \<lparr>dc_allowed = False, dc_reason = reason, dc_request_digest = rd, dc_policy_digest = pd,
        dc_matched = matched, dc_obligations = [], dc_tier = JInt 0\<rparr>)"

definition decide_applicable :: "action_request \<Rightarrow> string \<Rightarrow> policy_rule list \<Rightarrow> decision res" where
  "decide_applicable q pd applicable =
     (let matched = map pr_policy_id applicable;
          allows = filter (\<lambda>r. pr_effect r = Allow) applicable
      in if list_ex (\<lambda>r. pr_effect r = Deny) applicable
           then deny_decision q ''explicit_deny'' pd matched
         else if allows = [] then deny_decision q ''default_deny'' pd matched
         else
           rbind (py_set (concat (map pr_obligations allows))) (\<lambda>obs.
           rbind (py_sort obs) (\<lambda>obligations.
           let tiers = map (\<lambda>r. dget_or (pr_constraints r) ''min_approval_tier'' (JInt 0)) allows in
           rbind (py_max_from (hd tiers) (tl tiers)) (\<lambda>tier.
           rbind (request_digest q) (\<lambda>rd. Inr
             \<lparr>dc_allowed = True, dc_reason = ''explicit_allow'', dc_request_digest = rd,
              dc_policy_digest = pd, dc_matched = matched, dc_obligations = obligations,
              dc_tier = tier\<rparr>)))))"

definition evaluate :: "policy_engine \<Rightarrow> action_request \<Rightarrow> datetime \<Rightarrow> decision res" where
  "evaluate e q now =
     (if naive now then Inl (ValueError ''policy evaluation time must include a timezone'')
      else
        let current = now\<lparr>dt_tz := dt_tz (rq_issued_at q)\<rparr> in
        if \<not> dt_valid current then Inl overflow_exn
        else
        rbind (policy_digest e) (\<lambda>pd.
        if pe_require_known e \<and> \<not> known_action (rq_action q) then deny_decision q ''unknown_action'' pd []
        else
        rbind (dt_add current (pe_skew e)) (\<lambda>latest.
        rbind (dt_less latest (rq_issued_at q)) (\<lambda>future.
        if future then deny_decision q ''future_request'' pd []
        else
        rbind (dt_diff current (rq_issued_at q)) (\<lambda>age.
        if age > pe_max_age e then deny_decision q ''stale_request'' pd []
        else
        rbind (rfilter (rule_applies e q current) (pe_rules e)) (\<lambda>applicable.
        rbind (sort_applicable applicable) (\<lambda>sorted. decide_applicable q pd sorted)))))))"

section \<open>What the evaluator decides\<close>

text \<open>The request's own timezone is used for the evaluation time; the instant is the same.\<close>

definition eval_time :: "action_request \<Rightarrow> datetime \<Rightarrow> datetime" where
  "eval_time q now = now\<lparr>dt_tz := dt_tz (rq_issued_at q)\<rparr>"

definition fresh :: "policy_engine \<Rightarrow> action_request \<Rightarrow> datetime \<Rightarrow> bool" where
  "fresh e q now \<longleftrightarrow> dt_us (rq_issued_at q) \<le> dt_us now + pe_skew e
     \<and> dt_us now - dt_us (rq_issued_at q) \<le> pe_max_age e"

text \<open>
  The specification of a grant: a known and fresh request, a trusted allow rule that applies,
  and no deny rule that applies.
\<close>

definition applies :: "policy_engine \<Rightarrow> action_request \<Rightarrow> datetime \<Rightarrow> policy_rule \<Rightarrow> bool" where
  "applies e q now r \<longleftrightarrow> rule_applies e q (eval_time q now) r = Inr True"

definition grants :: "policy_engine \<Rightarrow> action_request \<Rightarrow> datetime \<Rightarrow> bool" where
  "grants e q now \<longleftrightarrow> (pe_require_known e \<longrightarrow> known_action (rq_action q)) \<and> fresh e q now
     \<and> (\<exists>r\<in>set (pe_rules e). pr_effect r = Allow \<and> applies e q now r)
     \<and> (\<forall>r\<in>set (pe_rules e). pr_effect r = Deny \<longrightarrow> \<not> applies e q now r)"

lemma deny_decision_Inr:
  "deny_decision q s pd m = Inr d \<Longrightarrow> \<not> dc_allowed d \<and> dc_reason d = s \<and> dc_policy_digest d = pd
     \<and> dc_matched d = m \<and> request_digest q = Inr (dc_request_digest d)"
  by (auto simp: deny_decision_def res_simps)

lemma set_sort_applicable: "sort_applicable rs = Inr ss \<Longrightarrow> set ss = set rs"
proof -
  assume "sort_applicable rs = Inr ss"
  then obtain ks where k: "rmapM priority_key rs = Inr ks" "ss = map snd (sort_key fst (zip ks rs))"
    by (auto simp: sort_applicable_def res_simps)
  from k(1) have "map snd (zip ks rs) = rs" by (simp add: rmapM_length)
  then have "snd ` set (zip ks rs) = set rs" by (metis set_map)
  then show ?thesis by (simp add: k(2))
qed

lemma decide_applicable_Inr:
  assumes "decide_applicable q pd rs = Inr d"
  shows "dc_allowed d \<longleftrightarrow> (\<exists>r\<in>set rs. pr_effect r = Allow) \<and> (\<forall>r\<in>set rs. pr_effect r \<noteq> Deny)"
    and "dc_matched d = map pr_policy_id rs"
    and "dc_policy_digest d = pd"
    and "request_digest q = Inr (dc_request_digest d)"
  using assms
  by (auto simp: decide_applicable_def Let_def list_ex_iff filter_empty_conv res_simps
      dest!: deny_decision_Inr split: if_splits)

text \<open>The stages of \<open>evaluate\<close>, once for all properties.\<close>

lemma evaluate_cases:
  assumes ev: "evaluate e q now = Inr d" and aware: "\<not> naive (rq_issued_at q)"
  obtains (unknown) "pe_require_known e" "\<not> known_action (rq_action q)" "dc_reason d = ''unknown_action''"
      "\<not> dc_allowed d" "policy_digest e = Inr (dc_policy_digest d)"
    | (stale) "\<not> fresh e q now" "\<not> dc_allowed d" "dc_reason d \<in> {''future_request'', ''stale_request''}"
      "pe_require_known e \<longrightarrow> known_action (rq_action q)" "policy_digest e = Inr (dc_policy_digest d)"
    | (decided) rs ss where "fresh e q now" "pe_require_known e \<longrightarrow> known_action (rq_action q)"
      "rfilter (rule_applies e q (eval_time q now)) (pe_rules e) = Inr rs" "sort_applicable rs = Inr ss"
      "decide_applicable q (dc_policy_digest d) ss = Inr d" "policy_digest e = Inr (dc_policy_digest d)"
proof -
  from ev obtain pd where pd: "policy_digest e = Inr pd" and
    rest: "(if pe_require_known e \<and> \<not> known_action (rq_action q) then deny_decision q ''unknown_action'' pd []
        else
        rbind (dt_add (eval_time q now) (pe_skew e)) (\<lambda>latest.
        rbind (dt_less latest (rq_issued_at q)) (\<lambda>future.
        if future then deny_decision q ''future_request'' pd []
        else
        rbind (dt_diff (eval_time q now) (rq_issued_at q)) (\<lambda>age.
        if age > pe_max_age e then deny_decision q ''stale_request'' pd []
        else
        rbind (rfilter (rule_applies e q (eval_time q now)) (pe_rules e)) (\<lambda>applicable.
        rbind (sort_applicable applicable) (\<lambda>sorted. decide_applicable q pd sorted)))))) = Inr d"
    by (auto simp: evaluate_def Let_def eval_time_def res_simps split: if_splits)
  show thesis
  proof (cases "pe_require_known e \<and> \<not> known_action (rq_action q)")
    case True
    with rest show thesis by (intro unknown) (auto dest: deny_decision_Inr simp: pd)
  next
    case known: False
    show thesis
    proof (cases "fresh e q now")
      case False
      with rest known aware have "deny_decision q ''future_request'' pd [] = Inr d
          \<or> deny_decision q ''stale_request'' pd [] = Inr d"
        by (auto simp: fresh_def eval_time_def res_simps split: if_splits)
      then show thesis using False known by (intro stale) (auto dest!: deny_decision_Inr simp: pd)
    next
      case True
      with rest known aware obtain rs ss where
        "rfilter (rule_applies e q (eval_time q now)) (pe_rules e) = Inr rs"
        "sort_applicable rs = Inr ss" "decide_applicable q pd ss = Inr d"
        by (auto simp: fresh_def eval_time_def res_simps split: if_splits)
      then show thesis using True known by (intro decided) (auto dest: decide_applicable_Inr(3) simp: pd)
    qed
  qed
qed

lemma evaluate_grants:
  assumes ev: "evaluate e q now = Inr d" and aware: "\<not> naive (rq_issued_at q)"
  shows "dc_allowed d \<longleftrightarrow> grants e q now"
  using ev aware
proof (cases rule: evaluate_cases)
  case (decided rs ss)
  have "set ss = set rs" by (rule set_sort_applicable) (rule decided)
  moreover have "r \<in> set rs \<longleftrightarrow> r \<in> set (pe_rules e) \<and> applies e q now r" for r
    using decided(3) by (simp add: rfilter_set applies_def)
  ultimately show ?thesis
    using decided by (auto simp: decide_applicable_Inr(1) [OF decided(5)] grants_def)
qed (auto simp: grants_def)

text \<open>What the issuer and the gate need of an allowed decision.\<close>

lemma allowed_decision_ok:
  assumes ev: "evaluate e q now = Inr d" "dc_allowed d" and aware: "\<not> naive (rq_issued_at q)"
    and rules: "\<forall>r\<in>set (pe_rules e). rule_ok r"
  shows "[] \<notin> set (dc_matched d)" "is_sha256_text (dc_policy_digest d)"
  using ev(1) aware
proof (atomize (full), cases rule: evaluate_cases)
  case (decided rs ss)
  have "set ss \<subseteq> set (pe_rules e)"
    using set_sort_applicable [OF decided(4)] rfilter_set [OF decided(3)] by auto
  moreover have "dc_matched d = map pr_policy_id ss" by (rule decide_applicable_Inr(2) [OF decided(5)])
  ultimately have "[] \<notin> set (dc_matched d)" using rules by (fastforce simp: rule_ok_def blank_def)
  moreover have "is_sha256_text (dc_policy_digest d)"
    using decided(6) digest_shape by (simp add: policy_digest_def)
  ultimately show "[] \<notin> set (dc_matched d) \<and> is_sha256_text (dc_policy_digest d)" ..
qed (use ev(2) in auto)

text \<open>A rule that applies matches the request on every dimension.\<close>

lemma applies_matches:
  "applies e q now r \<Longrightarrow> fnmatchcase (rq_target q) (pr_target r)
     \<and> matches_any (pr_actions r) (rq_action q) \<and> matches_any (pr_subjects r) (rq_agent q)
     \<and> matches_any (pr_purposes r) (rq_purpose q)
     \<and> constraints_hold r q (eval_time q now) = Inr True
     \<and> (pr_effect r = Allow \<longrightarrow> pr_issuer r \<in> set (pe_trusted e))"
  by (auto simp: applies_def rule_applies_def split: if_splits)

lemma validate_ruleD:
  "validate_rule r k = Inr u \<Longrightarrow>
     (\<forall>c\<in>fst ` set (pr_constraints r). c \<in> set SUPPORTED_CONSTRAINTS)
     \<and> (k \<longrightarrow> list_all known_action (pr_actions r))"
  by (auto simp: validate_rule_def Let_def list_all_iff res_simps split: if_splits)

text \<open>The engine's invariant: every rule is valid and no policy id occurs twice.\<close>

definition engine_inv :: "policy_engine \<Rightarrow> bool" where
  "engine_inv e \<longleftrightarrow> distinct (map pr_policy_id (pe_rules e))
     \<and> (\<forall>r\<in>set (pe_rules e). validate_rule r (pe_require_known e) = Inr ())
     \<and> 0 < pe_max_age e \<and> 0 \<le> pe_skew e"

lemma policy_engine_init_inv: "policy_engine_init rs ts a s k = Inr e \<Longrightarrow> engine_inv e"
  by (auto simp: policy_engine_init_def engine_inv_def res_simps seconds_def split: if_splits)

lemma engine_add_inv: "engine_inv e \<Longrightarrow> engine_add e rs = Inr e' \<Longrightarrow> engine_inv e'"
  by (auto simp: engine_add_def engine_inv_def res_simps Let_def split: if_splits)

lemma engine_add_rules:
  "engine_add e rs = Inr e' \<Longrightarrow> e' = e\<lparr>pe_rules := pe_rules e @ rs\<rparr>"
  by (auto simp: engine_add_def res_simps Let_def split: if_splits)

text \<open>The engines the program can have: built once, then extended.\<close>

inductive engine_built :: "policy_engine \<Rightarrow> bool" where
  built_init: "policy_engine_init rs ts a s k = Inr e \<Longrightarrow> engine_built e"
| built_add: "engine_built e \<Longrightarrow> engine_add e rs = Inr e' \<Longrightarrow> engine_built e'"

lemma engine_built_inv: "engine_built e \<Longrightarrow> engine_inv e"
  by (induction rule: engine_built.induct) (auto intro: policy_engine_init_inv engine_add_inv)

text \<open>Rules of issuers that are not trusted can take a grant away and never give one.\<close>

lemma rule_applies_rules_irrelevant [simp]:
  "applies (e\<lparr>pe_rules := rs\<rparr>) q now r = applies e q now r"
  by (simp add: applies_def rule_applies_def)

lemma untrusted_never_grant:
  assumes "engine_add e rs = Inr e'" "\<forall>r\<in>set rs. pr_issuer r \<notin> set (pe_trusted e)" "grants e' q now"
  shows "grants e q now"
proof -
  have e': "e' = e\<lparr>pe_rules := pe_rules e @ rs\<rparr>" using assms(1) by (rule engine_add_rules)
  have "\<not> (pr_effect r = Allow \<and> applies e q now r)" if "r \<in> set rs" for r
    using that assms(2) applies_matches by blast
  with assms(3) show ?thesis unfolding grants_def e' by (auto simp: fresh_def)
qed

section \<open>Physical limits fail closed\<close>

text \<open>\<open>within_limit c ctx l n\<close>: the context proves the quantity \<open>n\<close> within the limit \<open>l\<close>.\<close>

definition within_limit :: "dict \<Rightarrow> dict \<Rightarrow> string \<Rightarrow> string \<Rightarrow> bool" where
  "within_limit c ctx l n \<longleftrightarrow> dget c l = JNull
     \<or> (is_num_nb (dget ctx n) \<and> py_greater (dget ctx n) (dget c l) = Inr False)"

definition in_zones :: "dict \<Rightarrow> dict \<Rightarrow> bool" where
  "in_zones c ctx \<longleftrightarrow> dget c ''allowed_zones'' = JNull
     \<or> zone_ok (dget ctx ''zone'') (dget c ''allowed_zones'') = Inr True"

lemma limit_step_Inr:
  "limit_step dn c ctx l n = Inr x \<Longrightarrow> x = (if within_limit c ctx l n then None else Some dn)"
  by (auto simp: limit_step_def within_limit_def violates_def res_simps split: if_splits)

lemma physical_allow:
  "physical_hold False c ctx = Inr b \<Longrightarrow>
     b \<longleftrightarrow> within_limit c ctx ''max_force_newtons'' ''force_newtons''
         \<and> within_limit c ctx ''max_velocity_mps'' ''velocity_mps'' \<and> in_zones c ctx"
  by (auto simp: physical_hold_def zone_step_def in_zones_def res_simps dest!: limit_step_Inr
      split: if_splits)

lemma physical_deny:
  "physical_hold True c ctx = Inr b \<Longrightarrow>
     b \<longleftrightarrow> \<not> within_limit c ctx ''max_force_newtons'' ''force_newtons''
         \<or> \<not> within_limit c ctx ''max_velocity_mps'' ''velocity_mps''
         \<or> dget c ''allowed_zones'' \<noteq> JNull \<and> in_zones c ctx
         \<or> dget c ''max_force_newtons'' = JNull \<and> dget c ''max_velocity_mps'' = JNull
             \<and> dget c ''allowed_zones'' = JNull"
  by (auto simp: physical_hold_def zone_step_def in_zones_def res_simps dest!: limit_step_Inr
      split: if_splits)

end
