(* ===== verification/Attenuation.thy ===== *)
theory Attenuation
  imports Policy Crypto
begin

text \<open>
  \<open>attenuation.py\<close>: deriving a narrower capability body from an issued one and checking
  the relation between two payloads. The optional keyword arguments are a record of values;
  the clock reading and the nonce are arguments. \<open>verify_attenuation\<close> catches
  \<open>KeyError\<close>, \<open>TypeError\<close> and \<open>ValueError\<close> only, so it can still raise.
\<close>

section \<open>Shared helpers\<close>

lemma dindex_dget_or: "dindex d k = Inr v \<Longrightarrow> dget_or d k x = v"
  by (simp add: dget_or_def res_simps)

definition CONSTRAINT_KEYS :: "string list" where
  "CONSTRAINT_KEYS = [''max_force_newtons'', ''max_velocity_mps'', ''allowed_zones'']"

text \<open>\<open>_capability_id\<close>, also \<open>capability._capability_content_id\<close>\<close>

definition capability_id_of :: "dict \<Rightarrow> string res" where
  "capability_id_of body =
     content_id ''kinegrant:cap'' (JDict (dwithout [''capability_id'', ''root_capability_id''] body))"

text \<open>\<open>any(fnmatchcase(value, pattern) for pattern in patterns)\<close> on unchecked values\<close>

definition matches_json :: "json \<Rightarrow> json list \<Rightarrow> bool res" where
  "matches_json v ps = rany (\<lambda>p. case (v, p) of
      (JStr s, JStr q) \<Rightarrow> Inr (fnmatchcase s q)
    | _ \<Rightarrow> Inl (TypeError ''expected str, bytes or os.PathLike object'')) ps"

definition is_v2 :: "json \<Rightarrow> bool" where
  "is_v2 v \<longleftrightarrow> v = JStr ''0.2'' \<or> v = JStr ''1.0''"

definition parent_fields :: "string list" where
  "parent_fields = [''issuer'', ''agent'', ''target'', ''request_digest'', ''policy_digest'',
     ''matched_policy_ids'', ''obligations'', ''not_before'', ''expires_at'', ''capability_id'']"

definition parent_fields_v2 :: "string list" where
  "parent_fields_v2 = [''actions'', ''purposes'', ''delegation_allowed'', ''max_delegation_depth'',
     ''delegate_agent'', ''delegation_depth'', ''root_capability_id'', ''delegate_allowlist'']"

definition require_parent :: "dict \<Rightarrow> unit res" where
  "require_parent p =
     (if dget p ''type'' \<noteq> JStr ''kinegrant:PhysicalActionCapability''
        then Inl (ValueError ''parent is not a KineGrant capability'')
      else if dget p ''version'' \<noteq> JStr ''0.1'' \<and> \<not> is_v2 (dget p ''version'')
        then Inl (ValueError ''unsupported parent capability version'')
      else if \<not> list_all (dhas p) parent_fields
        then Inl (ValueError ''parent capability is missing '')
      else if \<not> list_all (dhas p) (if is_v2 (dget p ''version'') then parent_fields_v2
                                  else [''action'', ''purpose''])
        then Inl (ValueError ''parent capability is missing '')
      else case dget p ''matched_policy_ids'' of
        JList ms \<Rightarrow> require (ms \<noteq> []) (ValueError ''parent capability has no matching policy'')
      | _ \<Rightarrow> Inl (ValueError ''parent capability has no matching policy''))"

text \<open>A non-empty list of non-empty strings.\<close>

definition str_scope :: "json \<Rightarrow> bool" where
  "str_scope v \<longleftrightarrow> is_list v \<and> the_list v \<noteq> [] \<and> list_all nonempty_str (the_list v)"

definition parent_scope :: "dict \<Rightarrow> (json \<times> json \<times> json) res" where
  "parent_scope p =
     rbind (dindex p ''target'') (\<lambda>target.
     rbind (if is_v2 (dget p ''version'') then dindex p ''actions''
            else rbind (dindex p ''action'') (\<lambda>a. Inr (JList [a]))) (\<lambda>actions.
     rbind (if is_v2 (dget p ''version'') then dindex p ''purposes''
            else rbind (dindex p ''purpose'') (\<lambda>a. Inr (JList [a]))) (\<lambda>purposes.
     if \<not> nonblank_str target then Inl (ValueError ''parent target scope must be a non-empty string'')
     else if \<not> str_scope actions
       then Inl (ValueError ''parent action scope must be a non-empty list of non-empty strings'')
     else if \<not> str_scope purposes
       then Inl (ValueError ''parent purpose scope must be a non-empty list of non-empty strings'')
     else Inr (target, actions, purposes))))"

text \<open>\<open>int(delta.total_seconds())\<close> truncates towards zero.\<close>

definition trunc_seconds :: "int \<Rightarrow> int" where
  "trunc_seconds us = (if us < 0 then - ((- us) div 1000000) else us div 1000000)"

definition narrow_time :: "dict \<Rightarrow> json \<Rightarrow> datetime \<Rightarrow> (datetime \<times> datetime) res" where
  "narrow_time p ttl now =
     rbind (dindex p ''not_before'') (\<lambda>nb. rbind (parse_time nb) (\<lambda>p_not_before.
     rbind (dindex p ''expires_at'') (\<lambda>ex. rbind (parse_time ex) (\<lambda>p_expires_at.
     rbind (if ttl = JNull
            then rbind (dt_diff p_expires_at now) (\<lambda>us.
              Inr (JInt (max 1 (min 300 (trunc_seconds us)))))
            else Inr ttl) (\<lambda>ttl.
     if \<not> (is_int_nb ttl \<and> 1 \<le> the_int ttl \<and> the_int ttl \<le> 300)
       then Inl (ValueError ''attenuated TTL must be an integer between 1 and 300 seconds'')
     else
     rbind (dt_add now (seconds (the_int ttl))) (\<lambda>child_expires_at.
     rbind (dt_less now p_not_before) (\<lambda>early.
     rbind (if early then Inr True else dt_less p_expires_at child_expires_at) (\<lambda>bad.
     if bad then Inl (ValueError ''attenuation cannot extend the parent capability lifetime'')
     else Inr (now, child_expires_at)))))))))"

section \<open>Constraints\<close>

text \<open>The closure \<open>_limit\<close>: the child's dictionary so far and one limit.\<close>

definition narrow_limit :: "dict \<Rightarrow> dict \<Rightarrow> string \<Rightarrow> json \<Rightarrow> dict res" where
  "narrow_limit pc child name value =
     (if value = JNull then Inr child
      else if \<not> is_num_nb value \<or> num_neg value
        then Inl (ValueError (name @ '' must be a non-negative number''))
      else rbind (if dget pc name = JNull then Inr False else py_greater value (dget pc name)) (\<lambda>above.
        if above then Inl (ValueError (''attenuation cannot raise '' @ name @ '' above the parent limit''))
        else Inr (dset child name value)))"

definition narrow_zones :: "dict \<Rightarrow> dict \<Rightarrow> json \<Rightarrow> dict res" where
  "narrow_zones pc child zones =
     (if zones = JNull then Inr child
      else if \<not> (is_list zones \<and> nonblank_strs (the_list zones))
        then Inl (ValueError ''allowed_zones must be a non-empty list of non-empty strings'')
      else rbind (case dget pc ''allowed_zones'' of
          JNull \<Rightarrow> Inr ()
        | JList pz \<Rightarrow> rforeach (\<lambda>z. rbind (matches_json z pz) (\<lambda>b.
            require b (ValueError ''zone ''))) (the_list zones)
        | _ \<Rightarrow> Inl (ValueError ''parent allowed_zones must be a list'')) (\<lambda>_.
        Inr (dset child ''allowed_zones'' zones)))"

definition narrow_constraints :: "dict \<Rightarrow> json \<Rightarrow> json \<Rightarrow> json \<Rightarrow> dict res" where
  "narrow_constraints p max_force max_velocity zones =
     (case dget_or p ''constraints'' (JDict []) of
        JDict pc \<Rightarrow>
          rbind (narrow_limit pc [] ''max_force_newtons'' max_force) (\<lambda>c1.
          rbind (narrow_limit pc c1 ''max_velocity_mps'' max_velocity) (\<lambda>c2.
          narrow_zones pc c2 zones))
      | _ \<Rightarrow> Inl (ValueError ''parent constraints must be an object''))"

section \<open>Deriving a child\<close>

record attenuation_args =
  aa_agent :: json
  aa_actions :: json
  aa_target :: json
  aa_purposes :: json
  aa_ttl :: json
  aa_max_force :: json
  aa_max_velocity :: json
  aa_zones :: json
  aa_delegate :: json
  aa_request :: "action_request option"

definition no_args :: attenuation_args where
  "no_args = \<lparr>aa_agent = JNull, aa_actions = JNull, aa_target = JNull, aa_purposes = JNull,
     aa_ttl = JNull, aa_max_force = JNull, aa_max_velocity = JNull, aa_zones = JNull,
     aa_delegate = JNull, aa_request = None\<rparr>"

definition child_target :: "json \<Rightarrow> json \<Rightarrow> json res" where
  "child_target target parent_target =
     (if target = JNull then Inr parent_target
      else if \<not> nonblank_str target then Inl (ValueError ''target must be a non-empty string'')
      else rbind (if target = parent_target then Inr True else matches_json target [parent_target]) (\<lambda>ok.
        if \<not> ok then Inl (ValueError ''target '') else Inr target))"

text \<open>The same checks for actions and purposes; \<open>what\<close> is the name in the messages.\<close>

definition child_scope :: "string \<Rightarrow> json \<Rightarrow> json \<Rightarrow> json res" where
  "child_scope what given parent_values =
     (if given = JNull then Inr parent_values
      else if \<not> str_scope given
        then Inl (ValueError (what @ '' must be a non-empty list of non-empty strings''))
      else if \<not> list_all (\<lambda>a. py_in a (the_list parent_values)) (the_list given)
        then Inl (ValueError (''attenuation cannot add '' @ what @ '' beyond the parent capability''))
      else Inr given)"

definition depth_ok :: "json \<Rightarrow> bool" where
  "depth_ok v \<longleftrightarrow> is_int_nb v \<and> 0 \<le> the_int v \<and> the_int v \<le> 3"

definition tier_ok :: "json \<Rightarrow> bool" where
  "tier_ok v \<longleftrightarrow> is_int_nb v \<and> 0 \<le> the_int v \<and> the_int v \<le> 2"

text \<open>
  The delegation fields of the child: delegate, depth, whether delegation is allowed, maximal
  depth and request digest.
\<close>

definition child_delegation ::
  "dict \<Rightarrow> json \<Rightarrow> action_request option \<Rightarrow> json \<Rightarrow> json \<Rightarrow> json \<Rightarrow> (json \<times> json \<times> json \<times> json \<times> json) res" where
  "child_delegation p delegate request target actions purposes =
     (let allowed = dget_or p ''delegation_allowed'' (JBool False);
          max_depth = dget_or p ''max_delegation_depth'' (JInt 0);
          p_delegate = dget p ''delegate_agent'';
          depth = dget_or p ''delegation_depth'' (JInt 0) in
      if \<not> is_bool allowed then Inl (ValueError ''parent delegation_allowed must be a boolean'')
      else if \<not> depth_ok max_depth
        then Inl (ValueError ''parent max_delegation_depth must be an integer between 0 and 3'')
      else if p_delegate \<noteq> JNull \<and> \<not> nonempty_str p_delegate
        then Inl (ValueError ''parent delegate_agent must be a non-empty string or null'')
      else if \<not> depth_ok depth
        then Inl (ValueError ''parent delegation_depth must be an integer between 0 and 3'')
      else if delegate = JNull then
        rbind (dindex p ''request_digest'') (\<lambda>rd. Inr (p_delegate, depth, allowed, max_depth, rd))
      else if \<not> nonblank_str delegate then Inl (ValueError ''delegate_agent must be a non-empty string'')
      else rbind (dindex p ''agent'') (\<lambda>agent.
        if delegate = agent then Inl (ValueError ''delegate_agent must differ from the principal agent'')
        else if allowed = JBool False then Inl (ValueError ''parent capability does not allow delegation'')
        else if the_int depth \<ge> the_int max_depth then Inl (ValueError ''delegation depth limit reached'')
        else case request of
          None \<Rightarrow> Inl (ValueError ''delegate_agent requires a delegate ActionRequest'')
        | Some q \<Rightarrow>
          if JStr (rq_agent q) \<noteq> delegate
            then Inl (ValueError ''delegate request agent must match delegate_agent'')
          else rbind (matches_json (JStr (rq_target q)) [target]) (\<lambda>in_target.
          if \<not> in_target then Inl (ValueError ''delegate request target is outside the child scope'')
          else if \<not> py_in (JStr (rq_action q)) (the_list actions)
            then Inl (ValueError ''delegate request action is outside the child scope'')
          else if \<not> py_in (JStr (rq_purpose q)) (the_list purposes)
            then Inl (ValueError ''delegate request purpose is outside the child scope'')
          else rbind (request_digest q) (\<lambda>rd.
            Inr (delegate, JInt (the_int depth + 1), JBool False, JInt 0, JStr rd)))))"

definition check_allowlist :: "json \<Rightarrow> json \<Rightarrow> unit res" where
  "check_allowlist delegate allowlist =
     (if allowlist \<noteq> JNull \<and> \<not> is_list allowlist
        then Inl (ValueError ''parent delegate_allowlist must be a list or null'')
      else if delegate \<noteq> JNull \<and> truthy allowlist
        then rbind (matches_json delegate (the_list allowlist)) (\<lambda>b.
          require b (ValueError ''delegate agent ''))
      else Inr ())"

text \<open>\<open>list(v)\<close>\<close>

definition py_list :: "json \<Rightarrow> json res" where
  "py_list v = rbind (py_iter v) (\<lambda>xs. Inr (JList xs))"

definition root_of :: "dict \<Rightarrow> json \<Rightarrow> json" where
  "root_of p cid = (if truthy (dget p ''root_capability_id'') then dget p ''root_capability_id'' else cid)"

text \<open>The dictionary the child is built from; \<open>dl\<close> are its delegation fields.\<close>

definition child_body :: "dict \<Rightarrow> json \<Rightarrow> json \<Rightarrow> json \<Rightarrow> json \<Rightarrow> json \<times> json \<times> json \<times> json \<times> json \<Rightarrow> json \<Rightarrow> json
    \<Rightarrow> string \<Rightarrow> string \<Rightarrow> string \<Rightarrow> dict \<Rightarrow> dict" where
  "child_body p agent target actions purposes dl matched obligations nb ex nonce constraints =
     (case dl of (delegate, depth, allowed, max_depth, rd) \<Rightarrow>
       [(''type'', JStr ''kinegrant:PhysicalActionCapability''),
        (''version'', if is_v2 (dget p ''version'') then dget p ''version'' else JStr ''0.2''),
        (''issuer'', dget p ''issuer''), (''agent'', agent), (''target'', target),
        (''actions'', actions), (''purposes'', purposes), (''request_digest'', rd),
        (''policy_digest'', dget p ''policy_digest''), (''matched_policy_ids'', matched),
        (''obligations'', obligations), (''issued_at'', JStr nb), (''not_before'', JStr nb),
        (''expires_at'', JStr ex), (''nonce'', JStr nonce),
        (''parent_capability_id'', dget p ''capability_id''), (''constraints'', JDict constraints),
        (''approval_tier'', dget_or p ''approval_tier'' (JInt 0)), (''delegation_allowed'', allowed),
        (''max_delegation_depth'', max_depth), (''delegate_agent'', delegate),
        (''delegation_depth'', depth), (''root_capability_id'', root_of p (dget p ''capability_id'')),
        (''delegate_allowlist'', dget p ''delegate_allowlist'')])"

lemma dset_child_body:
  "dset (child_body p agent target actions purposes dl matched obligations nb ex nonce cs) ''capability_id'' v
    = child_body p agent target actions purposes dl matched obligations nb ex nonce cs @ [(''capability_id'', v)]"
  by (cases dl) (simp add: child_body_def)

definition attenuate_capability :: "dict \<Rightarrow> attenuation_args \<Rightarrow> datetime \<Rightarrow> string \<Rightarrow> dict res" where
  "attenuate_capability p a now nonce =
     rbind (require_parent p) (\<lambda>_.
     rbind (dindex p ''agent'') (\<lambda>agent.
     if aa_agent a \<noteq> JNull \<and> \<not> py_eq (aa_agent a) agent
       then Inl (ValueError ''cross-agent delegation is not supported in v0.2 attenuation'')
     else
     rbind (parent_scope p) (\<lambda>(p_target, p_actions, p_purposes).
     rbind (child_target (aa_target a) p_target) (\<lambda>target.
     rbind (child_scope ''actions'' (aa_actions a) p_actions) (\<lambda>actions.
     rbind (child_scope ''purposes'' (aa_purposes a) p_purposes) (\<lambda>purposes.
     rbind (narrow_time p (aa_ttl a) now) (\<lambda>(not_before, expires_at).
     rbind (narrow_constraints p (aa_max_force a) (aa_max_velocity a) (aa_zones a)) (\<lambda>constraints.
     rbind (child_delegation p (aa_delegate a) (aa_request a) target actions purposes) (\<lambda>dl.
     rbind (check_allowlist (aa_delegate a) (dget p ''delegate_allowlist'')) (\<lambda>_.
     if \<not> tier_ok (dget_or p ''approval_tier'' (JInt 0))
       then Inl (ValueError ''parent approval_tier must be an integer between 0 and 2'')
     else
     rbind (py_list (dget p ''matched_policy_ids'')) (\<lambda>matched.
     rbind (py_list (dget p ''obligations'')) (\<lambda>obligations.
     rbind (isoformat not_before) (\<lambda>nb_text.
     rbind (isoformat expires_at) (\<lambda>ex_text.
     let body = child_body p agent target actions purposes dl matched obligations nb_text ex_text nonce
                  constraints
     in rbind (capability_id_of body) (\<lambda>cid. Inr (dset body ''capability_id'' (JStr cid)))))))))))))))))"

section \<open>Checking a pair of payloads\<close>

text \<open>The checks in their order; \<open>verify_attenuation\<close> returns \<open>False\<close> at the first that fails.\<close>

definition same_identity :: "dict \<Rightarrow> dict \<Rightarrow> bool" where
  "same_identity c p \<longleftrightarrow>
     dget c ''type'' = JStr ''kinegrant:PhysicalActionCapability'' \<and> is_v2 (dget c ''version'')
     \<and> (is_v2 (dget p ''version'') \<longrightarrow> dget c ''version'' = dget p ''version'')
     \<and> py_eq (dget c ''parent_capability_id'') (dget p ''capability_id'')
     \<and> py_eq (dget c ''root_capability_id'') (root_of p (dget p ''capability_id''))
     \<and> py_eq (dget c ''delegate_allowlist'') (dget p ''delegate_allowlist'')
     \<and> py_eq (dget c ''issuer'') (dget p ''issuer'') \<and> py_eq (dget c ''agent'') (dget p ''agent'')
     \<and> py_eq (dget c ''policy_digest'') (dget p ''policy_digest'')"

definition policies_narrow :: "dict \<Rightarrow> dict \<Rightarrow> bool res" where
  "policies_narrow c p =
     (case (dget_or c ''matched_policy_ids'' (JList []), dget_or p ''matched_policy_ids'' (JList [])) of
        (JList cs, JList ps) \<Rightarrow> rbind (py_subset cs ps) (\<lambda>b. Inr (b \<and> cs \<noteq> []))
      | _ \<Rightarrow> Inr False)"

definition scope_narrow :: "json \<Rightarrow> json \<Rightarrow> bool" where
  "scope_narrow c p \<longleftrightarrow> is_list c \<and> is_list p \<and> the_list c \<noteq> []
     \<and> list_all (\<lambda>a. py_in a (the_list p)) (the_list c)"

definition scopes_narrow :: "dict \<Rightarrow> dict \<Rightarrow> bool res" where
  "scopes_narrow c p =
     rbind (parent_scope p) (\<lambda>(p_target, p_actions, p_purposes).
     rbind (let t = dget_or c ''target'' (JStr []) in
            if py_eq t p_target then Inr True else matches_json t [p_target]) (\<lambda>in_target.
     Inr (in_target \<and> scope_narrow (dget_or c ''actions'' (JList [])) p_actions
          \<and> scope_narrow (dget_or c ''purposes'' (JList [])) p_purposes)))"

definition delegation_narrow :: "dict \<Rightarrow> dict \<Rightarrow> bool res" where
  "delegation_narrow c p =
     (let p_allowed = dget_or p ''delegation_allowed'' (JBool False);
          p_max = dget_or p ''max_delegation_depth'' (JInt 0);
          p_delegate = dget p ''delegate_agent'';
          p_depth = dget_or p ''delegation_depth'' (JInt 0);
          c_allowed = dget_or c ''delegation_allowed'' (JBool False);
          c_max = dget_or c ''max_delegation_depth'' (JInt 0);
          c_delegate = dget c ''delegate_agent'';
          c_depth = dget_or c ''delegation_depth'' (JInt 0) in
      if \<not> is_bool p_allowed \<or> \<not> is_bool c_allowed then Inr False
      else if \<not> list_all depth_ok [p_max, c_max, p_depth, c_depth] then Inr False
      else
      rbind (if py_eq c_delegate p_delegate
             then Inr (c_depth = p_depth \<and> py_eq (dget c ''request_digest'') (dget p ''request_digest''))
             else if p_allowed = JBool False then Inr False
             else if the_int p_depth \<ge> the_int p_max then Inr False
             else if the_int c_depth \<noteq> the_int p_depth + 1 then Inr False
             else if \<not> nonempty_str c_delegate then Inr False
             else if py_eq c_delegate (dget c ''agent'') then Inr False
             else if c_allowed \<noteq> JBool False then Inr False
             else if c_max \<noteq> JInt 0 then Inr False
             else if dget p ''delegate_allowlist'' \<noteq> JNull \<and> \<not> is_list (dget p ''delegate_allowlist'')
               then Inr False
             else if truthy (dget p ''delegate_allowlist'')
               then matches_json c_delegate (the_list (dget p ''delegate_allowlist''))
             else Inr True) (\<lambda>ok.
      Inr (ok \<and> the_int c_max \<le> the_int p_max \<and> (c_allowed = JBool True \<longrightarrow> p_allowed = JBool True))))"

text \<open>\<open>parse_time(a[k]) < parse_time(b[k])\<close>\<close>

definition times_less :: "dict \<Rightarrow> dict \<Rightarrow> string \<Rightarrow> bool res" where
  "times_less a b k =
     rbind (dindex a k) (\<lambda>va. rbind (parse_time va) (\<lambda>ta.
     rbind (dindex b k) (\<lambda>vb. rbind (parse_time vb) (\<lambda>tb. dt_less ta tb))))"

text \<open>\<open>parse_time(c[k]) > parse_time(p[k])\<close>: the operands are evaluated from left to right.\<close>

definition times_greater :: "dict \<Rightarrow> dict \<Rightarrow> string \<Rightarrow> bool res" where
  "times_greater a b k =
     rbind (dindex a k) (\<lambda>va. rbind (parse_time va) (\<lambda>ta.
     rbind (dindex b k) (\<lambda>vb. rbind (parse_time vb) (\<lambda>tb. dt_less tb ta))))"

definition limit_narrow :: "dict \<Rightarrow> dict \<Rightarrow> string \<Rightarrow> bool res" where
  "limit_narrow cc pc name =
     (if dget cc name = JNull \<or> dget pc name = JNull then Inr True
      else rbind (py_greater (dget cc name) (dget pc name)) (\<lambda>g. Inr (\<not> g)))"

definition zones_narrow :: "json \<Rightarrow> json \<Rightarrow> bool res" where
  "zones_narrow cz pz =
     (if cz = JNull then Inr True
      else if \<not> is_list cz then Inr False
      else if pz = JNull then Inr True
      else if \<not> is_list pz then Inr False
      else rall (\<lambda>z. matches_json z (the_list pz)) (the_list cz))"

definition constraints_narrow :: "dict \<Rightarrow> dict \<Rightarrow> bool res" where
  "constraints_narrow c p =
     (case (dget_or c ''constraints'' (JDict []), dget_or p ''constraints'' (JDict [])) of
        (JDict cc, JDict pc) \<Rightarrow>
          if \<not> list_all (\<lambda>(k, _). k \<in> set CONSTRAINT_KEYS) cc then Inr False
          else rbind (limit_narrow cc pc ''max_force_newtons'') (\<lambda>f.
            if \<not> f then Inr False
            else rbind (limit_narrow cc pc ''max_velocity_mps'') (\<lambda>v.
              if \<not> v then Inr False
              else zones_narrow (dget cc ''allowed_zones'') (dget pc ''allowed_zones'')))
      | _ \<Rightarrow> Inr False)"

text \<open>The body of the \<open>try\<close> block.\<close>

definition attenuation_checks :: "dict \<Rightarrow> dict \<Rightarrow> bool res" where
  "attenuation_checks c p =
     rbind (require_parent p) (\<lambda>_.
     if \<not> same_identity c p then Inr False
     else rbind (policies_narrow c p) (\<lambda>b1. if \<not> b1 then Inr False
     else rbind (scopes_narrow c p) (\<lambda>b2. if \<not> b2 then Inr False
     else rbind (delegation_narrow c p) (\<lambda>b3. if \<not> b3 then Inr False
     else rbind (times_less c p ''not_before'') (\<lambda>early. if early then Inr False
     else rbind (times_greater c p ''expires_at'') (\<lambda>late. if late then Inr False
     else if \<not> py_eq (dget_or c ''approval_tier'' (JInt 0)) (dget_or p ''approval_tier'' (JInt 0))
       then Inr False
     else constraints_narrow c p))))))"

definition verify_attenuation :: "dict \<Rightarrow> dict \<Rightarrow> bool res" where
  "verify_attenuation c p =
     (case attenuation_checks c p of
        Inl e \<Rightarrow> if is_KeyError e \<or> is_TypeError e \<or> is_ValueError e then Inr False else Inl e
      | Inr b \<Rightarrow> Inr b)"

section \<open>Taking a derivation apart\<close>

lemma attenuateE:
  assumes "attenuate_capability p a now nonce = Inr c"
  obtains pt pa pp target actions purposes nb ex constraints dl matched obligations nbt ext cid where
    "require_parent p = Inr ()" "parent_scope p = Inr (pt, pa, pp)"
    "child_target (aa_target a) pt = Inr target" "child_scope ''actions'' (aa_actions a) pa = Inr actions"
    "child_scope ''purposes'' (aa_purposes a) pp = Inr purposes"
    "narrow_time p (aa_ttl a) now = Inr (nb, ex)"
    "narrow_constraints p (aa_max_force a) (aa_max_velocity a) (aa_zones a) = Inr constraints"
    "child_delegation p (aa_delegate a) (aa_request a) target actions purposes = Inr dl"
    "check_allowlist (aa_delegate a) (dget p ''delegate_allowlist'') = Inr ()"
    "tier_ok (dget_or p ''approval_tier'' (JInt 0))"
    "py_list (dget p ''matched_policy_ids'') = Inr matched" "py_list (dget p ''obligations'') = Inr obligations"
    "isoformat nb = Inr nbt" "isoformat ex = Inr ext"
    "capability_id_of (child_body p (dget p ''agent'') target actions purposes dl matched obligations nbt ext nonce constraints) = Inr cid"
    "c = child_body p (dget p ''agent'') target actions purposes dl matched obligations nbt ext nonce constraints
           @ [(''capability_id'', JStr cid)]"
proof -
  from assms show thesis
    unfolding attenuate_capability_def Let_def
    apply -
    apply (elim res_elims, drule dget_dindex)
    apply (rule that, (assumption | simp add: dset_child_body)+)
    done
qed

section \<open>A derived child verifies\<close>

lemma narrow_timeE:
  assumes "narrow_time p ttl now = Inr r"
  obtains v t w u e bad tl ce where "dindex p ''not_before'' = Inr v" "parse_time v = Inr t"
    "dindex p ''expires_at'' = Inr w" "parse_time w = Inr u" "dt_add now (seconds (the_int tl)) = Inr ce"
    "dt_less now t = Inr e" "(if e then Inr True else dt_less u ce) = Inr bad" "\<not> bad"
    "Inr (now, ce) = (Inr r :: exn + _)"
proof -
  from assms show thesis
    unfolding narrow_time_def
    apply -
    apply (elim res_elims)
    apply (rule that, assumption+)
    done
qed

lemma narrow_timeD:
  assumes "narrow_time p ttl now = Inr (nb, ex)"
  shows "nb = now" "\<exists>us. dt_add now us = Inr ex"
    "\<exists>v t. dindex p ''not_before'' = Inr v \<and> parse_time v = Inr t \<and> dt_less now t = Inr False"
    "\<exists>v t. dindex p ''expires_at'' = Inr v \<and> parse_time v = Inr t \<and> dt_less t ex = Inr False"
proof -
  from assms obtain v t w u e bad tl ce where *: "dindex p ''not_before'' = Inr v" "parse_time v = Inr t"
    "dindex p ''expires_at'' = Inr w" "parse_time w = Inr u" "dt_add now (seconds (the_int tl)) = Inr ce"
    "dt_less now t = Inr e" "(if e then Inr True else dt_less u ce) = Inr bad" "\<not> bad" "now = nb" "ce = ex"
    by (rule narrow_timeE) simp
  then have "e = False" "dt_less u ex = Inr False" by (auto split: if_splits)
  with * show "nb = now" "\<exists>us. dt_add now us = Inr ex"
    "\<exists>v t. dindex p ''not_before'' = Inr v \<and> parse_time v = Inr t \<and> dt_less now t = Inr False"
    "\<exists>v t. dindex p ''expires_at'' = Inr v \<and> parse_time v = Inr t \<and> dt_less t ex = Inr False"
    by blast+
qed

lemma narrow_limitD:
  "narrow_limit pc child n v = Inr c \<Longrightarrow>
     (v = JNull \<and> c = child) \<or>
     (v \<noteq> JNull \<and> c = dset child n v \<and> (dget pc n = JNull \<or> py_greater v (dget pc n) = Inr False))"
  by (auto simp: narrow_limit_def res_simps split: if_splits)

lemma narrow_zonesD:
  "narrow_zones pc child v = Inr c \<Longrightarrow>
     (v = JNull \<and> c = child) \<or>
     (v \<noteq> JNull \<and> c = dset child ''allowed_zones'' v \<and> zones_narrow v (dget pc ''allowed_zones'') = Inr True)"
  by (auto simp: narrow_zones_def zones_narrow_def res_simps rall_True split: if_splits json.splits)

lemma dset_keys_sub: "list_all (\<lambda>(k, _). k \<in> A) d \<Longrightarrow> k \<in> A \<Longrightarrow> list_all (\<lambda>(k, _). k \<in> A) (dset d k v)"
  by (induction d k v rule: dset.induct) auto

lemma narrow_constraintsD:
  assumes "narrow_constraints p f v z = Inr cc"
  obtains pc where "dget_or p ''constraints'' (JDict []) = JDict pc"
    "list_all (\<lambda>(k, _). k \<in> set CONSTRAINT_KEYS) cc"
    "limit_narrow cc pc ''max_force_newtons'' = Inr True"
    "limit_narrow cc pc ''max_velocity_mps'' = Inr True"
    "zones_narrow (dget cc ''allowed_zones'') (dget pc ''allowed_zones'') = Inr True"
proof -
  from assms obtain pc c1 c2 where pc: "dget_or p ''constraints'' (JDict []) = JDict pc"
    and 1: "narrow_limit pc [] ''max_force_newtons'' f = Inr c1"
    and 2: "narrow_limit pc c1 ''max_velocity_mps'' v = Inr c2"
    and 3: "narrow_zones pc c2 z = Inr cc"
    unfolding narrow_constraints_def by - (elim res_elims, blast)
  have keys: "list_all (\<lambda>(k, _). k \<in> set CONSTRAINT_KEYS) cc"
    using narrow_limitD [OF 1] narrow_limitD [OF 2] narrow_zonesD [OF 3]
    by (auto simp: CONSTRAINT_KEYS_def intro!: dset_keys_sub)
  have "dget cc ''max_force_newtons'' = f" "dget cc ''max_velocity_mps'' = v" "dget cc ''allowed_zones'' = z"
    using narrow_limitD [OF 1] narrow_limitD [OF 2] narrow_zonesD [OF 3] by auto
  then show thesis
    using narrow_limitD [OF 1] narrow_limitD [OF 2] narrow_zonesD [OF 3]
    by (intro that [OF pc keys]) (auto simp: limit_narrow_def zones_narrow_def)
qed

lemma child_targetD:
  "child_target t pt = Inr r \<Longrightarrow> r = pt \<or> matches_json r [pt] = Inr True"
  by (auto simp: child_target_def res_simps split: if_splits)

lemma str_scope_in: "str_scope v \<Longrightarrow> a \<in> set (the_list v) \<Longrightarrow> py_in a (the_list v)"
  by (auto simp: str_scope_def list_all_iff nonempty_str_iff)

lemma child_scopeD: "child_scope w g pv = Inr r \<Longrightarrow> str_scope pv \<Longrightarrow> scope_narrow r pv"
  by (auto simp: child_scope_def scope_narrow_def list_all_iff str_scope_in split: if_splits)
    (auto simp: str_scope_def)

lemma parent_scopeD:
  assumes "parent_scope p = Inr (t, as, ps)"
  shows "nonblank_str t" "str_scope as" "str_scope ps"
  using assms unfolding parent_scope_def by - (elim res_elims; simp)+

lemma child_delegation_some:
  assumes "child_delegation p d q target actions purposes = Inr r" "d \<noteq> JNull"
  shows "nonblank_str d \<and> d \<noteq> dget p ''agent''
    \<and> is_bool (dget_or p ''delegation_allowed'' (JBool False))
    \<and> dget_or p ''delegation_allowed'' (JBool False) \<noteq> JBool False
    \<and> depth_ok (dget_or p ''max_delegation_depth'' (JInt 0)) \<and> depth_ok (dget_or p ''delegation_depth'' (JInt 0))
    \<and> the_int (dget_or p ''delegation_depth'' (JInt 0)) < the_int (dget_or p ''max_delegation_depth'' (JInt 0))
    \<and> (\<exists>rd. r = (d, JInt (the_int (dget_or p ''delegation_depth'' (JInt 0)) + 1), JBool False, JInt 0, JStr rd))"
proof -
  from assms obtain rd agent where "nonblank_str d" "dindex p ''agent'' = Inr agent" "d \<noteq> agent"
    "is_bool (dget_or p ''delegation_allowed'' (JBool False))"
    "dget_or p ''delegation_allowed'' (JBool False) \<noteq> JBool False"
    "depth_ok (dget_or p ''max_delegation_depth'' (JInt 0))" "depth_ok (dget_or p ''delegation_depth'' (JInt 0))"
    "\<not> the_int (dget_or p ''delegation_depth'' (JInt 0)) \<ge> the_int (dget_or p ''max_delegation_depth'' (JInt 0))"
    "Inr (d, JInt (the_int (dget_or p ''delegation_depth'' (JInt 0)) + 1), JBool False, JInt 0, JStr rd) = (Inr r :: exn + _)"
    unfolding child_delegation_def Let_def
    apply -
    apply (elim res_elims, simp only: if_False, elim res_elims)
    apply blast
    done
  then show ?thesis by (auto dest!: dget_dindex)
qed

lemma delegation_narrow_delegated:
  assumes "dget_or p ''delegation_allowed'' (JBool False) = JBool True"
    and "dget_or p ''max_delegation_depth'' (JInt 0) = JInt m" "0 \<le> m" "m \<le> 3"
    and "dget_or p ''delegation_depth'' (JInt 0) = JInt n" "0 \<le> n" "n < m"
    and "dget c ''delegate_agent'' = JStr s" "s \<noteq> []" "dget p ''delegate_agent'' \<noteq> JStr s" "dget c ''agent'' \<noteq> JStr s"
    and "dget_or c ''delegation_depth'' (JInt 0) = JInt (n + 1)"
    and "dget_or c ''delegation_allowed'' (JBool False) = JBool False"
    and "dget_or c ''max_delegation_depth'' (JInt 0) = JInt 0"
    and "dget p ''delegate_allowlist'' = JNull \<or> is_list (dget p ''delegate_allowlist'')"
    and "truthy (dget p ''delegate_allowlist'') \<longrightarrow>
      matches_json (JStr s) (the_list (dget p ''delegate_allowlist'')) = Inr True"
  shows "delegation_narrow c p = Inr True"
  unfolding delegation_narrow_def Let_def assms(1,2,5,8,12-14)
  using assms(3,4,6,7,9-11,15,16) by (auto simp: depth_ok_def)

lemma child_delegation_narrow:
  assumes "child_delegation p d q target actions purposes = Inr (delegate, depth, allowed, md, rd)"
    and "check_allowlist d (dget p ''delegate_allowlist'') = Inr ()"
    and other: "d \<noteq> JNull \<Longrightarrow> d \<noteq> dget p ''delegate_agent''" and wf: "wf_items p"
    and c: "dget c ''delegate_agent'' = delegate" "dget_or c ''delegation_depth'' (JInt 0) = depth"
      "dget_or c ''delegation_allowed'' (JBool False) = allowed"
      "dget_or c ''max_delegation_depth'' (JInt 0) = md" "dget c ''request_digest'' = rd"
      "dget c ''agent'' = dget p ''agent''"
  shows "delegation_narrow c p = Inr True"
proof (cases "d = JNull")
  case True
  have "py_eq (dget p k) (dget p k)" for k using wf_dget [OF wf] by (simp add: py_eq_refl)
  moreover from assms(1) True have "is_bool allowed" "depth_ok md" "depth_ok depth"
    "allowed = dget_or p ''delegation_allowed'' (JBool False)"
    "md = dget_or p ''max_delegation_depth'' (JInt 0)" "depth = dget_or p ''delegation_depth'' (JInt 0)"
    "delegate = dget p ''delegate_agent''" "dget p ''request_digest'' = rd"
    unfolding child_delegation_def Let_def
    by - (elim res_elims, simp, elim res_elims, drule dget_dindex, simp)+
  ultimately show ?thesis
    using c by (auto simp: delegation_narrow_def Let_def)
next
  case False
  note * = child_delegation_some [OF assms(1) this]
  have "nonblank_str d" using * by blast
  then obtain s where s: "d = JStr s" "s \<noteq> []" by (metis nonblank_str_iff blank_Nil)
  from * have eqs: "delegate = d" "depth = JInt (the_int (dget_or p ''delegation_depth'' (JInt 0)) + 1)"
    "allowed = JBool False" "md = JInt 0"
    by blast+
  note c' = c [unfolded eqs s]
  have "dget p ''delegate_agent'' \<noteq> JStr s" using other False s by metis
  moreover have "d \<noteq> dget p ''agent''" using * by blast
  moreover have "dget p ''delegate_allowlist'' = JNull \<or> is_list (dget p ''delegate_allowlist'')"
    "truthy (dget p ''delegate_allowlist'') \<longrightarrow> matches_json d (the_list (dget p ''delegate_allowlist'')) = Inr True"
    using assms(2) False by (auto simp: check_allowlist_def res_simps split: if_splits)
  moreover have "0 \<le> the_int (dget_or p ''delegation_depth'' (JInt 0))"
    "the_int (dget_or p ''delegation_depth'' (JInt 0)) < the_int (dget_or p ''max_delegation_depth'' (JInt 0))"
    "the_int (dget_or p ''max_delegation_depth'' (JInt 0)) \<le> 3"
    "dget_or p ''delegation_allowed'' (JBool False) \<noteq> JBool False"
    using * unfolding depth_ok_def by linarith+
  moreover obtain b m n where "dget_or p ''delegation_allowed'' (JBool False) = JBool b"
    "dget_or p ''max_delegation_depth'' (JInt 0) = JInt m" "dget_or p ''delegation_depth'' (JInt 0) = JInt n"
    using * unfolding depth_ok_def by (metis is_bool_iff is_int_nb_iff)
  ultimately show ?thesis
    using c' s by (intro delegation_narrow_delegated [of p m n c s]) auto
qed

theorem attenuate_verifies:
  assumes att: "attenuate_capability p a now nonce = Inr c"
    and wf: "wf_items p" and now: "utc_time now"
    and ids: "list_all hashable (the_list (dget p ''matched_policy_ids''))"
    and other: "aa_delegate a \<noteq> JNull \<Longrightarrow> aa_delegate a \<noteq> dget p ''delegate_agent''"
  shows "verify_attenuation c p = Inr True"
  using att
proof (cases rule: attenuateE)
  case (1 pt pa pp target actions purposes nb ex constraints dl matched obligations nbt ext cid)
  obtain delegate depth allowed md rd where dl: "dl = (delegate, depth, allowed, md, rd)" by (cases dl)
  have refl: "py_eq (dget p k) (dget p k)" for k using wf_dget [OF wf] by (simp add: py_eq_refl)
  note c = 1(16) [unfolded child_body_def dl prod.case]
  have nb: "utc_time nb" "utc_time ex"
    using narrow_timeD [OF 1(6)] now utc_time_add by auto
  have times: "parse_time (JStr nbt) = Inr nb" "parse_time (JStr ext) = Inr ex"
    using utc_time_parse nb 1(13,14) by auto
  obtain ms where ms: "dget p ''matched_policy_ids'' = JList ms" "ms \<noteq> []"
    using 1(1) unfolding require_parent_def by - (elim res_elims, simp add: res_simps)
  have "is_v2 (JStr ''0.2'')" by (simp add: is_v2_def)
  then have "same_identity c p"
    using refl by (simp add: same_identity_def c root_of_def py_eq_refl)
  moreover have "policies_narrow c p = Inr True"
  proof -
    have "dget_or p ''matched_policy_ids'' (JList []) = JList ms"
      using ms(1) by (auto simp: dget_def dget_or_def split: option.splits)
    moreover have "matched = JList ms" using 1(11) ms by (simp add: py_list_def py_iter_def)
    moreover have "py_subset ms ms = Inr True"
    proof -
      have "wf_list ms" using wf_dget [OF wf, of "''matched_policy_ids''"] ms by simp
      then have "\<forall>x\<in>set ms. py_in x ms"
        by (auto simp: wf_list_iff py_in_def list_ex_iff intro!: bexI [of _ "_ :: json"] py_eq_refl)
      then show ?thesis using ids ms by (simp add: py_subset_def list_all_iff)
    qed
    ultimately show ?thesis using ms(2) by (simp add: policies_narrow_def c)
  qed
  moreover have "scopes_narrow c p = Inr True"
  proof -
    obtain s where "pt = JStr s" using parent_scopeD(1) [OF 1(2)] by (auto simp: nonblank_str_iff)
    then show ?thesis
      using child_targetD [OF 1(3)] child_scopeD [OF 1(4)] child_scopeD [OF 1(5)] parent_scopeD [OF 1(2)]
      by (auto simp: scopes_narrow_def 1(2) c)
  qed
  moreover have "delegation_narrow c p = Inr True"
    by (rule child_delegation_narrow [OF 1(8) [unfolded dl] 1(9) other wf]) (simp_all add: c)
  moreover have "times_less c p ''not_before'' = Inr False" "times_greater c p ''expires_at'' = Inr False"
    using narrow_timeD [OF 1(6)] 1(1)
    by (auto simp: times_less_def times_greater_def c times)
  moreover have "constraints_narrow c p = Inr True"
  proof -
    from 1(7) show ?thesis
      by (rule narrow_constraintsD) (simp add: constraints_narrow_def c)
  qed
  moreover have "py_eq (dget_or c ''approval_tier'' (JInt 0)) (dget_or p ''approval_tier'' (JInt 0))"
    using wf_dget_or [OF wf, of "JInt 0"] by (simp add: c py_eq_refl)
  ultimately show ?thesis
    using 1(1) by (simp add: verify_attenuation_def attenuation_checks_def)
qed

section \<open>What a verified pair guarantees\<close>

lemma verify_attenuationD:
  assumes "verify_attenuation c p = Inr True"
  shows "require_parent p = Inr ()" "same_identity c p" "policies_narrow c p = Inr True"
    "scopes_narrow c p = Inr True" "delegation_narrow c p = Inr True"
    "times_less c p ''not_before'' = Inr False" "times_greater c p ''expires_at'' = Inr False"
    "py_eq (dget_or c ''approval_tier'' (JInt 0)) (dget_or p ''approval_tier'' (JInt 0))"
    "constraints_narrow c p = Inr True"
proof -
  have "attenuation_checks c p = Inr True"
    using assms by (auto simp: verify_attenuation_def split: sum.splits if_splits)
  then have "require_parent p = Inr () \<and> same_identity c p \<and> policies_narrow c p = Inr True
    \<and> scopes_narrow c p = Inr True \<and> delegation_narrow c p = Inr True
    \<and> times_less c p ''not_before'' = Inr False \<and> times_greater c p ''expires_at'' = Inr False
    \<and> py_eq (dget_or c ''approval_tier'' (JInt 0)) (dget_or p ''approval_tier'' (JInt 0))
    \<and> constraints_narrow c p = Inr True"
    by (auto simp: attenuation_checks_def res_simps split: if_splits)
  then show "require_parent p = Inr ()" "same_identity c p" "policies_narrow c p = Inr True"
    "scopes_narrow c p = Inr True" "delegation_narrow c p = Inr True"
    "times_less c p ''not_before'' = Inr False" "times_greater c p ''expires_at'' = Inr False"
    "py_eq (dget_or c ''approval_tier'' (JInt 0)) (dget_or p ''approval_tier'' (JInt 0))"
    "constraints_narrow c p = Inr True" by blast+
qed

text \<open>The triples of target, action and purpose in the scope of a payload.\<close>

definition admits :: "dict \<Rightarrow> string \<Rightarrow> string \<Rightarrow> string \<Rightarrow> bool" where
  "admits p t a u \<longleftrightarrow> (\<exists>pt pa pp. parent_scope p = Inr (JStr pt, pa, pp) \<and> fnmatchcase t pt
     \<and> JStr a \<in> set (the_list pa) \<and> JStr u \<in> set (the_list pp))"

definition literal_target :: "dict \<Rightarrow> bool" where
  "literal_target p \<longleftrightarrow> (\<exists>s. dget p ''target'' = JStr s \<and> literal_pat s)"

lemma matches_json_singleton:
  "matches_json v [JStr q] = Inr True \<longleftrightarrow> (\<exists>s. v = JStr s \<and> fnmatchcase s q)"
  by (cases v) (auto simp: matches_json_def)

lemma scope_narrow_in: "scope_narrow c p \<Longrightarrow> JStr a \<in> set (the_list c) \<Longrightarrow> JStr a \<in> set (the_list p)"
  by (auto simp: scope_narrow_def list_all_iff)

lemma v2_scope:
  "is_v2 (dget c ''version'') \<Longrightarrow> parent_scope c = Inr (t, as, ps) \<Longrightarrow>
     dget_or c ''target'' dt = t \<and> dget_or c ''actions'' dv = as \<and> dget_or c ''purposes'' dv = ps
     \<and> dget c ''target'' = t"
proof -
  assume v: "is_v2 (dget c ''version'')" and s: "parent_scope c = Inr (t, as, ps)"
  from s v have "dindex c ''target'' = Inr t \<and> dindex c ''actions'' = Inr as \<and> dindex c ''purposes'' = Inr ps"
    unfolding parent_scope_def by - (elim res_elims, simp)
  then show ?thesis by (simp add: dindex_dget_or dget_dindex)
qed

lemma attenuation_admits:
  assumes ver: "verify_attenuation c p = Inr True" and lit: "literal_target c" and adm: "admits c t a u"
  shows "admits p t a u"
proof -
  from adm obtain ct ca cp where c: "parent_scope c = Inr (JStr ct, ca, cp)" "fnmatchcase t ct"
    "JStr a \<in> set (the_list ca)" "JStr u \<in> set (the_list cp)"
    unfolding admits_def by blast
  have v2: "is_v2 (dget c ''version'')" using verify_attenuationD(2) [OF ver] by (simp add: same_identity_def)
  note cs = v2_scope [OF v2 c(1)]
  obtain pt pa pp where p: "parent_scope p = Inr (pt, pa, pp)"
    and tgt: "py_eq (JStr ct) pt \<or> matches_json (JStr ct) [pt] = Inr True"
    and sc: "scope_narrow ca pa" "scope_narrow cp pp"
    using verify_attenuationD(4) [OF ver] cs unfolding scopes_narrow_def
    by (auto simp: res_simps Let_def split: if_splits)
  obtain s where s: "pt = JStr s" using parent_scopeD(1) [OF p] by (cases pt) auto
  from lit cs have "literal_pat ct" by (auto simp: literal_target_def)
  with c(2) have "t = ct" by (simp add: fnmatch_literal)
  moreover have "ct = s \<or> fnmatchcase ct s" using tgt s matches_json_singleton by auto
  ultimately have "fnmatchcase t s" using \<open>literal_pat ct\<close> by (auto simp: fnmatch_literal)
  then show ?thesis
    using p s sc c(3,4) unfolding admits_def by (blast intro: scope_narrow_in)
qed

section \<open>Chains\<close>

text \<open>The payloads reached from a root by verified attenuations with literal targets.\<close>

inductive descends :: "dict \<Rightarrow> dict \<Rightarrow> bool" for anc where
  descends_root: "descends anc anc"
| descends_step: "descends anc p \<Longrightarrow> verify_attenuation c p = Inr True \<Longrightarrow> literal_target c
    \<Longrightarrow> descends anc c"

inductive_cases descendsE: "descends anc c"

lemma descends_admits: "descends anc c \<Longrightarrow> admits c t a u \<Longrightarrow> admits anc t a u"
  by (induction rule: descends.induct) (auto dest: attenuation_admits)

lemma attenuation_root:
  assumes "verify_attenuation c p = Inr True" "dget p ''root_capability_id'' = JStr r" "r \<noteq> []"
  shows "dget c ''root_capability_id'' = JStr r"
  using verify_attenuationD(2) [OF assms(1)] assms(2,3) by (simp add: same_identity_def root_of_def)

lemma descends_same_root:
  assumes "descends anc c" "dget anc ''root_capability_id'' = JStr r" "r \<noteq> []"
  shows "dget c ''root_capability_id'' = JStr r"
  using assms by (induction rule: descends.induct) (auto dest: attenuation_root)

lemma attenuation_expiry:
  assumes "verify_attenuation c p = Inr True" "parse_time (dget p ''expires_at'') = Inr tp"
  shows "\<exists>tc. parse_time (dget c ''expires_at'') = Inr tc \<and> dt_us tc \<le> dt_us tp"
proof -
  from verify_attenuationD(7) [OF assms(1)] obtain tc tp' where
    "parse_time (dget c ''expires_at'') = Inr tc" "parse_time (dget p ''expires_at'') = Inr tp'"
    "dt_less tp' tc = Inr False"
    unfolding times_greater_def by - (elim res_elims, auto dest!: dget_dindex)
  with assms(2) show ?thesis by (auto simp: res_simps)
qed

lemma descends_expiry:
  assumes "descends anc c" "parse_time (dget anc ''expires_at'') = Inr tr"
  shows "\<exists>tc. parse_time (dget c ''expires_at'') = Inr tc \<and> dt_us tc \<le> dt_us tr"
  using assms
proof (induction rule: descends.induct)
  case (descends_step p c)
  then obtain tp where "parse_time (dget p ''expires_at'') = Inr tp" "dt_us tp \<le> dt_us tr" by blast
  with attenuation_expiry [OF descends_step(2)] show ?case by fastforce
qed auto

text \<open>The delegation depth never passes 3 and delegation is granted by the parent only.\<close>

lemma delegation_bounds:
  assumes "verify_attenuation c p = Inr True"
  shows "\<exists>n m. dget_or c ''delegation_depth'' (JInt 0) = JInt n \<and> 0 \<le> n \<and> n \<le> 3
    \<and> dget_or p ''delegation_depth'' (JInt 0) = JInt m \<and> (n = m \<or> n = m + 1)
    \<and> (\<not> py_eq (dget c ''delegate_agent'') (dget p ''delegate_agent'') \<longrightarrow> n = m + 1
         \<and> dget_or p ''delegation_allowed'' (JBool False) = JBool True
         \<and> dget_or c ''delegation_allowed'' (JBool False) = JBool False)"
proof -
  note d = verify_attenuationD(5) [OF assms, unfolded delegation_narrow_def Let_def]
  show ?thesis
    using d by (auto simp: depth_ok_def is_int_nb_iff is_bool_iff res_simps split: if_splits)
qed

section \<open>Where "narrower" is not enforced\<close>

text \<open>
  A concrete parent: version 0.2, target \<open>door-?\<close>, force limit 10, delegation not allowed.
  The child keeps everything but has the broader target \<open>door-*\<close> and no force limit; it
  verifies, and it admits a target the parent does not.
\<close>

definition demo_parent :: "json \<Rightarrow> json \<Rightarrow> dict" where
  "demo_parent nb ex =
     [(''type'', JStr ''kinegrant:PhysicalActionCapability''), (''version'', JStr ''0.2''),
      (''issuer'', JStr ''k''), (''agent'', JStr ''a''), (''target'', JStr ''door-?''),
      (''actions'', JList [JStr ''open'']), (''purposes'', JList [JStr ''p'']),
      (''request_digest'', JStr ''r''), (''policy_digest'', JStr ''d''),
      (''matched_policy_ids'', JList [JStr ''m'']), (''obligations'', JList []),
      (''not_before'', nb), (''expires_at'', ex),
      (''capability_id'', JStr ''c1''), (''root_capability_id'', JStr ''c1''),
      (''constraints'', JDict [(''max_force_newtons'', JInt 10)]), (''approval_tier'', JInt 0),
      (''delegation_allowed'', JBool False), (''max_delegation_depth'', JInt 0),
      (''delegate_agent'', JNull), (''delegation_depth'', JInt 0), (''delegate_allowlist'', JNull)]"

definition demo_child :: "json \<Rightarrow> json \<Rightarrow> dict" where
  "demo_child nb ex = dset (dset (dset (dset (demo_parent nb ex) ''target'' (JStr ''door-*''))
      ''constraints'' (JDict [])) ''capability_id'' (JStr ''c2'')) ''parent_capability_id'' (JStr ''c1'')"


lemma demo_verifies:
  "verify_attenuation (demo_child (zulu 0) (zulu 30000000)) (demo_parent (zulu 0) (zulu 30000000)) = Inr True"
proof -
  have "require_parent (demo_parent nb ex) = Inr ()" "same_identity (demo_child nb ex) (demo_parent nb ex)"
    "policies_narrow (demo_child nb ex) (demo_parent nb ex) = Inr True"
    "scopes_narrow (demo_child nb ex) (demo_parent nb ex) = Inr True"
    "delegation_narrow (demo_child nb ex) (demo_parent nb ex) = Inr True"
    "py_eq (dget_or (demo_child nb ex) ''approval_tier'' (JInt 0)) (dget_or (demo_parent nb ex) ''approval_tier'' (JInt 0))"
    "constraints_narrow (demo_child nb ex) (demo_parent nb ex) = Inr True" for nb ex
    by code_simp+
  moreover have "times_less (demo_child (zulu 0) ex) (demo_parent (zulu 0) ex) ''not_before'' = Inr False"
    "times_greater (demo_child nb (zulu 30000000)) (demo_parent nb (zulu 30000000)) ''expires_at'' = Inr False" for nb ex
    by (simp_all add: times_less_def times_greater_def demo_child_def demo_parent_def)
  ultimately show ?thesis by (simp add: verify_attenuation_def attenuation_checks_def)
qed

lemma demo_fnmatch: "fnmatchcase ''door-12'' ''door-*''" "\<not> fnmatchcase ''door-12'' ''door-?''"
  by code_simp+

lemma demo_scope:
  "admits (demo_child nb ex) ''door-12'' ''open'' ''p'' \<and> \<not> admits (demo_parent nb ex) ''door-12'' ''open'' ''p''"
  by (simp add: admits_def parent_scope_def demo_child_def demo_parent_def is_v2_def str_scope_def blank_def
      py_isspace_def demo_fnmatch)

end
