(* ===== verification/Checkpoint.thy ===== *)
theory Checkpoint
  imports Statement PyTime
begin

text \<open>
  \<open>checkpoint.py\<close>: a notary's signed statement about the digest of a receipt chain. The clock
  reading \<open>utc_now()\<close> is an argument.
\<close>

text \<open>\<open>issued_at or isoformat(utc_now())\<close>\<close>

definition stamp_or_now :: "json \<Rightarrow> datetime \<Rightarrow> json res" where
  "stamp_or_now issued_at clock =
     (if truthy issued_at then Inr issued_at else rbind (isoformat clock) (\<lambda>s. Inr (JStr s)))"

definition checkpoint_body :: "json \<Rightarrow> json \<Rightarrow> json \<Rightarrow> json \<Rightarrow> dict" where
  "checkpoint_body notary chain_digest period issued_at =
     [(''type'', JStr ''kinegrant:ReceiptCheckpoint''), (''schema_version'', JStr ''0.1''),
      (''notary'', notary), (''chain_digest'', chain_digest), (''period'', period),
      (''issued_at'', issued_at)]"

definition build_receipt_checkpoint ::
  "json \<Rightarrow> json \<Rightarrow> key_pair \<Rightarrow> json \<Rightarrow> json \<Rightarrow> datetime \<Rightarrow> dict res" where
  "build_receipt_checkpoint chain_digest notary_kid k period issued_at clock =
     rbind (sha256_fullmatch chain_digest) (\<lambda>ok.
     if \<not> ok then Inl (ValueError ''chain_digest must be a sha256 digest'')
     else if \<not> nonempty_str period then Inl (ValueError ''period must be a non-empty string'')
     else if \<not> nonempty_str notary_kid then Inl (ValueError ''notary_kid must be a non-empty string'')
     else if JStr (kid k) \<noteq> notary_kid then Inl (ValueError ''notary_kid must match the signing key pair'')
     else rbind (stamp_or_now issued_at clock) (\<lambda>stamp.
       sign_statement ''kinegrant:receipt-checkpoint'' ''checkpoint_id'' k
         (checkpoint_body notary_kid chain_digest period stamp)))"

definition verify_receipt_checkpoint :: "verifier \<Rightarrow> dict \<Rightarrow> string list option \<Rightarrow> string res" where
  "verify_receipt_checkpoint V checkpoint trusted =
     rbind (verify_envelope V checkpoint) (\<lambda>p.
     if dget p ''type'' \<noteq> JStr ''kinegrant:ReceiptCheckpoint'' then Inl (ValueError ''wrong checkpoint type'')
     else if dget p ''schema_version'' \<noteq> JStr ''0.1'' then Inl (ValueError ''unsupported checkpoint version'')
     else if \<not> py_eq (dget p ''notary'') (dget checkpoint ''kid'')
       then Inl (ValueError ''checkpoint notary does not match signing key'')
     else
     rbind (trusts trusted (dget p ''notary'')) (\<lambda>ok.
     if \<not> ok then Inl (ValueError ''untrusted notary'')
     else if \<not> is_sha256 (dget p ''chain_digest'')
       then Inl (ValueError ''chain_digest must be a sha256 digest'')
     else
     rbind (content_id ''kinegrant:receipt-checkpoint'' (JDict (dwithout [''checkpoint_id''] p))) (\<lambda>cid.
     if dget p ''checkpoint_id'' \<noteq> JStr cid then Inl (ValueError ''checkpoint identifier is inconsistent'')
     else Inr (the_str (dget p ''chain_digest'')))))"

lemma verify_receipt_checkpointD:
  assumes "verify_receipt_checkpoint V cp trusted = Inr h"
  obtains p where "verify_envelope V cp = Inr p" "dget p ''notary'' = dget cp ''kid''"
    "\<And>ts. trusted = Some ts \<Longrightarrow> \<exists>s\<in>set ts. dget p ''notary'' = JStr s"
    "content_addressed ''kinegrant:receipt-checkpoint'' ''checkpoint_id'' p"
    "dget p ''chain_digest'' = JStr h" "is_sha256_text h"
proof -
  have "\<exists>p cid. verify_envelope V cp = Inr p \<and> py_eq (dget p ''notary'') (dget cp ''kid'')
    \<and> (trusts trusted (dget p ''notary'')) = Inr True
    \<and> is_sha256 (dget p ''chain_digest'') \<and> h = the_str (dget p ''chain_digest'')
    \<and> content_id ''kinegrant:receipt-checkpoint'' (JDict (dwithout [''checkpoint_id''] p)) = Inr cid
    \<and> dget p ''checkpoint_id'' = JStr cid"
    using assms unfolding verify_receipt_checkpoint_def by (elim res_elims) auto
  then obtain p cid where p: "verify_envelope V cp = Inr p" "py_eq (dget p ''notary'') (dget cp ''kid'')"
    "(trusts trusted (dget p ''notary'')) = Inr True"
    "is_sha256 (dget p ''chain_digest'')" "h = the_str (dget p ''chain_digest'')"
    "content_id ''kinegrant:receipt-checkpoint'' (JDict (dwithout [''checkpoint_id''] p)) = Inr cid"
    "dget p ''checkpoint_id'' = JStr cid" by blast
  obtain s where s: "dget cp ''kid'' = JStr s" using verify_envelope_kid [OF p(1)] by blast
  show thesis
  proof (rule that [OF p(1)])
    show "dget p ''notary'' = dget cp ''kid''" using p(2) s by simp
    show "\<exists>s\<in>set ts. dget p ''notary'' = JStr s" if "trusted = Some ts" for ts
      using p(3) that by (auto simp: res_simps)
    show "content_addressed ''kinegrant:receipt-checkpoint'' ''checkpoint_id'' p"
      using p(6,7) by (simp add: content_addressed_def statement_body_def)
    show "dget p ''chain_digest'' = JStr h" "is_sha256_text h" using p(4,5) by (cases "dget p ''chain_digest''"; simp)+
  qed
qed

interpretation checkpoint: signed_statement verify_receipt_checkpoint "''kinegrant:receipt-checkpoint''"
  "''checkpoint_id''" "''notary''"
  by unfold_locales (blast elim: verify_receipt_checkpointD)

theorem checkpoint_roundtrip:
  assumes "build_receipt_checkpoint h n k period issued_at clock = Inr env" "good_key V k"
    "\<And>ts. trusted = Some ts \<Longrightarrow> kid k \<in> set ts"
  shows "verify_receipt_checkpoint V env trusted = Inr (the_str h)"
proof -
  from assms(1) obtain stamp where h: "sha256_fullmatch h = Inr True" and n: "n = JStr (kid k)"
    and s: "sign_statement ''kinegrant:receipt-checkpoint'' ''checkpoint_id'' k (checkpoint_body n h period stamp) = Inr env"
    unfolding build_receipt_checkpoint_def by (elim res_elims) auto
  have "\<not> dhas (checkpoint_body n h period stamp) ''checkpoint_id''" by (simp add: checkpoint_body_def)
  from sign_statement_verifies [OF s assms(2) this] obtain cid where
    v: "verify_envelope V env = Inr (checkpoint_body n h period stamp @ [(''checkpoint_id'', JStr cid)])"
    "dget env ''kid'' = JStr (kid k)"
    "content_id ''kinegrant:receipt-checkpoint''
       (JDict (dwithout [''checkpoint_id''] (checkpoint_body n h period stamp @ [(''checkpoint_id'', JStr cid)]))) = Inr cid" .
  have "is_sha256 h" using h by (cases h) (auto simp: sha256_fullmatch_def)
  moreover have "trusts trusted (JStr (kid k)) = Inr True"
    using assms(3) by (simp split: option.splits)
  moreover let ?p = "checkpoint_body n h period stamp @ [(''checkpoint_id'', JStr cid)]"
  have "dget ?p ''type'' = JStr ''kinegrant:ReceiptCheckpoint''" "dget ?p ''schema_version'' = JStr ''0.1''"
    "dget ?p ''notary'' = JStr (kid k)" "dget ?p ''chain_digest'' = h" "dget ?p ''checkpoint_id'' = JStr cid"
    by (simp_all add: checkpoint_body_def n)
  ultimately show ?thesis
    unfolding verify_receipt_checkpoint_def v(1) rbind_Inr v(2) using v(3)
    by (simp del: dget_append dwithout_append)
qed

text \<open>Two accepted checkpoints with one identifier are about the same chain, or collide.\<close>

theorem checkpoint_id_determines_chain:
  assumes "verify_receipt_checkpoint V a ta = Inr g" "verify_receipt_checkpoint W b tb = Inr h"
    "verify_envelope V a = Inr p" "verify_envelope W b = Inr q" "dget p ''checkpoint_id'' = dget q ''checkpoint_id''"
  shows "g = h \<or> collide (statement_body ''checkpoint_id'' p) (statement_body ''checkpoint_id'' q)"
  using checkpoint.id_determines_content [OF assms]
proof
  assume j: "jequiv (statement_body ''checkpoint_id'' p) (statement_body ''checkpoint_id'' q)"
  from assms(1,3) have "dget p ''chain_digest'' = JStr g" by (auto elim: verify_receipt_checkpointD)
  then have "dget (dwithout [''checkpoint_id''] p) ''chain_digest'' = JStr g" by simp
  from jequiv_dget_str [OF j [unfolded statement_body_def] this] have "dget q ''chain_digest'' = JStr g" by simp
  moreover from assms(2,4) have "dget q ''chain_digest'' = JStr h" by (auto elim: verify_receipt_checkpointD)
  ultimately show ?thesis by simp
qed simp

end
