(* ===== verification/Attestation.thy ===== *)
theory Attestation
  imports Checkpoint
begin

text \<open>
  \<open>attestation.py\<close>: a device's signed claim about its firmware, boot counter and measured
  boot chain.
\<close>

text \<open>One stage of the measured boot as the builder copies it.\<close>

definition boot_stage :: "json \<Rightarrow> json res" where
  "boot_stage stage = (case stage of
      JDict d \<Rightarrow>
        if \<not> nonempty_str (dget d ''stage'')
          then Inl (ValueError ''measured_boot stage must be a non-empty string'')
        else if \<not> is_sha256 (dget d ''digest'')
          then Inl (ValueError ''measured_boot digest must be a sha256 digest'')
        else Inr (JDict [(''stage'', dget d ''stage''), (''digest'', dget d ''digest'')])
    | _ \<Rightarrow> Inl (ValueError ''measured_boot entries must be objects''))"

text \<open>\<open>not isinstance(v, int) or isinstance(v, bool) or v < 0\<close>\<close>

definition bad_counter :: "json \<Rightarrow> bool" where
  "bad_counter v \<longleftrightarrow> \<not> is_int_nb v \<or> the_int v < 0"

definition attestation_body :: "json \<Rightarrow> json \<Rightarrow> json \<Rightarrow> json list \<Rightarrow> string \<Rightarrow> json \<Rightarrow> dict" where
  "attestation_body device_id firmware counter stages device issued_at =
     [(''type'', JStr ''kinegrant:DeviceAttestation''), (''schema_version'', JStr ''0.1''),
      (''device_id'', device_id), (''firmware_digest'', firmware), (''boot_counter'', counter),
      (''measured_boot'', JList stages), (''device'', JStr device), (''issued_at'', issued_at)]"

definition build_device_attestation ::
  "json \<Rightarrow> json \<Rightarrow> json \<Rightarrow> key_pair \<Rightarrow> json \<Rightarrow> json \<Rightarrow> datetime \<Rightarrow> dict res" where
  "build_device_attestation device_id firmware counter k measured issued_at clock =
     (if \<not> nonempty_str device_id then Inl (ValueError ''device_id must be a non-empty string'')
      else rbind (sha256_fullmatch firmware) (\<lambda>ok.
        if \<not> ok then Inl (ValueError ''firmware_digest must be a sha256 digest'')
        else if bad_counter counter then Inl (ValueError ''boot_counter must be a non-negative integer'')
        else rbind (py_iter measured) (\<lambda>ms.
             rbind (rmapM boot_stage ms) (\<lambda>stages.
             rbind (stamp_or_now issued_at clock) (\<lambda>stamp.
               sign_statement ''kinegrant:device-attestation'' ''attestation_id'' k
                 (attestation_body device_id firmware counter stages (kid k) stamp))))))"

definition verify_stage :: "json \<Rightarrow> unit res" where
  "verify_stage stage = (case stage of
      JDict d \<Rightarrow>
        if \<not> nonempty_str (dget d ''stage'')
          then Inl (ValueError ''measured_boot stage must be a non-empty string'')
        else if \<not> is_sha256 (dget d ''digest'')
          then Inl (ValueError ''measured_boot digest must be a sha256 digest'')
        else Inr ()
    | _ \<Rightarrow> Inl (ValueError ''measured_boot entries must be objects''))"

definition verify_device_attestation :: "verifier \<Rightarrow> dict \<Rightarrow> string list option \<Rightarrow> dict res" where
  "verify_device_attestation V attestation trusted =
     rbind (verify_envelope V attestation) (\<lambda>p.
     if dget p ''type'' \<noteq> JStr ''kinegrant:DeviceAttestation'' then Inl (ValueError ''wrong attestation type'')
     else if dget p ''schema_version'' \<noteq> JStr ''0.1'' then Inl (ValueError ''unsupported attestation version'')
     else if \<not> py_eq (dget p ''device'') (dget attestation ''kid'')
       then Inl (ValueError ''attestation device does not match signing key'')
     else
     rbind (trusts trusted (dget p ''device'')) (\<lambda>ok.
     if \<not> ok then Inl (ValueError ''untrusted device'')
     else if \<not> is_sha256 (dget p ''firmware_digest'')
       then Inl (ValueError ''firmware_digest must be a sha256 digest'')
     else if bad_counter (dget p ''boot_counter'')
       then Inl (ValueError ''boot_counter must be a non-negative integer'')
     else case dget p ''measured_boot'' of
       JList stages \<Rightarrow>
         rbind (rforeach verify_stage stages) (\<lambda>_.
         rbind (content_id ''kinegrant:device-attestation'' (JDict (dwithout [''attestation_id''] p))) (\<lambda>cid.
         if dget p ''attestation_id'' \<noteq> JStr cid then Inl (ValueError ''attestation identifier is inconsistent'')
         else Inr p))
     | _ \<Rightarrow> Inl (ValueError ''measured_boot must be an array'')))"

lemma verify_device_attestationD:
  assumes "verify_device_attestation V env trusted = Inr p"
  shows "verify_envelope V env = Inr p" "dget p ''device'' = dget env ''kid''"
    "trusted = Some ts \<Longrightarrow> \<exists>s\<in>set ts. dget p ''device'' = JStr s"
    "content_addressed ''kinegrant:device-attestation'' ''attestation_id'' p"
    "is_sha256 (dget p ''firmware_digest'')" "\<not> bad_counter (dget p ''boot_counter'')"
    "\<exists>stages. dget p ''measured_boot'' = JList stages \<and> (\<forall>s\<in>set stages. verify_stage s = Inr ())"
proof -
  have *: "verify_envelope V env = Inr p \<and> py_eq (dget p ''device'') (dget env ''kid'')
    \<and> (trusts trusted (dget p ''device'')) = Inr True
    \<and> is_sha256 (dget p ''firmware_digest'') \<and> \<not> bad_counter (dget p ''boot_counter'')
    \<and> (\<exists>stages. dget p ''measured_boot'' = JList stages \<and> (\<forall>s\<in>set stages. verify_stage s = Inr ()))
    \<and> (\<exists>cid. content_id ''kinegrant:device-attestation'' (JDict (dwithout [''attestation_id''] p)) = Inr cid
        \<and> dget p ''attestation_id'' = JStr cid)"
    using assms unfolding verify_device_attestation_def by (elim res_elims) (auto simp: res_simps)
  then obtain s where s: "dget env ''kid'' = JStr s" using verify_envelope_kid by blast
  show "verify_envelope V env = Inr p" "is_sha256 (dget p ''firmware_digest'')" "\<not> bad_counter (dget p ''boot_counter'')"
    "\<exists>stages. dget p ''measured_boot'' = JList stages \<and> (\<forall>s\<in>set stages. verify_stage s = Inr ())"
    using * by blast+
  show "dget p ''device'' = dget env ''kid''" using * s by simp
  show "trusted = Some ts \<Longrightarrow> \<exists>s\<in>set ts. dget p ''device'' = JStr s" using * by (auto simp: res_simps)
  show "content_addressed ''kinegrant:device-attestation'' ''attestation_id'' p"
    using * by (simp add: content_addressed_def statement_body_def)
qed

interpretation attestation: signed_statement verify_device_attestation "''kinegrant:device-attestation''"
  "''attestation_id''" "''device''"
  by unfold_locales (use verify_device_attestationD in blast)

lemma boot_stage_verifies: "boot_stage s = Inr s' \<Longrightarrow> verify_stage s' = Inr ()"
  by (auto simp: boot_stage_def verify_stage_def split: json.splits if_splits)

theorem attestation_roundtrip:
  assumes "build_device_attestation d f c k measured issued_at clock = Inr env" "good_key V k"
    "\<And>ts. trusted = Some ts \<Longrightarrow> kid k \<in> set ts"
  shows "\<exists>p. verify_device_attestation V env trusted = Inr p \<and> dget p ''device_id'' = d
    \<and> dget p ''firmware_digest'' = f \<and> dget p ''boot_counter'' = c"
proof -
  from assms(1) obtain ms stages stamp where f: "sha256_fullmatch f = Inr True" and c: "\<not> bad_counter c"
    and st: "rmapM boot_stage ms = Inr stages"
    and s: "sign_statement ''kinegrant:device-attestation'' ''attestation_id'' k
      (attestation_body d f c stages (kid k) stamp) = Inr env"
    unfolding build_device_attestation_def by (elim res_elims) auto
  let ?b = "attestation_body d f c stages (kid k) stamp"
  have "\<not> dhas ?b ''attestation_id''" by (simp add: attestation_body_def)
  from sign_statement_verifies [OF s assms(2) this] obtain cid where
    v: "verify_envelope V env = Inr (?b @ [(''attestation_id'', JStr cid)])" "dget env ''kid'' = JStr (kid k)"
    "content_id ''kinegrant:device-attestation''
       (JDict (dwithout [''attestation_id''] (?b @ [(''attestation_id'', JStr cid)]))) = Inr cid" .
  have "is_sha256 f" using f by (cases f) (auto simp: sha256_fullmatch_def)
  moreover have "trusts trusted (JStr (kid k)) = Inr True"
    using assms(3) by (simp split: option.splits)
  moreover have "rforeach verify_stage stages = Inr ()"
    using rmapM_set [OF st] boot_stage_verifies by (fastforce simp: res_simps)
  moreover let ?p = "?b @ [(''attestation_id'', JStr cid)]"
  have m: "dget ?p ''type'' = JStr ''kinegrant:DeviceAttestation''" "dget ?p ''schema_version'' = JStr ''0.1''"
    "dget ?p ''device_id'' = d" "dget ?p ''device'' = JStr (kid k)" "dget ?p ''firmware_digest'' = f" "dget ?p ''boot_counter'' = c"
    "dget ?p ''measured_boot'' = JList stages" "dget ?p ''attestation_id'' = JStr cid"
    by (simp_all add: attestation_body_def)
  ultimately have "verify_device_attestation V env trusted = Inr ?p"
    unfolding verify_device_attestation_def v(1) rbind_Inr v(2) using v(3) c
    by (simp del: dget_append dwithout_append)
  with m show ?thesis by blast
qed

end
