(* ===== verification/Capability.thy ===== *)
theory Capability
  imports Attenuation
begin

text \<open>
  \<open>capability.py\<close>: the issuer of capabilities. \<open>now\<close> is the reading of
  \<open>utc_now()\<close>, \<open>nonce\<close> the result of \<open>secrets.token_urlsafe(18)\<close>; an omitted or empty
  list of actions or purposes is the empty list.
\<close>

text \<open>\<open>set(obligations) - KNOWN_OBLIGATIONS\<close> is not empty.\<close>

definition unknown_obligations :: "json list \<Rightarrow> bool res" where
  "unknown_obligations obs =
     (if list_all hashable obs
      then Inr (\<not> list_all (\<lambda>v. v \<in> JStr ` set KNOWN_OBLIGATIONS) obs) else Inl unhashable_exn)"

definition issue_body :: "key_pair \<Rightarrow> action_request \<Rightarrow> decision \<Rightarrow> string \<Rightarrow> string \<Rightarrow> string \<Rightarrow> dict" where
  "issue_body k q d iat ex nonce =
     [(''type'', JStr ''kinegrant:PhysicalActionCapability''), (''version'', JStr ''0.1''),
      (''issuer'', JStr (kid k)), (''agent'', JStr (rq_agent q)), (''target'', JStr (rq_target q)),
      (''action'', JStr (rq_action q)), (''purpose'', JStr (rq_purpose q)),
      (''request_digest'', JStr (dc_request_digest d)), (''policy_digest'', JStr (dc_policy_digest d)),
      (''matched_policy_ids'', JStrs (dc_matched d)), (''obligations'', JList (dc_obligations d)),
      (''issued_at'', JStr iat), (''not_before'', JStr iat), (''expires_at'', JStr ex),
      (''nonce'', JStr nonce)]"

text \<open>
  \<open>issue\<close>; when the body is built the request's digest is the decision's, so the latter is
  written.
\<close>

definition issue :: "key_pair \<Rightarrow> action_request \<Rightarrow> decision \<Rightarrow> int \<Rightarrow> datetime \<Rightarrow> string \<Rightarrow> dict res" where
  "issue k q d ttl_seconds now nonce =
     (if \<not> dc_allowed d then Inl (PermissionError ''cannot issue a capability for a denied request'')
      else rbind (request_digest q) (\<lambda>rd.
      if dc_request_digest d \<noteq> rd then Inl (ValueError ''decision does not belong to this request'')
      else if dc_matched d = [] then Inl (ValueError ''allowed decision has no matching policy'')
      else if \<not> (1 \<le> ttl_seconds \<and> ttl_seconds \<le> 300)
        then Inl (ValueError ''capability TTL must be between 1 and 300 seconds'')
      else rbind (unknown_obligations (dc_obligations d)) (\<lambda>unknown.
      if unknown then Inl (PermissionError ''unsupported policy obligation'')
      else rbind (isoformat now) (\<lambda>iat.
      rbind (dt_add now (seconds ttl_seconds)) (\<lambda>expires.
      rbind (isoformat expires) (\<lambda>ex.
      let body = issue_body k q d iat ex nonce
      in rbind (content_id ''kinegrant:cap'' (JDict body)) (\<lambda>cid.
        sign_envelope k (dset body ''capability_id'' (JStr cid)))))))))"

record scope_args =
  sa_ttl :: int
  sa_actions :: "json list"
  sa_purposes :: "json list"
  sa_target :: json
  sa_tier :: json
  sa_delegation :: json
  sa_max_depth :: json
  sa_allowlist :: json
  sa_version :: string

definition scoped_body ::
  "key_pair \<Rightarrow> action_request \<Rightarrow> decision \<Rightarrow> scope_args \<Rightarrow> json \<Rightarrow> json list \<Rightarrow> json list \<Rightarrow> string \<Rightarrow> string
    \<Rightarrow> string \<Rightarrow> dict" where
  "scoped_body k q d a target actions purposes iat ex nonce =
     [(''type'', JStr ''kinegrant:PhysicalActionCapability''), (''version'', JStr (sa_version a)),
      (''issuer'', JStr (kid k)), (''agent'', JStr (rq_agent q)), (''target'', target),
      (''actions'', JList actions), (''purposes'', JList purposes),
      (''request_digest'', JStr (dc_request_digest d)), (''policy_digest'', JStr (dc_policy_digest d)),
      (''matched_policy_ids'', JStrs (dc_matched d)), (''obligations'', JList (dc_obligations d)),
      (''issued_at'', JStr iat), (''not_before'', JStr iat), (''expires_at'', JStr ex),
      (''nonce'', JStr nonce), (''parent_capability_id'', JNull), (''constraints'', JDict []),
      (''approval_tier'', sa_tier a), (''delegation_allowed'', sa_delegation a),
      (''max_delegation_depth'', sa_max_depth a), (''delegate_agent'', JNull),
      (''delegation_depth'', JInt 0), (''delegate_allowlist'', sa_allowlist a)]"

definition issue_scoped ::
  "key_pair \<Rightarrow> action_request \<Rightarrow> decision \<Rightarrow> scope_args \<Rightarrow> datetime \<Rightarrow> string \<Rightarrow> dict res" where
  "issue_scoped k q d a now nonce =
     (if \<not> dc_allowed d then Inl (PermissionError ''cannot issue a capability for a denied request'')
      else rbind (request_digest q) (\<lambda>rd.
      if dc_request_digest d \<noteq> rd then Inl (ValueError ''decision does not belong to this request'')
      else if \<not> (1 \<le> sa_ttl a \<and> sa_ttl a \<le> 300)
        then Inl (ValueError ''capability TTL must be between 1 and 300 seconds'')
      else if \<not> tier_ok (sa_tier a)
        then Inl (ValueError ''approval_tier must be an integer between 0 and 2'')
      else if \<not> is_bool (sa_delegation a) then Inl (ValueError ''delegation_allowed must be a boolean'')
      else if \<not> depth_ok (sa_max_depth a)
        then Inl (ValueError ''max_delegation_depth must be an integer between 0 and 3'')
      else if sa_allowlist a \<noteq> JNull
              \<and> \<not> (is_list (sa_allowlist a) \<and> list_all nonempty_str (the_list (sa_allowlist a)))
        then Inl (ValueError ''delegate_allowlist must be a list of non-empty strings or None'')
      else if sa_version a \<notin> {''0.2'', ''1.0''} then Inl (ValueError ''wire_version must be 0.2 or 1.0'')
      else
      let actions = (if sa_actions a = [] then [JStr (rq_action q)] else sa_actions a);
          purposes = (if sa_purposes a = [] then [JStr (rq_purpose q)] else sa_purposes a);
          target = (if truthy (sa_target a) then sa_target a else JStr (rq_target q)) in
      if \<not> str_scope (JList actions)
        then Inl (ValueError ''actions must be a non-empty list of non-empty strings'')
      else if \<not> str_scope (JList purposes)
        then Inl (ValueError ''purposes must be a non-empty list of non-empty strings'')
      else if \<not> nonblank_str target then Inl (ValueError ''target must be a non-empty string'')
      else rbind (isoformat now) (\<lambda>iat.
      rbind (dt_add now (seconds (sa_ttl a))) (\<lambda>expires.
      rbind (isoformat expires) (\<lambda>ex.
      let body = scoped_body k q d a target actions purposes iat ex nonce
      in rbind (capability_id_of body) (\<lambda>cid.
        sign_envelope k (dset (dset body ''capability_id'' (JStr cid)) ''root_capability_id'' (JStr cid))))))))"

definition issue_attenuated ::
  "verifier \<Rightarrow> key_pair \<Rightarrow> dict \<Rightarrow> attenuation_args \<Rightarrow> datetime \<Rightarrow> string \<Rightarrow> dict res" where
  "issue_attenuated V k parent_envelope a now nonce =
     rbind (verify_envelope V parent_envelope) (\<lambda>p.
     if dget p ''issuer'' \<noteq> JStr (kid k)
       then Inl (ValueError ''parent capability was not issued by this key'')
     else rbind (attenuate_capability p (a\<lparr>aa_agent := JNull\<rparr>) now nonce) (\<lambda>body. sign_envelope k body))"

section \<open>Facts\<close>

text \<open>A capability is only issued for an allowed decision about this very request.\<close>

lemma issueE:
  assumes "issue k q d ttl now nonce = Inr env"
  obtains iat ex expires cid where "dc_allowed d" "request_digest q = Inr (dc_request_digest d)"
    "dc_matched d \<noteq> []" "1 \<le> ttl" "ttl \<le> 300" "unknown_obligations (dc_obligations d) = Inr False"
    "isoformat now = Inr iat" "dt_add now (seconds ttl) = Inr expires" "isoformat expires = Inr ex"
    "content_id ''kinegrant:cap'' (JDict (issue_body k q d iat ex nonce)) = Inr cid"
    "sign_envelope k (dset (issue_body k q d iat ex nonce) ''capability_id'' (JStr cid)) = Inr env"
proof -
  from assms show thesis
    unfolding issue_def Let_def
    apply -
    apply (elim res_elims)
    apply (rule that, (assumption | simp)+)
    done
qed

lemma issue_total:
  assumes "dc_allowed d" "request_digest q = Inr (dc_request_digest d)" "dc_matched d \<noteq> []"
    "1 \<le> ttl" "ttl \<le> 300" "unknown_obligations (dc_obligations d) = Inr False"
    "isoformat now = Inr iat" "dt_add now (seconds ttl) = Inr expires" "isoformat expires = Inr ex"
  shows "\<exists>env. issue k q d ttl now nonce = Inr env"
proof -
  have "list_all serializable (dc_obligations d)"
    using assms(6) by (auto simp: unknown_obligations_def list_all_iff split: if_splits)
  then have s: "serializable (JDict (issue_body k q d iat ex nonce))"
    by (simp add: issue_body_def JStrs_def list_all_iff)
  then obtain cid where c: "content_id ''kinegrant:cap'' (JDict (issue_body k q d iat ex nonce)) = Inr cid"
    using content_id_total by blast
  have "serializable (JDict (dset (issue_body k q d iat ex nonce) ''capability_id'' (JStr cid)))"
    using s by (simp add: issue_body_def)
  from sign_envelope_total [OF this] obtain env
    where "sign_envelope k (dset (issue_body k q d iat ex nonce) ''capability_id'' (JStr cid)) = Inr env" ..
  with assms c show ?thesis by (simp add: issue_def)
qed

lemma issue_scopedE:
  assumes "issue_scoped k q d a now nonce = Inr env"
  obtains iat ex expires cid target actions purposes where "dc_allowed d"
    "request_digest q = Inr (dc_request_digest d)" "1 \<le> sa_ttl a" "sa_ttl a \<le> 300" "tier_ok (sa_tier a)"
    "is_bool (sa_delegation a)" "depth_ok (sa_max_depth a)"
    "sa_allowlist a = JNull \<or> (is_list (sa_allowlist a) \<and> list_all nonempty_str (the_list (sa_allowlist a)))"
    "sa_version a \<in> {''0.2'', ''1.0''}" "str_scope (JList actions)" "str_scope (JList purposes)"
    "nonblank_str target" "isoformat now = Inr iat" "dt_add now (seconds (sa_ttl a)) = Inr expires"
    "isoformat expires = Inr ex"
    "actions = (if sa_actions a = [] then [JStr (rq_action q)] else sa_actions a)"
    "purposes = (if sa_purposes a = [] then [JStr (rq_purpose q)] else sa_purposes a)"
    "target = (if truthy (sa_target a) then sa_target a else JStr (rq_target q))"
    "capability_id_of (scoped_body k q d a target actions purposes iat ex nonce) = Inr cid"
    "sign_envelope k (dset (dset (scoped_body k q d a target actions purposes iat ex nonce)
       ''capability_id'' (JStr cid)) ''root_capability_id'' (JStr cid)) = Inr env"
proof -
  define actions where "actions = (if sa_actions a = [] then [JStr (rq_action q)] else sa_actions a)"
  define purposes where "purposes = (if sa_purposes a = [] then [JStr (rq_purpose q)] else sa_purposes a)"
  define target where "target = (if truthy (sa_target a) then sa_target a else JStr (rq_target q))"
  from assms show thesis
    unfolding issue_scoped_def Let_def actions_def [symmetric] purposes_def [symmetric] target_def [symmetric]
    apply -
    apply (elim res_elims)
    apply (rule that [OF _ _ _ _ _ _ _ _ _ _ _ _ _ _ _ actions_def purposes_def target_def], (assumption | simp)+)
    done
qed

lemma issue_attenuated_verifies:
  assumes iss: "issue_attenuated V k penv a now nonce = Inr env" and key: "good_key V k"
    and now: "utc_time now"
    and wf: "\<And>p. verify_envelope V penv = Inr p \<Longrightarrow> wf_items p
      \<and> list_all hashable (the_list (dget p ''matched_policy_ids''))
      \<and> (aa_delegate a \<noteq> JNull \<longrightarrow> aa_delegate a \<noteq> dget p ''delegate_agent'')"
  shows "\<exists>p c. verify_envelope V penv = Inr p \<and> verify_envelope V env = Inr c
    \<and> verify_attenuation c p = Inr True"
proof -
  from iss obtain p c where p: "verify_envelope V penv = Inr p"
    and c: "attenuate_capability p (a\<lparr>aa_agent := JNull\<rparr>) now nonce = Inr c" and e: "sign_envelope k c = Inr env"
    unfolding issue_attenuated_def by - (elim res_elims, blast)
  have "verify_attenuation c p = Inr True"
    by (rule attenuate_verifies [OF c]) (use wf [OF p] now in auto)
  with p sign_verify(1) [OF key e] show ?thesis by blast
qed

end
