(* ===== verification/ReplayStore.thy ===== *)
theory ReplayStore
  imports PyTime "HOL-Library.AList"
begin

text \<open>
  \<open>gate.py\<close>, the replay stores: the protocol class \<open>ReplayStore\<close> as the locale
  \<open>replay_store\<close> (what the gate relies on), the process-local store and the SQLite store,
  and the interpretation of the locale on both.
\<close>

section \<open>The interface\<close>

text \<open>
  \<open>recorded s c\<close> is the expiry the store holds for an id, \<open>clock_le e t\<close> says that no clock
  reading made with \<open>e\<close> is later than \<open>t\<close>, \<open>works e\<close> that the store does not fail with
  \<open>e\<close>. An id stays recorded, and is refused, as long as the store's clock has not passed its
  expiry; an id that is not recorded is accepted and recorded.
\<close>

locale replay_store =
  fixes consume :: "'s \<Rightarrow> 'e \<Rightarrow> string \<Rightarrow> datetime \<Rightarrow> 's \<times> bool res"
    and store_ok :: "'s \<Rightarrow> bool"
    and recorded :: "'s \<Rightarrow> string \<Rightarrow> int option"
    and clock_le :: "'e \<Rightarrow> int \<Rightarrow> bool"
    and works :: "'e \<Rightarrow> bool"
  assumes consume_ok: "store_ok s \<Longrightarrow> \<not> naive x \<Longrightarrow> store_ok (fst (consume s e c x))"
    and consume_records: "store_ok s \<Longrightarrow> consume s e c x = (s', Inr True) \<Longrightarrow> recorded s' c = Some (dt_us x)"
    and consume_keeps: "store_ok s \<Longrightarrow> recorded s c = Some t \<Longrightarrow> clock_le e t \<Longrightarrow>
      recorded (fst (consume s e d x)) c = Some t"
    and consume_refuses: "store_ok s \<Longrightarrow> recorded s c = Some t \<Longrightarrow> clock_le e t \<Longrightarrow>
      snd (consume s e c x) \<noteq> Inr True"
    and consume_accepts: "store_ok s \<Longrightarrow> recorded s c = None \<Longrightarrow> works e \<Longrightarrow>
      snd (consume s e c x) = Inr True"
    and clock_le_mono: "clock_le e t \<Longrightarrow> t \<le> u \<Longrightarrow> clock_le e u"

section \<open>Replay stores\<close>

text \<open>
  The in-memory store: a dictionary from ids to expiry. The clock is read once per entry
  while expired entries are collected: \<open>clock i\<close> is the reading for entry \<open>i\<close>.
\<close>

type_synonym memory_store = "(string \<times> datetime) list"

definition memory_purge :: "(nat \<Rightarrow> datetime) \<Rightarrow> memory_store \<Rightarrow> memory_store res" where
  "memory_purge clock m =
     rbind (rfilter (\<lambda>(i, k, expiry). dt_less expiry (clock i)) (enumerate 0 m)) (\<lambda>expired.
       Inr (dwithout (map (\<lambda>(i, k, e). k) expired) m))"

definition memory_consume ::
  "memory_store \<Rightarrow> (nat \<Rightarrow> datetime) \<Rightarrow> string \<Rightarrow> datetime \<Rightarrow> memory_store \<times> bool res" where
  "memory_consume m clock cid expires_at =
     (case memory_purge clock m of
        Inl x \<Rightarrow> (m, Inl x)
      | Inr m' \<Rightarrow>
          if cid \<in> fst ` set m' then (m', Inr False) else (dset m' cid expires_at, Inr True))"

text \<open>
  The SQLite store: the rows of the table with their primary key. \<open>REAL\<close> timestamps keep the
  order of instants; they are given by their microseconds. A statement may fail
  (\<open>failure\<close>): the transaction is rolled back and the exception passed on.
\<close>

type_synonym sqlite_table = "(string \<times> int) list"

definition sqlite_delete_expired :: "int \<Rightarrow> sqlite_table \<Rightarrow> sqlite_table" where
  "sqlite_delete_expired now t = filter (\<lambda>(_, e). \<not> e < now) t"

definition sqlite_insert_or_ignore :: "string \<Rightarrow> int \<Rightarrow> sqlite_table \<Rightarrow> sqlite_table \<times> nat" where
  "sqlite_insert_or_ignore cid e t = (if cid \<in> fst ` set t then (t, 0) else (t @ [(cid, e)], 1))"

definition sqlite_consume ::
  "sqlite_table \<Rightarrow> datetime \<times> exn option \<Rightarrow> string \<Rightarrow> datetime \<Rightarrow> sqlite_table \<times> bool res" where
  "sqlite_consume t env cid expires_at =
     (case snd env of
        Some x \<Rightarrow> (t, Inl x)
      | None \<Rightarrow>
          let (t', rowcount) = sqlite_insert_or_ignore cid (dt_us expires_at)
                (sqlite_delete_expired (dt_us (fst env)) t)
          in (t', Inr (rowcount = 1)))"

definition sqlite_open :: "string \<Rightarrow> sqlite_table \<Rightarrow> sqlite_table res" where
  "sqlite_open path stored =
     (if path = '':memory:'' then Inl (ValueError ''SQLiteReplayStore requires a filesystem path'')
      else Inr stored)"

section \<open>The process-local store\<close>

definition memory_ok :: "memory_store \<Rightarrow> bool" where
  "memory_ok m \<longleftrightarrow> distinct (map fst m) \<and> (\<forall>(k, x)\<in>set m. \<not> naive x)"

definition memory_recorded :: "memory_store \<Rightarrow> string \<Rightarrow> int option" where
  "memory_recorded m c = map_option dt_us (map_of m c)"

definition clock_aware :: "(nat \<Rightarrow> datetime) \<Rightarrow> bool" where
  "clock_aware clock \<longleftrightarrow> (\<forall>i. \<not> naive (clock i))"

definition readings_le :: "(nat \<Rightarrow> datetime) \<Rightarrow> int \<Rightarrow> bool" where
  "readings_le clock t \<longleftrightarrow> clock_aware clock \<and> (\<forall>i. dt_us (clock i) \<le> t)"

lemma memory_ok_dwithout: "memory_ok m \<Longrightarrow> memory_ok (dwithout ks m)"
  by (auto simp: memory_ok_def dwithout_def distinct_map_filter)

lemma memory_ok_dset: "memory_ok m \<Longrightarrow> \<not> naive x \<Longrightarrow> memory_ok (dset m c x)"
proof -
  have "set (dset m c x) \<subseteq> insert (c, x) (set m)" by (induction m c x rule: dset.induct) auto
  then show "memory_ok m \<Longrightarrow> \<not> naive x \<Longrightarrow> ?thesis"
    by (fastforce simp: memory_ok_def distinct_dset)
qed

lemma memory_purge_Inr:
  assumes "memory_purge clock m = Inr m'"
  obtains ks where "m' = dwithout ks m"
    "\<forall>k\<in>set ks. \<exists>i x. (k, x) \<in> set m \<and> dt_less x (clock i) = Inr True"
proof -
  from assms obtain ex where f: "rfilter (\<lambda>(i, k, expiry). dt_less expiry (clock i)) (enumerate 0 m) = Inr ex"
    and m': "m' = dwithout (map (\<lambda>(i, k, e). k) ex) m"
    by (auto simp: memory_purge_def res_simps)
  have ks: "\<exists>i x. (k, x) \<in> set m \<and> dt_less x (clock i) = Inr True" if "k \<in> set (map (\<lambda>(i, k, e). k) ex)" for k
  proof -
    from that obtain i x where "(i, k, x) \<in> set ex" by auto
    with rfilter_set [OF f] have "(i, k, x) \<in> set (enumerate 0 m)" "dt_less x (clock i) = Inr True" by auto
    then show ?thesis by (auto simp: enumerate_eq_zip dest: set_zip_rightD)
  qed
  show thesis by (rule that [OF m']) (use ks in blast)
qed

lemma memory_purge_total: "memory_ok m \<Longrightarrow> clock_aware clock \<Longrightarrow> \<exists>m'. memory_purge clock m = Inr m'"
proof -
  assume ok: "memory_ok m" "clock_aware clock"
  have "dt_less x (clock i) = Inr (dt_us x < dt_us (clock i))" if "(i, k, x) \<in> set (enumerate 0 m)" for i k x
  proof -
    from that have "(k, x) \<in> set m" by (auto simp: enumerate_eq_zip dest: set_zip_rightD)
    then have "\<not> naive x" using ok(1) by (auto simp: memory_ok_def)
    moreover have "\<not> naive (clock i)" using ok(2) by (simp add: clock_aware_def)
    ultimately show ?thesis by (rule dt_less_aware)
  qed
  then have "\<exists>ys. rfilter (\<lambda>(i, k, expiry). dt_less expiry (clock i)) xs = Inr ys"
    if "set xs \<subseteq> set (enumerate 0 m)" for xs
    using that by (induction xs) auto
  then show ?thesis by (fastforce simp: memory_purge_def)
qed

lemma memory_purge_keeps:
  assumes "memory_ok m" "memory_purge clock m = Inr m'" "memory_recorded m c = Some t" "readings_le clock t"
  shows "map_of m' c = map_of m c"
proof -
  from assms(2) obtain ks where m': "m' = dwithout ks m"
    and ks: "\<forall>k\<in>set ks. \<exists>i x. (k, x) \<in> set m \<and> dt_less x (clock i) = Inr True"
    by (rule memory_purge_Inr)
  from assms(3) obtain x where x: "map_of m c = Some x" "dt_us x = t" by (auto simp: memory_recorded_def)
  have "c \<notin> set ks"
  proof
    assume "c \<in> set ks"
    then obtain i y where "(c, y) \<in> set m" "dt_less y (clock i) = Inr True" using ks by blast
    moreover from this x assms(1) have "y = x" by (auto simp: memory_ok_def)
    ultimately show False using assms(4) x by (auto simp: res_simps readings_le_def linorder_not_less [symmetric])
  qed
  then show ?thesis by (simp add: m' map_of_dwithout)
qed

lemma memory_purge_ok: "memory_ok m \<Longrightarrow> memory_purge clock m = Inr m' \<Longrightarrow> memory_ok m'"
  by (auto elim!: memory_purge_Inr simp: memory_ok_dwithout)

lemma memory_purge_None:
  "memory_purge clock m = Inr m' \<Longrightarrow> map_of m c = None \<Longrightarrow> map_of m' c = None"
  by (auto elim!: memory_purge_Inr simp: map_of_dwithout)

interpretation memory: replay_store memory_consume memory_ok memory_recorded readings_le clock_aware
proof
  fix s :: memory_store and e c x
  assume "memory_ok s" "\<not> naive x"
  then show "memory_ok (fst (memory_consume s e c x))"
    by (auto simp: memory_consume_def memory_ok_dset memory_purge_ok split: sum.splits)
next
  fix s s' :: memory_store and e c x
  assume "memory_consume s e c x = (s', Inr True)"
  then show "memory_recorded s' c = Some (dt_us x)"
    by (auto simp: memory_consume_def memory_recorded_def map_of_dset split: sum.splits if_splits)
next
  fix s :: memory_store and e c d t x
  assume *: "memory_ok s" "memory_recorded s c = Some t" "readings_le e t"
  then have c: "\<And>m'. memory_purge e s = Inr m' \<Longrightarrow> map_of m' c = map_of s c"
    using memory_purge_keeps by blast
  have in_m: "\<And>m'. memory_purge e s = Inr m' \<Longrightarrow> c \<in> fst ` set m'"
    using c *(2) by (force simp: memory_recorded_def dest: map_of_SomeD)
  show "memory_recorded (fst (memory_consume s e d x)) c = Some t"
    using c in_m *(2) by (auto simp: memory_consume_def memory_recorded_def map_of_dset split: sum.splits)
  show "snd (memory_consume s e c x) \<noteq> Inr True"
    using in_m by (auto simp: memory_consume_def split: sum.splits)
next
  fix s :: memory_store and e c x
  assume *: "memory_ok s" "memory_recorded s c = None" "clock_aware e"
  then obtain m' where m': "memory_purge e s = Inr m'" using memory_purge_total by blast
  then have "map_of m' c = None" using *(2) memory_purge_None by (auto simp: memory_recorded_def)
  then show "snd (memory_consume s e c x) = Inr True"
    using m' by (auto simp: memory_consume_def map_of_eq_None_iff)
qed (auto simp: readings_le_def intro: order_trans)

section \<open>The SQLite store\<close>

text \<open>The primary key; an environment is the clock reading and the failure, if there is one.\<close>

definition sqlite_ok :: "sqlite_table \<Rightarrow> bool" where
  "sqlite_ok t \<longleftrightarrow> distinct (map fst t)"

definition sqlite_clock_le :: "datetime \<times> exn option \<Rightarrow> int \<Rightarrow> bool" where
  "sqlite_clock_le e t \<longleftrightarrow> dt_us (fst e) \<le> t"

definition sqlite_works :: "datetime \<times> exn option \<Rightarrow> bool" where
  "sqlite_works e \<longleftrightarrow> snd e = None"

lemma delete_expired_map_of:
  "distinct (map fst t) \<Longrightarrow> map_of (sqlite_delete_expired now t) c
     = (case map_of t c of None \<Rightarrow> None | Some e \<Rightarrow> if e < now then None else Some e)"
proof (induction t)
  case (Cons p t)
  then have "map_of t (fst p) = None" by (auto simp: map_of_eq_None_iff)
  with Cons show ?case by (cases p) (auto simp: sqlite_delete_expired_def)
qed (simp add: sqlite_delete_expired_def)

lemma sqlite_ok_delete: "sqlite_ok t \<Longrightarrow> sqlite_ok (sqlite_delete_expired now t)"
  by (simp add: sqlite_ok_def sqlite_delete_expired_def distinct_map_filter)

lemma sqlite_ok_insert: "sqlite_ok t \<Longrightarrow> sqlite_ok (fst (sqlite_insert_or_ignore c e t))"
  by (auto simp: sqlite_ok_def sqlite_insert_or_ignore_def)

lemma insert_map_of:
  "map_of (fst (sqlite_insert_or_ignore c e t)) d
     = (if d = c \<and> map_of t c = None then Some e else map_of t d)"
  "snd (sqlite_insert_or_ignore c e t) = Suc 0 \<longleftrightarrow> map_of t c = None"
proof -
  have iff: "c \<in> fst ` set t \<longleftrightarrow> map_of t c \<noteq> None" by (simp add: map_of_eq_None_iff)
  show "map_of (fst (sqlite_insert_or_ignore c e t)) d
     = (if d = c \<and> map_of t c = None then Some e else map_of t d)"
    unfolding sqlite_insert_or_ignore_def iff by (auto simp: map_add_def split: option.splits)
  show "snd (sqlite_insert_or_ignore c e t) = Suc 0 \<longleftrightarrow> map_of t c = None"
    unfolding sqlite_insert_or_ignore_def iff by simp
qed

interpretation sqlite: replay_store sqlite_consume sqlite_ok map_of sqlite_clock_le sqlite_works
proof
  fix s :: sqlite_table and e c x
  assume "sqlite_ok s"
  then show "sqlite_ok (fst (sqlite_consume s e c x))"
    by (auto simp: sqlite_consume_def case_prod_unfold Let_def sqlite_ok_delete sqlite_ok_insert split: option.splits)
next
  fix s s' :: sqlite_table and e c x
  assume "sqlite_consume s e c x = (s', Inr True)"
  then show "map_of s' c = Some (dt_us x)"
    by (auto simp: sqlite_consume_def case_prod_unfold Let_def insert_map_of split: option.splits)
next
  fix s :: sqlite_table and e c d t x
  assume *: "sqlite_ok s" "map_of s c = Some t" "sqlite_clock_le e t"
  then have "map_of (sqlite_delete_expired (dt_us (fst e)) s) c = Some t"
    by (simp add: delete_expired_map_of sqlite_ok_def sqlite_clock_le_def)
  then show "map_of (fst (sqlite_consume s e d x)) c = Some t" "snd (sqlite_consume s e c x) \<noteq> Inr True"
    using * by (auto simp: sqlite_consume_def case_prod_unfold Let_def insert_map_of split: option.splits)
next
  fix s :: sqlite_table and e c x
  assume "sqlite_ok s" "map_of s c = None" "sqlite_works e"
  then show "snd (sqlite_consume s e c x) = Inr True"
    by (simp add: sqlite_consume_def sqlite_works_def case_prod_unfold insert_map_of delete_expired_map_of sqlite_ok_def)
qed (auto simp: sqlite_clock_le_def)

end
