(* ===== verification/Gate.thy ===== *)
theory Gate
  imports Capability Revocation ReplayStore
begin

text \<open>
  \<open>gate.py\<close>, \<open>ActionGate\<close>: the fail-closed verifier that sits before an actuator.
  The store is an argument of the gate, so \<open>authorize\<close> takes its \<open>consume_once\<close> as a
  function; what the gate relies on is the locale \<open>replay_store\<close>.
\<close>

section \<open>Validation of the claims\<close>

definition CAPABILITY_FIELDS :: "string list" where
  "CAPABILITY_FIELDS = [''type'', ''version'', ''issuer'', ''agent'', ''target'', ''action'', ''purpose'',
     ''request_digest'', ''policy_digest'', ''matched_policy_ids'', ''obligations'', ''issued_at'',
     ''not_before'', ''expires_at'', ''nonce'', ''capability_id'']"

definition CAPABILITY_FIELDS_V2 :: "string list" where
  "CAPABILITY_FIELDS_V2 = filter (\<lambda>f. f \<noteq> ''action'' \<and> f \<noteq> ''purpose'') CAPABILITY_FIELDS
     @ [''actions'', ''purposes'', ''parent_capability_id'', ''constraints'', ''approval_tier'',
        ''delegation_allowed'', ''max_delegation_depth'', ''delegate_agent'', ''delegation_depth'',
        ''root_capability_id'', ''delegate_allowlist'']"

definition opt_nonempty_str :: "json \<Rightarrow> bool" where
  "opt_nonempty_str v \<longleftrightarrow> v = JNull \<or> nonempty_str v"

definition opt_str_list :: "json \<Rightarrow> bool" where
  "opt_str_list v \<longleftrightarrow> v = JNull \<or> (is_list v \<and> list_all nonempty_str (the_list v))"

definition validate_v2_fields :: "dict \<Rightarrow> unit res" where
  "validate_v2_fields p =
     (let cs = dget p ''constraints''; depth = dget p ''delegation_depth''; md = dget p ''max_delegation_depth'' in
      if \<not> opt_nonempty_str (dget p ''parent_capability_id'')
        then Inl (PermissionError ''v0.2 capability parent id must be a string or null'')
      else if \<not> is_dict cs then Inl (PermissionError ''v0.2 capability constraints must be an object'')
      else if \<not> list_all (\<lambda>(k, _). k \<in> set CONSTRAINT_KEYS) (the_dict cs)
        then Inl (PermissionError ''unknown capability constraints: '')
      else if bad_limit (dget (the_dict cs) ''max_force_newtons'')
        then Inl (PermissionError ''capability max_force_newtons must be a non-negative number'')
      else if bad_limit (dget (the_dict cs) ''max_velocity_mps'')
        then Inl (PermissionError ''capability max_velocity_mps must be a non-negative number'')
      else if dget (the_dict cs) ''allowed_zones'' \<noteq> JNull \<and> \<not> str_scope (dget (the_dict cs) ''allowed_zones'')
        then Inl (PermissionError ''capability allowed_zones must be a non-empty list'')
      else if \<not> tier_ok (dget p ''approval_tier'')
        then Inl (PermissionError ''capability approval_tier must be an integer between 0 and 2'')
      else if \<not> is_bool (dget p ''delegation_allowed'')
        then Inl (PermissionError ''capability delegation_allowed must be a boolean'')
      else if \<not> depth_ok md
        then Inl (PermissionError ''capability max_delegation_depth must be an integer between 0 and 3'')
      else if \<not> depth_ok depth
        then Inl (PermissionError ''capability delegation_depth must be an integer between 0 and 3'')
      else if dget p ''delegation_allowed'' = JBool True \<and> the_int depth > the_int md
        then Inl (PermissionError ''capability delegation depth exceeds its limit'')
      else if \<not> opt_nonempty_str (dget p ''delegate_agent'')
        then Inl (PermissionError ''capability delegate_agent must be a non-empty string or null'')
      else if \<not> nonempty_str (dget p ''root_capability_id'')
        then Inl (PermissionError ''capability root_capability_id must be a non-empty string'')
      else if \<not> opt_str_list (dget p ''delegate_allowlist'')
        then Inl (PermissionError ''capability delegate_allowlist must be a list or null'')
      else if \<not> str_scope (dget p ''actions'')
        then Inl (PermissionError ''v0.2 capability actions must be a non-empty list'')
      else if \<not> str_scope (dget p ''purposes'')
        then Inl (PermissionError ''v0.2 capability purposes must be a non-empty list'')
      else Inr ())"

definition check_schema :: "dict \<Rightarrow> unit res" where
  "check_schema p =
     (if dget p ''version'' = JStr ''0.1'' then
        require (dkeys_eq p CAPABILITY_FIELDS)
          (PermissionError ''capability fields do not match the v0.1 schema'')
      else if is_v2 (dget p ''version'') then
        (if \<not> dkeys_eq p CAPABILITY_FIELDS_V2
         then Inl (PermissionError ''capability fields do not match the v0.2 schema'')
         else validate_v2_fields p)
      else Inl (PermissionError ''unsupported capability version''))"

section \<open>The gate\<close>

text \<open>Type, issuer and request digest.\<close>

definition check_binding :: "string list \<Rightarrow> dict \<Rightarrow> dict \<Rightarrow> action_request \<Rightarrow> unit res" where
  "check_binding trusted envelope p q =
     (if dget p ''type'' \<noteq> JStr ''kinegrant:PhysicalActionCapability''
        then Inl (PermissionError ''wrong capability type'')
      else if \<not> py_eq (dget p ''issuer'') (dget envelope ''kid'')
        then Inl (PermissionError ''capability issuer does not match signing key'')
      else rbind (in_str_set (dget p ''issuer'') trusted) (\<lambda>known.
      if \<not> known then Inl (PermissionError ''untrusted capability issuer'')
      else rbind (request_digest q) (\<lambda>rd.
      if dget p ''request_digest'' \<noteq> JStr rd
        then Inl (PermissionError ''capability does not authorize this request'')
      else Inr ())))"

definition check_exact_scope :: "dict \<Rightarrow> action_request \<Rightarrow> unit res" where
  "check_exact_scope p q =
     (if dget p ''agent'' \<noteq> JStr (rq_agent q) then Inl (PermissionError ''capability agent mismatch'')
      else if dget p ''target'' \<noteq> JStr (rq_target q) then Inl (PermissionError ''capability target mismatch'')
      else if dget p ''action'' \<noteq> JStr (rq_action q) then Inl (PermissionError ''capability action mismatch'')
      else if dget p ''purpose'' \<noteq> JStr (rq_purpose q) then Inl (PermissionError ''capability purpose mismatch'')
      else Inr ())"

definition check_pattern_scope :: "dict \<Rightarrow> action_request \<Rightarrow> unit res" where
  "check_pattern_scope p q =
     (if dget p ''delegate_agent'' = JNull \<and> dget p ''agent'' \<noteq> JStr (rq_agent q)
        then Inl (PermissionError ''capability agent mismatch'')
      else if dget p ''delegate_agent'' \<noteq> JNull \<and> dget p ''delegate_agent'' \<noteq> JStr (rq_agent q)
        then Inl (PermissionError ''capability delegate agent mismatch'')
      else rbind (fnmatch_json (rq_target q) (dget_or p ''target'' (JStr []))) (\<lambda>m.
      if \<not> m then Inl (PermissionError ''capability target scope mismatch'')
      else if \<not> py_in (JStr (rq_action q)) (the_list (dget p ''actions''))
        then Inl (PermissionError ''capability action scope mismatch'')
      else if \<not> py_in (JStr (rq_purpose q)) (the_list (dget p ''purposes''))
        then Inl (PermissionError ''capability purpose scope mismatch'')
      else Inr ()))"

definition check_scope :: "dict \<Rightarrow> action_request \<Rightarrow> unit res" where
  "check_scope p q =
     (if dget p ''version'' = JStr ''0.1'' then check_exact_scope p q else check_pattern_scope p q)"

definition check_parent :: "verifier \<Rightarrow> dict \<Rightarrow> dict option \<Rightarrow> unit res" where
  "check_parent V p parent =
     (case parent of
        None \<Rightarrow> Inr ()
      | Some penv \<Rightarrow>
          if dget p ''version'' \<noteq> JStr ''0.2''
            then Inl (PermissionError ''only v0.2 capabilities can present a parent'')
          else case verify_envelope V penv of
            Inl e \<Rightarrow> if is_TypeError e \<or> is_ValueError e
                then Inl (PermissionError ''parent capability is not a valid signed envelope'') else Inl e
          | Inr pp \<Rightarrow> rbind (verify_attenuation p pp) (\<lambda>ok.
              require ok (PermissionError ''capability is not a valid attenuation of its parent'')))"

definition time_field :: "dict \<Rightarrow> string \<Rightarrow> datetime res" where
  "time_field p k = rbind (dindex p k) parse_time"

definition window_exn :: exn where
  "window_exn = PermissionError ''invalid capability time window''"

text \<open>\<open>except (KeyError, TypeError, ValueError): raise PermissionError(...)\<close>\<close>

definition as_window_exn :: "'a res \<Rightarrow> 'a res" where
  "as_window_exn r = (case r of
      Inl e \<Rightarrow> if is_KeyError e \<or> is_TypeError e \<or> is_ValueError e then Inl window_exn else Inl e
    | Inr x \<Rightarrow> Inr x)"

definition check_window :: "dict \<Rightarrow> datetime \<Rightarrow> datetime res" where
  "check_window p current =
     (if naive current then Inl (PermissionError ''verification time must include a timezone'')
      else rbind (as_window_exn (
          rbind (time_field p ''issued_at'') (\<lambda>i.
          rbind (time_field p ''not_before'') (\<lambda>n.
          rbind (time_field p ''expires_at'') (\<lambda>e. Inr (i, n, e)))))) (\<lambda>(issued_at, not_before, expires_at).
      if dt_us not_before < dt_us issued_at \<or> dt_us expires_at \<le> dt_us not_before then Inl window_exn
      else if dt_us expires_at - dt_us not_before > seconds 300
        then Inl (PermissionError ''capability lifetime exceeds protocol maximum'')
      else if dt_us current < dt_us not_before then Inl (PermissionError ''capability is not active yet'')
      else if dt_us current \<ge> dt_us expires_at then Inl (PermissionError ''capability has expired'')
      else Inr expires_at))"

text \<open>Nonce, policies, obligations and policy digest. \<open>str(v)\<close> of a value that is no string
  never has the form of a digest.\<close>

definition check_claims :: "dict \<Rightarrow> unit res" where
  "check_claims p =
     (if \<not> (is_str (dget p ''nonce'') \<and> 20 \<le> length (the_str (dget p ''nonce'')))
        then Inl (PermissionError ''capability nonce is invalid'')
      else if \<not> (is_list (dget p ''matched_policy_ids'') \<and> the_list (dget p ''matched_policy_ids'') \<noteq> [])
        then Inl (PermissionError ''capability has no matching policy'')
      else if \<not> list_all nonempty_str (the_list (dget p ''matched_policy_ids''))
        then Inl (PermissionError ''capability matching policies are invalid'')
      else rbind (if is_list (dget p ''obligations'')
            then rall (\<lambda>v. in_str_set v KNOWN_OBLIGATIONS) (the_list (dget p ''obligations''))
            else Inr False) (\<lambda>ok.
      if \<not> ok then Inl (PermissionError ''capability obligations are invalid'')
      else if \<not> is_sha256 (dget p ''policy_digest'')
        then Inl (PermissionError ''capability policy digest is invalid'')
      else Inr ()))"

definition check_identity :: "revocation_list option \<Rightarrow> dict \<Rightarrow> string res" where
  "check_identity revocations p =
     (case dget p ''capability_id'' of
        JStr cid \<Rightarrow>
          rbind (case revocations of
              None \<Rightarrow> Inr False
            | Some rl \<Rightarrow> rbind (is_revoked rl (JStr cid)) (\<lambda>b.
                if b then Inr True else is_revoked rl (dget p ''root_capability_id''))) (\<lambda>revoked.
          if revoked then Inl (PermissionError ''capability revoked'')
          else rbind (content_id ''kinegrant:cap''
                (JDict (dwithout [''capability_id'', ''root_capability_id''] p))) (\<lambda>expected.
          if cid \<noteq> expected then Inl (PermissionError ''capability identifier is inconsistent'')
          else Inr cid))
      | _ \<Rightarrow> Inl (PermissionError ''capability has no identifier''))"

record verified_capability =
  vc_claims :: dict
  vc_authorized_at :: datetime

record gate_config =
  gc_trusted :: "string list"
  gc_revocations :: "revocation_list option"

text \<open>\<open>authorize\<close> up to the replay store: claims, identifier and expiry.\<close>

definition authorize_checks ::
  "verifier \<Rightarrow> gate_config \<Rightarrow> dict \<Rightarrow> action_request \<Rightarrow> datetime \<Rightarrow> dict option \<Rightarrow> (dict \<times> string \<times> datetime) res" where
  "authorize_checks V g capability q current parent =
     rbind (verify_envelope V capability) (\<lambda>p.
     rbind (check_schema p) (\<lambda>_.
     rbind (check_binding (gc_trusted g) capability p q) (\<lambda>_.
     rbind (check_scope p q) (\<lambda>_.
     rbind (check_parent V p parent) (\<lambda>_.
     rbind (check_window p current) (\<lambda>expires_at.
     rbind (check_claims p) (\<lambda>_.
     rbind (check_identity (gc_revocations g) p) (\<lambda>cid.
     Inr (p, cid, expires_at)))))))))"

definition authorize ::
  "verifier \<Rightarrow> ('s \<Rightarrow> 'e \<Rightarrow> string \<Rightarrow> datetime \<Rightarrow> 's \<times> bool res) \<Rightarrow> gate_config \<Rightarrow> 's \<Rightarrow> 'e
    \<Rightarrow> dict \<Rightarrow> action_request \<Rightarrow> datetime \<Rightarrow> dict option \<Rightarrow> 's \<times> verified_capability res" where
  "authorize V consume g s env capability q current parent =
     (case authorize_checks V g capability q current parent of
        Inl x \<Rightarrow> (s, Inl x)
      | Inr (p, cid, expires_at) \<Rightarrow>
          (case consume s env cid expires_at of
             (s', Inl x) \<Rightarrow> (s', Inl x)
           | (s', Inr first) \<Rightarrow>
               (s', if first then Inr \<lparr>vc_claims = p, vc_authorized_at = current\<rparr>
                    else Inl (PermissionError ''capability replay detected''))))"

text \<open>A sequence of authorizations against one store.\<close>

record 'e gate_event =
  ge_env :: 'e
  ge_capability :: dict
  ge_request :: action_request
  ge_now :: datetime
  ge_parent :: "dict option"

definition gate_step ::
  "verifier \<Rightarrow> ('s \<Rightarrow> 'e \<Rightarrow> string \<Rightarrow> datetime \<Rightarrow> 's \<times> bool res) \<Rightarrow> gate_config \<Rightarrow> 's \<Rightarrow> 'e gate_event
    \<Rightarrow> 's \<times> verified_capability res" where
  "gate_step V consume g s ev =
     authorize V consume g s (ge_env ev) (ge_capability ev) (ge_request ev) (ge_now ev) (ge_parent ev)"

fun gate_run ::
  "verifier \<Rightarrow> ('s \<Rightarrow> 'e \<Rightarrow> string \<Rightarrow> datetime \<Rightarrow> 's \<times> bool res) \<Rightarrow> gate_config \<Rightarrow> 's \<Rightarrow> 'e gate_event list
    \<Rightarrow> 's \<times> verified_capability res list" where
  "gate_run V consume g s [] = (s, [])"
| "gate_run V consume g s (ev # evs) =
     (case gate_step V consume g s ev of (s', r) \<Rightarrow>
        case gate_run V consume g s' evs of (s'', rs) \<Rightarrow> (s'', r # rs))"

section \<open>What an authorization means\<close>

definition not_revoked :: "gate_config \<Rightarrow> dict \<Rightarrow> bool" where
  "not_revoked g p \<longleftrightarrow> (\<forall>rl. gc_revocations g = Some rl \<longrightarrow>
     is_revoked rl (dget p ''capability_id'') = Inr False
     \<and> is_revoked rl (dget p ''root_capability_id'') = Inr False)"

definition scope_covers :: "dict \<Rightarrow> action_request \<Rightarrow> bool" where
  "scope_covers p q \<longleftrightarrow>
     (if dget p ''version'' = JStr ''0.1''
      then dget p ''agent'' = JStr (rq_agent q) \<and> dget p ''target'' = JStr (rq_target q)
         \<and> dget p ''action'' = JStr (rq_action q) \<and> dget p ''purpose'' = JStr (rq_purpose q)
      else is_v2 (dget p ''version'')
         \<and> (if dget p ''delegate_agent'' = JNull then dget p ''agent'' = JStr (rq_agent q)
            else dget p ''delegate_agent'' = JStr (rq_agent q))
         \<and> (\<exists>t. dget p ''target'' = JStr t \<and> fnmatchcase (rq_target q) t)
         \<and> JStr (rq_action q) \<in> set (the_list (dget p ''actions''))
         \<and> JStr (rq_purpose q) \<in> set (the_list (dget p ''purposes'')))"

definition in_window :: "dict \<Rightarrow> datetime \<Rightarrow> datetime \<Rightarrow> bool" where
  "in_window p now expires_at \<longleftrightarrow> (\<exists>nb. time_field p ''not_before'' = Inr nb
     \<and> time_field p ''expires_at'' = Inr expires_at
     \<and> dt_us nb \<le> dt_us now \<and> dt_us now < dt_us expires_at \<and> dt_us expires_at - dt_us nb \<le> seconds 300)"

text \<open>
  The specification of an authorization: a signed envelope of a trusted issuer, for this very
  request, whose scope covers it, inside its window, not revoked (nor its root), with known
  obligations and a content-addressed identifier.
\<close>

definition authorized ::
  "verifier \<Rightarrow> gate_config \<Rightarrow> dict \<Rightarrow> action_request \<Rightarrow> datetime \<Rightarrow> dict \<Rightarrow> string \<Rightarrow> datetime \<Rightarrow> bool" where
  "authorized V g capability q now p cid expires_at \<longleftrightarrow>
     verify_envelope V capability = Inr p
     \<and> (\<exists>issuer\<in>set (gc_trusted g). dget p ''issuer'' = JStr issuer \<and> dget capability ''kid'' = JStr issuer)
     \<and> (\<exists>rd. request_digest q = Inr rd \<and> dget p ''request_digest'' = JStr rd)
     \<and> scope_covers p q \<and> in_window p now expires_at \<and> not_revoked g p
     \<and> set (the_list (dget p ''obligations'')) \<subseteq> JStr ` set KNOWN_OBLIGATIONS
     \<and> dget p ''capability_id'' = JStr cid
     \<and> content_id ''kinegrant:cap'' (JDict (dwithout [''capability_id'', ''root_capability_id''] p)) = Inr cid"

lemma check_bindingD:
  assumes "check_binding trusted env p q = Inr u" "verify_envelope V env = Inr p"
  shows "\<exists>issuer\<in>set trusted. dget p ''issuer'' = JStr issuer \<and> dget env ''kid'' = JStr issuer"
    "\<exists>rd. request_digest q = Inr rd \<and> dget p ''request_digest'' = JStr rd"
proof -
  obtain s where s: "dget env ''kid'' = JStr s" using verify_envelope_kid [OF assms(2)] by blast
  show "\<exists>issuer\<in>set trusted. dget p ''issuer'' = JStr issuer \<and> dget env ''kid'' = JStr issuer"
    using assms(1) s by (auto simp: check_binding_def res_simps split: if_splits)
  show "\<exists>rd. request_digest q = Inr rd \<and> dget p ''request_digest'' = JStr rd"
    using assms(1) by (auto simp: check_binding_def res_simps split: if_splits)
qed

lemma check_scopeD:
  assumes "check_schema p = Inr u"
    "check_scope p q = Inr w"
  shows "scope_covers p q"
proof (cases "dget p ''version'' = JStr ''0.1''")
  case True
  with assms(2) show ?thesis by (auto simp: scope_covers_def check_scope_def check_exact_scope_def split: if_splits)
next
  case False
  with assms(1) have v: "is_v2 (dget p ''version'')" by (auto simp: check_schema_def split: if_splits)
  from False assms(1) have "dkeys_eq p CAPABILITY_FIELDS_V2" by (auto simp: check_schema_def split: if_splits)
  then have "dhas p ''target''"
    by (subst dkeys_eq_dhas) (auto simp: CAPABILITY_FIELDS_V2_def CAPABILITY_FIELDS_def)
  then have "dget_or p ''target'' (JStr []) = dget p ''target''"
    by (auto simp: dhas_def dget_def dget_or_def)
  with False v assms(2) show ?thesis
    by (auto simp: scope_covers_def check_scope_def check_pattern_scope_def fnmatch_json_def res_simps split: if_splits json.splits)
qed

lemma check_windowD:
  assumes "check_window p now = Inr x"
  shows "in_window p now x" "\<not> naive now"
proof -
  from assms obtain i n where "\<not> naive now" "time_field p ''not_before'' = Inr n" "time_field p ''expires_at'' = Inr x"
    "\<not> (dt_us x - dt_us n > seconds 300)" "\<not> dt_us now < dt_us n" "\<not> dt_us now \<ge> dt_us x"
    by (auto simp: check_window_def as_window_exn_def res_simps split: if_splits sum.splits)
  then show "in_window p now x" "\<not> naive now" by (auto simp: in_window_def)
qed

lemma check_claimsD:
  "check_claims p = Inr u \<Longrightarrow> set (the_list (dget p ''obligations'')) \<subseteq> JStr ` set KNOWN_OBLIGATIONS"
  by (auto simp: check_claims_def res_simps rall_True split: if_splits)

lemma check_identityD:
  assumes "check_identity (gc_revocations g) p = Inr cid"
  shows "dget p ''capability_id'' = JStr cid \<and> not_revoked g p
    \<and> content_id ''kinegrant:cap'' (JDict (dwithout [''capability_id'', ''root_capability_id''] p)) = Inr cid"
  using assms unfolding check_identity_def
  by - (elim res_elims, cases "gc_revocations g", auto simp: not_revoked_def res_simps split: if_splits)

lemma authorize_checks_sound:
  assumes "authorize_checks V g capability q now parent = Inr (p, cid, x)"
  shows "authorized V g capability q now p cid x" "\<not> naive now" "check_parent V p parent = Inr ()"
proof -
  from assms have *: "verify_envelope V capability = Inr p" "check_schema p = Inr ()"
    "check_binding (gc_trusted g) capability p q = Inr ()"
    "check_scope p q = Inr ()"
    "check_parent V p parent = Inr ()" "check_window p now = Inr x" "check_claims p = Inr ()"
    "check_identity (gc_revocations g) p = Inr cid"
    by (auto simp: authorize_checks_def res_simps)
  show "authorized V g capability q now p cid x"
    unfolding authorized_def
    using * check_bindingD [OF *(3,1)] check_scopeD [OF *(2,4)] check_windowD [OF *(6)]
      check_claimsD [OF *(7)] check_identityD [OF *(8)]
    by blast
  show "\<not> naive now" by (rule check_windowD(2) [OF *(6)])
  show "check_parent V p parent = Inr ()" by (rule *(5))
qed

lemma authorize_Inr:
  "authorize V consume g s env cap q now parent = (s', Inr vc) \<longleftrightarrow>
     (\<exists>p cid x. authorize_checks V g cap q now parent = Inr (p, cid, x) \<and> consume s env cid x = (s', Inr True)
        \<and> vc = \<lparr>vc_claims = p, vc_authorized_at = now\<rparr>)"
  by (auto simp: authorize_def split: sum.splits prod.splits if_splits)

text \<open>A refused check leaves the store alone; otherwise the store's answer decides.\<close>

lemma authorize_store:
  "authorize V consume g s env cap q now parent = (s', r) \<Longrightarrow>
     (s' = s \<and> (\<exists>e. r = Inl e)) \<or>
     (\<exists>p cid x. authorize_checks V g cap q now parent = Inr (p, cid, x) \<and> s' = fst (consume s env cid x))"
  by (auto simp: authorize_def split: sum.splits prod.splits)

section \<open>At most once\<close>

definition accepted_ids :: "verified_capability res list \<Rightarrow> json list" where
  "accepted_ids rs = concat (map (\<lambda>r. case r of Inl _ \<Rightarrow> []
     | Inr vc \<Rightarrow> [dget (vc_claims vc) ''capability_id'']) rs)"

lemma accepted_ids_snoc:
  "accepted_ids (rs @ [Inl e]) = accepted_ids rs"
  "accepted_ids (rs @ [Inr vc]) = accepted_ids rs @ [dget (vc_claims vc) ''capability_id'']"
  by (simp_all add: accepted_ids_def)

lemma in_accepted_ids: "i \<in> set (accepted_ids rs) \<longleftrightarrow> (\<exists>vc. Inr vc \<in> set rs \<and> i = dget (vc_claims vc) ''capability_id'')"
proof (induction rs)
  case (Cons r rs)
  then show ?case by (cases r) (auto simp: accepted_ids_def)
qed (simp add: accepted_ids_def)

lemma gate_run_snoc:
  "gate_run V consume g s (evs @ [ev]) = (case gate_run V consume g s evs of (s1, rs) \<Rightarrow>
     case gate_step V consume g s1 ev of (s2, r) \<Rightarrow> (s2, rs @ [r]))"
  by (induction evs arbitrary: s) (auto split: prod.splits)

lemma gate_run_split:
  "gate_run V consume g s evs = (s', rs) \<Longrightarrow> Inr vc \<in> set rs \<Longrightarrow>
     \<exists>as ev bs sa sb rsa rsb. evs = as @ ev # bs \<and> gate_run V consume g s as = (sa, rsa)
       \<and> gate_step V consume g sa ev = (sb, Inr vc) \<and> gate_run V consume g sb bs = (s', rsb)"
proof (induction evs arbitrary: s rs)
  case (Cons e evs)
  obtain s1 r rs1 where 1: "gate_step V consume g s e = (s1, r)" "gate_run V consume g s1 evs = (s', rs1)" "rs = r # rs1"
    using Cons.prems(1) by (auto split: prod.splits)
  show ?case
  proof (cases "r = Inr vc")
    case True
    with 1 show ?thesis by (intro exI [of _ "[]"] exI [of _ e] exI [of _ evs]) auto
  next
    case False
    with 1 Cons.prems(2) obtain as ev bs sa sb rsa rsb where 2: "evs = as @ ev # bs" "gate_run V consume g s1 as = (sa, rsa)"
      "gate_step V consume g sa ev = (sb, Inr vc)" "gate_run V consume g sb bs = (s', rsb)"
      using Cons.IH [OF 1(2)] by auto
    with 1(1) show ?thesis by (intro exI [of _ "e # as"] exI [of _ ev] exI [of _ bs]) auto
  qed
qed simp

lemma time_fieldD: "time_field p k = Inr x \<Longrightarrow> parse_time (dget p k) = Inr x \<and> utc_time x"
  by (auto simp: time_field_def res_simps parse_time_utc dget_def)

text \<open>The part of a capability's claims its identifier is the digest of.\<close>

definition cap_body :: "dict \<Rightarrow> json" where
  "cap_body p = JDict (dwithout [''capability_id'', ''root_capability_id''] p)"

definition claims_collide :: "verified_capability \<Rightarrow> verified_capability \<Rightarrow> bool" where
  "claims_collide v w \<longleftrightarrow> collide (cap_body (vc_claims v)) (cap_body (vc_claims w))"

text \<open>
  Two authorized payloads with the same identifier expire at the same time, or the two exhibit a
  collision of SHA-256.
\<close>

lemma same_id_same_expiry:
  assumes "authorized V g cap q now p cid x" "authorized V g' cap' q' now' p' cid x'"
  shows "x = x' \<or> collide (cap_body p) (cap_body p')"
proof -
  let ?u = "\<lambda>p. JDict (dwithout [''capability_id'', ''root_capability_id''] p)"
  from assms have "content_id ''kinegrant:cap'' (?u p) = Inr cid" "content_id ''kinegrant:cap'' (?u p') = Inr cid"
    by (auto simp: authorized_def)
  then show ?thesis
  proof (rule content_id_inject)
    assume eq: "jequiv (?u p) (?u p')"
    from assms have e: "parse_time (dget p ''expires_at'') = Inr x" "parse_time (dget p' ''expires_at'') = Inr x'"
      by (auto simp: authorized_def in_window_def dest: time_fieldD)
    then obtain s where s: "dget p ''expires_at'' = JStr s" by (auto simp: parse_time_def split: json.splits)
    then have "dget (dwithout [''capability_id'', ''root_capability_id''] p) ''expires_at'' = JStr s" by simp
    from jequiv_dget_str [OF eq this] have "dget p' ''expires_at'' = JStr s" by simp
    with e s show ?thesis by simp
  qed (simp add: cap_body_def)
qed

context replay_store
begin

abbreviation run :: "verifier \<Rightarrow> gate_config \<Rightarrow> 's \<Rightarrow> 'e gate_event list \<Rightarrow> 's \<times> verified_capability res list" where
  "run V g \<equiv> gate_run V consume g"

lemma gate_step_ok: "store_ok s \<Longrightarrow> store_ok (fst (gate_step V consume g s ev))"
proof (cases "authorize_checks V g (ge_capability ev) (ge_request ev) (ge_now ev) (ge_parent ev)")
  case (Inr r)
  assume ok: "store_ok s"
  obtain p cid x where r: "r = (p, cid, x)" by (cases r)
  have "\<not> naive x"
    using authorize_checks_sound(1) [OF Inr [unfolded r]] by (auto simp: authorized_def in_window_def dest!: time_fieldD simp: utc_time_def)
  then have "store_ok (fst (consume s (ge_env ev) cid x))" by (rule consume_ok [OF ok])
  then show ?thesis using Inr r by (auto simp: gate_step_def authorize_def split: prod.splits sum.splits)
qed (simp add: gate_step_def authorize_def)

lemma gate_step_keeps:
  assumes "store_ok s" "recorded s c = Some t" "clock_le (ge_env ev) t"
  shows "recorded (fst (gate_step V consume g s ev)) c = Some t"
    "snd (gate_step V consume g s ev) = Inr vc \<Longrightarrow> dget (vc_claims vc) ''capability_id'' \<noteq> JStr c"
proof -
  show "recorded (fst (gate_step V consume g s ev)) c = Some t"
    using consume_keeps [OF assms] assms(2) authorize_store [of V consume g s "ge_env ev"]
    by (metis gate_step_def surjective_pairing)
  assume "snd (gate_step V consume g s ev) = Inr vc"
  then obtain p cid x s' where a: "authorize_checks V g (ge_capability ev) (ge_request ev) (ge_now ev) (ge_parent ev) = Inr (p, cid, x)"
    and c: "consume s (ge_env ev) cid x = (s', Inr True)" and v: "vc_claims vc = p"
    unfolding gate_step_def by (metis authorize_Inr surjective_pairing verified_capability.select_convs(1))
  have "dget p ''capability_id'' = JStr cid" using authorize_checks_sound(1) [OF a] by (simp add: authorized_def)
  moreover have "cid \<noteq> c" using consume_refuses [OF assms, of x] c by auto
  ultimately show "dget (vc_claims vc) ''capability_id'' \<noteq> JStr c" using v by simp
qed

lemma gate_run_keeps:
  assumes "store_ok s" "recorded s c = Some t" "\<forall>ev\<in>set evs. clock_le (ge_env ev) t" "run V g s evs = (s', rs)"
  shows "\<forall>vc. Inr vc \<in> set rs \<longrightarrow> dget (vc_claims vc) ''capability_id'' \<noteq> JStr c"
  using assms
proof (induction evs arbitrary: s s' rs)
  case (Cons ev evs)
  obtain s1 r where 1: "gate_step V consume g s ev = (s1, r)" by (cases "gate_step V consume g s ev")
  obtain rs' where 2: "run V g s1 evs = (s', rs')" "rs = r # rs'"
    using Cons.prems(4) 1 by (auto split: prod.splits)
  have "clock_le (ge_env ev) t" using Cons.prems by simp
  note k = gate_step_keeps [OF Cons.prems(1,2) this, of V g] gate_step_ok [OF Cons.prems(1), of V g ev]
  have "store_ok s1" "recorded s1 c = Some t" using k 1 by auto
  from Cons.IH [OF this _ 2(1)] Cons.prems(3) k(2) 1 2(2) show ?case by auto
qed simp

lemma gate_step_accepted:
  assumes "store_ok s" "gate_step V consume g s ev = (s', Inr vc)"
  obtains c x where "authorized V g (ge_capability ev) (ge_request ev) (ge_now ev) (vc_claims vc) c x"
    "recorded s' c = Some (dt_us x)" "vc_authorized_at vc = ge_now ev"
proof -
  from assms(2) obtain p cid x where a: "authorize_checks V g (ge_capability ev) (ge_request ev) (ge_now ev) (ge_parent ev) = Inr (p, cid, x)"
    and c: "consume s (ge_env ev) cid x = (s', Inr True)" and v: "vc = \<lparr>vc_claims = p, vc_authorized_at = ge_now ev\<rparr>"
    unfolding gate_step_def authorize_Inr by blast
  show thesis
    using that authorize_checks_sound(1) [OF a] consume_records [OF assms(1) c] v by auto
qed

text \<open>
  Two authorizations of a run never have the same identifier, when no reading of the store's
  clock between them is later than the time at which the gate verifies the second one.
\<close>

lemma gate_run_ok: "gate_run V consume g s evs = (s', rs) \<Longrightarrow> store_ok s \<Longrightarrow> store_ok s'"
proof (induction evs arbitrary: s rs)
  case (Cons e evs)
  then show ?case using gate_step_ok [OF Cons.prems(2), of V g e] by (auto split: prod.splits)
qed simp

lemma at_most_once_tail:
  assumes ok: "store_ok s" and first: "gate_step V consume g s ev = (s1, Inr vc)"
    and rest: "run V g s1 evs = (s2, rs)" and ok_last: "gate_step V consume g s2 ev' = (s3, Inr vc')"
    and same: "dget (vc_claims vc) ''capability_id'' = dget (vc_claims vc') ''capability_id''"
    and clocks: "\<forall>e\<in>set (evs @ [ev']). clock_le (ge_env e) (dt_us (ge_now ev'))"
  shows "claims_collide vc vc'"
proof (rule ccontr)
  assume nc: "\<not> claims_collide vc vc'"
  obtain c x where 1: "authorized V g (ge_capability ev) (ge_request ev) (ge_now ev) (vc_claims vc) c x"
    "recorded s1 c = Some (dt_us x)"
    using gate_step_accepted [OF ok first] by blast
  have ok1: "store_ok s1" using gate_step_ok [OF ok, of V g ev] first by simp
  have run: "run V g s1 (evs @ [ev']) = (s3, rs @ [Inr vc'])"
    using rest ok_last by (simp add: gate_run_snoc)
  from gate_step_accepted [OF gate_run_ok [OF rest ok1] ok_last] obtain c' x' where
    2: "authorized V g (ge_capability ev') (ge_request ev') (ge_now ev') (vc_claims vc') c' x'" by blast
  from 1(1) 2 same have cc: "c' = c" by (auto simp: authorized_def)
  then have "x = x'" using same_id_same_expiry [OF 1(1)] 2 nc unfolding claims_collide_def by blast
  with 2 have "dt_us (ge_now ev') \<le> dt_us x" by (auto simp: authorized_def in_window_def)
  then have "\<forall>e\<in>set (evs @ [ev']). clock_le (ge_env e) (dt_us x)" using clocks clock_le_mono by blast
  from gate_run_keeps [OF ok1 1(2) this run] have "dget (vc_claims vc') ''capability_id'' \<noteq> JStr c" by simp
  with 2 cc show False by (simp add: authorized_def)
qed

text \<open>Hence the accepted identifiers of a run are distinct.\<close>

lemma gate_run_once:
  assumes "store_ok s" "run V g s evs = (s', rs)" "sorted (map (\<lambda>ev. dt_us (ge_now ev)) evs)"
    "\<forall>ev\<in>set evs. clock_le (ge_env ev) (dt_us (ge_now ev))"
  shows "distinct (accepted_ids rs) \<or> (\<exists>v w. Inr v \<in> set rs \<and> Inr w \<in> set rs \<and> claims_collide v w)"
  using assms(2-4)
proof (induction evs arbitrary: s' rs rule: rev_induct)
  case (snoc ev' evs)
  obtain s1 rs1 r where 1: "run V g s evs = (s1, rs1)" "gate_step V consume g s1 ev' = (s', r)" "rs = rs1 @ [r]"
    using snoc.prems(1) by (auto simp: gate_run_snoc split: prod.splits)
  have IH: "distinct (accepted_ids rs1) \<or> (\<exists>v w. Inr v \<in> set rs1 \<and> Inr w \<in> set rs1 \<and> claims_collide v w)"
    using snoc.IH [OF 1(1)] snoc.prems(2,3) by (simp add: sorted_append)
  have clocks: "clock_le (ge_env e) (dt_us (ge_now ev'))" if "e \<in> set (evs @ [ev'])" for e
    using that snoc.prems(2,3) clock_le_mono by (fastforce simp: sorted_append)
  show ?case
  proof (cases r)
    case (Inr vc')
    have "dget (vc_claims vc) ''capability_id'' \<noteq> dget (vc_claims vc') ''capability_id'' \<or> claims_collide vc vc'"
      if "Inr vc \<in> set rs1" for vc
    proof -
      from gate_run_split [OF 1(1) that] obtain as ev bs sa sb rsb rsa where
        s: "evs = as @ ev # bs" "run V g s as = (sa, rsa)" "gate_step V consume g sa ev = (sb, Inr vc)" "run V g sb bs = (s1, rsb)"
        by blast
      from at_most_once_tail [OF gate_run_ok [OF s(2) assms(1)] s(3,4) 1(2) [unfolded Inr]] clocks s(1)
      show ?thesis by auto
    qed
    then have "dget (vc_claims vc') ''capability_id'' \<notin> set (accepted_ids rs1) \<or> (\<exists>v. Inr v \<in> set rs1 \<and> claims_collide v vc')"
      unfolding in_accepted_ids by metis
    with IH show ?thesis unfolding 1(3) Inr accepted_ids_snoc by auto
  qed (use IH 1(3) in \<open>auto simp: accepted_ids_snoc\<close>)
qed (simp add: accepted_ids_def)

text \<open>An id that was never consumed is accepted when the checks hold.\<close>

lemma authorize_accepts:
  assumes "store_ok s" "authorize_checks V g cap q now parent = Inr (p, cid, x)" "recorded s cid = None" "works e"
  shows "snd (authorize V consume g s e cap q now parent) = Inr \<lparr>vc_claims = p, vc_authorized_at = now\<rparr>"
  using consume_accepts [OF assms(1,3,4), of x] assms(2)
  by (cases "consume s e cid x") (simp add: authorize_def)

end

section \<open>Revocation of a root\<close>

lemma authorize_refused:
  assumes "\<And>p cid x. authorized V g cap q now p cid x \<Longrightarrow> False"
  shows "\<exists>e. authorize_checks V g cap q now parent = Inl e"
proof (cases "authorize_checks V g cap q now parent")
  case (Inr r)
  then show ?thesis using assms authorize_checks_sound(1) by (cases r) blast
qed simp

lemma revoked_refused:
  assumes "gc_revocations g = Some rl" "r \<in> fst ` set rl" "verify_envelope V cap = Inr p"
    "dget p ''root_capability_id'' = JStr r \<or> dget p ''capability_id'' = JStr r"
  shows "\<exists>e. authorize_checks V g cap q now parent = Inl e"
proof (rule authorize_refused)
  fix p' cid x
  assume a: "authorized V g cap q now p' cid x"
  then have "p' = p" using assms(3) by (simp add: authorized_def)
  with a have "not_revoked g p" by (simp add: authorized_def)
  then have "is_revoked rl (dget p ''capability_id'') = Inr False"
    "is_revoked rl (dget p ''root_capability_id'') = Inr False"
    using assms(1) unfolding not_revoked_def by blast+
  with assms(2,4) show False by (elim disjE) simp_all
qed

section \<open>An issued capability is authorized\<close>

lemma issue_keys: "dkeys_eq (issue_body k q d iat ex nonce @ [(''capability_id'', v)]) CAPABILITY_FIELDS"
  by (simp add: dkeys_eq_def issue_body_def CAPABILITY_FIELDS_def)

lemma JStrs_nonempty: "list_all nonempty_str (the_list (JStrs ss)) \<longleftrightarrow> [] \<notin> set ss"
  by (auto simp: JStrs_def list_all_iff)

lemma unknown_obligations_False:
  "unknown_obligations obs = Inr False \<Longrightarrow> rall (\<lambda>v. in_str_set v KNOWN_OBLIGATIONS) obs = Inr True"
  by (auto simp: unknown_obligations_def rall_True list_all_iff split: if_splits)

lemma issue_authorized:
  assumes iss: "issue k q d ttl t nonce = Inr env" and key: "good_key V k" and tr: "kid k \<in> set (gc_trusted g)"
    and t: "utc_time t" and now: "\<not> naive now" "dt_us t \<le> dt_us now" "dt_us now < dt_us t + seconds ttl"
    and nonce: "20 \<le> length nonce" and ids: "[] \<notin> set (dc_matched d)"
    and pd: "is_sha256_text (dc_policy_digest d)"
    and rev: "\<And>rl. gc_revocations g = Some rl \<Longrightarrow> \<forall>p. verify_envelope V env = Inr p \<longrightarrow>
       is_revoked rl (dget p ''capability_id'') = Inr False"
  shows "\<exists>p cid x. authorize_checks V g env q now None = Inr (p, cid, x) \<and> verify_envelope V env = Inr p"
  using iss
proof (cases rule: issueE)
  case (1 iat ex expires cid)
  let ?p = "issue_body k q d iat ex nonce @ [(''capability_id'', JStr cid)]"
  have p: "dset (issue_body k q d iat ex nonce) ''capability_id'' (JStr cid) = ?p" by (simp add: issue_body_def)
  note sv = sign_verify [OF key 1(11) [unfolded p]]
  have utc: "utc_time expires" using utc_time_add [OF t 1(8)] .
  have e: "dt_us expires = dt_us t + seconds ttl" using 1(8) by (auto simp: res_simps)
  have times: "parse_time (JStr iat) = Inr t" "parse_time (JStr ex) = Inr expires"
    using utc_time_parse [OF t 1(7)] utc_time_parse [OF utc 1(9)] by auto
  have "seconds ttl \<le> seconds 300" using 1 by (simp add: seconds_def)
  have w: "check_window ?p now = Inr expires"
    using now e times 1(4,5) by (simp add: check_window_def as_window_exn_def time_field_def issue_body_def seconds_def)
  have s: "check_schema ?p = Inr ()"
    using issue_keys by (simp add: check_schema_def) (simp add: issue_body_def)
  have b: "check_binding (gc_trusted g) env ?p q = Inr ()"
    using tr sv(2) 1(2) by (simp add: check_binding_def issue_body_def)
  have sc: "check_scope ?p q = Inr ()"
    by (simp add: check_scope_def check_exact_scope_def issue_body_def)
  have c: "check_claims ?p = Inr ()"
    using nonce ids pd 1(3) unknown_obligations_False [OF 1(6)]
    by (simp add: check_claims_def issue_body_def JStrs_nonempty) (simp add: JStrs_def)
  have "dwithout [''capability_id'', ''root_capability_id''] ?p = issue_body k q d iat ex nonce"
    by (simp add: issue_body_def)
  moreover have "dget ?p ''capability_id'' = JStr cid" "dget ?p ''root_capability_id'' = JNull"
    by (simp_all add: issue_body_def)
  ultimately have i: "check_identity (gc_revocations g) ?p = Inr cid"
    using rev sv(1) 1(10) by (auto simp: check_identity_def is_revoked_def split: option.splits)
  show ?thesis
    using sv(1) s b sc w c i by (simp add: authorize_checks_def check_parent_def)
qed

end
