(* ===== verification/Receipt.thy ===== *)
theory Receipt
  imports Gate
begin

text \<open>
  \<open>receipt.py\<close>: the append-only log of signed receipts and the verification of a chain. The
  log is a record of the executor's key and the entries; the readings of \<open>utc_now()\<close> are the
  arguments \<open>started\<close> and \<open>finished\<close>. The loop of \<open>verify_receipt_chain\<close> is a fold over
  the entries whose state is the previous envelope and the ids seen; \<open>None\<close> is \<open>return False\<close>.
\<close>

section \<open>Obligation results\<close>

definition OBLIGATION_STATUSES :: "string list" where
  "OBLIGATION_STATUSES = [''satisfied'', ''pending'', ''failed'']"

definition RESULT_FIELDS :: "string list" where
  "RESULT_FIELDS = [''obligation'', ''status'', ''failure_reason'']"

definition validate_result_item :: "json \<Rightarrow> unit res" where
  "validate_result_item v = (case v of
      JDict item \<Rightarrow>
        if \<not> list_all (\<lambda>(k, _). k \<in> set RESULT_FIELDS) item
          then Inl (ValueError ''unsupported obligation result fields: '')
        else rbind (in_str_set (dget item ''obligation'') KNOWN_OBLIGATIONS) (\<lambda>known.
        if \<not> known then Inl (ValueError ''unknown obligation in result: '')
        else rbind (in_str_set (dget item ''status'') OBLIGATION_STATUSES) (\<lambda>ok.
        if \<not> ok then Inl (ValueError ''invalid obligation status: '')
        else if dget item ''failure_reason'' \<noteq> JNull \<and> \<not> nonblank_str (dget item ''failure_reason'')
          then Inl (ValueError ''obligation failure_reason must be a non-empty string or null'')
        else if dget item ''status'' = JStr ''failed'' \<and> \<not> nonblank_str (dget item ''failure_reason'')
          then Inl (ValueError ''a failed obligation requires a non-empty failure_reason'')
        else Inr ()))
    | _ \<Rightarrow> Inl (ValueError ''obligation_results entries must be objects''))"

definition validate_obligation_results :: "json \<Rightarrow> unit res" where
  "validate_obligation_results v =
     (if v = JNull then Inr ()
      else if \<not> (is_list v \<and> the_list v \<noteq> [])
        then Inl (ValueError ''obligation_results must be a non-empty list when provided'')
      else rforeach validate_result_item (the_list v))"

text \<open>\<open>_validate_v10_receipt\<close> catches \<open>ValueError\<close> only.\<close>

definition validate_v10_receipt :: "dict \<Rightarrow> bool res" where
  "validate_v10_receipt p =
     (if \<not> dhas p ''obligation_results'' \<and> \<not> dhas p ''failure_reason'' then Inr False
      else if dhas p ''failure_reason'' \<and> \<not> nonblank_str (dget p ''failure_reason'') then Inr False
      else if \<not> dhas p ''obligation_results'' then Inr True
      else case validate_obligation_results (dget p ''obligation_results'') of
        Inl e \<Rightarrow> if is_ValueError e then Inr False else Inl e
      | Inr _ \<Rightarrow> Inr True)"

section \<open>The log\<close>

record receipt_log =
  rl_key :: key_pair
  rl_log :: "dict list"

definition receipt_log_init :: "key_pair \<Rightarrow> receipt_log" where
  "receipt_log_init k = \<lparr>rl_key = k, rl_log = []\<rparr>"

definition receipt_restore :: "receipt_log \<Rightarrow> dict list \<Rightarrow> receipt_log" where
  "receipt_restore l entries = l\<lparr>rl_log := entries\<rparr>"

record receipt_args =
  ra_result :: string
  ra_evidence :: json
  ra_started :: datetime
  ra_finished :: datetime
  ra_request :: "action_request option"
  ra_obligations :: json
  ra_failure :: json

text \<open>\<open>entry["payload"].get("capability_id") == capability_id\<close>\<close>

definition entry_for :: "json \<Rightarrow> dict \<Rightarrow> bool res" where
  "entry_for cid entry =
     rbind (dindex entry ''payload'') (\<lambda>p. case p of
        JDict d \<Rightarrow> Inr (py_eq (dget d ''capability_id'') cid)
      | _ \<Rightarrow> Inl (AttributeError ''object has no attribute 'get' ''))"

definition receipt_window :: "dict \<Rightarrow> datetime \<Rightarrow> datetime \<Rightarrow> unit res" where
  "receipt_window claims started finished =
     rbind (dt_less finished started) (\<lambda>b.
     if b then Inl (ValueError ''finished_at cannot precede started_at'')
     else rbind (time_field claims ''not_before'') (\<lambda>nb.
     rbind (time_field claims ''expires_at'') (\<lambda>ex.
     rbind (dt_less started nb) (\<lambda>early.
     rbind (dt_less started ex) (\<lambda>in_time.
     if early \<or> \<not> in_time then Inl (ValueError ''action must start while the capability is active'')
     else Inr ())))))"

definition executed_action :: "dict \<Rightarrow> action_request option \<Rightarrow> (json \<times> json) res" where
  "executed_action claims request =
     (if dget claims ''action'' = JNull \<or> dget claims ''purpose'' = JNull then
        (case request of
           None \<Rightarrow> Inl (ValueError ''v0.2 capabilities require the ActionRequest for a receipt'')
         | Some q \<Rightarrow> Inr (JStr (rq_action q), JStr (rq_purpose q)))
      else Inr (dget claims ''action'', dget claims ''purpose''))"

definition previous_hash :: "dict list \<Rightarrow> json res" where
  "previous_hash entries =
     (if entries = [] then Inr JNull else rbind (digest (JDict (last entries))) (\<lambda>h. Inr (JStr h)))"

text \<open>The optional members are added after the fixed ones.\<close>

definition optional_members :: "dict \<Rightarrow> receipt_args \<Rightarrow> dict" where
  "optional_members claims a =
     filter (\<lambda>(k, _). dhas claims k)
       [(''approval_tier'', dget claims ''approval_tier''), (''constraints'', dget claims ''constraints''),
        (''parent_capability_id'', dget claims ''parent_capability_id'')]
     @ (if ra_obligations a \<noteq> JNull then [(''obligation_results'', ra_obligations a)] else [])
     @ (if ra_failure a \<noteq> JNull then [(''failure_reason'', ra_failure a)] else [])"

definition receipt_body ::
  "key_pair \<Rightarrow> dict \<Rightarrow> receipt_args \<Rightarrow> json \<Rightarrow> json \<Rightarrow> json \<Rightarrow> json \<Rightarrow> json \<Rightarrow> json \<times> json \<Rightarrow> string \<Rightarrow> string
    \<Rightarrow> json \<Rightarrow> dict" where
  "receipt_body k claims a cid rd agent target version act s_text f_text previous =
     [(''type'', JStr ''kinegrant:PhysicalActionReceipt''), (''version'', version),
      (''executor'', JStr (kid k)), (''capability_id'', cid), (''request_digest'', rd),
      (''agent'', agent), (''target'', target), (''action'', fst act), (''purpose'', snd act),
      (''result'', JStr (ra_result a)), (''started_at'', JStr s_text), (''finished_at'', JStr f_text),
      (''evidence_hash'', ra_evidence a), (''previous_receipt_hash'', previous)]
     @ optional_members claims a"

definition receipt_append :: "receipt_log \<Rightarrow> verified_capability \<Rightarrow> receipt_args \<Rightarrow> (receipt_log \<times> dict) res" where
  "receipt_append l vc a =
     (let claims = vc_claims vc in
      if ra_result a \<notin> {''succeeded'', ''failed'', ''aborted''} then Inl (ValueError ''invalid action result'')
      else rbind (dindex claims ''capability_id'') (\<lambda>cid.
      rbind (rany (entry_for cid) (rl_log l)) (\<lambda>dup.
      if dup then Inl (ValueError ''a terminal receipt already exists for this capability'')
      else rbind (if ra_evidence a = JNull then Inr True else sha256_fullmatch (ra_evidence a)) (\<lambda>ok.
      if \<not> ok then Inl (ValueError ''evidence_hash must be sha256 followed by 64 lowercase hex characters'')
      else rbind (validate_obligation_results (ra_obligations a)) (\<lambda>_.
      if ra_failure a \<noteq> JNull \<and> \<not> nonblank_str (ra_failure a)
        then Inl (ValueError ''failure_reason must be a non-empty string when provided'')
      else rbind (receipt_window claims (ra_started a) (ra_finished a)) (\<lambda>_.
      rbind (executed_action claims (ra_request a)) (\<lambda>act.
      rbind (previous_hash (rl_log l)) (\<lambda>previous.
      rbind (dindex claims ''request_digest'') (\<lambda>rd.
      rbind (dindex claims ''agent'') (\<lambda>agent.
      rbind (dindex claims ''target'') (\<lambda>target.
      rbind (isoformat (ra_started a)) (\<lambda>s_text.
      rbind (isoformat (ra_finished a)) (\<lambda>f_text.
      let version = JStr (if ra_obligations a \<noteq> JNull \<or> ra_failure a \<noteq> JNull then ''1.0'' else ''0.1'');
          body = receipt_body (rl_key l) claims a cid rd agent target version act s_text f_text previous
      in rbind (content_id ''kinegrant:receipt'' (JDict body)) (\<lambda>rid.
         rbind (sign_envelope (rl_key l) (dset body ''receipt_id'' (JStr rid))) (\<lambda>env.
         Inr (l\<lparr>rl_log := rl_log l @ [env]\<rparr>, env))))))))))))))))"

section \<open>Verifying a chain\<close>

definition RECEIPT_VERSIONS :: "string list" where
  "RECEIPT_VERSIONS = [''0.1'', ''1.0'']"

type_synonym chain_state = "dict option \<times> string list"

text \<open>The checks of one round after the envelope has been verified.\<close>

definition receipt_checks ::
  "string list option \<Rightarrow> string list option \<Rightarrow> chain_state \<Rightarrow> dict \<Rightarrow> dict \<Rightarrow> chain_state option res" where
  "receipt_checks trusted expected st envelope p =
     (if dget p ''type'' \<noteq> JStr ''kinegrant:PhysicalActionReceipt'' then Inr None
      else rbind (in_str_set (dget p ''version'') RECEIPT_VERSIONS) (\<lambda>known.
      if \<not> known then Inr None
      else rbind (if dget p ''version'' = JStr ''1.0'' then validate_v10_receipt p else Inr True) (\<lambda>valid.
      if \<not> valid then Inr None
      else if \<not> py_eq (dget p ''executor'') (dget envelope ''kid'') then Inr None
      else rbind (case trusted of None \<Rightarrow> Inr True | Some ts \<Rightarrow> in_str_set (dget p ''executor'') ts) (\<lambda>tr.
      if \<not> tr then Inr None
      else case dget p ''capability_id'' of
        JStr cid \<Rightarrow>
          if cid \<in> set (snd st) then Inr None
          else if (case expected of None \<Rightarrow> False | Some ids \<Rightarrow> cid \<notin> set ids) then Inr None
          else (case dget p ''receipt_id'' of
            JStr rid \<Rightarrow>
              rbind (content_id ''kinegrant:receipt'' (JDict (dwithout [''receipt_id''] p))) (\<lambda>rid'.
              if rid \<noteq> rid' then Inr None
              else rbind (case fst st of None \<Rightarrow> Inr JNull
                     | Some prev \<Rightarrow> rbind (digest (JDict prev)) (\<lambda>h. Inr (JStr h))) (\<lambda>ph.
              if dget p ''previous_receipt_hash'' \<noteq> ph then Inr None
              else Inr (Some (Some envelope, cid # snd st))))
          | _ \<Rightarrow> Inr None)
      | _ \<Rightarrow> Inr None))))"

definition receipt_step ::
  "verifier \<Rightarrow> string list option \<Rightarrow> string list option \<Rightarrow> chain_state \<Rightarrow> dict \<Rightarrow> chain_state option res" where
  "receipt_step V trusted expected st envelope =
     (case verify_envelope V envelope of
        Inl e \<Rightarrow> if is_TypeError e \<or> is_ValueError e then Inr None else Inl e
      | Inr p \<Rightarrow> receipt_checks trusted expected st envelope p)"

fun chain_run ::
  "verifier \<Rightarrow> string list option \<Rightarrow> string list option \<Rightarrow> chain_state \<Rightarrow> dict list \<Rightarrow> chain_state option res" where
  "chain_run V trusted expected st [] = Inr (Some st)"
| "chain_run V trusted expected st (e # es) =
     rbind (receipt_step V trusted expected st e) (\<lambda>r.
       case r of None \<Rightarrow> Inr None | Some st' \<Rightarrow> chain_run V trusted expected st' es)"

definition verify_receipt_chain ::
  "verifier \<Rightarrow> dict list \<Rightarrow> string list option \<Rightarrow> string list option \<Rightarrow> bool res" where
  "verify_receipt_chain V entries trusted expected =
     rbind (chain_run V trusted expected (None, []) entries) (\<lambda>r. Inr (r \<noteq> None))"

section \<open>Facts about a verified chain\<close>

lemma chain_run_snoc:
  "chain_run V tr ex st (es @ [e]) =
     rbind (chain_run V tr ex st es) (\<lambda>r. case r of None \<Rightarrow> Inr None | Some st' \<Rightarrow> receipt_step V tr ex st' e)"
proof (induction es arbitrary: st)
  case Nil
  show ?case by (cases "receipt_step V tr ex st e") (auto split: option.splits)
next
  case (Cons a es)
  then show ?case by (cases "receipt_step V tr ex st a") (auto split: option.splits)
qed

lemma verify_chain_iff:
  "verify_receipt_chain V es tr ex = Inr True \<longleftrightarrow> (\<exists>st. chain_run V tr ex (None, []) es = Inr (Some st))"
  by (auto simp: verify_receipt_chain_def res_simps)

text \<open>Everything a round establishes.\<close>

lemma receipt_stepD:
  assumes "receipt_step V tr ex st e = Inr (Some st')"
  obtains p cid rid ph where "verify_envelope V e = Inr p" "dget p ''executor'' = dget e ''kid''"
    "tr = None \<or> (\<exists>ts s. tr = Some ts \<and> dget p ''executor'' = JStr s \<and> s \<in> set ts)"
    "dget p ''capability_id'' = JStr cid" "cid \<notin> set (snd st)" "st' = (Some e, cid # snd st)"
    "dget p ''receipt_id'' = JStr rid"
    "content_id ''kinegrant:receipt'' (JDict (dwithout [''receipt_id''] p)) = Inr rid"
    "(case fst st of None \<Rightarrow> Inr JNull | Some prev \<Rightarrow> rbind (digest (JDict prev)) (\<lambda>h. Inr (JStr h))) = Inr ph"
    "dget p ''previous_receipt_hash'' = ph"
proof -
  from assms obtain p where p: "verify_envelope V e = Inr p"
    and c: "receipt_checks tr ex st e p = Inr (Some st')"
    by (auto simp: receipt_step_def split: sum.splits if_splits)
  obtain s where s: "dget e ''kid'' = JStr s" using verify_envelope_kid [OF p] by blast
  from c obtain cid rid rid' ph t where *: "py_eq (dget p ''executor'') (dget e ''kid'')"
    "(case tr of None \<Rightarrow> Inr True | Some ts \<Rightarrow> in_str_set (dget p ''executor'') ts) = Inr t" "t"
    "dget p ''capability_id'' = JStr cid" "cid \<notin> set (snd st)" "dget p ''receipt_id'' = JStr rid"
    "content_id ''kinegrant:receipt'' (JDict (dwithout [''receipt_id''] p)) = Inr rid'" "rid = rid'"
    "(case fst st of None \<Rightarrow> Inr JNull | Some prev \<Rightarrow> rbind (digest (JDict prev)) (\<lambda>h. Inr (JStr h))) = Inr ph"
    "dget p ''previous_receipt_hash'' = ph" "Inr (Some (Some e, cid # snd st)) = (Inr (Some st') :: exn + _)"
    unfolding receipt_checks_def
    apply -
    apply (elim res_elims)
    apply (simp only: not_not)
    apply blast
    done
  have ex: "dget p ''executor'' = dget e ''kid''" using *(1) s by simp
  have tr: "tr = None \<or> (\<exists>ts s. tr = Some ts \<and> dget p ''executor'' = JStr s \<and> s \<in> set ts)"
    using *(2,3) s ex by (cases tr) auto
  show thesis
    by (rule that [OF p ex tr *(4,5) _ *(6) _ *(9,10)]) (use *(7,8,11) in auto)
qed

lemma verify_payload: "verify_envelope V e = Inr p \<Longrightarrow> dget e ''payload'' = JDict p"
  by (elim verify_envelopeD)

lemma chain_run_state:
  "chain_run V tr ex (None, []) es = Inr (Some st) \<Longrightarrow>
     fst st = (if es = [] then None else Some (last es))
     \<and> (\<forall>c. c \<in> set (snd st) \<longleftrightarrow> (\<exists>e\<in>set es. \<exists>p. verify_envelope V e = Inr p \<and> dget p ''capability_id'' = JStr c))
     \<and> length (snd st) = length es \<and> distinct (snd st)"
proof (induction es arbitrary: st rule: rev_induct)
  case (snoc e es)
  from snoc.prems obtain st1 where 1: "chain_run V tr ex (None, []) es = Inr (Some st1)"
    and 2: "receipt_step V tr ex st1 e = Inr (Some st)"
    by (auto simp: chain_run_snoc res_simps split: option.splits)
  from 2 obtain p cid where p: "verify_envelope V e = Inr p" "dget p ''capability_id'' = JStr cid"
    "cid \<notin> set (snd st1)" "st = (Some e, cid # snd st1)"
    by (rule receipt_stepD)
  with snoc.IH [OF 1] show ?case by auto
qed auto

text \<open>No capability has two receipts in a chain that verifies.\<close>

lemma chain_distinct:
  assumes "verify_receipt_chain V es tr ex = Inr True" "i < length es" "j < length es" "i \<noteq> j"
    and "verify_envelope V (es ! i) = Inr p" "verify_envelope V (es ! j) = Inr q"
  shows "dget p ''capability_id'' \<noteq> dget q ''capability_id''"
proof -
  have "dget p ''capability_id'' \<noteq> dget q ''capability_id''"
    if "chain_run V tr ex (None, []) es = Inr (Some st)" "i < length es" "j < i"
      "verify_envelope V (es ! i) = Inr p" "verify_envelope V (es ! j) = Inr q" for st i j p q
    using that
  proof (induction es arbitrary: st rule: rev_induct)
    case (snoc e es)
    from snoc.prems(1) obtain st1 where 1: "chain_run V tr ex (None, []) es = Inr (Some st1)"
      and 2: "receipt_step V tr ex st1 e = Inr (Some st)"
      by (auto simp: chain_run_snoc res_simps split: option.splits)
    from 2 obtain p' cid where p: "verify_envelope V e = Inr p'" "dget p' ''capability_id'' = JStr cid"
      "cid \<notin> set (snd st1)"
      by (rule receipt_stepD)
    show ?case
    proof (cases "i = length es")
      case True
      with snoc.prems p have "p = p'" "es ! j \<in> set es" "verify_envelope V (es ! j) = Inr q"
        by (auto simp: nth_append)
      with p chain_run_state [OF 1] show ?thesis by auto
    next
      case False
      with snoc.prems have "i < length es" "verify_envelope V (es ! i) = Inr p" "verify_envelope V (es ! j) = Inr q"
        by (auto simp: nth_append)
      with snoc.IH [OF 1] snoc.prems(3) show ?thesis by blast
    qed
  qed simp
  with assms show ?thesis by (metis linorder_neqE_nat verify_chain_iff)
qed

definition receipt_ids :: "verifier \<Rightarrow> dict list \<Rightarrow> json list" where
  "receipt_ids V es = map (\<lambda>e. case verify_envelope V e of Inl _ \<Rightarrow> JNull | Inr p \<Rightarrow> dget p ''capability_id'') es"

lemma chain_all_verify:
  "chain_run V tr ex st es = Inr (Some st') \<Longrightarrow> e \<in> set es \<Longrightarrow> \<exists>p. verify_envelope V e = Inr p"
proof (induction es arbitrary: st)
  case (Cons a es)
  from Cons.prems(1) obtain st1 where "receipt_step V tr ex st a = Inr (Some st1)" "chain_run V tr ex st1 es = Inr (Some st')"
    by (auto simp: res_simps split: option.splits)
  with Cons show ?case by (auto elim: receipt_stepD)
qed simp

lemma chain_ids_distinct:
  assumes "verify_receipt_chain V es tr ex = Inr True"
  shows "distinct (receipt_ids V es)"
  unfolding distinct_conv_nth
proof (intro allI impI)
  fix i j
  assume "i < length (receipt_ids V es)" "j < length (receipt_ids V es)" "i \<noteq> j"
  then have ij: "i < length es" "j < length es" "i \<noteq> j" by (simp_all add: receipt_ids_def)
  from assms obtain st where r: "chain_run V tr ex (None, []) es = Inr (Some st)" by (auto simp: verify_chain_iff)
  from chain_all_verify [OF r nth_mem] ij obtain p q where "verify_envelope V (es ! i) = Inr p" "verify_envelope V (es ! j) = Inr q"
    by metis
  with chain_distinct [OF assms ij this] ij show "receipt_ids V es ! i \<noteq> receipt_ids V es ! j"
    by (simp add: receipt_ids_def)
qed

section \<open>Appending keeps a chain verifiable\<close>

lemma snoc_other:
  "k \<noteq> k' \<Longrightarrow> dget (d @ [(k', v)]) k = dget d k" "k \<noteq> k' \<Longrightarrow> dhas (d @ [(k', v)]) k = dhas d k"
  by (auto simp: dget_def dhas_def map_add_def split: option.splits)

lemma receipt_appendE:
  assumes "receipt_append l vc a = Inr (l', env)"
  obtains cid act previous rd agent target s_text f_text rid body where
    "dindex (vc_claims vc) ''capability_id'' = Inr cid" "rany (entry_for cid) (rl_log l) = Inr False"
    "validate_obligation_results (ra_obligations a) = Inr ()"
    "ra_failure a = JNull \<or> nonblank_str (ra_failure a)"
    "receipt_window (vc_claims vc) (ra_started a) (ra_finished a) = Inr ()"
    "previous_hash (rl_log l) = Inr previous"
    "body = receipt_body (rl_key l) (vc_claims vc) a cid rd agent target
       (JStr (if ra_obligations a \<noteq> JNull \<or> ra_failure a \<noteq> JNull then ''1.0'' else ''0.1'')) act s_text f_text previous"
    "content_id ''kinegrant:receipt'' (JDict body) = Inr rid"
    "sign_envelope (rl_key l) (dset body ''receipt_id'' (JStr rid)) = Inr env"
    "l' = l\<lparr>rl_log := rl_log l @ [env]\<rparr>" "ra_result a \<in> {''succeeded'', ''failed'', ''aborted''}"
proof -
  from assms show thesis
    unfolding receipt_append_def Let_def
    apply -
    apply (elim res_elims)
    apply (simp only: not_not sum.inject prod.inject)
    apply (elim conjE)
    apply (rule that, (assumption | rule refl | (simp; fail))+)
    done
qed

lemma receipt_body_members:
  fixes k claims a cid rd agent target v act s_text f_text previous
  defines "b \<equiv> receipt_body k claims a cid rd agent target v act s_text f_text previous"
  shows "dget b ''type'' = JStr ''kinegrant:PhysicalActionReceipt''" "dget b ''version'' = v"
    "dget b ''executor'' = JStr (kid k)" "dget b ''capability_id'' = cid"
    "dget b ''previous_receipt_hash'' = previous" "\<not> dhas b ''receipt_id''"
    "dhas b ''obligation_results'' \<longleftrightarrow> ra_obligations a \<noteq> JNull"
    "dhas b ''failure_reason'' \<longleftrightarrow> ra_failure a \<noteq> JNull"
    "ra_obligations a \<noteq> JNull \<Longrightarrow> dget b ''obligation_results'' = ra_obligations a"
    "ra_failure a \<noteq> JNull \<Longrightarrow> dget b ''failure_reason'' = ra_failure a"
  by (simp_all add: b_def receipt_body_def optional_members_def)

lemma receipt_append_step:
  assumes app: "receipt_append l vc a = Inr (l', env)" and key: "good_key V (rl_key l)"
    and run: "chain_run V tr ex (None, []) (rl_log l) = Inr (Some st)"
    and tr: "\<And>ts. tr = Some ts \<Longrightarrow> kid (rl_key l) \<in> set ts"
    and cid: "dget (vc_claims vc) ''capability_id'' = JStr c" and ex: "\<And>ids. ex = Some ids \<Longrightarrow> c \<in> set ids"
  shows "receipt_step V tr ex st env = Inr (Some (Some env, c # snd st))"
  using app
proof (cases rule: receipt_appendE)
  case (1 cid' act previous rd agent target s_text f_text rid body)
  note m = receipt_body_members [where k = "rl_key l" and claims = "vc_claims vc" and a = a and cid = cid'
      and rd = rd and agent = agent and target = target and act = act and s_text = s_text and f_text = f_text
      and previous = previous
      and v = "JStr (if ra_obligations a \<noteq> JNull \<or> ra_failure a \<noteq> JNull then ''1.0'' else ''0.1'')",
      folded 1(7)]
  let ?p = "body @ [(''receipt_id'', JStr rid)]"
  have c: "cid' = JStr c" using cid 1(1) by (simp add: dget_dindex)
  have nd: "\<not> dhas body ''receipt_id''" using m(6) 1(7) by simp
  have p: "dset body ''receipt_id'' (JStr rid) = ?p" using nd by (rule dset_new)
  have sv: "verify_envelope V env = Inr ?p" "dget env ''kid'' = JStr (kid (rl_key l))"
    using sign_verify [OF key 1(9) [unfolded p]] by auto
  have w: "dwithout [''receipt_id''] ?p = body" using nd by (simp add: dwithout_absent)
  have new: "c \<notin> set (snd st)"
  proof
    assume "c \<in> set (snd st)"
    then obtain e q where e: "e \<in> set (rl_log l)" "verify_envelope V e = Inr q" "dget q ''capability_id'' = JStr c"
      using chain_run_state [OF run] by blast
    from 1(2) e(1) have "entry_for cid' e = Inr False" by (auto simp: rany_False)
    moreover have "dindex e ''payload'' = Inr (JDict q)"
      using verify_payload [OF e(2)] by (auto simp: dget_def dindex_def split: option.splits)
    ultimately show False using e(3) c by (simp add: entry_for_def)
  qed
  have prev: "(case fst st of None \<Rightarrow> Inr JNull | Some prev \<Rightarrow> rbind (digest (JDict prev)) (\<lambda>h. Inr (JStr h))) = Inr previous"
    using 1(6) chain_run_state [OF run] by (auto simp: previous_hash_def)
  have v10: "(if dget ?p ''version'' = JStr ''1.0'' then validate_v10_receipt ?p else Inr True) = Inr True"
    using m(2,7-10) 1(3,4) by (auto simp: validate_v10_receipt_def snoc_other simp del: dget_append dhas_append)
  have known: "in_str_set (dget ?p ''version'') RECEIPT_VERSIONS = Inr True"
    using m(2) by (simp add: RECEIPT_VERSIONS_def snoc_other del: dget_append)
  have mem: "dget ?p ''type'' = JStr ''kinegrant:PhysicalActionReceipt''" "dget ?p ''executor'' = JStr (kid (rl_key l))"
    "dget ?p ''capability_id'' = JStr c" "dget ?p ''previous_receipt_hash'' = previous" "dget ?p ''receipt_id'' = JStr rid"
    using m(1,3-6) c nd by (simp_all add: snoc_other del: dget_append) (simp add: nd)
  have trusted: "(case tr of None \<Rightarrow> Inr True | Some ts \<Rightarrow> in_str_set (JStr (kid (rl_key l))) ts) = Inr True"
    using tr by (simp split: option.splits)
  have expected: "\<not> (case ex of None \<Rightarrow> False | Some ids \<Rightarrow> c \<notin> set ids)"
    using ex by (simp split: option.splits)
  show ?thesis
    unfolding receipt_step_def sv(1) sum.case receipt_checks_def known rbind_Inr v10 w 1(8) mem sv(2) trusted prev
    using new expected by simp
qed

lemma receipt_append_verifies:
  assumes "receipt_append l vc a = Inr (l', env)" "good_key V (rl_key l)"
    "verify_receipt_chain V (rl_log l) tr ex = Inr True"
    "\<And>ts. tr = Some ts \<Longrightarrow> kid (rl_key l) \<in> set ts"
    "dget (vc_claims vc) ''capability_id'' = JStr c" "\<And>ids. ex = Some ids \<Longrightarrow> c \<in> set ids"
  shows "verify_receipt_chain V (rl_log l') tr ex = Inr True"
proof -
  from assms(3) obtain st where run: "chain_run V tr ex (None, []) (rl_log l) = Inr (Some st)"
    by (auto simp: verify_chain_iff)
  have "rl_log l' = rl_log l @ [env]" using assms(1) by (rule receipt_appendE) simp
  with receipt_append_step [OF assms(1,2) run assms(4,5,6)] run show ?thesis
    by (auto simp: verify_chain_iff chain_run_snoc)
qed

section \<open>A chain is determined by its last envelope\<close>

lemma jequiv_dget_null:
  assumes "jequiv (JDict d) (JDict e)" "dget d k = JNull"
  shows "dget e k = JNull"
  using jequiv_JDict_map_of [OF assms(1), of k] assms(2)
  by (auto simp: dget_def split: option.splits elim!: jequiv.cases) (auto simp: number_text_def)

lemma jequiv_dget_dict:
  assumes "jequiv (JDict d) (JDict e)" "dget d k = JDict p" "dget e k = JDict q"
  shows "jequiv (JDict p) (JDict q)"
  using jequiv_JDict_map_of [OF assms(1), of k] assms(2,3)
  by (auto simp: dget_def split: option.splits)

lemma chain_last_step:
  assumes "chain_run V tr ex (None, []) (es @ [e]) = Inr (Some st)"
  obtains st1 p where "chain_run V tr ex (None, []) es = Inr (Some st1)" "verify_envelope V e = Inr p"
    "if es = [] then dget p ''previous_receipt_hash'' = JNull
     else \<exists>h. digest (JDict (last es)) = Inr h \<and> dget p ''previous_receipt_hash'' = JStr h"
proof -
  from assms obtain st1 where 1: "chain_run V tr ex (None, []) es = Inr (Some st1)"
    and 2: "receipt_step V tr ex st1 e = Inr (Some st)"
    by (auto simp: chain_run_snoc res_simps split: option.splits)
  from 2 obtain p ph where "verify_envelope V e = Inr p"
    "(case fst st1 of None \<Rightarrow> Inr JNull | Some prev \<Rightarrow> rbind (digest (JDict prev)) (\<lambda>h. Inr (JStr h))) = Inr ph"
    "dget p ''previous_receipt_hash'' = ph"
    by (rule receipt_stepD)
  with chain_run_state [OF 1] show thesis by (intro that [OF 1]) (auto simp: res_simps)
qed

lemma chain_tamper_evident:
  assumes "chain_run V tr ex (None, []) es = Inr (Some st)" "chain_run W tr' ex' (None, []) fs = Inr (Some st')"
    and "es \<noteq> []" "fs \<noteq> []" "jequiv (JDict (last es)) (JDict (last fs))"
  shows "list_all2 (\<lambda>a b. jequiv (JDict a) (JDict b)) es fs \<or> (\<exists>e\<in>set es. \<exists>f\<in>set fs. collide (JDict e) (JDict f))"
  using assms
proof (induction es arbitrary: fs st st' rule: rev_induct)
  case (snoc e es)
  obtain gs f where fs: "fs = gs @ [f]" using snoc.prems(4) by (cases fs rule: rev_cases) auto
  have ef: "jequiv (JDict e) (JDict f)" using snoc.prems(5) fs by simp
  obtain st1 p where e: "chain_run V tr ex (None, []) es = Inr (Some st1)" "verify_envelope V e = Inr p"
    "if es = [] then dget p ''previous_receipt_hash'' = JNull
     else \<exists>h. digest (JDict (last es)) = Inr h \<and> dget p ''previous_receipt_hash'' = JStr h"
    using snoc.prems(1) by (rule chain_last_step)
  obtain st2 q where f: "chain_run W tr' ex' (None, []) gs = Inr (Some st2)" "verify_envelope W f = Inr q"
    "if gs = [] then dget q ''previous_receipt_hash'' = JNull
     else \<exists>h. digest (JDict (last gs)) = Inr h \<and> dget q ''previous_receipt_hash'' = JStr h"
    using snoc.prems(2) [unfolded fs] by (rule chain_last_step)
  have pq: "jequiv (JDict p) (JDict q)"
    by (rule jequiv_dget_dict [OF ef verify_payload [OF e(2)] verify_payload [OF f(2)]])
  show ?case
  proof (cases "es = []")
    case True
    then have "dget q ''previous_receipt_hash'' = JNull" using e(3) jequiv_dget_null [OF pq] by simp
    then have "gs = []" using f(3) by (auto split: if_splits)
    with True ef fs show ?thesis by simp
  next
    case False
    with e(3) obtain h where h: "digest (JDict (last es)) = Inr h" "dget p ''previous_receipt_hash'' = JStr h"
      by auto
    from jequiv_dget_str [OF pq h(2)] f(3) have g: "gs \<noteq> []" "digest (JDict (last gs)) = Inr h"
      by (auto split: if_splits)
    from h(1) g(2) show ?thesis
    proof (rule digest_inject)
      assume "jequiv (JDict (last es)) (JDict (last gs))"
      from snoc.IH [OF e(1) f(1) False g(1) this] show ?thesis
        using ef fs by (auto intro: list_all2_appendI)
    next
      assume "collide (JDict (last es)) (JDict (last gs))"
      moreover have "last es \<in> set (es @ [e])" "last gs \<in> set fs" using False g(1) fs by simp_all
      ultimately show ?thesis by blast
    qed
  qed
qed simp

end
