(* ===== verification/Compliance.thy ===== *)
theory Compliance
  imports Receipt
begin

text \<open>
  \<open>compliance.py\<close>: the fail-closed check, after execution, that every obligation of a
  capability was fulfilled. The obligation of a result is the value itself; the code stores its
  \<open>str()\<close>, which is the same for strings.
\<close>

record obligation_result =
  or_obligation :: json
  or_status :: string
  or_failure :: json

definition obligation_result_to_dict :: "obligation_result \<Rightarrow> dict" where
  "obligation_result_to_dict r =
     [(''obligation'', or_obligation r), (''status'', JStr (or_status r)), (''failure_reason'', or_failure r)]"

record compliance_verdict =
  cv_compliant :: bool
  cv_results :: "obligation_result list"
  cv_reason :: json

definition compliance_verdict_to_dict :: "compliance_verdict \<Rightarrow> dict" where
  "compliance_verdict_to_dict v =
     [(''compliant'', JBool (cv_compliant v)), (''reason'', cv_reason v),
      (''results'', JList (map (\<lambda>r. JDict (obligation_result_to_dict r)) (cv_results v)))]"

definition ob_satisfied :: "json \<Rightarrow> obligation_result" where
  "ob_satisfied ob = \<lparr>or_obligation = ob, or_status = ''satisfied'', or_failure = JNull\<rparr>"

definition ob_failed :: "json \<Rightarrow> json \<Rightarrow> obligation_result" where
  "ob_failed ob reason = \<lparr>or_obligation = ob, or_status = ''failed'', or_failure = reason\<rparr>"

text \<open>The payload of the first receipt of the capability; envelopes that do not verify are skipped.\<close>

fun find_receipt :: "verifier \<Rightarrow> json \<Rightarrow> dict list \<Rightarrow> dict option res" where
  "find_receipt V cid [] = Inr None"
| "find_receipt V cid (e # es) =
     (case verify_envelope V e of
        Inl x \<Rightarrow> if is_TypeError x \<or> is_ValueError x then find_receipt V cid es else Inl x
      | Inr p \<Rightarrow> if py_eq (dget p ''capability_id'') cid then Inr (Some p) else find_receipt V cid es)"

text \<open>The first result entry for an obligation.\<close>

definition result_for :: "json \<Rightarrow> string \<Rightarrow> dict option" where
  "result_for results ob = (case results of
      JList items \<Rightarrow> map_option the_dict
        (List.find (\<lambda>v. is_dict v \<and> dget (the_dict v) ''obligation'' = JStr ob) items)
    | _ \<Rightarrow> None)"

definition commitment_message :: "string \<Rightarrow> string" where
  "commitment_message ob =
     (if ob = ''logAuditEvent'' then ''audit-log commitment missing from receipt''
      else ''evidence-preservation commitment missing from receipt'')"

definition or_default :: "json \<Rightarrow> string \<Rightarrow> json" where
  "or_default v s = (if truthy v then v else JStr s)"

definition check_obligation :: "dict option \<Rightarrow> json \<Rightarrow> obligation_result" where
  "check_obligation receipt obligation =
     (case obligation of
        JStr ob \<Rightarrow>
          if ob \<notin> set KNOWN_OBLIGATIONS then ob_failed obligation (JStr ''unknown obligation'')
          else (case receipt of
            None \<Rightarrow> ob_failed obligation (JStr ''missing receipt for capability'')
          | Some r \<Rightarrow>
              let results = dget r ''obligation_results'' in
              if ob = ''emitActionReceipt'' \<and> results = JNull then ob_satisfied obligation
              else if ob \<in> {''logAuditEvent'', ''preserveEvidence''} \<and> results = JNull
                then ob_failed obligation (JStr (commitment_message ob))
              else (case result_for results ob of
                None \<Rightarrow> ob_failed obligation (JStr ''obligation result missing from receipt'')
              | Some m \<Rightarrow>
                  if dget m ''status'' = JStr ''satisfied'' then ob_satisfied obligation
                  else if dget m ''status'' = JStr ''pending''
                    then ob_failed obligation (or_default (dget m ''failure_reason'') ''obligation pending'')
                  else ob_failed obligation (or_default (dget m ''failure_reason'') ''obligation failed'')))
      | _ \<Rightarrow> ob_failed obligation (JStr ''unknown obligation''))"

definition compliance_evaluate ::
  "verifier \<Rightarrow> dict \<Rightarrow> dict list \<Rightarrow> string list option \<Rightarrow> compliance_verdict res" where
  "compliance_evaluate V capability receipts trusted =
     (case trusted of
        None \<Rightarrow> Inl (ValueError ''trusted_executors is required for obligation compliance'')
      | Some ts \<Rightarrow>
        if ts = [] then Inl (ValueError ''trusted_executors must not be empty'')
        else case verify_envelope V capability of
          Inl e \<Rightarrow> if is_TypeError e \<or> is_ValueError e
            then Inr \<lparr>cv_compliant = False, cv_results = [],
                     cv_reason = JStr (''invalid capability envelope: '' @ exn_msg e)\<rparr>
            else Inl e
        | Inr p \<Rightarrow>
          (case dget p ''obligations'' of
             JList obs \<Rightarrow>
               if obs = [] then Inr \<lparr>cv_compliant = True, cv_results = [], cv_reason = JNull\<rparr>
               else rbind (verify_receipt_chain V receipts trusted None) (\<lambda>valid.
               if \<not> valid
                 then Inr \<lparr>cv_compliant = False,
                          cv_results = map (\<lambda>ob. ob_failed ob (JStr ''receipt chain is invalid'')) obs,
                          cv_reason = JStr ''receipt chain is invalid''\<rparr>
               else rbind (find_receipt V (dget p ''capability_id'') receipts) (\<lambda>receipt.
               let results = map (check_obligation receipt) obs;
                   bad = filter (\<lambda>r. or_status r \<noteq> ''satisfied'') results
               in Inr \<lparr>cv_compliant = (bad = []), cv_results = results,
                      cv_reason = (if bad = [] then JNull else or_failure (hd bad))\<rparr>))
           | _ \<Rightarrow> Inr \<lparr>cv_compliant = True, cv_results = [], cv_reason = JNull\<rparr>))"

section \<open>Fail closed\<close>

text \<open>When an obligation counts as fulfilled by a receipt.\<close>

definition fulfilled :: "dict \<Rightarrow> json \<Rightarrow> bool" where
  "fulfilled r ob \<longleftrightarrow> (\<exists>s. ob = JStr s \<and> s \<in> set KNOWN_OBLIGATIONS \<and>
     (s = ''emitActionReceipt'' \<and> dget r ''obligation_results'' = JNull
      \<or> (\<exists>m. result_for (dget r ''obligation_results'') s = Some m \<and> dget m ''status'' = JStr ''satisfied'')))"

lemma check_obligation_satisfied:
  "or_status (check_obligation receipt ob) = ''satisfied'' \<longleftrightarrow> (\<exists>r. receipt = Some r \<and> fulfilled r ob)"
proof (cases ob)
  case (JStr s)
  show ?thesis
  proof (cases "s \<in> set KNOWN_OBLIGATIONS \<and> receipt \<noteq> None")
    case True
    then obtain r where "receipt = Some r" "s \<in> {''emitActionReceipt'', ''logAuditEvent'', ''preserveEvidence''}"
      by (auto simp: KNOWN_OBLIGATIONS_def)
    then show ?thesis
      using True JStr
      by (auto simp: check_obligation_def fulfilled_def ob_failed_def ob_satisfied_def Let_def result_for_def
          split: option.splits if_splits)
  next
    case False
    then show ?thesis using JStr by (auto simp: check_obligation_def fulfilled_def ob_failed_def)
  qed
qed (auto simp: check_obligation_def fulfilled_def ob_failed_def)

lemma find_receipt_Some:
  "find_receipt V cid es = Inr (Some p) \<Longrightarrow>
     \<exists>e\<in>set es. verify_envelope V e = Inr p \<and> py_eq (dget p ''capability_id'') cid"
  by (induction es) (auto split: sum.splits if_splits)

text \<open>
  What a compliant verdict about a capability with obligations rests on: a chain that verifies
  against the trusted executors and holds a receipt of the capability that fulfils each of them.
\<close>

lemma compliant_fulfilled:
  assumes ev: "compliance_evaluate V cap receipts trusted = Inr v" and c: "cv_compliant v"
    and p: "verify_envelope V cap = Inr p" and obs: "dget p ''obligations'' = JList obs" "obs \<noteq> []"
  obtains r e where "verify_receipt_chain V receipts trusted None = Inr True" "e \<in> set receipts"
    "verify_envelope V e = Inr r" "py_eq (dget r ''capability_id'') (dget p ''capability_id'')"
    "\<forall>ob\<in>set obs. fulfilled r ob"
proof -
  from ev p obs obtain valid where v: "verify_receipt_chain V receipts trusted None = Inr valid"
    by (auto simp: compliance_evaluate_def res_simps split: option.splits if_splits)
  have valid: "valid"
    using ev c p obs v by (auto simp: compliance_evaluate_def split: option.splits if_splits)
  with ev c p obs v obtain receipt where f: "find_receipt V (dget p ''capability_id'') receipts = Inr receipt"
    and bad: "\<forall>ob\<in>set obs. or_status (check_obligation receipt ob) = ''satisfied''"
    by (auto simp: compliance_evaluate_def res_simps Let_def filter_empty_conv split: option.splits if_splits)
  from obs(2) obtain ob where "ob \<in> set obs" by (cases obs) auto
  with bad obtain r where r: "receipt = Some r" by (auto simp: check_obligation_satisfied)
  from find_receipt_Some [OF f [unfolded r]] bad v valid show thesis
    by (auto simp: check_obligation_satisfied r intro: that)
qed

lemma compliance_needs_trust: "trusted = None \<or> trusted = Some [] \<Longrightarrow> \<exists>e. compliance_evaluate V cap rs trusted = Inl e"
  by (auto simp: compliance_evaluate_def)

end
