(* ===== verification/Sequence.thy ===== *)
theory Sequence
  imports Models Fnmatch
begin

text \<open>
  \<open>sequence.py\<close>: the journal of executed actions and the fail-closed evaluator of
  forbidden combinations. The journal is the list of its entries, oldest first.
\<close>

section \<open>Journal\<close>

record journal_entry =
  je_action :: string
  je_target :: string
  je_at :: datetime

type_synonym journal = "journal_entry list"

definition journal_entry_init :: "json \<Rightarrow> json \<Rightarrow> datetime \<Rightarrow> journal_entry res" where
  "journal_entry_init action target at_time =
     (if \<not> nonblank_str action then Inl (nonblank_exn ''action'')
      else if \<not> nonblank_str target then Inl (nonblank_exn ''target'')
      else if naive at_time then Inl (ValueError ''journal timestamps must include a timezone'')
      else Inr \<lparr>je_action = the_str action, je_target = the_str target, je_at = at_time\<rparr>)"

definition journal_record :: "journal \<Rightarrow> json \<Rightarrow> json \<Rightarrow> datetime \<Rightarrow> (journal \<times> journal_entry) res" where
  "journal_record j action target at_time =
     rbind (journal_entry_init action target at_time) (\<lambda>e. Inr (j @ [e], e))"

text \<open>The window of a combination: \<open>None\<close> or a positive integer.\<close>

definition window_ok :: "json \<Rightarrow> bool" where
  "window_ok v \<longleftrightarrow> v = JNull \<or> (is_int_nb v \<and> 1 \<le> the_int v)"

definition entry_in_window :: "datetime option \<Rightarrow> journal_entry \<Rightarrow> bool res" where
  "entry_in_window cutoff e = (case cutoff of
      None \<Rightarrow> Inr True
    | Some c \<Rightarrow> rbind (dt_less (je_at e) c) (\<lambda>old. Inr (\<not> old)))"

text \<open>\<open>ActionJournal.matches\<close>\<close>

definition journal_matches :: "journal \<Rightarrow> string \<Rightarrow> string \<Rightarrow> datetime \<Rightarrow> json \<Rightarrow> bool res" where
  "journal_matches j action_pattern target_pattern now window =
     rbind (if window = JNull then Inr None
            else if \<not> window_ok window then Inl (ValueError ''window_seconds must be a positive integer'')
            else rbind (dt_add now (- seconds (the_int window))) (\<lambda>c. Inr (Some c))) (\<lambda>cutoff.
     rany (\<lambda>e. rbind (entry_in_window cutoff e) (\<lambda>w.
         Inr (w \<and> fnmatchcase (je_action e) action_pattern \<and> fnmatchcase (je_target e) target_pattern))) j)"

section \<open>Forbidden combinations\<close>

record forbidden_combination =
  fc_id :: string
  fc_patterns :: "(string \<times> string) list"
  fc_window :: json
  fc_trigger :: "(string \<times> string) option"

definition pattern_pair_ok :: "json \<times> json \<Rightarrow> bool" where
  "pattern_pair_ok p \<longleftrightarrow> nonblank_str (fst p) \<and> nonblank_str (snd p)"

definition combination_init ::
  "json \<Rightarrow> (json \<times> json) list \<Rightarrow> json \<Rightarrow> (json \<times> json) option \<Rightarrow> forbidden_combination res" where
  "combination_init cid patterns window trigger =
     (if \<not> nonblank_str cid then Inl (nonblank_exn ''combination_id'')
      else if patterns = [] then Inl (ValueError ''patterns must be a non-empty tuple'')
      else rbind (rforeach (\<lambda>(a, t).
          if \<not> nonblank_str a then Inl (ValueError ''action patterns must be non-empty strings'')
          else if \<not> nonblank_str t then Inl (ValueError ''target patterns must be non-empty strings'')
          else Inr ()) patterns) (\<lambda>_.
        if \<not> window_ok window then Inl (ValueError ''window_seconds must be a positive integer or None'')
        else rbind (case trigger of None \<Rightarrow> Inr () | Some (a, t) \<Rightarrow>
            if \<not> nonblank_str a then Inl (ValueError ''trigger action pattern must be a non-empty string'')
            else if \<not> nonblank_str t then Inl (ValueError ''trigger target pattern must be a non-empty string'')
            else Inr ()) (\<lambda>_.
          Inr \<lparr>fc_id = the_str cid, fc_patterns = map (\<lambda>(a, t). (the_str a, the_str t)) patterns,
               fc_window = window, fc_trigger = map_option (\<lambda>(a, t). (the_str a, the_str t)) trigger\<rparr>)))"

definition is_complete :: "forbidden_combination \<Rightarrow> journal \<Rightarrow> datetime \<Rightarrow> bool res" where
  "is_complete c j now = rall (\<lambda>(a, t). journal_matches j a t now (fc_window c)) (fc_patterns c)"

definition combination_denies :: "forbidden_combination \<Rightarrow> action_request \<Rightarrow> bool" where
  "combination_denies c q = (case fc_trigger c of None \<Rightarrow> True
     | Some (a, t) \<Rightarrow> fnmatchcase (rq_action q) a \<and> fnmatchcase (rq_target q) t)"

section \<open>The sequence policy\<close>

type_synonym sequence_policy = "forbidden_combination list"

record sequence_verdict =
  sv_allowed :: bool
  sv_reason :: string
  sv_matched :: "string list"

definition verdict_to_dict :: "sequence_verdict \<Rightarrow> dict" where
  "verdict_to_dict v = [(''allowed'', JBool (sv_allowed v)), (''reason'', JStr (sv_reason v)),
     (''matched_combination_ids'', JStrs (sv_matched v))]"

definition sequence_policy_init :: "forbidden_combination list \<Rightarrow> sequence_policy res" where
  "sequence_policy_init cs =
     (if distinct (map fc_id cs) then Inr cs else Inl (ValueError ''combination_id values must be unique''))"

definition sequence_evaluate :: "sequence_policy \<Rightarrow> action_request \<Rightarrow> journal \<Rightarrow> datetime \<Rightarrow> sequence_verdict res" where
  "sequence_evaluate p q j now =
     (if naive now then Inl (ValueError ''evaluation time must include a timezone'')
      else
        rbind (rfilter (\<lambda>c. rbind (is_complete c j now) (\<lambda>b.
            Inr (b \<and> combination_denies c q))) p) (\<lambda>matched.
        Inr (if matched \<noteq> []
             then \<lparr>sv_allowed = False, sv_reason = ''forbidden_combination'', sv_matched = map fc_id matched\<rparr>
             else \<lparr>sv_allowed = True, sv_reason = ''sequence_allowed'', sv_matched = []\<rparr>)))"

section \<open>What the policy decides\<close>

definition journal_ok :: "journal \<Rightarrow> bool" where
  "journal_ok j \<longleftrightarrow> (\<forall>e\<in>set j. \<not> blank (je_action e) \<and> \<not> blank (je_target e) \<and> \<not> naive (je_at e))"

lemma journal_record_ok: "journal_ok j \<Longrightarrow> journal_record j a t at_time = Inr (j', e) \<Longrightarrow> journal_ok j'"
  by (auto simp: journal_ok_def journal_record_def journal_entry_init_def res_simps nonblank_str_iff
      split: if_splits)

text \<open>The specification: some entry inside the window matches both patterns.\<close>

definition observed :: "journal \<Rightarrow> json \<Rightarrow> datetime \<Rightarrow> string \<times> string \<Rightarrow> bool" where
  "observed j window now p \<longleftrightarrow> (\<exists>e\<in>set j.
     (window = JNull \<or> dt_us now - seconds (the_int window) \<le> dt_us (je_at e))
     \<and> fnmatchcase (je_action e) (fst p) \<and> fnmatchcase (je_target e) (snd p))"

lemma entry_in_window_aware:
  "\<not> naive (je_at e) \<Longrightarrow> \<not> naive c \<Longrightarrow> entry_in_window (Some c) e = Inr (dt_us c \<le> dt_us (je_at e))"
  by (auto simp: entry_in_window_def)

lemma journal_matches_observed:
  assumes ok: "journal_ok j" and now: "\<not> naive now" and m: "journal_matches j a t now w = Inr b"
  shows "b \<longleftrightarrow> observed j w now (a, t)"
proof (cases "w = JNull")
  case True
  with m show ?thesis by (auto simp: journal_matches_def entry_in_window_def observed_def list_ex_iff)
next
  case False
  with m obtain c where c: "dt_add now (- seconds (the_int w)) = Inr c" and
    r: "rany (\<lambda>e. rbind (entry_in_window (Some c) e) (\<lambda>w.
         Inr (w \<and> fnmatchcase (je_action e) a \<and> fnmatchcase (je_target e) t))) j = Inr b"
    by (auto simp: journal_matches_def res_simps split: if_splits)
  from c have cc: "dt_us c = dt_us now - seconds (the_int w)" "\<not> naive c" using now by (auto simp: res_simps)
  have "rany (\<lambda>e. rbind (entry_in_window (Some c) e) (\<lambda>w.
         Inr (w \<and> fnmatchcase (je_action e) a \<and> fnmatchcase (je_target e) t))) j
      = rany (\<lambda>e. Inr (dt_us c \<le> dt_us (je_at e) \<and> fnmatchcase (je_action e) a \<and> fnmatchcase (je_target e) t)) j"
    by (rule rany_cong) (use ok cc in \<open>auto simp: journal_ok_def entry_in_window_aware\<close>)
  with r False show ?thesis by (auto simp: observed_def list_ex_iff cc)
qed

lemma is_complete_observed:
  assumes "journal_ok j" "\<not> naive now" "is_complete c j now = Inr b"
  shows "b \<longleftrightarrow> (\<forall>p\<in>set (fc_patterns c). observed j (fc_window c) now p)"
proof (cases b)
  case True
  with assms show ?thesis by (auto simp: is_complete_def rall_True dest!: journal_matches_observed)
next
  case False
  with assms obtain p where "p \<in> set (fc_patterns c)" "(\<lambda>(a, t). journal_matches j a t now (fc_window c)) p = Inr False"
    unfolding is_complete_def by (auto dest!: rall_False)
  moreover obtain a t where "p = (a, t)" by (cases p)
  ultimately show ?thesis
    using False journal_matches_observed [OF assms(1,2), of a t "fc_window c" False] by auto
qed

text \<open>Fail closed: denied exactly when a complete combination is triggered.\<close>

lemma sequence_evaluate_spec:
  assumes "journal_ok j" "sequence_evaluate p q j now = Inr v"
  shows "sv_allowed v \<longleftrightarrow> \<not> (\<exists>c\<in>set p. combination_denies c q
           \<and> (\<forall>x\<in>set (fc_patterns c). observed j (fc_window c) now x))"
proof -
  from assms(2) obtain ms where n: "\<not> naive now" and
    ms: "rfilter (\<lambda>c. rbind (is_complete c j now) (\<lambda>b. Inr (b \<and> combination_denies c q))) p = Inr ms"
    and v: "sv_allowed v \<longleftrightarrow> ms = []"
    by (auto simp: sequence_evaluate_def res_simps split: if_splits)
  have "c \<in> set ms \<longleftrightarrow> c \<in> set p \<and> combination_denies c q
      \<and> (\<forall>x\<in>set (fc_patterns c). observed j (fc_window c) now x)" for c
  proof (cases "c \<in> set p")
    case True
    with rfilter_total [OF ms] obtain b where b: "is_complete c j now = Inr b"
      by (fastforce simp: res_simps)
    then show ?thesis using rfilter_set [OF ms, of c] is_complete_observed [OF assms(1) n b] True by auto
  next
    case False
    then show ?thesis using rfilter_set [OF ms, of c] by auto
  qed
  then show ?thesis using v by (cases ms) auto
qed

text \<open>A longer journal never allows more, when the combinations have no window.\<close>

lemma observed_mono: "observed j w now x \<Longrightarrow> observed (j @ k) w now x"
  by (auto simp: observed_def)

end
