(* ===== verification/Gatekeeper.thy ===== *)
theory Gatekeeper
  imports Compliance Sequence
begin

text \<open>
  \<open>gatekeeper.py\<close>: the whole action boundary in one call. The state is the replay store, the
  journal, the receipt log and, as an observation, the calls of the actuator in order. The
  actuator is an argument (what it raises, if it does); an environment holds the store's
  environment and the clock readings of the receipt. \<open>execute\<close> returns the state also when it
  raises.
\<close>

record gatekeeper_outcome =
  go_allowed :: bool
  go_stage :: string
  go_reason :: json
  go_capability_id :: json
  go_receipt_id :: json
  go_compliant :: json
  go_journal :: bool

definition outcome_to_dict :: "gatekeeper_outcome \<Rightarrow> dict" where
  "outcome_to_dict out = [(''allowed'', JBool (go_allowed out)), (''stage'', JStr (go_stage out)),
     (''reason'', go_reason out), (''capability_id'', go_capability_id out), (''receipt_id'', go_receipt_id out),
     (''obligation_compliant'', go_compliant out), (''journal_recorded'', JBool (go_journal out))]"

definition denied :: "string \<Rightarrow> string \<Rightarrow> json \<Rightarrow> gatekeeper_outcome" where
  "denied stage reason cid =
     \<lparr>go_allowed = False, go_stage = stage, go_reason = JStr reason, go_capability_id = cid,
      go_receipt_id = JNull, go_compliant = JNull, go_journal = False\<rparr>"

record 's gatekeeper_state =
  gs_store :: 's
  gs_journal :: journal
  gs_log :: receipt_log
  gs_actuated :: "verified_capability list"

record ('s, 'e) gatekeeper =
  gk_verifier :: verifier
  gk_consume :: "'s \<Rightarrow> 'e \<Rightarrow> string \<Rightarrow> datetime \<Rightarrow> 's \<times> bool res"
  gk_gate :: gate_config
  gk_sequence :: sequence_policy
  gk_trusted :: "string list"
  gk_revocations :: "revocation_list option"

text \<open>The constructor: without a trust set the log's own executor is trusted.\<close>

definition gatekeeper_trusted :: "string list \<Rightarrow> receipt_log \<Rightarrow> string list" where
  "gatekeeper_trusted trusted lg = (if trusted = [] then [kid (rl_key lg)] else trusted)"

record 'e execution =
  ex_env :: 'e
  ex_capability :: dict
  ex_request :: action_request
  ex_now :: datetime
  ex_parent :: "dict option"
  ex_actuator :: "verified_capability \<Rightarrow> exn option"
  ex_result :: string
  ex_evidence :: json
  ex_obligations :: json
  ex_failure :: json
  ex_started :: datetime
  ex_finished :: datetime

definition exn_text :: "exn \<Rightarrow> string" where
  "exn_text e = exn_name e @ '': '' @ exn_msg e"

text \<open>The separate revocation check: \<open>Inr (Some outcome)\<close> denies.\<close>

definition gatekeeper_revoked :: "('s, 'e) gatekeeper \<Rightarrow> dict \<Rightarrow> gatekeeper_outcome option res" where
  "gatekeeper_revoked k capability =
     (case gk_revocations k of
        None \<Rightarrow> Inr None
      | Some rl \<Rightarrow>
          (case verify_envelope (gk_verifier k) capability of
             Inl e \<Rightarrow> if is_TypeError e \<or> is_ValueError e
               then Inr (Some (denied ''revocation'' (''invalid capability envelope: '' @ exn_msg e) JNull))
               else Inl e
           | Inr p \<Rightarrow>
               rbind (is_revoked rl (dget p ''capability_id'')) (\<lambda>b1.
               rbind (if b1 then Inr True else is_revoked rl (dget p ''root_capability_id'')) (\<lambda>b.
               Inr (if b then Some (denied ''revocation'' ''capability revoked'' JNull) else None)))))"

text \<open>The receipt of the execution; a failed actuator gets a receipt without obligations.\<close>

definition execution_receipt :: "'e execution \<Rightarrow> bool \<Rightarrow> json \<Rightarrow> receipt_args" where
  "execution_receipt x ok failure =
     \<lparr>ra_result = (if ok then ex_result x else ''failed''), ra_evidence = ex_evidence x,
      ra_started = ex_started x, ra_finished = ex_finished x, ra_request = Some (ex_request x),
      ra_obligations = (if ok then ex_obligations x else JNull),
      ra_failure = (if ok then JNull else failure)\<rparr>"

text \<open>The part after the receipt has been appended: compliance, then the journal.\<close>

definition finish_execution ::
  "('s, 'e) gatekeeper \<Rightarrow> 's gatekeeper_state \<Rightarrow> 'e execution \<Rightarrow> verified_capability \<Rightarrow> bool \<Rightarrow> json \<Rightarrow> dict
    \<Rightarrow> 's gatekeeper_state \<times> gatekeeper_outcome res" where
  "finish_execution k st x vc ok failure receipt =
     (case compliance_evaluate (gk_verifier k) (ex_capability x) (rl_log (gs_log st)) (Some (gk_trusted k)) of
        Inl e \<Rightarrow> (st, Inl e)
      | Inr v \<Rightarrow>
          let compliant = (cv_compliant v \<and> ok);
              out = \<lparr>go_allowed = compliant,
                go_stage = (if \<not> ok then ''actuator'' else if \<not> cv_compliant v then ''obligation'' else ''complete''),
                go_reason = (if \<not> ok then failure
                             else if \<not> cv_compliant v then or_default (cv_reason v) ''obligation not satisfied''
                             else JNull),
                go_capability_id = dget (vc_claims vc) ''capability_id'',
                go_receipt_id = dget (the_dict (dget receipt ''payload'')) ''receipt_id'',
                go_compliant = JBool (cv_compliant v), go_journal = compliant\<rparr>
          in if compliant
             then (case journal_record (gs_journal st) (JStr (rq_action (ex_request x)))
                      (JStr (rq_target (ex_request x))) (ex_now x) of
                     Inl e \<Rightarrow> (st, Inl e)
                   | Inr (j, _) \<Rightarrow> (st\<lparr>gs_journal := j\<rparr>, Inr out))
             else (st, Inr out))"

text \<open>From the actuator on: the capability has been consumed.\<close>

definition run_actuator ::
  "('s, 'e) gatekeeper \<Rightarrow> 's gatekeeper_state \<Rightarrow> 'e execution \<Rightarrow> verified_capability
    \<Rightarrow> 's gatekeeper_state \<times> gatekeeper_outcome res" where
  "run_actuator k st x vc =
     (let raised = ex_actuator x vc; ok = (raised = None);
          failure = (case raised of None \<Rightarrow> ex_failure x
             | Some e \<Rightarrow> or_default (ex_failure x) (''actuator failure: '' @ exn_text e));
          st1 = st\<lparr>gs_actuated := gs_actuated st @ [vc]\<rparr>
      in case receipt_append (gs_log st1) vc (execution_receipt x ok failure) of
        Inl e \<Rightarrow> if is_TypeError e \<or> is_ValueError e
          then (st1, Inr (denied ''receipt'' (exn_text e) (dget (vc_claims vc) ''capability_id'')))
          else (st1, Inl e)
      | Inr (lg, receipt) \<Rightarrow> finish_execution k (st1\<lparr>gs_log := lg\<rparr>) x vc ok failure receipt)"

definition execute ::
  "('s, 'e) gatekeeper \<Rightarrow> 's gatekeeper_state \<Rightarrow> 'e execution \<Rightarrow> 's gatekeeper_state \<times> gatekeeper_outcome res" where
  "execute k st x =
     (case sequence_evaluate (gk_sequence k) (ex_request x) (gs_journal st) (ex_now x) of
        Inl e \<Rightarrow> (st, Inl e)
      | Inr sv \<Rightarrow>
        if \<not> sv_allowed sv
          then (st, Inr (denied ''sequence'' (''forbidden_combination:'' @ sv_reason sv) JNull))
        else case gatekeeper_revoked k (ex_capability x) of
          Inl e \<Rightarrow> (st, Inl e)
        | Inr (Some out) \<Rightarrow> (st, Inr out)
        | Inr None \<Rightarrow>
          (case authorize (gk_verifier k) (gk_consume k) (gk_gate k) (gs_store st) (ex_env x)
                  (ex_capability x) (ex_request x) (ex_now x) (ex_parent x) of
             (s', Inl e) \<Rightarrow> (st\<lparr>gs_store := s'\<rparr>,
               if is_PermissionError e \<or> is_ValueError e then Inr (denied ''gate'' (exn_text e) JNull) else Inl e)
           | (s', Inr vc) \<Rightarrow> run_actuator k (st\<lparr>gs_store := s'\<rparr>) x vc))"

end
