(* ===== verification/GatekeeperSafety.thy ===== *)
theory GatekeeperSafety
  imports Gatekeeper
begin

text \<open>
  What the whole action boundary guarantees: the cases of one call of \<open>execute\<close>, the step
  relation of a gatekeeper over a history of calls, and the invariants of every history.
\<close>

section \<open>One call\<close>

text \<open>The gate's configuration and the separate check agree on a revoked root.\<close>

lemma gatekeeper_revoked_None:
  assumes "gatekeeper_revoked k cap = Inr None" "gk_revocations k = Some rl"
  obtains p where "verify_envelope (gk_verifier k) cap = Inr p"
    "is_revoked rl (dget p ''capability_id'') = Inr False"
    "is_revoked rl (dget p ''root_capability_id'') = Inr False"
  using assms by (auto simp: gatekeeper_revoked_def res_simps split: sum.splits if_splits)

lemma denied_simps [simp]:
  "\<not> go_allowed (denied stage reason cid)" "go_stage (denied stage reason cid) = stage"
  "\<not> go_journal (denied stage reason cid)"
  by (simp_all add: denied_def)

lemma gatekeeper_revoked_Some: "gatekeeper_revoked k cap = Inr (Some out) \<Longrightarrow> \<not> go_allowed out"
  by (auto simp: gatekeeper_revoked_def res_simps split: sum.splits option.splits if_splits)

text \<open>\<open>finish_execution\<close> touches the journal only, and only for an allowed outcome.\<close>

lemma finish_execution_cases:
  assumes "finish_execution k st x vc ok failure receipt = (st', r)"
  obtains (kept) "st' = st" "\<forall>out. r = Inr out \<longrightarrow> \<not> go_allowed out"
  | (complete) j e out v where "journal_record (gs_journal st) (JStr (rq_action (ex_request x)))
        (JStr (rq_target (ex_request x))) (ex_now x) = Inr (j, e)"
      "st' = st\<lparr>gs_journal := j\<rparr>" "r = Inr out" "go_allowed out" "go_stage out = ''complete''" "go_journal out" "ok"
      "compliance_evaluate (gk_verifier k) (ex_capability x) (rl_log (gs_log st)) (Some (gk_trusted k)) = Inr v"
      "cv_compliant v"
proof (cases "compliance_evaluate (gk_verifier k) (ex_capability x) (rl_log (gs_log st)) (Some (gk_trusted k))")
  case (Inl e)
  with assms show thesis by (intro kept) (auto simp: finish_execution_def)
next
  case (Inr v)
  show thesis
  proof (cases "cv_compliant v \<and> ok")
    case False
    with assms Inr show thesis by (intro kept) (auto simp: finish_execution_def)
  next
    case True
    show thesis
    proof (cases "journal_record (gs_journal st) (JStr (rq_action (ex_request x)))
        (JStr (rq_target (ex_request x))) (ex_now x)")
      case (Inl e)
      with assms Inr True show thesis by (intro kept) (auto simp: finish_execution_def)
    next
      case *: (Inr je)
      obtain j e where "je = (j, e)" by (cases je)
      with * assms Inr True show thesis by (intro complete [of j e]) (auto simp: finish_execution_def)
    qed
  qed
qed

definition execution_failure :: "'e execution \<Rightarrow> verified_capability \<Rightarrow> json" where
  "execution_failure x vc = (case ex_actuator x vc of None \<Rightarrow> ex_failure x
     | Some e \<Rightarrow> or_default (ex_failure x) (''actuator failure: '' @ exn_text e))"

lemma run_actuator_cases:
  assumes "run_actuator k st x vc = (st', r)"
  defines "a \<equiv> execution_receipt x (ex_actuator x vc = None) (execution_failure x vc)"
  obtains (no_receipt) e where "receipt_append (gs_log st) vc a = Inl e"
      "st' = st\<lparr>gs_actuated := gs_actuated st @ [vc]\<rparr>" "\<forall>out. r = Inr out \<longrightarrow> \<not> go_allowed out"
  | (receipt) lg env where "receipt_append (gs_log st) vc a = Inr (lg, env)"
      "finish_execution k (st\<lparr>gs_actuated := gs_actuated st @ [vc], gs_log := lg\<rparr>) x vc (ex_actuator x vc = None)
         (execution_failure x vc) env = (st', r)"
proof (cases "receipt_append (gs_log st) vc a")
  case (Inl e)
  with assms show thesis
    by (intro no_receipt [OF Inl]) (auto simp: run_actuator_def Let_def execution_failure_def split: if_splits)
next
  case (Inr p)
  obtain lg env where "p = (lg, env)" by (cases p)
  with Inr assms show thesis
    by (intro receipt [of lg env]) (simp_all add: run_actuator_def Let_def execution_failure_def)
qed

text \<open>The three ways a call can end: nothing run, run with no receipt, run with a receipt.\<close>

definition gate_admits ::
  "('s, 'e) gatekeeper \<Rightarrow> 's gatekeeper_state \<Rightarrow> 'e execution \<Rightarrow> 's \<Rightarrow> verified_capability \<Rightarrow> bool" where
  "gate_admits k st x s' vc \<longleftrightarrow>
     (\<exists>sv. sequence_evaluate (gk_sequence k) (ex_request x) (gs_journal st) (ex_now x) = Inr sv \<and> sv_allowed sv)
     \<and> gatekeeper_revoked k (ex_capability x) = Inr None
     \<and> authorize (gk_verifier k) (gk_consume k) (gk_gate k) (gs_store st) (ex_env x)
         (ex_capability x) (ex_request x) (ex_now x) (ex_parent x) = (s', Inr vc)"

lemma execute_cases:
  assumes "execute k st x = (st', r)"
  obtains (refused) s' where "st' = st\<lparr>gs_store := s'\<rparr>" "\<forall>out. r = Inr out \<longrightarrow> \<not> go_allowed out"
      "s' = gs_store st \<or> s' = fst (authorize (gk_verifier k) (gk_consume k) (gk_gate k) (gs_store st) (ex_env x)
         (ex_capability x) (ex_request x) (ex_now x) (ex_parent x))"
  | (ran) s' vc where "gate_admits k st x s' vc" "run_actuator k (st\<lparr>gs_store := s'\<rparr>) x vc = (st', r)"
proof (cases "\<exists>s' vc. gate_admits k st x s' vc")
  case True
  then obtain s' vc where a: "gate_admits k st x s' vc" by blast
  then have "run_actuator k (st\<lparr>gs_store := s'\<rparr>) x vc = (st', r)"
    using assms by (auto simp: execute_def gate_admits_def)
  with a show thesis by (rule ran)
next
  case False
  have id: "st = st\<lparr>gs_store := gs_store st\<rparr>" by simp
  let ?a = "authorize (gk_verifier k) (gk_consume k) (gk_gate k) (gs_store st) (ex_env x)
         (ex_capability x) (ex_request x) (ex_now x) (ex_parent x)"
  have "(st' = st \<or> st' = st\<lparr>gs_store := fst ?a\<rparr>) \<and> (\<forall>out. r = Inr out \<longrightarrow> \<not> go_allowed out)"
    using assms False gatekeeper_revoked_Some [of k "ex_capability x"]
    by (auto simp: execute_def gate_admits_def split: sum.splits prod.splits option.splits if_splits)
  with id show thesis by (metis refused)
qed

section \<open>Histories\<close>

text \<open>
  A gatekeeper starts with an empty journal and log. \<open>gatekeeper_run k le s0 key T st\<close>: \<open>st\<close>
  is reached by calls of \<open>execute\<close> whose verification times do not decrease and are at most \<open>T\<close>;
  the readings of the store's clock (\<open>le\<close>) are not ahead of the verification time of their call.
  The calls may succeed, be denied or raise.
\<close>

definition gatekeeper_start :: "'s \<Rightarrow> key_pair \<Rightarrow> 's gatekeeper_state" where
  "gatekeeper_start s key =
     \<lparr>gs_store = s, gs_journal = [], gs_log = receipt_log_init key, gs_actuated = []\<rparr>"

inductive gatekeeper_run ::
  "('s, 'e) gatekeeper \<Rightarrow> ('e \<Rightarrow> int \<Rightarrow> bool) \<Rightarrow> 's \<Rightarrow> key_pair \<Rightarrow> int \<Rightarrow> 's gatekeeper_state \<Rightarrow> bool"
  for k le s0 key where
  start: "gatekeeper_run k le s0 key T (gatekeeper_start s0 key)"
| call: "gatekeeper_run k le s0 key T st \<Longrightarrow> T \<le> dt_us (ex_now x) \<Longrightarrow> le (ex_env x) (dt_us (ex_now x)) \<Longrightarrow>
    execute k st x = (st', r) \<Longrightarrow> gatekeeper_run k le s0 key (dt_us (ex_now x)) st'"

text \<open>What a call does to the observable state.\<close>

definition receipt_of :: "verifier \<Rightarrow> dict \<Rightarrow> verified_capability \<Rightarrow> bool" where
  "receipt_of V e vc \<longleftrightarrow>
     (\<exists>p. verify_envelope V e = Inr p \<and> dget p ''capability_id'' = dget (vc_claims vc) ''capability_id'')"

definition gatekeeper_inv :: "('s, 'e) gatekeeper \<Rightarrow> key_pair \<Rightarrow> 's gatekeeper_state \<Rightarrow> bool" where
  "gatekeeper_inv k key st \<longleftrightarrow>
     rl_key (gs_log st) = key \<and> journal_ok (gs_journal st)
     \<and> verify_receipt_chain (gk_verifier k) (rl_log (gs_log st)) (Some (gk_trusted k)) None = Inr True
     \<and> length (gs_journal st) \<le> length (rl_log (gs_log st))
     \<and> (\<forall>e\<in>set (rl_log (gs_log st)). \<exists>vc\<in>set (gs_actuated st). receipt_of (gk_verifier k) e vc)"

lemma gate_admits_authorized:
  assumes "gate_admits k st x s' vc"
  obtains c t where "authorized (gk_verifier k) (gk_gate k) (ex_capability x) (ex_request x) (ex_now x) (vc_claims vc) c t"
    "gk_consume k (gs_store st) (ex_env x) c t = (s', Inr True)" "vc_authorized_at vc = ex_now x"
    "dget (vc_claims vc) ''capability_id'' = JStr c"
proof -
  from assms obtain p c t where a: "authorize_checks (gk_verifier k) (gk_gate k) (ex_capability x) (ex_request x)
      (ex_now x) (ex_parent x) = Inr (p, c, t)" and
    "gk_consume k (gs_store st) (ex_env x) c t = (s', Inr True)" "vc = \<lparr>vc_claims = p, vc_authorized_at = ex_now x\<rparr>"
    unfolding gate_admits_def authorize_Inr by blast
  with authorize_checks_sound(1) [OF a] show thesis by (intro that) (auto simp: authorized_def)
qed

lemma receipt_append_of:
  assumes "receipt_append l vc a = Inr (l', env)" "good_key V (rl_key l)"
  shows "receipt_of V env vc \<and> rl_log l' = rl_log l @ [env] \<and> rl_key l' = rl_key l"
  using assms(1)
proof (cases rule: receipt_appendE)
  case (1 cid act previous rd agent target s_text f_text rid body)
  then have "dget (dset body ''receipt_id'' (JStr rid)) ''capability_id'' = cid"
    using receipt_body_members(4) by simp
  moreover have "verify_envelope V env = Inr (dset body ''receipt_id'' (JStr rid))"
    using sign_verify(1) [OF assms(2) 1(9)] .
  moreover have "dget (vc_claims vc) ''capability_id'' = cid" using 1(1) by (simp add: dget_dindex)
  ultimately show ?thesis
    using 1(10) by (auto simp: receipt_of_def)
qed

lemma execute_inv:
  assumes inv: "gatekeeper_inv k key st" and key: "good_key (gk_verifier k) key" and tr: "kid key \<in> set (gk_trusted k)"
    and ex: "execute k st x = (st', r)"
  shows "gatekeeper_inv k key st'"
  using ex
proof (cases rule: execute_cases)
  case (refused s')
  with inv show ?thesis by (simp add: gatekeeper_inv_def)
next
  case (ran s' vc)
  obtain c where c: "dget (vc_claims vc) ''capability_id'' = JStr c" using gate_admits_authorized [OF ran(1)] by blast
  show ?thesis
    using ran(2)
  proof (cases rule: run_actuator_cases)
    case (no_receipt e)
    with inv show ?thesis by (auto simp: gatekeeper_inv_def)
  next
    case (receipt lg env)
    let ?st = "st\<lparr>gs_store := s', gs_actuated := gs_actuated st @ [vc], gs_log := lg\<rparr>"
    have k: "good_key (gk_verifier k) (rl_key (gs_log st))" using inv key by (simp add: gatekeeper_inv_def)
    have ap: "receipt_append (gs_log st) vc (execution_receipt x (ex_actuator x vc = None) (execution_failure x vc)) = Inr (lg, env)"
      using receipt(1) by simp
    note of = receipt_append_of [OF ap k]
    have "verify_receipt_chain (gk_verifier k) (rl_log lg) (Some (gk_trusted k)) None = Inr True"
      by (rule receipt_append_verifies [OF ap k _ _ c]) (use inv tr in \<open>auto simp: gatekeeper_inv_def\<close>)
    then have st: "gatekeeper_inv k key ?st" "length (gs_journal ?st) < length (rl_log lg)"
      using inv of by (auto simp: gatekeeper_inv_def)
    from receipt(2) show ?thesis
    proof (cases rule: finish_execution_cases)
      case kept
      with st show ?thesis by simp
    next
      case (complete j e out v)
      from complete(1) have "length j = Suc (length (gs_journal st))"
        by (auto simp: journal_record_def res_simps)
      moreover have "journal_ok j"
        using journal_record_ok [OF _ complete(1)] inv by (simp add: gatekeeper_inv_def)
      ultimately show ?thesis using complete(2) st by (auto simp: gatekeeper_inv_def)
    qed
  qed
qed

lemma gatekeeper_run_inv:
  assumes "gatekeeper_run k le s0 key T st" "good_key (gk_verifier k) key" "kid key \<in> set (gk_trusted k)"
  shows "gatekeeper_inv k key st"
  using assms(1)
proof induction
  case (start T)
  show ?case
    by (simp add: gatekeeper_inv_def gatekeeper_start_def receipt_log_init_def journal_ok_def verify_receipt_chain_def)
next
  case (call T st x st' r)
  then show ?case using execute_inv [OF _ assms(2,3)] by blast
qed

section \<open>At most one run of the actuator per capability\<close>

definition expiry_of :: "verified_capability \<Rightarrow> datetime \<Rightarrow> bool" where
  "expiry_of vc t \<longleftrightarrow> time_field (vc_claims vc) ''expires_at'' = Inr t"

definition genuine :: "('s, 'e) gatekeeper \<Rightarrow> verified_capability \<Rightarrow> bool" where
  "genuine k vc \<longleftrightarrow>
     (\<exists>cap q now c t. authorized (gk_verifier k) (gk_gate k) cap q now (vc_claims vc) c t \<and> vc_authorized_at vc = now)"

text \<open>Every run so far is recorded by the store, or its capability had expired by \<open>T\<close>.\<close>

definition held :: "('s \<Rightarrow> string \<Rightarrow> int option) \<Rightarrow> int \<Rightarrow> 's \<Rightarrow> verified_capability \<Rightarrow> bool" where
  "held recorded T s vc \<longleftrightarrow> (\<exists>c t. dget (vc_claims vc) ''capability_id'' = JStr c \<and> expiry_of vc t
     \<and> (dt_us t \<le> T \<or> recorded s c = Some (dt_us t)))"

definition actuated_ids :: "'s gatekeeper_state \<Rightarrow> json list" where
  "actuated_ids st = map (\<lambda>vc. dget (vc_claims vc) ''capability_id'') (gs_actuated st)"

lemma authorized_expiry: "authorized V g cap q now (vc_claims vc) c t \<Longrightarrow> expiry_of vc t \<and> dt_us now < dt_us t"
  by (auto simp: authorized_def in_window_def expiry_of_def)

lemma genuine_expiry:
  assumes "genuine k v" "genuine k w" "dget (vc_claims v) ''capability_id'' = dget (vc_claims w) ''capability_id''"
    "expiry_of v t" "expiry_of w u"
  shows "t = u \<or> claims_collide v w"
proof -
  from assms(1,2) obtain cap q now c t' cap' q' now' c' u' where
    a: "authorized (gk_verifier k) (gk_gate k) cap q now (vc_claims v) c t'"
    and b: "authorized (gk_verifier k) (gk_gate k) cap' q' now' (vc_claims w) c' u'"
    by (auto simp: genuine_def)
  have "c = c'" using a b assms(3) by (simp add: authorized_def)
  moreover have "t' = t" "u' = u" using authorized_expiry [OF a] authorized_expiry [OF b] assms(4,5) by (auto simp: expiry_of_def)
  ultimately show ?thesis using same_id_same_expiry a b unfolding claims_collide_def by blast
qed

lemma execute_actuated:
  assumes "execute k st x = (st', r)"
  obtains (none) "gs_actuated st' = gs_actuated st" "gs_store st' = gs_store st \<or> gs_store st' = fst (authorize
      (gk_verifier k) (gk_consume k) (gk_gate k) (gs_store st) (ex_env x) (ex_capability x) (ex_request x) (ex_now x) (ex_parent x))"
  | (one) vc where "gs_actuated st' = gs_actuated st @ [vc]" "gate_admits k st x (gs_store st') vc"
  using assms
proof (cases rule: execute_cases)
  case (refused s')
  then show thesis by (intro none) auto
next
  case (ran s' vc)
  from ran(2) have "gs_actuated st' = gs_actuated st @ [vc] \<and> gs_store st' = s'"
  proof (cases rule: run_actuator_cases)
    case (receipt lg env)
    from receipt(2) show ?thesis by (cases rule: finish_execution_cases) auto
  qed simp
  with ran(1) show thesis by (intro one) auto
qed

context replay_store
begin

definition runs_ok :: "('s, 'e) gatekeeper \<Rightarrow> int \<Rightarrow> 's gatekeeper_state \<Rightarrow> bool" where
  "runs_ok k T st \<longleftrightarrow> store_ok (gs_store st) \<and> distinct (actuated_ids st)
     \<and> (\<forall>vc\<in>set (gs_actuated st). genuine k vc \<and> held recorded T (gs_store st) vc)"

lemma authorize_keeps:
  assumes "store_ok s" "authorize V consume g s e cap q now parent = (s', r)"
  shows "store_ok s'" "recorded s c = Some t \<Longrightarrow> clock_le e t \<Longrightarrow> recorded s' c = Some t"
proof -
  let ?ev = "\<lparr>ge_env = e, ge_capability = cap, ge_request = q, ge_now = now, ge_parent = parent\<rparr>"
  have s: "gate_step V consume g s ?ev = (s', r)" using assms(2) by (simp add: gate_step_def)
  show "store_ok s'" using gate_step_ok [OF assms(1), of V g ?ev] s by simp
  show "recorded s c = Some t \<Longrightarrow> clock_le e t \<Longrightarrow> recorded s' c = Some t"
    using gate_step_keeps(1) [OF assms(1), of c t ?ev V g] s by simp
qed

lemma held_step:
  assumes "store_ok s" "authorize V consume g s e cap q now parent = (s', r)" "clock_le e (dt_us now)"
    "T \<le> dt_us now" "held recorded T s vc"
  shows "held recorded (dt_us now) s' vc"
proof -
  from assms(5) obtain c t where c: "dget (vc_claims vc) ''capability_id'' = JStr c" "expiry_of vc t"
    "dt_us t \<le> T \<or> recorded s c = Some (dt_us t)" by (auto simp: held_def)
  have "recorded s' c = Some (dt_us t)" if "\<not> dt_us t \<le> dt_us now"
  proof (rule authorize_keeps(2) [OF assms(1,2)])
    show "recorded s c = Some (dt_us t)" using that c(3) assms(4) by auto
    show "clock_le e (dt_us t)" using that clock_le_mono [OF assms(3)] by simp
  qed
  with c show ?thesis by (auto simp: held_def)
qed

lemma execute_runs_ok:
  assumes ok: "runs_ok k T st" and con: "gk_consume k = consume" and ex: "execute k st x = (st', r)"
    and T: "T \<le> dt_us (ex_now x)" and cl: "clock_le (ex_env x) (dt_us (ex_now x))"
    and nc: "\<forall>v\<in>set (gs_actuated st'). \<forall>w\<in>set (gs_actuated st'). \<not> claims_collide v w"
  shows "runs_ok k (dt_us (ex_now x)) st'"
proof -
  obtain s1 r1 where a: "authorize (gk_verifier k) consume (gk_gate k) (gs_store st) (ex_env x) (ex_capability x)
      (ex_request x) (ex_now x) (ex_parent x) = (s1, r1)" by fastforce
  have s: "store_ok (gs_store st)" using ok by (simp add: runs_ok_def)
  note step = held_step [OF s a cl T] and ok1 = authorize_keeps(1) [OF s a]
  have weaker: "held recorded (dt_us (ex_now x)) (gs_store st) vc" if "held recorded T (gs_store st) vc" for vc
    using that T by (force simp: held_def)
  from ex show ?thesis
  proof (cases rule: execute_actuated)
    case none
    then have "gs_store st' = gs_store st \<or> gs_store st' = s1" using a con by simp
    with none(1) ok ok1 step weaker show ?thesis by (auto simp: runs_ok_def actuated_ids_def)
  next
    case (one vc)
    from one(2) obtain c t where v: "authorized (gk_verifier k) (gk_gate k) (ex_capability x) (ex_request x) (ex_now x) (vc_claims vc) c t"
      "consume (gs_store st) (ex_env x) c t = (gs_store st', Inr True)" "vc_authorized_at vc = ex_now x"
      "dget (vc_claims vc) ''capability_id'' = JStr c"
      using con by (auto elim: gate_admits_authorized)
    have s1: "gs_store st' = s1" using one(2) a con by (auto simp: gate_admits_def)
    have rec: "recorded s1 c = Some (dt_us t)" using consume_records [OF s v(2)] s1 by simp
    have gen: "genuine k vc" using v(1,3) by (auto simp: genuine_def)
    have exp: "expiry_of vc t" "dt_us (ex_now x) < dt_us t" using authorized_expiry [OF v(1)] by auto
    have "dget (vc_claims w) ''capability_id'' \<noteq> JStr c" if w: "w \<in> set (gs_actuated st)" for w
    proof
      assume id: "dget (vc_claims w) ''capability_id'' = JStr c"
      from w ok obtain u where u: "genuine k w" "expiry_of w u" "dt_us u \<le> T \<or> recorded (gs_store st) c = Some (dt_us u)"
        using id by (auto simp: runs_ok_def held_def)
      have "u = t" using genuine_expiry [OF u(1) gen _ u(2) exp(1)] id v(4) nc w one(1) by simp
      with u(3) exp(2) T have "recorded (gs_store st) c = Some (dt_us t)" by auto
      moreover have "clock_le (ex_env x) (dt_us t)" using clock_le_mono [OF cl] exp(2) by simp
      ultimately have "snd (consume (gs_store st) (ex_env x) c t) \<noteq> Inr True" by (rule consume_refuses [OF s])
      with v(2) show False by simp
    qed
    then have "JStr c \<notin> set (actuated_ids st)" by (fastforce simp: actuated_ids_def)
    then have "distinct (actuated_ids st')"
      using ok one(1) v(4) by (simp add: runs_ok_def actuated_ids_def)
    moreover have "held recorded (dt_us (ex_now x)) s1 vc" using rec exp v(4) by (auto simp: held_def)
    ultimately show ?thesis
      using ok one(1) s1 ok1 step gen by (auto simp: runs_ok_def)
  qed
qed

lemma gatekeeper_runs_once:
  assumes "gatekeeper_run k clock_le s0 key T st" "gk_consume k = consume" "store_ok s0"
  shows "distinct (actuated_ids st) \<or> (\<exists>v\<in>set (gs_actuated st). \<exists>w\<in>set (gs_actuated st). claims_collide v w)"
proof -
  from assms(1) have "runs_ok k T st \<or> (\<exists>v\<in>set (gs_actuated st). \<exists>w\<in>set (gs_actuated st). claims_collide v w)"
  proof induction
    case (start T)
    show ?case using assms(3) by (simp add: runs_ok_def gatekeeper_start_def actuated_ids_def)
  next
    case (call T st x st' r)
    from call.hyps have "set (gs_actuated st) \<subseteq> set (gs_actuated st')" by (auto elim: execute_actuated)
    with call show ?case using execute_runs_ok [OF _ assms(2)] by blast
  qed
  then show ?thesis by (auto simp: runs_ok_def)
qed

end

end
