(* ===== verification/BoundaryCheck.thy ===== *)
theory BoundaryCheck
  imports GatekeeperSafety Capability
begin

text \<open>
  \<open>gatekeeper_modelcheck.py\<close>: the bounded check of the action boundary. Four fixtures with fresh
  keys, six calls of \<open>execute\<close>, five properties of what the calls did, and a report. Keys, random
  values and clock readings are arguments. The actuator of a fixture keeps a list of the ids it was
  called with; it is as long as the list of actuator calls in the gatekeeper's state.
\<close>

section \<open>Counting\<close>

record run_counts =
  bc_actuator :: nat
  bc_receipts :: nat
  bc_journal :: nat

definition boundary_counts :: "'s gatekeeper_state \<Rightarrow> run_counts" where
  "boundary_counts st = \<lparr>bc_actuator = length (gs_actuated st), bc_receipts = length (rl_log (gs_log st)),
     bc_journal = length (gs_journal st)\<rparr>"

definition counts_dict :: "run_counts \<Rightarrow> dict" where
  "counts_dict c = [(''actuator'', JInt (int (bc_actuator c))), (''receipts'', JInt (int (bc_receipts c))),
     (''journal'', JInt (int (bc_journal c)))]"

section \<open>Fixtures\<close>

record fixture_env =
  fe_authority :: key_pair
  fe_executor :: key_pair
  fe_open_at :: datetime
  fe_evaluated :: datetime
  fe_issued :: datetime
  fe_nonce :: string
  fe_enter_at :: datetime
  fe_enter_evaluated :: datetime
  fe_enter_issued :: datetime
  fe_enter_nonce :: string

type_synonym memory_gatekeeper = "(memory_store, nat \<Rightarrow> datetime) gatekeeper"

record fixture =
  fx_request :: action_request
  fx_enter :: action_request
  fx_capability :: dict
  fx_gatekeeper :: memory_gatekeeper
  fx_state :: "memory_store gatekeeper_state"
  fx_enter_capability :: dict

definition check_request :: "string \<Rightarrow> string \<Rightarrow> datetime \<Rightarrow> action_request res" where
  "check_request name action at_time = action_request_init (JStr (''urn:kinegrant:modelcheck:request:'' @ name))
     (JStr ''urn:kinegrant:modelcheck:agent:1'') (JStr ''urn:kinegrant:modelcheck:target:1'') (JStr action)
     (JStr ''permission-test'') at_time (JDict [])"

definition check_rule :: "key_pair \<Rightarrow> string list \<Rightarrow> string list \<Rightarrow> policy_rule res" where
  "check_rule authority obligations actions = policy_rule_init (JStr ''urn:kinegrant:modelcheck:policy'')
     (JStr (kid authority)) (JStr ''urn:kinegrant:modelcheck:target:*'') (JStr ''allow'') (map JStr actions)
     [JStr ''urn:kinegrant:modelcheck:agent:*''] [JStr ''permission-test''] (JDict []) (map JStr obligations) (JInt 0) (JDict [])"

definition check_combination :: "forbidden_combination res" where
  "check_combination = combination_init (JStr ''modelcheck-open-enter'')
     [(JStr ''open'', JStr ''urn:kinegrant:modelcheck:target:*'')] JNull
     (Some (JStr ''enter'', JStr ''urn:kinegrant:modelcheck:target:*''))"

text \<open>A decision of a fresh engine with the one rule, and the capability for it.\<close>

definition check_issue ::
  "key_pair \<Rightarrow> policy_rule \<Rightarrow> action_request \<Rightarrow> datetime \<Rightarrow> datetime \<Rightarrow> string \<Rightarrow> dict res" where
  "check_issue authority rule q evaluated issued nonce =
     rbind (policy_engine_init [rule] [kid authority] 300 5 False) (\<lambda>engine.
     rbind (evaluate engine q evaluated) (\<lambda>d. issue authority q d 30 issued nonce))"

definition boundary_gatekeeper :: "verifier \<Rightarrow> string \<Rightarrow> sequence_policy \<Rightarrow> receipt_log \<Rightarrow> revocation_list option \<Rightarrow> memory_gatekeeper" where
  "boundary_gatekeeper V issuer sequence lg revocations =
     \<lparr>gk_verifier = V, gk_consume = memory_consume, gk_gate = \<lparr>gc_trusted = [issuer], gc_revocations = None\<rparr>,
      gk_sequence = sequence, gk_trusted = gatekeeper_trusted [] lg, gk_revocations = revocations\<rparr>"

definition boundary_fixture :: "verifier \<Rightarrow> fixture_env \<Rightarrow> string list \<Rightarrow> string list \<Rightarrow> fixture res" where
  "boundary_fixture V env obligations actions =
     rbind (check_request ''open'' ''open'' (fe_open_at env)) (\<lambda>request.
     rbind (check_rule (fe_authority env) obligations actions) (\<lambda>rule.
     rbind (check_issue (fe_authority env) rule request (fe_evaluated env) (fe_issued env) (fe_nonce env)) (\<lambda>capability.
     rbind check_combination (\<lambda>combination.
     rbind (sequence_policy_init [combination]) (\<lambda>sequence.
     rbind (check_request ''enter'' ''enter'' (fe_enter_at env)) (\<lambda>enter.
     rbind (check_issue (fe_authority env) rule enter (fe_enter_evaluated env) (fe_enter_issued env) (fe_enter_nonce env)) (\<lambda>enter_capability.
       Inr \<lparr>fx_request = request, fx_enter = enter, fx_capability = capability,
            fx_gatekeeper = boundary_gatekeeper V (kid (fe_authority env)) sequence (receipt_log_init (fe_executor env)) None,
            fx_state = gatekeeper_start [] (fe_executor env), fx_enter_capability = enter_capability\<rparr>)))))))"

section \<open>Scenarios\<close>

record call_env =
  ce_clock :: "nat \<Rightarrow> datetime"
  ce_now :: datetime
  ce_started :: datetime
  ce_finished :: datetime

text \<open>The arguments of \<open>execute\<close> that the check leaves at their defaults.\<close>

definition boundary_call ::
  "call_env \<Rightarrow> dict \<Rightarrow> action_request \<Rightarrow> (verified_capability \<Rightarrow> exn option) \<Rightarrow> (nat \<Rightarrow> datetime) execution" where
  "boundary_call env capability request actuator =
     \<lparr>ex_env = ce_clock env, ex_capability = capability, ex_request = request, ex_now = ce_now env, ex_parent = None,
      ex_actuator = actuator, ex_result = ''succeeded'', ex_evidence = JNull, ex_obligations = JNull,
      ex_failure = JNull, ex_started = ce_started env, ex_finished = ce_finished env\<rparr>"

record scenario =
  sc_name :: string
  sc_outcome :: gatekeeper_outcome
  sc_before :: run_counts
  sc_after :: run_counts

definition scenario_dict :: "scenario \<Rightarrow> dict" where
  "scenario_dict s = [(''name'', JStr (sc_name s)), (''outcome'', JDict (outcome_to_dict (sc_outcome s))),
     (''before'', JDict (counts_dict (sc_before s))), (''after'', JDict (counts_dict (sc_after s)))]"

definition run_scenario ::
  "string \<Rightarrow> ('s, 'e) gatekeeper \<Rightarrow> 's gatekeeper_state \<Rightarrow> 'e execution \<Rightarrow> ('s gatekeeper_state \<times> scenario) res" where
  "run_scenario name k st x = (case execute k st x of (st', r) \<Rightarrow> rbind r (\<lambda>out.
     Inr (st', \<lparr>sc_name = name, sc_outcome = out, sc_before = boundary_counts st, sc_after = boundary_counts st'\<rparr>)))"

definition quiet :: "verified_capability \<Rightarrow> exn option" where "quiet vc = None"
definition boom :: "verified_capability \<Rightarrow> exn option" where "boom vc = Some (RuntimeError ''modelcheck actuator failure'')"

text \<open>The revoked capability is offered to a gatekeeper of its own.\<close>

definition revoked_gatekeeper :: "verifier \<Rightarrow> dict \<Rightarrow> datetime \<Rightarrow> key_pair \<Rightarrow> memory_gatekeeper res" where
  "revoked_gatekeeper V capability at_time executor =
     rbind (dindex capability ''payload'') (\<lambda>p.
     rbind (dindex (the_dict p) ''capability_id'') (\<lambda>cid.
     rbind (revoke (revocation_list_init []) cid JNull at_time) (\<lambda>(rl, e).
     rbind (dindex (the_dict p) ''issuer'') (\<lambda>issuer.
     rbind (sequence_policy_init []) (\<lambda>sequence.
       Inr (boundary_gatekeeper V (the_str issuer) sequence (receipt_log_init executor) (Some rl)))))))"

record boundary_env =
  be_main :: fixture_env
  be_revoked :: fixture_env
  be_obligation :: fixture_env
  be_failure :: fixture_env
  be_revoked_at :: datetime
  be_executor :: key_pair
  be_calls :: "nat \<Rightarrow> call_env"

definition boundary_scenarios :: "verifier \<Rightarrow> boundary_env \<Rightarrow> scenario list res" where
  "boundary_scenarios V env =
     rbind (boundary_fixture V (be_main env) [''emitActionReceipt''] [''open'', ''enter'']) (\<lambda>m.
     let k = fx_gatekeeper m in
     rbind (run_scenario ''allow'' k (fx_state m) (boundary_call (be_calls env 0) (fx_capability m) (fx_request m) quiet)) (\<lambda>(st1, s1).
     rbind (run_scenario ''sequence_deny'' k st1 (boundary_call (be_calls env 1) (fx_enter_capability m) (fx_enter m) quiet)) (\<lambda>(st2, s2).
     rbind (run_scenario ''gate_replay_deny'' k st2 (boundary_call (be_calls env 2) (fx_capability m) (fx_request m) quiet)) (\<lambda>(st3, s3).
     rbind (boundary_fixture V (be_revoked env) [''emitActionReceipt''] [''open'', ''enter'']) (\<lambda>r.
     rbind (revoked_gatekeeper V (fx_capability r) (be_revoked_at env) (be_executor env)) (\<lambda>rk.
     rbind (run_scenario ''revocation_deny'' rk (gatekeeper_start [] (be_executor env))
         (boundary_call (be_calls env 3) (fx_capability r) (fx_request r) quiet)) (\<lambda>(_, s4).
     rbind (boundary_fixture V (be_obligation env) [''logAuditEvent''] [''open'', ''enter'']) (\<lambda>b.
     rbind (run_scenario ''obligation_deny'' (fx_gatekeeper b) (fx_state b)
         (boundary_call (be_calls env 4) (fx_capability b) (fx_request b) quiet)) (\<lambda>(_, s5).
     rbind (boundary_fixture V (be_failure env) [''emitActionReceipt''] [''open'', ''enter'']) (\<lambda>f.
     rbind (run_scenario ''actuator_failure'' (fx_gatekeeper f) (fx_state f)
         (boundary_call (be_calls env 5) (fx_capability f) (fx_request f) boom)) (\<lambda>(_, s6).
       Inr [s1, s2, s3, s4, s5, s6])))))))))))"

section \<open>Properties and report\<close>

definition stage_before_actuator :: "scenario \<Rightarrow> bool" where
  "stage_before_actuator s \<longleftrightarrow> go_stage (sc_outcome s) \<in> {''sequence'', ''gate'', ''revocation''}"

definition nothing_changed :: "scenario \<Rightarrow> bool" where
  "nothing_changed s \<longleftrightarrow> bc_actuator (sc_after s) = bc_actuator (sc_before s)
     \<and> bc_receipts (sc_after s) = bc_receipts (sc_before s) \<and> bc_journal (sc_after s) = bc_journal (sc_before s)"

definition pre_gate_ok :: "scenario list \<Rightarrow> bool" where
  "pre_gate_ok ss = (let denies = filter stage_before_actuator ss in denies \<noteq> [] \<and> list_all nothing_changed denies)"

definition journal_step_ok :: "scenario \<Rightarrow> bool" where
  "journal_step_ok s \<longleftrightarrow>
     go_allowed (sc_outcome s) \<and> bc_journal (sc_after s) = bc_journal (sc_before s) + 1
     \<or> \<not> go_allowed (sc_outcome s) \<and> bc_journal (sc_after s) = bc_journal (sc_before s)"

definition replay_ok :: "scenario \<Rightarrow> scenario \<Rightarrow> bool" where
  "replay_ok allow replay \<longleftrightarrow> bc_actuator (sc_after replay) = bc_actuator (sc_after allow) \<and> bc_actuator (sc_after allow) = 1"

definition stage_ok :: "scenario \<Rightarrow> bool" where
  "stage_ok s \<longleftrightarrow> \<not> go_allowed (sc_outcome s) \<or> go_stage (sc_outcome s) = ''complete''"

definition obligation_ok :: "scenario \<Rightarrow> bool" where
  "obligation_ok s \<longleftrightarrow> \<not> go_allowed (sc_outcome s) \<and> go_stage (sc_outcome s) = ''obligation''
     \<and> bc_journal (sc_after s) = bc_journal (sc_before s) \<and> bc_receipts (sc_after s) = bc_receipts (sc_before s) + 1"

text \<open>\<open>next(...)\<close>: without such a scenario it raises \<open>StopIteration\<close>, a \<open>RuntimeError\<close> here.\<close>

definition scenario_named :: "string \<Rightarrow> scenario list \<Rightarrow> scenario res" where
  "scenario_named name ss = (case find (\<lambda>s. sc_name s = name) ss of
      None \<Rightarrow> Inl (RuntimeError ''StopIteration'') | Some s \<Rightarrow> Inr s)"

record boundary_property =
  bp_name :: string
  bp_passed :: bool
  bp_detail :: string

definition property_dict :: "boundary_property \<Rightarrow> dict" where
  "property_dict p = [(''name'', JStr (bp_name p)), (''passed'', JBool (bp_passed p)), (''detail'', JStr (bp_detail p))]"

definition boundary_properties :: "scenario list \<Rightarrow> boundary_property list res" where
  "boundary_properties ss =
     rbind (scenario_named ''allow'' ss) (\<lambda>allow. rbind (scenario_named ''gate_replay_deny'' ss) (\<lambda>replay.
     rbind (scenario_named ''obligation_deny'' ss) (\<lambda>obligation. Inr
       [\<lparr>bp_name = ''actuator_runs_only_after_sequence_gate_revocation'', bp_passed = pre_gate_ok ss,
         bp_detail = ''no actuator/receipt/journal change on pre-gate denials''\<rparr>,
        \<lparr>bp_name = ''journal_only_on_fully_compliant_success'', bp_passed = list_all journal_step_ok ss,
         bp_detail = ''journal increments exactly on allowed outcomes''\<rparr>,
        \<lparr>bp_name = ''replay_prevents_double_execution'', bp_passed = replay_ok allow replay,
         bp_detail = ''second use of the same capability did not actuate''\<rparr>,
        \<lparr>bp_name = ''denials_carry_stage'', bp_passed = list_all stage_ok ss,
         bp_detail = ''every denied outcome has a non-complete stage''\<rparr>,
        \<lparr>bp_name = ''obligation_failure_keeps_evidence_not_journal'', bp_passed = obligation_ok obligation,
         bp_detail = ''failed compliance records receipt but no journal entry''\<rparr>])))"

definition boundary_report :: "scenario list \<Rightarrow> boundary_property list \<Rightarrow> dict" where
  "boundary_report ss ps =
     (let passed = length (filter bp_passed ps) in
       [(''type'', JStr ''kinegrant:GatekeeperBoundaryModelCheck''), (''schema_version'', JStr ''0.1''),
        (''overall_result'', JStr (if passed = length ps then ''PASS'' else ''FAIL'')),
        (''summary'', JDict [(''scenarios'', JInt (int (length ss))), (''properties'', JInt (int (length ps))),
           (''passed_properties'', JInt (int passed)), (''failed_properties'', JInt (int (length ps) - int passed))]),
        (''properties'', JList (map (\<lambda>p. JDict (property_dict p)) ps)),
        (''scenarios'', JList (map (\<lambda>s. JDict (scenario_dict s)) ss))])"

definition check_gatekeeper_boundary :: "verifier \<Rightarrow> boundary_env \<Rightarrow> dict res" where
  "check_gatekeeper_boundary V env =
     rbind (boundary_scenarios V env) (\<lambda>ss. rbind (boundary_properties ss) (\<lambda>ps. Inr (boundary_report ss ps)))"

section \<open>What a call does, by the stage of its outcome\<close>

lemma run_actuator_stage:
  assumes "run_actuator k st x vc = (st', Inr out)"
  shows "go_stage out \<in> {''receipt'', ''actuator'', ''obligation'', ''complete''}"
  using assms
  by (auto simp: run_actuator_def finish_execution_def Let_def res_simps split: sum.splits if_splits prod.splits)

lemma revoked_stage: "gatekeeper_revoked k cap = Inr (Some out) \<Longrightarrow> go_stage out = ''revocation''"
  by (auto simp: gatekeeper_revoked_def res_simps split: option.splits sum.splits if_splits)

text \<open>A call that ends before the actuator, and one that reaches it.\<close>

lemma execute_stage:
  assumes "execute k st x = (st', Inr out)"
  obtains (before) "go_stage out \<in> {''sequence'', ''gate'', ''revocation''}" "\<not> go_allowed out"
      "\<exists>s'. st' = st\<lparr>gs_store := s'\<rparr>" "\<not> (\<exists>s' vc. gate_admits k st x s' vc)"
  | (ran) s' vc where "gate_admits k st x s' vc" "run_actuator k (st\<lparr>gs_store := s'\<rparr>) x vc = (st', Inr out)"
      "go_stage out \<in> {''receipt'', ''actuator'', ''obligation'', ''complete''}"
proof (cases "\<exists>s' vc. gate_admits k st x s' vc")
  case True
  then obtain s' vc where a: "gate_admits k st x s' vc" by blast
  then have "run_actuator k (st\<lparr>gs_store := s'\<rparr>) x vc = (st', Inr out)"
    using assms by (auto simp: execute_def gate_admits_def)
  with a show thesis using run_actuator_stage by (intro ran)
next
  case False
  have id: "st = st\<lparr>gs_store := gs_store st\<rparr>" by simp
  have "go_stage out \<in> {''sequence'', ''gate'', ''revocation''} \<and> \<not> go_allowed out \<and> (st' = st \<or> (\<exists>s'. st' = st\<lparr>gs_store := s'\<rparr>))"
    using assms False revoked_stage [of k "ex_capability x" out] gatekeeper_revoked_Some [of k "ex_capability x" out]
    by (auto simp: execute_def gate_admits_def split: sum.splits prod.splits option.splits if_splits)
  with False id show thesis by (metis before)
qed

text \<open>What the outcome says about the log and the journal.\<close>

lemma execute_counts:
  assumes "execute k st x = (st', Inr out)"
  shows "go_stage out \<in> {''sequence'', ''gate'', ''revocation''} \<Longrightarrow> boundary_counts st' = boundary_counts st"
    and "length (gs_journal st') = length (gs_journal st) + (if go_allowed out then 1 else 0)"
    and "go_allowed out \<Longrightarrow> go_stage out = ''complete'' \<and> length (gs_actuated st') = length (gs_actuated st) + 1"
    and "go_stage out = ''obligation'' \<Longrightarrow> \<not> go_allowed out \<and> length (rl_log (gs_log st')) = length (rl_log (gs_log st)) + 1"
proof -
  have "(go_stage out \<in> {''sequence'', ''gate'', ''revocation''} \<longrightarrow> boundary_counts st' = boundary_counts st)
    \<and> length (gs_journal st') = length (gs_journal st) + (if go_allowed out then 1 else 0)
    \<and> (go_allowed out \<longrightarrow> go_stage out = ''complete'' \<and> length (gs_actuated st') = length (gs_actuated st) + 1)
    \<and> (go_stage out = ''obligation'' \<longrightarrow> \<not> go_allowed out \<and> length (rl_log (gs_log st')) = length (rl_log (gs_log st)) + 1)"
    using assms
  proof (cases rule: execute_stage)
    case before
    then show ?thesis by (auto simp: boundary_counts_def)
  next
    case (ran s' vc)
    from ran(2) show ?thesis
    proof (cases rule: run_actuator_cases)
      case (no_receipt e)
      with ran(2) have "go_stage out = ''receipt''"
        by (auto simp: run_actuator_def Let_def execution_failure_def split: if_splits)
      with no_receipt show ?thesis by auto
    next
      case (receipt lg env)
      have lg: "rl_log lg = rl_log (gs_log st) @ [env]" using receipt(1) by (auto elim: receipt_appendE)
      from receipt(2) show ?thesis
      proof (cases rule: finish_execution_cases)
        case kept
        with ran(3) lg show ?thesis by auto
      next
        case (complete j e out' v)
        have "length j = Suc (length (gs_journal st))" using complete(1) by (auto simp: journal_record_def res_simps)
        with complete lg show ?thesis by auto
      qed
    qed
  qed
  then show "go_stage out \<in> {''sequence'', ''gate'', ''revocation''} \<Longrightarrow> boundary_counts st' = boundary_counts st"
    and "length (gs_journal st') = length (gs_journal st) + (if go_allowed out then 1 else 0)"
    and "go_allowed out \<Longrightarrow> go_stage out = ''complete'' \<and> length (gs_actuated st') = length (gs_actuated st) + 1"
    and "go_stage out = ''obligation'' \<Longrightarrow> \<not> go_allowed out \<and> length (rl_log (gs_log st')) = length (rl_log (gs_log st)) + 1"
    by auto
qed

text \<open>Whatever gatekeeper and call the check tries, these of its checks cannot fail.\<close>

lemma run_scenario_ok:
  assumes "run_scenario name k st x = Inr (st', s)"
  shows "stage_before_actuator s \<longrightarrow> nothing_changed s" "journal_step_ok s" "stage_ok s"
    "go_stage (sc_outcome s) = ''obligation'' \<Longrightarrow> obligation_ok s" "sc_name s = name"
proof -
  obtain out where e: "execute k st x = (st', Inr out)"
    and s: "s = \<lparr>sc_name = name, sc_outcome = out, sc_before = boundary_counts st, sc_after = boundary_counts st'\<rparr>"
    using assms by (auto simp: run_scenario_def res_simps split: prod.splits)
  note c = execute_counts [OF e]
  show "stage_before_actuator s \<longrightarrow> nothing_changed s"
    using c(1) by (auto simp: s stage_before_actuator_def nothing_changed_def)
  show "journal_step_ok s" using c(2) by (auto simp: s journal_step_ok_def boundary_counts_def)
  show "stage_ok s" using c(3) by (auto simp: s stage_ok_def)
  show "go_stage (sc_outcome s) = ''obligation'' \<Longrightarrow> obligation_ok s"
    using c(2,4) by (auto simp: s obligation_ok_def boundary_counts_def)
  show "sc_name s = name" by (simp add: s)
qed

section \<open>The report\<close>

context replay_store
begin

text \<open>Right after a capability was admitted, it is not admitted again.\<close>

lemma replay_not_admitted:
  assumes "gate_admits k st x s1 vc" "gk_consume k = consume" "store_ok (gs_store st)"
    and "gs_store st2 = s1" "ex_capability y = ex_capability x" "clock_le (ex_env y) (dt_us (ex_now y))"
  shows "\<not> gate_admits k st2 y s2 vc2"
proof
  assume again: "gate_admits k st2 y s2 vc2"
  obtain c t where a: "authorized (gk_verifier k) (gk_gate k) (ex_capability x) (ex_request x) (ex_now x) (vc_claims vc) c t"
    "consume (gs_store st) (ex_env x) c t = (s1, Inr True)"
    using assms(1,2) by (auto elim: gate_admits_authorized)
  obtain d u where b: "authorized (gk_verifier k) (gk_gate k) (ex_capability x) (ex_request y) (ex_now y) (vc_claims vc2) d u"
    "consume s1 (ex_env y) d u = (s2, Inr True)"
    using again assms(2,4,5) by (auto elim: gate_admits_authorized)
  have "vc_claims vc2 = vc_claims vc" using a(1) b(1) by (auto simp: authorized_def)
  moreover from this have "d = c" using a(1) b(1) by (auto simp: authorized_def)
  ultimately have same: "d = c" "u = t" using authorized_expiry [OF a(1)] authorized_expiry [OF b(1)] by (auto simp: expiry_of_def)
  have "recorded s1 c = Some (dt_us t)" using consume_records [OF assms(3) a(2)] by simp
  moreover have "store_ok s1"
    using assms(1,2) authorize_keeps(1) [OF assms(3)] by (auto simp: gate_admits_def)
  moreover have "clock_le (ex_env y) (dt_us t)"
    using clock_le_mono [OF assms(6)] authorized_expiry [OF b(1)] same by auto
  ultimately have "snd (consume s1 (ex_env y) c t) \<noteq> Inr True" by (intro consume_refuses)
  with b(2) same show False by simp
qed

end

lemma check_request_fields:
  assumes "check_request name action at_time = Inr q"
  shows "rq_action q = action" "rq_target q = ''urn:kinegrant:modelcheck:target:1''"
proof -
  have "rq_action q = the_str d \<and> rq_target q = the_str c" if "action_request_init a b c d e t x = Inr q" for a b c d e t x
    using that by (auto simp: action_request_init_def res_simps split: if_splits)
  note this [OF assms [unfolded check_request_def]]
  then show "rq_action q = action" "rq_target q = ''urn:kinegrant:modelcheck:target:1''" by simp_all
qed

lemma check_combination_val:
  "check_combination = Inr \<lparr>fc_id = ''modelcheck-open-enter'', fc_patterns = [(''open'', ''urn:kinegrant:modelcheck:target:*'')],
     fc_window = JNull, fc_trigger = Some (''enter'', ''urn:kinegrant:modelcheck:target:*'')\<rparr>"
  by code_simp

lemma target_matches: "fnmatchcase ''urn:kinegrant:modelcheck:target:1'' ''urn:kinegrant:modelcheck:target:*''"
  "fnmatchcase ''open'' ''open''" "fnmatchcase ''enter'' ''enter''"
  by code_simp+

lemma execute_allowed_journal:
  assumes "execute k st x = (st', Inr out)" "go_allowed out"
  shows "\<exists>e. journal_record (gs_journal st) (JStr (rq_action (ex_request x))) (JStr (rq_target (ex_request x))) (ex_now x)
    = Inr (gs_journal st', e)"
  using assms(1)
proof (cases rule: execute_stage)
  case before
  with assms(2) show ?thesis by simp
next
  case (ran s' vc)
  from ran(2) show ?thesis
  proof (cases rule: run_actuator_cases)
    case (no_receipt e)
    with assms(2) show ?thesis by simp
  next
    case (receipt lg env)
    from receipt(2) show ?thesis
    proof (cases rule: finish_execution_cases)
      case kept
      with assms(2) show ?thesis by simp
    next
      case (complete j e out' v)
      then show ?thesis by auto
    qed
  qed
qed

text \<open>After an allowed opening, entering is refused by the sequence policy and changes nothing.\<close>

lemma enter_denied:
  assumes f: "boundary_fixture V env obs acts = Inr m"
    and open_done: "execute (fx_gatekeeper m) (fx_state m) (boundary_call c1 cap1 (fx_request m) act1) = (st1, Inr out1)" "go_allowed out1"
    and enter: "execute (fx_gatekeeper m) st1 (boundary_call c2 cap2 (fx_enter m) act2) = (st2, Inr out2)"
  shows "go_stage out2 = ''sequence''" "st2 = st1"
proof -
  from f obtain comb where comb: "check_combination = Inr comb" "gk_sequence (fx_gatekeeper m) = [comb]"
    and reqs: "check_request ''open'' ''open'' (fe_open_at env) = Inr (fx_request m)"
      "check_request ''enter'' ''enter'' (fe_enter_at env) = Inr (fx_enter m)"
    and start: "fx_state m = gatekeeper_start [] (fe_executor env)"
    by (auto simp: boundary_fixture_def res_simps boundary_gatekeeper_def sequence_policy_init_def)
  note q = check_request_fields [OF reqs(1)] check_request_fields [OF reqs(2)]
  obtain j e where "journal_record [] (JStr ''open'') (JStr ''urn:kinegrant:modelcheck:target:1'') (ce_now c1) = Inr (j, e)" "gs_journal st1 = j"
    using execute_allowed_journal [OF open_done] start q by (auto simp: gatekeeper_start_def boundary_call_def)
  then have j: "gs_journal st1 = [e]" "journal_record [] (JStr ''open'') (JStr ''urn:kinegrant:modelcheck:target:1'') (ce_now c1) = Inr ([e], e)"
    by (auto simp: journal_record_def res_simps)
  have jok: "journal_ok (gs_journal st1)" using journal_record_ok [OF _ j(2)] j(1) by (simp add: journal_ok_def)
  have e: "je_action e = ''open''" "je_target e = ''urn:kinegrant:modelcheck:target:1''"
    using j(2) by (auto simp: journal_record_def journal_entry_init_def res_simps split: if_splits)
  have "\<not> sv_allowed v" if "sequence_evaluate [comb] (fx_enter m) (gs_journal st1) now = Inr v" for now v
    using sequence_evaluate_spec [OF jok that] comb(1) e q j(1) target_matches
    by (auto simp: check_combination_val combination_denies_def observed_def)
  with enter comb(2) show "go_stage out2 = ''sequence''" "st2 = st1"
    by (auto simp: execute_def boundary_call_def split: sum.splits if_splits)
qed

text \<open>The check passes: when its first call is allowed and the call with the obligation that nothing
  proves is denied for it, all five properties hold, whatever the other calls did.\<close>

lemma scenario_counts:
  assumes "run_scenario name k st x = Inr (st', s)"
  shows "execute k st x = (st', Inr (sc_outcome s))" "sc_before s = boundary_counts st" "sc_after s = boundary_counts st'"
  using assms by (auto simp: run_scenario_def res_simps split: prod.splits)

lemma main_scenarios_pass:
  assumes f: "boundary_fixture V env obs acts = Inr m"
    and s1: "run_scenario n1 (fx_gatekeeper m) (fx_state m) (boundary_call c1 (fx_capability m) (fx_request m) a1) = Inr (st1, s1)"
    and s2: "run_scenario n2 (fx_gatekeeper m) st1 (boundary_call c2 (fx_enter_capability m) (fx_enter m) a2) = Inr (st2, s2)"
    and s3: "run_scenario n3 (fx_gatekeeper m) st2 (boundary_call c3 (fx_capability m) (fx_request m) a3) = Inr (st3, s3)"
    and allowed: "go_allowed (sc_outcome s1)" and clock: "readings_le (ce_clock c3) (dt_us (ce_now c3))"
  shows "stage_before_actuator s2" "replay_ok s1 s3"
proof -
  let ?k = "fx_gatekeeper m" and ?x1 = "boundary_call c1 (fx_capability m) (fx_request m) a1"
    and ?x3 = "boundary_call c3 (fx_capability m) (fx_request m) a3"
  have con: "gk_consume ?k = memory_consume" and start: "gs_store (fx_state m) = []" "gs_actuated (fx_state m) = []"
    using f by (auto simp: boundary_fixture_def res_simps boundary_gatekeeper_def gatekeeper_start_def)
  note e1 = scenario_counts(1) [OF s1] and e2 = scenario_counts(1) [OF s2] and e3 = scenario_counts(1) [OF s3]
  note den = enter_denied [OF f e1 allowed e2]
  then show "stage_before_actuator s2" by (simp add: stage_before_actuator_def)
  obtain s' vc where ran: "gate_admits ?k (fx_state m) ?x1 s' vc" "run_actuator ?k (fx_state m\<lparr>gs_store := s'\<rparr>) ?x1 vc = (st1, Inr (sc_outcome s1))"
    using e1 by (cases rule: execute_stage) (use allowed in auto)
  from e1 have "gs_store st1 = s'"
  proof (cases rule: execute_actuated)
    case none
    with execute_counts(3) [OF e1 allowed] show ?thesis by simp
  next
    case (one w)
    with ran(1) show ?thesis by (auto simp: gate_admits_def)
  qed
  then have store: "gs_store st2 = s'" using den(2) by simp
  have ok: "memory_ok (gs_store (fx_state m))" by (simp add: start memory_ok_def)
  have "\<not> gate_admits ?k st2 ?x3 u w" for u w
    by (rule memory.replay_not_admitted [OF ran(1) con ok store]) (use clock in \<open>simp_all add: boundary_call_def\<close>)
  then have "boundary_counts st3 = boundary_counts st2"
    using execute_stage [OF e3] by (metis execute_counts(1) [OF e3])
  with den(2) execute_counts(3) [OF e1 allowed] start show "replay_ok s1 s3"
    using scenario_counts(3) [OF s1] scenario_counts(3) [OF s3] by (simp add: replay_ok_def boundary_counts_def)
qed

lemma boundary_check_passes:
  assumes "boundary_scenarios V env = Inr ss" "go_allowed (sc_outcome (ss ! 0))" "go_stage (sc_outcome (ss ! 4)) = ''obligation''"
    and "readings_le (ce_clock (be_calls env 2)) (dt_us (ce_now (be_calls env 2)))"
  shows "\<exists>report. check_gatekeeper_boundary V env = Inr report \<and> dget report ''overall_result'' = JStr ''PASS''"
proof -
  obtain m st1 s1 st2 s2 st3 s3 k4 st4 s4 x4 st4' k5 st5 s5 x5 st5' k6 st6 s6 x6 st6' where f: "boundary_fixture V (be_main env) [''emitActionReceipt''] [''open'', ''enter''] = Inr m"
    and s: "run_scenario ''allow'' (fx_gatekeeper m) (fx_state m) (boundary_call (be_calls env 0) (fx_capability m) (fx_request m) quiet) = Inr (st1, s1)"
      "run_scenario ''sequence_deny'' (fx_gatekeeper m) st1 (boundary_call (be_calls env 1) (fx_enter_capability m) (fx_enter m) quiet) = Inr (st2, s2)"
      "run_scenario ''gate_replay_deny'' (fx_gatekeeper m) st2 (boundary_call (be_calls env 2) (fx_capability m) (fx_request m) quiet) = Inr (st3, s3)"
    and r: "run_scenario ''revocation_deny'' (k4 :: memory_gatekeeper) st4 x4 = Inr (st4', s4)"
      "run_scenario ''obligation_deny'' (k5 :: memory_gatekeeper) st5 x5 = Inr (st5', s5)"
      "run_scenario ''actuator_failure'' (k6 :: memory_gatekeeper) st6 x6 = Inr (st6', s6)"
    and ss: "ss = [s1, s2, s3, s4, s5, s6]"
    using assms(1) unfolding boundary_scenarios_def Let_def by (elim res_elims) (auto elim!: res_elims)
  have main: "stage_before_actuator s2" "replay_ok s1 s3"
    using main_scenarios_pass [OF f s] assms(2,4) by (simp_all add: ss)
  have each: "\<forall>x\<in>set ss. (stage_before_actuator x \<longrightarrow> nothing_changed x) \<and> journal_step_ok x \<and> stage_ok x"
    using run_scenario_ok(1-3) [OF s(1)] run_scenario_ok(1-3) [OF s(2)] run_scenario_ok(1-3) [OF s(3)]
      run_scenario_ok(1-3) [OF r(1)] run_scenario_ok(1-3) [OF r(2)] run_scenario_ok(1-3) [OF r(3)] by (simp add: ss)
  have "pre_gate_ok ss" using each main(1) by (auto simp: pre_gate_ok_def list_all_iff filter_empty_conv ss)
  moreover have "list_all journal_step_ok ss" "list_all stage_ok ss" using each by (auto simp: list_all_iff)
  moreover have "obligation_ok s5" using run_scenario_ok(4) [OF r(2)] assms(3) by (simp add: ss)
  moreover have "scenario_named ''allow'' ss = Inr s1" "scenario_named ''gate_replay_deny'' ss = Inr s3"
    "scenario_named ''obligation_deny'' ss = Inr s5"
    using run_scenario_ok(5) [OF s(1)] run_scenario_ok(5) [OF s(2)] run_scenario_ok(5) [OF s(3)]
      run_scenario_ok(5) [OF r(1)] run_scenario_ok(5) [OF r(2)] by (simp_all add: scenario_named_def ss)
  ultimately show ?thesis
    using assms(1) main(2) by (simp add: check_gatekeeper_boundary_def boundary_properties_def boundary_report_def Let_def)
qed

end
