(* ===== verification/Cache.thy ===== *)
theory Cache
  imports Policy
begin

text \<open>
  \<open>cache.py\<close>: the bounded decision cache over a policy engine. The \<open>OrderedDict\<close> is an
  association list, least recently used first. An evaluation returns the new state also when
  it raises; \<open>clock\<close> is the reading of \<open>utc_now()\<close> the wrapped engine makes when no
  time is given.
\<close>

type_synonym cache_key = "string \<times> string"

record cached_engine =
  ce_engine :: policy_engine
  ce_capacity :: nat
  ce_cache :: "(cache_key \<times> decision) list"
  ce_policy_digest :: string
  ce_hits :: nat
  ce_misses :: nat

definition cached_engine_init :: "policy_engine \<Rightarrow> json \<Rightarrow> cached_engine res" where
  "cached_engine_init e capacity =
     (if \<not> is_int_nb capacity \<or> the_int capacity < 1
      then Inl (ValueError ''capacity must be a positive integer'')
      else rbind (policy_digest e) (\<lambda>pd. Inr
        \<lparr>ce_engine = e, ce_capacity = nat (the_int capacity), ce_cache = [], ce_policy_digest = pd,
         ce_hits = 0, ce_misses = 0\<rparr>))"

definition cache_clear :: "cached_engine \<Rightarrow> cached_engine \<times> unit res" where
  "cache_clear c =
     (case policy_digest (ce_engine c) of
        Inl x \<Rightarrow> (c\<lparr>ce_cache := []\<rparr>, Inl x)
      | Inr pd \<Rightarrow> (c\<lparr>ce_cache := [], ce_policy_digest := pd, ce_hits := 0, ce_misses := 0\<rparr>, Inr ()))"

text \<open>\<open>move_to_end\<close>, assignment followed by \<open>move_to_end\<close>, and the eviction loop.\<close>

definition touch :: "'k \<Rightarrow> ('k \<times> 'v) list \<Rightarrow> ('k \<times> 'v) list" where
  "touch k m = filter (\<lambda>(k', _). k' \<noteq> k) m @ filter (\<lambda>(k', _). k' = k) m"

definition put_last :: "'k \<Rightarrow> 'v \<Rightarrow> ('k \<times> 'v) list \<Rightarrow> ('k \<times> 'v) list" where
  "put_last k v m = filter (\<lambda>(k', _). k' \<noteq> k) m @ [(k, v)]"

function evict :: "nat \<Rightarrow> 'a list \<Rightarrow> 'a list" where
  "evict cap m = (if length m > cap then evict cap (tl m) else m)"
  by auto
termination by (relation "measure (\<lambda>(_, m). length m)") auto

declare evict.simps [simp del]

text \<open>The first lines of \<open>evaluate\<close>: a changed snapshot empties the cache.\<close>

definition refresh :: "cached_engine \<Rightarrow> string \<Rightarrow> cached_engine" where
  "refresh c pd = (if pd \<noteq> ce_policy_digest c then c\<lparr>ce_cache := [], ce_policy_digest := pd\<rparr> else c)"

definition cache_evaluate ::
  "cached_engine \<Rightarrow> action_request \<Rightarrow> datetime option \<Rightarrow> datetime \<Rightarrow> cached_engine \<times> decision res" where
  "cache_evaluate c0 q now clock =
     (case policy_digest (ce_engine c0) of
        Inl x \<Rightarrow> (c0, Inl x)
      | Inr pd \<Rightarrow>
        let c = refresh c0 pd in
        case request_digest q of
          Inl x \<Rightarrow> (c, Inl x)
        | Inr rd \<Rightarrow>
          let key = (pd, rd) in
          case (now, map_of (ce_cache c) key) of
            (None, Some d) \<Rightarrow>
              (c\<lparr>ce_hits := ce_hits c + 1, ce_cache := touch key (ce_cache c)\<rparr>, Inr d)
          | _ \<Rightarrow>
              let c1 = c\<lparr>ce_misses := ce_misses c + 1\<rparr> in
              case evaluate (ce_engine c) q (case now of None \<Rightarrow> clock | Some t \<Rightarrow> t) of
                Inl x \<Rightarrow> (c1, Inl x)
              | Inr d \<Rightarrow>
                  (if now = None \<and> dc_reason d \<noteq> ''future_request''
                   then c1\<lparr>ce_cache := evict (ce_capacity c) (put_last key d (ce_cache c))\<rparr> else c1, Inr d))"

section \<open>Facts about the ordered dictionary\<close>

lemma map_of_filter_neq: "map_of (filter (\<lambda>(k', _). k' \<noteq> k) m) j = (if j = k then None else map_of m j)"
  by (induction m) auto

lemma map_of_filter_eq: "map_of (filter (\<lambda>(k', _). k' = k) m) j = (if j = k then map_of m j else None)"
  by (induction m) auto

lemma map_of_touch [simp]: "map_of (touch k m) = map_of m"
  by (rule ext) (simp add: touch_def map_of_filter_neq map_of_filter_eq map_add_def split: option.splits)

lemma map_of_put_last: "map_of (put_last k v m) = (map_of m)(k \<mapsto> v)"
  by (rule ext) (simp add: put_last_def map_of_filter_neq map_add_def split: option.splits)

lemma set_touch [simp]: "set (touch k m) = set m"
  by (auto simp: touch_def)

lemma set_put_last: "set (put_last k v m) \<subseteq> insert (k, v) (set m)"
  by (auto simp: put_last_def)

lemma length_touch [simp]: "length (touch k m) = length m"
proof -
  have "length (filter P m) + length (filter (\<lambda>x. \<not> P x) m) = length m" for P
    by (rule sum_length_filter_compl)
  from this [of "\<lambda>(k', _). k' = k"] show ?thesis by (simp add: touch_def case_prod_unfold)
qed

lemma distinct_keys_filter: "distinct (map fst m) \<Longrightarrow> distinct (map fst (filter P m))"
  by (induction m) auto

lemma distinct_touch: "distinct (map fst m) \<Longrightarrow> distinct (map fst (touch k m))"
  by (auto simp: touch_def distinct_keys_filter)

lemma distinct_put_last: "distinct (map fst m) \<Longrightarrow> distinct (map fst (put_last k v m))"
  by (auto simp: put_last_def distinct_keys_filter)

lemma evict_drop: "evict cap m = drop (length m - cap) m"
proof (induction cap m rule: evict.induct)
  case (1 cap m)
  show ?case
  proof (cases "length m > cap")
    case True
    then obtain x r where m: "m = x # r" by (cases m) auto
    have "evict cap m = evict cap r" using True by (subst evict.simps) (simp add: m)
    with True 1 show ?thesis by (simp add: m Suc_diff_le)
  qed (simp add: evict.simps [of cap m])
qed

lemma evict_length: "length (evict cap m) \<le> cap"
  by (simp add: evict_drop)

lemma set_evict: "set (evict cap m) \<subseteq> set m"
  by (simp add: evict_drop set_drop_subset)

lemma distinct_evict: "distinct (map fst m) \<Longrightarrow> distinct (map fst (evict cap m))"
  by (simp add: evict_drop flip: drop_map)

section \<open>Every cached decision is one the engine made\<close>

text \<open>
  \<open>answered e key d\<close>: the decision is what the engine said, at some time, of a request with
  this digest while the snapshot had this digest.
\<close>

definition answered :: "cache_key \<Rightarrow> decision \<Rightarrow> bool" where
  "answered key d \<longleftrightarrow> (\<exists>e q t. policy_digest e = Inr (fst key) \<and> request_digest q = Inr (snd key)
     \<and> evaluate e q t = Inr d \<and> dc_reason d \<noteq> ''future_request'')"

definition cache_inv :: "cached_engine \<Rightarrow> bool" where
  "cache_inv c \<longleftrightarrow> 1 \<le> ce_capacity c \<and> length (ce_cache c) \<le> ce_capacity c
     \<and> distinct (map fst (ce_cache c))
     \<and> (\<forall>(k, d)\<in>set (ce_cache c). fst k = ce_policy_digest c \<and> answered k d)"

lemma cached_engine_init_inv: "cached_engine_init e cap = Inr c \<Longrightarrow> cache_inv c"
  by (auto simp: cached_engine_init_def cache_inv_def res_simps split: if_splits)

lemma cache_clear_inv: "cache_inv c \<Longrightarrow> cache_inv (fst (cache_clear c))"
  by (auto simp: cache_clear_def cache_inv_def split: sum.splits)

lemma refresh_inv: "cache_inv c \<Longrightarrow> cache_inv (refresh c pd)"
  by (auto simp: refresh_def cache_inv_def)

lemma refresh_simps [simp]:
  "ce_policy_digest (refresh c pd) = pd" "ce_engine (refresh c pd) = ce_engine c"
  "ce_capacity (refresh c pd) = ce_capacity c"
  by (auto simp: refresh_def)

lemma store_inv:
  assumes inv: "cache_inv c" and ans: "answered (ce_policy_digest c, rd) d"
  shows "cache_inv (c\<lparr>ce_misses := n, ce_cache := evict (ce_capacity c) (put_last (ce_policy_digest c, rd) d (ce_cache c))\<rparr>)"
proof -
  let ?m = "put_last (ce_policy_digest c, rd) d (ce_cache c)"
  have dm: "distinct (map fst ?m)" using inv by (simp add: cache_inv_def distinct_put_last)
  have "set (evict (ce_capacity c) ?m) \<subseteq> insert ((ce_policy_digest c, rd), d) (set (ce_cache c))"
    using set_evict set_put_last by fastforce
  then show ?thesis
    using inv ans distinct_evict [OF dm] evict_length [of "ce_capacity c" ?m]
    by (auto simp: cache_inv_def)
qed

lemma cache_evaluate_inv:
  assumes inv: "cache_inv c" and ev: "cache_evaluate c q now clock = (c', r)"
  shows "cache_inv c'"
proof (cases "policy_digest (ce_engine c)")
  case (Inl x)
  with ev inv show ?thesis by (auto simp: cache_evaluate_def)
next
  case (Inr pd)
  let ?c = "refresh c pd"
  have inv': "cache_inv ?c" using inv by (rule refresh_inv)
  then have m: "cache_inv (?c\<lparr>ce_misses := n\<rparr>)" "cache_inv (?c\<lparr>ce_hits := n, ce_cache := touch k (ce_cache ?c)\<rparr>)" for n k
    by (auto simp: cache_inv_def distinct_touch)
  have s: "cache_inv (?c\<lparr>ce_misses := n, ce_cache := evict (ce_capacity ?c) (put_last (pd, rd) d (ce_cache ?c))\<rparr>)"
    if "request_digest q = Inr rd" "evaluate (ce_engine c) q t = Inr d" "dc_reason d \<noteq> ''future_request''"
    for n rd d t
    using store_inv [OF inv', of rd d n] that Inr by (auto simp: answered_def)
  show ?thesis
    using ev Inr inv' m s
    by (auto simp: cache_evaluate_def Let_def split: sum.splits option.splits if_splits)
qed

text \<open>The answer is the engine's at this time, or one it gave before for the same digests.\<close>

lemma cache_evaluate_answer:
  assumes "cache_inv c" "cache_evaluate c q now clock = (c', Inr d)"
  shows "evaluate (ce_engine c) q (case now of None \<Rightarrow> clock | Some t \<Rightarrow> t) = Inr d
    \<or> (now = None \<and> (\<exists>pd rd. policy_digest (ce_engine c) = Inr pd \<and> request_digest q = Inr rd
         \<and> answered (pd, rd) d))"
proof (cases "policy_digest (ce_engine c)")
  case (Inr pd)
  have "cache_inv (refresh c pd)" using assms(1) by (rule refresh_inv)
  then have a: "map_of (ce_cache (refresh c pd)) (pd, rd) = Some d \<Longrightarrow> answered (pd, rd) d" for rd
    by (auto simp: cache_inv_def dest: map_of_SomeD)
  show ?thesis
    using assms(2) Inr a
    by (auto simp: cache_evaluate_def Let_def split: sum.splits option.splits if_splits)
qed (use assms(2) in \<open>auto simp: cache_evaluate_def\<close>)

text \<open>
  A cached decision does not age: once stored, it is returned whatever the clock reads, also
  when the engine itself would then call the request stale.
\<close>

lemma evict_put_last: "1 \<le> cap \<Longrightarrow> map_of (evict cap (put_last k v m)) k = Some v"
proof -
  assume cap: "1 \<le> cap"
  define n where "n = length (put_last k v m) - cap"
  let ?f = "filter (\<lambda>(k', _). k' \<noteq> k) m"
  have "n \<le> length ?f" using cap by (simp add: n_def put_last_def)
  moreover have "drop n [(k, v)] = (if n = 0 then [(k, v)] else [])" by (cases n) auto
  ultimately have "drop n (?f @ [(k, v)]) = drop n ?f @ [(k, v)]" by simp
  then have "evict cap (put_last k v m) = drop n ?f @ [(k, v)]"
    unfolding evict_drop n_def [symmetric] by (simp add: put_last_def)
  moreover have "map_of (drop n ?f) k = None"
    by (auto simp: map_of_eq_None_iff dest: in_set_dropD)
  ultimately show ?thesis by (simp add: map_add_def)
qed

lemma cache_hit_any_time:
  assumes "cache_inv c" "cache_evaluate c q None t1 = (c', Inr d)" "dc_reason d \<noteq> ''future_request''"
  shows "snd (cache_evaluate c' q None t2) = Inr d"
proof -
  from assms(2) obtain pd rd where pd: "policy_digest (ce_engine c) = Inr pd" and rd: "request_digest q = Inr rd"
    by (auto simp: cache_evaluate_def Let_def split: sum.splits)
  have cap: "1 \<le> ce_capacity c" using assms(1) by (simp add: cache_inv_def)
  have "map_of (ce_cache c') (pd, rd) = Some d \<and> ce_policy_digest c' = pd \<and> ce_engine c' = ce_engine c"
    using assms(2,3) pd rd evict_put_last [OF cap]
    by (auto simp: cache_evaluate_def Let_def split: option.splits sum.splits if_splits)
  then show ?thesis using pd rd by (simp add: cache_evaluate_def Let_def refresh_def)
qed

end
