(* ===== verification/Clock.thy ===== *)
theory Clock
  imports PyTime
begin

text \<open>
  \<open>trust.py\<close>: a clock that refuses readings that go back or jump too far ahead. The reading of
  the source is an argument of \<open>clock_now\<close>; \<open>None\<close> stands for a value that is not a
  \<open>datetime\<close>.
\<close>

record trusted_clock =
  tc_max_jump :: int
  tc_last :: "datetime option"

definition trusted_clock_init :: "json \<Rightarrow> trusted_clock res" where
  "trusted_clock_init max_jump =
     (if \<not> is_int_nb max_jump \<or> the_int max_jump < 1
      then Inl (ValueError ''max_forward_jump_seconds must be a positive integer'')
      else rbind (timedelta_seconds (the_int max_jump)) (\<lambda>us. Inr \<lparr>tc_max_jump = us, tc_last = None\<rparr>))"

definition clock_now :: "trusted_clock \<Rightarrow> datetime option \<Rightarrow> trusted_clock \<times> datetime res" where
  "clock_now c reading = (case reading of
      None \<Rightarrow> (c, Inl (TrustedClockError ''time source must return a timezone-aware datetime''))
    | Some candidate \<Rightarrow>
        if naive candidate
          then (c, Inl (TrustedClockError ''time source must return a timezone-aware datetime''))
        else (case tc_last c of
          None \<Rightarrow> (c\<lparr>tc_last := Some candidate\<rparr>, Inr candidate)
        | Some prev \<Rightarrow>
            if dt_us candidate < dt_us prev then (c, Inl (TrustedClockError ''time moved backwards: ''))
            else if dt_us candidate - dt_us prev > tc_max_jump c
              then (c, Inl (TrustedClockError ''time jumped forward beyond ''))
            else (c\<lparr>tc_last := Some candidate\<rparr>, Inr candidate)))"

definition clock_reset :: "trusted_clock \<Rightarrow> trusted_clock" where
  "clock_reset c = c\<lparr>tc_last := None\<rparr>"

text \<open>A sequence of readings and the times the clock returned for them.\<close>

fun clock_run :: "trusted_clock \<Rightarrow> datetime option list \<Rightarrow> trusted_clock \<times> datetime list" where
  "clock_run c [] = (c, [])"
| "clock_run c (x # xs) =
     (case clock_now c x of (c', r) \<Rightarrow>
        (case clock_run c' xs of (c'', ts) \<Rightarrow>
          (c'', case r of Inl _ \<Rightarrow> ts | Inr t \<Rightarrow> t # ts)))"

section \<open>Accepted times\<close>

definition clock_inv :: "trusted_clock \<Rightarrow> bool" where
  "clock_inv c \<longleftrightarrow> 1000000 \<le> tc_max_jump c \<and> (\<forall>t. tc_last c = Some t \<longrightarrow> \<not> naive t)"

lemma trusted_clock_init_inv: "trusted_clock_init j = Inr c \<Longrightarrow> clock_inv c \<and> tc_last c = None"
  by (auto simp: trusted_clock_init_def timedelta_seconds_def res_simps clock_inv_def seconds_def split: if_splits)

lemma clock_now_cases:
  assumes "clock_now c x = (c', r)"
  obtains (refused) msg where "c' = c" "r = Inl (TrustedClockError msg)"
  | (accepted) t where "x = Some t" "\<not> naive t" "r = Inr t" "c' = c\<lparr>tc_last := Some t\<rparr>"
      "\<And>p. tc_last c = Some p \<Longrightarrow> dt_us p \<le> dt_us t \<and> dt_us t \<le> dt_us p + tc_max_jump c"
  using assms by (auto simp: clock_now_def split: option.splits if_splits)

text \<open>Between two resets the returned times never decrease and never jump too far.\<close>

definition steady :: "int \<Rightarrow> datetime list \<Rightarrow> bool" where
  "steady jump ts \<longleftrightarrow> list_all (\<lambda>t. \<not> naive t) ts \<and>
     list_all (\<lambda>(a, b). dt_us a \<le> dt_us b \<and> dt_us b \<le> dt_us a + jump) (zip ts (tl ts))"

lemma steady_Cons: "steady j (a # ts) \<longleftrightarrow> \<not> naive a \<and> steady j ts
    \<and> (ts \<noteq> [] \<longrightarrow> dt_us a \<le> dt_us (hd ts) \<and> dt_us (hd ts) \<le> dt_us a + j)"
  by (cases ts) (auto simp: steady_def)

lemma clock_run_steady:
  "clock_inv c \<Longrightarrow> clock_run c xs = (c', ts) \<Longrightarrow>
    clock_inv c' \<and> tc_max_jump c' = tc_max_jump c \<and> tc_last c' = (if ts = [] then tc_last c else Some (last ts))
    \<and> steady (tc_max_jump c) (case tc_last c of None \<Rightarrow> ts | Some p \<Rightarrow> p # ts)"
proof (induction xs arbitrary: c ts)
  case Nil
  then show ?case by (auto simp: steady_def clock_inv_def split: option.splits)
next
  case (Cons x xs)
  obtain c1 r where 1: "clock_now c x = (c1, r)" by fastforce
  obtain ts1 where 2: "clock_run c1 xs = (c', ts1)" "ts = (case r of Inl _ \<Rightarrow> ts1 | Inr t \<Rightarrow> t # ts1)"
    using Cons.prems(2) 1 by (auto split: prod.splits)
  from 1 show ?case
  proof (cases rule: clock_now_cases)
    case (refused msg)
    with 2 Cons.IH [of c ts1] Cons.prems(1) show ?thesis by (simp split: option.splits)
  next
    case (accepted t)
    have inv: "clock_inv c1" using accepted Cons.prems(1) by (simp add: clock_inv_def)
    have tc: "tc_last c1 = Some t" "tc_max_jump c1 = tc_max_jump c" using accepted by simp_all
    from Cons.IH [OF inv 2(1)] have IH: "clock_inv c'" "tc_max_jump c' = tc_max_jump c"
      "tc_last c' = Some (last (t # ts1))" "steady (tc_max_jump c) (t # ts1)"
      unfolding tc by auto
    have ts: "ts = t # ts1" using 2(2) accepted(3) by simp
    have "steady (tc_max_jump c) (p # t # ts1)" if "tc_last c = Some p" for p
      using that IH(4) accepted(5) [OF that] Cons.prems(1) by (simp add: steady_Cons clock_inv_def)
    with IH ts show ?thesis by (auto split: option.splits)
  qed
qed

text \<open>A clock never refuses a reading that is steady with respect to the last one.\<close>

lemma clock_now_accepts:
  "\<not> naive t \<Longrightarrow> (\<And>p. tc_last c = Some p \<Longrightarrow> dt_us p \<le> dt_us t \<and> dt_us t \<le> dt_us p + tc_max_jump c) \<Longrightarrow>
    clock_now c (Some t) = (c\<lparr>tc_last := Some t\<rparr>, Inr t)"
  by (auto simp: clock_now_def split: option.splits)

end
