(* ===== verification/Semantics.thy ===== *)
theory Semantics
  imports Policy
begin

text \<open>
  \<open>semantics.py\<close>: static checks over a policy snapshot (\<open>PolicyInvariants.analyze\<close>) and
  the explanation of one decision. The heuristic glob containment is three-valued:
  \<open>None\<close> stands for "unknown".
\<close>

section \<open>Glob containment\<close>

definition covers :: "string \<Rightarrow> string \<Rightarrow> bool option" where
  "covers pattern candidate =
     (if pattern = ''*'' \<or> pattern = candidate then Some True
      else if candidate = ''*'' then Some False
      else if CHR ''*'' \<notin> set pattern \<and> CHR ''?'' \<notin> set pattern \<and> CHR ''['' \<notin> set pattern
        then Some False
      else if CHR ''*'' \<notin> set candidate \<and> CHR ''?'' \<notin> set candidate \<and> CHR ''['' \<notin> set candidate
        then Some (fnmatchcase candidate pattern)
      else None)"

text \<open>The inner loop: whether a pattern was found and whether one was unknown before it.\<close>

fun covers_one :: "string list \<Rightarrow> string \<Rightarrow> bool \<Rightarrow> bool option" where
  "covers_one [] candidate unknown = (if unknown then None else Some False)"
| "covers_one (p # ps) candidate unknown =
     (case covers p candidate of
        Some True \<Rightarrow> Some True
      | Some False \<Rightarrow> covers_one ps candidate unknown
      | None \<Rightarrow> covers_one ps candidate True)"

fun covers_all :: "string list \<Rightarrow> string list \<Rightarrow> bool option" where
  "covers_all patterns [] = Some True"
| "covers_all patterns (c # cs) =
     (case covers_one patterns c False of
        Some True \<Rightarrow> covers_all patterns cs
      | Some False \<Rightarrow> Some False
      | None \<Rightarrow> None)"

definition set_covers :: "string list \<Rightarrow> string list \<Rightarrow> bool option" where
  "set_covers patterns candidates =
     (if ''*'' \<in> set patterns then Some True
      else if candidates = [] then Some True
      else covers_all patterns candidates)"

section \<open>Static checks\<close>

record rule_invariant =
  ri_check :: string
  ri_rule_id :: "string option"
  ri_passes :: bool
  ri_detail :: string

definition rule_invariant_to_dict :: "rule_invariant \<Rightarrow> dict" where
  "rule_invariant_to_dict f =
     [(''check'', JStr (ri_check f)),
      (''rule_id'', case ri_rule_id f of None \<Rightarrow> JNull | Some s \<Rightarrow> JStr s),
      (''passes'', JBool (ri_passes f)), (''detail'', JStr (ri_detail f))]"

definition failing :: "string \<Rightarrow> string option \<Rightarrow> string \<Rightarrow> rule_invariant" where
  "failing check rid detail =
     \<lparr>ri_check = check, ri_rule_id = rid, ri_passes = False, ri_detail = detail\<rparr>"

definition shadows :: "policy_rule \<Rightarrow> policy_rule \<Rightarrow> bool" where
  "shadows deny allow \<longleftrightarrow> covers (pr_target deny) (pr_target allow) = Some True
     \<and> set_covers (pr_actions deny) (pr_actions allow) = Some True
     \<and> set_covers (pr_subjects deny) (pr_subjects allow) = Some True
     \<and> set_covers (pr_purposes deny) (pr_purposes allow) = Some True"

definition allow_findings :: "string list \<Rightarrow> policy_rule \<Rightarrow> rule_invariant list" where
  "allow_findings trusted r =
     (if pr_effect r \<noteq> Allow then []
      else (if pr_issuer r \<in> set trusted then []
            else [failing ''untrusted_allow'' (Some (pr_policy_id r))
                    ''allow rule issuer is not trusted; the rule can never grant''])
        @ (if pr_actions r = [''*''] \<and> pr_subjects r = [''*''] \<and> pr_purposes r = [''*'']
              \<and> pr_target r = ''*''
           then [failing ''allow_all'' (Some (pr_policy_id r))
                   ''rule allows every action, subject, purpose, and target'']
           else []))"

definition shadow_findings :: "policy_rule \<Rightarrow> policy_rule \<Rightarrow> rule_invariant list" where
  "shadow_findings allow deny =
     (if pr_policy_id allow = pr_policy_id deny then []
      else if shadows deny allow
        then [failing ''deny_shadows_allow'' (Some (pr_policy_id allow))
                (''allow can never win: deny rule '' @ pr_policy_id deny
                 @ '' applies on every matching request'')]
      else [])"

text \<open>\<open>PolicyInvariants.analyze\<close>\<close>

definition analyze :: "policy_rule list \<Rightarrow> string list \<Rightarrow> rule_invariant list" where
  "analyze rules trusted =
     (if rules = [] then [failing ''empty_policy'' None ''policy has no rules'']
      else
        let allows = filter (\<lambda>r. pr_effect r = Allow) rules;
            denies = filter (\<lambda>r. pr_effect r = Deny) rules
        in concat (map (allow_findings trusted) rules)
           @ concat (map (\<lambda>a. concat (map (shadow_findings a) denies)) allows))"

section \<open>Explanations\<close>

text \<open>The reason a rule is excluded; \<open>None\<close> when it applies.\<close>

definition exclusion :: "policy_engine \<Rightarrow> action_request \<Rightarrow> datetime \<Rightarrow> policy_rule \<Rightarrow> string option res" where
  "exclusion e q current r =
     rbind (validate_rule r False) (\<lambda>_.
       if pr_effect r = Allow \<and> pr_issuer r \<notin> set (pe_trusted e) then Inr (Some ''untrusted_issuer'')
       else if \<not> matches_any [pr_target r] (rq_target q) then Inr (Some ''target_mismatch'')
       else if \<not> matches_any (pr_actions r) (rq_action q) then Inr (Some ''action_mismatch'')
       else if \<not> matches_any (pr_subjects r) (rq_agent q) then Inr (Some ''subject_mismatch'')
       else if \<not> matches_any (pr_purposes r) (rq_purpose q) then Inr (Some ''purpose_mismatch'')
       else rbind (constraints_hold r q current) (\<lambda>b.
         Inr (if b then None else Some ''constraints_not_met'')))"

definition explain_decision :: "policy_engine \<Rightarrow> action_request \<Rightarrow> datetime \<Rightarrow> dict res" where
  "explain_decision e q now =
     rbind (rmapM (\<lambda>r. rbind (exclusion e q now r) (\<lambda>x. Inr (r, x))) (pe_rules e)) (\<lambda>rs.
     rbind (evaluate e q now) (\<lambda>d. Inr
       [(''decision'', JDict (decision_to_dict d)),
        (''applicable_rules'', JList (map (\<lambda>(r, _). JDict
            [(''policy_id'', JStr (pr_policy_id r)), (''effect'', JStr (effect_name (pr_effect r))),
             (''priority'', pr_priority r)]) (filter (\<lambda>(_, x). x = None) rs))),
        (''excluded_rules'', JList (map (\<lambda>(r, x). JDict
            [(''policy_id'', JStr (pr_policy_id r)), (''reason'', JStr (the x))])
            (filter (\<lambda>(_, x). x \<noteq> None) rs)))]))"

section \<open>Containment is sound where it is decided\<close>

lemma covers_sound: "covers p c = Some True \<Longrightarrow> fnmatchcase v c \<Longrightarrow> fnmatchcase v p"
  by (auto simp: covers_def fnmatch_literal literal_pat_def split: if_splits)

lemma covers_one_sound: "covers_one ps c u = Some True \<Longrightarrow> fnmatchcase v c \<Longrightarrow> matches_any ps v"
  by (induction ps c u rule: covers_one.induct)
    (auto simp: matches_any_def dest: covers_sound split: option.splits bool.splits if_splits)

lemma covers_all_sound: "covers_all ps cs = Some True \<Longrightarrow> matches_any cs v \<Longrightarrow> matches_any ps v"
  by (induction ps cs rule: covers_all.induct)
    (auto simp: matches_any_def dest: covers_one_sound [unfolded matches_any_def]
      split: option.splits bool.splits)

lemma set_covers_sound: "set_covers ps cs = Some True \<Longrightarrow> matches_any cs v \<Longrightarrow> matches_any ps v"
  by (auto simp: set_covers_def matches_any_star covers_all_sound split: if_splits)
    (simp add: matches_any_def)

text \<open>A deny rule without constraints applies whenever the allow rule it shadows does.\<close>

lemma constraints_hold_Nil: "pr_constraints r = [] \<Longrightarrow> constraints_hold r q now = Inr True"
  by (simp add: constraints_hold_def context_hold_def physical_hold_def limit_step_def zone_step_def
      dict_simps required_ok_def)

lemma shadow_applies:
  assumes "shadows deny allow" "pr_effect deny = Deny" "pr_constraints deny = []" "applies e q now allow"
  shows "applies e q now deny"
  using assms applies_matches [OF assms(4)]
  by (auto simp: shadows_def applies_def rule_applies_def constraints_hold_Nil
      dest: covers_sound set_covers_sound)

lemma shadowed_never_grants:
  assumes "shadows deny allow" "pr_effect deny = Deny" "pr_constraints deny = []"
    "deny \<in> set (pe_rules e)" "applies e q now allow"
  shows "\<not> grants e q now"
  using shadow_applies [OF assms(1-3,5)] assms(2,4) by (auto simp: grants_def)

text \<open>Every shadowing the analysis reports is one of the relation \<open>shadows\<close>.\<close>

lemma analyze_shadow:
  assumes "f \<in> set (analyze rules trusted)" "ri_check f = ''deny_shadows_allow''"
  obtains allow deny where "allow \<in> set rules" "deny \<in> set rules" "pr_effect allow = Allow"
    "pr_effect deny = Deny" "shadows deny allow" "ri_rule_id f = Some (pr_policy_id allow)"
  using assms
  by (auto simp: analyze_def Let_def allow_findings_def shadow_findings_def failing_def
      split: if_splits)

lemma exclusion_applies:
  "exclusion e q (eval_time q now) r = Inr None \<longleftrightarrow> validate_rule r False = Inr () \<and> applies e q now r"
  by (auto simp: exclusion_def applies_def rule_applies_def res_simps split: if_splits)

end
