(* ===== verification/ModelCheck.thy ===== *)
theory ModelCheck
  imports Policy
begin

text \<open>
  \<open>modelcheck.py\<close>: bounded enumeration of a request space. \<open>clocks i\<close> gives the two
  readings of \<open>utc_now()\<close> made for request \<open>i\<close>: the default \<open>issued_at\<close> of the request
  and the evaluation time. The text of an exception is cut at its type's name.
\<close>

definition product4 :: "string list \<Rightarrow> string list \<Rightarrow> string list \<Rightarrow> string list \<Rightarrow> (string \<times> string \<times> string \<times> string) list" where
  "product4 as ts acs ps = concat (map (\<lambda>a. concat (map (\<lambda>t. concat (map (\<lambda>c. map (\<lambda>p. (a, t, c, p)) ps) acs)) ts)) as)"

record mc_outcome =
  mo_agent :: string
  mo_target :: string
  mo_action :: string
  mo_purpose :: string
  mo_result :: "decision res"

text \<open>One round: building the request may raise, which stops the run; evaluating it may not.\<close>

definition mc_step ::
  "policy_engine \<Rightarrow> (nat \<Rightarrow> datetime \<times> datetime) \<Rightarrow> nat \<times> string \<times> string \<times> string \<times> string \<Rightarrow> mc_outcome res" where
  "mc_step e clocks x = (case x of (i, agent, target, action, purpose) \<Rightarrow>
     rbind (action_request_init (JStr (''urn:kinegrant:modelcheck:request:'' @ nat_str i)) (JStr agent)
              (JStr target) (JStr action) (JStr purpose) (fst (clocks i)) (JDict [])) (\<lambda>q.
       Inr \<lparr>mo_agent = agent, mo_target = target, mo_action = action, mo_purpose = purpose,
            mo_result = evaluate e q (snd (clocks i))\<rparr>))"

fun mo_allowed :: "decision res \<Rightarrow> bool" where
  "mo_allowed (Inr d) = dc_allowed d" | "mo_allowed (Inl _) = False"

fun mo_matched :: "decision res \<Rightarrow> string list" where
  "mo_matched (Inr d) = dc_matched d" | "mo_matched (Inl _) = []"

definition mo_raised :: "mc_outcome \<Rightarrow> bool" where
  "mo_raised r \<longleftrightarrow> (case mo_result r of Inl _ \<Rightarrow> True | Inr _ \<Rightarrow> False)"

record rule_stat =
  rs_policy_id :: string
  rs_effect :: effect
  rs_applicable :: nat
  rs_winning :: nat
  rs_reachable :: bool

definition applicable_outcomes :: "mc_outcome list \<Rightarrow> policy_rule \<Rightarrow> mc_outcome list" where
  "applicable_outcomes outs r = filter (\<lambda>x. pr_policy_id r \<in> set (mo_matched (mo_result x))) outs"

definition winning_outcomes :: "mc_outcome list \<Rightarrow> policy_rule \<Rightarrow> mc_outcome list" where
  "winning_outcomes outs r = filter (\<lambda>x. if pr_effect r = Allow then mo_allowed (mo_result x)
      else \<not> mo_raised x \<and> \<not> mo_allowed (mo_result x)) (applicable_outcomes outs r)"

definition rule_stat_of :: "mc_outcome list \<Rightarrow> policy_rule \<Rightarrow> rule_stat" where
  "rule_stat_of outs r =
     \<lparr>rs_policy_id = pr_policy_id r, rs_effect = pr_effect r,
      rs_applicable = length (applicable_outcomes outs r),
      rs_winning = length (winning_outcomes outs r), rs_reachable = (winning_outcomes outs r \<noteq> [])\<rparr>"

record mc_report =
  mr_space :: nat
  mr_outcomes :: "mc_outcome list"
  mr_evaluated :: nat
  mr_allowed :: nat
  mr_denied :: nat
  mr_exceptions :: nat
  mr_rules :: "rule_stat list"
  mr_shadowed :: "string list"
  mr_pass :: bool

definition bounded_model_check ::
  "policy_engine \<Rightarrow> string list \<Rightarrow> string list \<Rightarrow> string list \<Rightarrow> string list \<Rightarrow> int
    \<Rightarrow> (nat \<Rightarrow> datetime \<times> datetime) \<Rightarrow> mc_report res" where
  "bounded_model_check e agents targets actions purposes max_requests clocks =
     (if max_requests < 1 then Inl (ValueError ''max_requests must be a positive integer'')
      else
        let space = product4 agents targets actions purposes in
        rbind (rmapM (mc_step e clocks) (take (nat max_requests) (enumerate 0 space))) (\<lambda>outs.
        let exceptions = length (filter mo_raised outs);
            shadowed = map pr_policy_id (filter (\<lambda>r. pr_effect r = Allow
              \<and> applicable_outcomes outs r \<noteq> [] \<and> winning_outcomes outs r = []) (pe_rules e))
        in Inr \<lparr>mr_space = length space, mr_outcomes = outs, mr_evaluated = length outs,
            mr_allowed = length (filter (\<lambda>x. mo_allowed (mo_result x)) outs),
            mr_denied = length (filter (\<lambda>x. \<not> mo_allowed (mo_result x) \<and> \<not> mo_raised x) outs),
            mr_exceptions = exceptions, mr_rules = map (rule_stat_of outs) (pe_rules e),
            mr_shadowed = shadowed, mr_pass = (exceptions = 0 \<and> shadowed = [])\<rparr>))"

section \<open>What a report says\<close>

lemma mr_counts:
  assumes "bounded_model_check e as ts acs ps n clocks = Inr r"
  shows "mr_allowed r + mr_denied r + mr_exceptions r = mr_evaluated r"
    and "mr_evaluated r = min (nat n) (length as * (length ts * (length acs * length ps)))"
proof -
  have len: "length (product4 as ts acs ps) = length as * (length ts * (length acs * length ps))"
    by (simp add: product4_def length_concat comp_def sum_list_triv)
  obtain outs where o: "rmapM (mc_step e clocks) (take (nat n) (enumerate 0 (product4 as ts acs ps))) = Inr outs"
    and r: "mr_allowed r = length (filter (\<lambda>x. mo_allowed (mo_result x)) outs)"
      "mr_denied r = length (filter (\<lambda>x. \<not> mo_allowed (mo_result x) \<and> \<not> mo_raised x) outs)"
      "mr_exceptions r = length (filter mo_raised outs)" "mr_evaluated r = length outs"
    using assms by (auto simp: bounded_model_check_def Let_def res_simps split: if_splits)
  have ex: "mo_raised x \<Longrightarrow> \<not> mo_allowed (mo_result x)" for x
    by (auto simp: mo_raised_def split: sum.splits)
  have "length (filter (\<lambda>x. mo_allowed (mo_result x)) outs)
      + length (filter (\<lambda>x. \<not> mo_allowed (mo_result x) \<and> \<not> mo_raised x) outs)
      + length (filter mo_raised outs) = length outs"
    using ex by (induction outs) auto
  with r show "mr_allowed r + mr_denied r + mr_exceptions r = mr_evaluated r" by simp
  show "mr_evaluated r = min (nat n) (length as * (length ts * (length acs * length ps)))"
    using rmapM_length [OF o] len r(4) by simp
qed

text \<open>A passing report over the whole space: no request in it raises.\<close>

lemma mc_pass_total:
  assumes "bounded_model_check e as ts acs ps n clocks = Inr r" "mr_pass r"
    and "i < mr_evaluated r"
  shows "\<exists>d. mo_result (mr_outcomes r ! i) = Inr d"
proof -
  have "filter mo_raised (mr_outcomes r) = [] \<and> mr_evaluated r = length (mr_outcomes r)"
    using assms(1,2) by (auto simp: bounded_model_check_def Let_def res_simps split: if_splits)
  then have "\<not> mo_raised (mr_outcomes r ! i)" using assms(3) by (auto simp: filter_empty_conv)
  then show ?thesis by (auto simp: mo_raised_def split: sum.splits)
qed

end
