(* ===== verification/Demo.thy ===== *)
theory Demo
  imports GatekeeperSafety Cache Semantics ModelCheck
begin

text \<open>
  A concrete world in which the hypotheses of the properties hold: a toy signature scheme (the
  signature is the sum of the message's bytes, 64 times), one key, one request, one policy rule
  that allows everything, and the capability issued for the request.
\<close>

definition demo_sign :: "byte list \<Rightarrow> byte list" where
  "demo_sign m = replicate 64 (foldl (+) 0 m)"

definition demo_V :: verifier where
  "demo_V kt pub sig m \<longleftrightarrow> sig = demo_sign m"

definition demo_key :: key_pair where
  "demo_key = \<lparr>kp_type = Ed25519, kp_public = replicate 32 7, kp_sign = demo_sign\<rparr>"

definition demo_time :: "int \<Rightarrow> datetime" where
  "demo_time s = utc_dt (seconds s)"

definition demo_request :: action_request where
  "demo_request = \<lparr>rq_request_id = ''r1'', rq_agent = ''robot'', rq_target = ''door-7'',
     rq_action = ''kg.action.open'', rq_purpose = ''delivery'', rq_issued_at = demo_time 0, rq_context = []\<rparr>"

definition demo_rule :: policy_rule where
  "demo_rule = \<lparr>pr_policy_id = ''p1'', pr_issuer = ''owner'', pr_target = ''*'', pr_effect = Allow,
     pr_actions = [''*''], pr_subjects = [''*''], pr_purposes = [''*''], pr_constraints = [],
     pr_obligations = [JStr ''emitActionReceipt''], pr_priority = JInt 0, pr_source = []\<rparr>"

definition demo_engine :: policy_engine where
  "demo_engine = \<lparr>pe_rules = [demo_rule], pe_trusted = [''owner''], pe_require_known = True,
     pe_max_age = seconds 300, pe_skew = seconds 5\<rparr>"

definition demo_gate :: gate_config where
  "demo_gate = \<lparr>gc_trusted = [kid demo_key], gc_revocations = None\<rparr>"

definition demo_nonce :: string where
  "demo_nonce = ''AAAAAAAAAAAAAAAAAAAAAAAA''"

lemma demo_good_key: "good_key demo_V demo_key"
  by (simp add: good_key_def demo_key_def demo_V_def demo_sign_def)

lemma demo_utc: "0 \<le> s \<Longrightarrow> s < 1000 \<Longrightarrow> utc_time (demo_time s)"
  by (simp add: utc_time_def demo_time_def seconds_def max_us_val)

lemma demo_aware [simp]: "\<not> naive (demo_time s)" "dt_us (demo_time s) = seconds s" "dt_tz (demo_time s) = Some 0"
  by (simp_all add: demo_time_def)

lemma demo_iso: "0 \<le> s \<Longrightarrow> s < 1000 \<Longrightarrow> \<exists>t. isoformat (demo_time s) = Inr t"
  using utc_time_iso [OF demo_utc] by blast

lemma demo_add: "0 \<le> s \<Longrightarrow> s + d < 1000 \<Longrightarrow> 0 \<le> d \<Longrightarrow> dt_add (demo_time s) (seconds d) = Inr (demo_time (s + d))"
  by (simp add: dt_add_Inr) (simp add: demo_time_def dt_valid_def dt_local_def seconds_def max_us_val)

lemma demo_valid: "0 \<le> s \<Longrightarrow> s < 1000 \<Longrightarrow> dt_valid (demo_time s)"
  by (simp add: demo_time_def dt_valid_def dt_local_def seconds_def max_us_val)

lemma demo_digest: "\<exists>h. request_digest demo_request = Inr h"
proof -
  obtain t where "isoformat (demo_time 0) = Inr t" using demo_iso [of 0] by auto
  then have "\<exists>d. request_to_dict demo_request = Inr d \<and> serializable (JDict d)"
    by (simp add: request_to_dict_def demo_request_def)
  then show ?thesis using digest_total by (fastforce simp: request_digest_def)
qed

lemma demo_policy_digest: "\<exists>pd. policy_digest demo_engine = Inr pd \<and> is_sha256_text pd"
proof -
  have "serializable (JDict
     [(''rules'', JList (map (\<lambda>r. JDict (rule_to_dict r)) (sort_key pr_policy_id (pe_rules demo_engine)))),
      (''trusted_policy_issuers'', JStrs (sort (remdups (pe_trusted demo_engine))))])"
    by (simp add: demo_engine_def rule_to_dict_def demo_rule_def JStrs_def max_safe_integer_def)
  from digest_total [OF this] obtain pd where "policy_digest demo_engine = Inr pd"
    by (auto simp: policy_digest_def)
  then show ?thesis using digest_shape by (auto simp: policy_digest_def)
qed

text \<open>The engine allows the request.\<close>

lemma demo_matches: "matches_any [''*''] s" "fnmatchcase s ''*''"
  using matches_any_star [of "[''*'']" s] by (auto simp: matches_any_def)

lemma demo_applies: "rule_applies demo_engine demo_request now demo_rule = Inr True"
  using demo_matches constraints_hold_Nil [of demo_rule]
  by (simp add: rule_applies_def demo_engine_def demo_rule_def)

lemma demo_evaluate_rules:
  assumes pd: "policy_digest e = Inr pd" and e: "pe_max_age e = seconds 300" "pe_skew e = seconds 5"
    and rules: "\<And>now. rfilter (rule_applies e demo_request now) (pe_rules e) = Inr [demo_rule]"
  obtains d where "evaluate e demo_request (demo_time 1) = Inr d" "dc_allowed d" "dc_matched d = [''p1'']"
    "dc_obligations d = [JStr ''emitActionReceipt'']" "request_digest demo_request = Inr (dc_request_digest d)"
    "dc_policy_digest d = pd" "dc_reason d = ''explicit_allow''"
proof -
  obtain h where h: "request_digest demo_request = Inr h" using demo_digest by blast
  have known: "known_action ''kg.action.open''" by code_simp
  have cur: "(demo_time 1)\<lparr>dt_tz := dt_tz (rq_issued_at demo_request)\<rparr> = demo_time 1"
    by (simp add: demo_request_def demo_time_def)
  have sorted: "sort_applicable [demo_rule] = Inr [demo_rule]"
    by (simp add: sort_applicable_def priority_key_def demo_rule_def num_of.simps)
  have decide: "decide_applicable demo_request pd [demo_rule] = Inr
      \<lparr>dc_allowed = True, dc_reason = ''explicit_allow'', dc_request_digest = h, dc_policy_digest = pd,
       dc_matched = [''p1''], dc_obligations = [JStr ''emitActionReceipt''], dc_tier = JInt 0\<rparr>"
    using h by (simp add: decide_applicable_def demo_rule_def py_set_def dget_or_def)
  have times: "dt_add (demo_time 1) (pe_skew e) = Inr (demo_time 6)"
      "dt_less (demo_time 6) (rq_issued_at demo_request) = Inr False"
      "dt_diff (demo_time 1) (rq_issued_at demo_request) = Inr (seconds 1)" "\<not> seconds 1 > pe_max_age e"
    using demo_add [of 1 5] by (simp_all add: e demo_request_def dt_less_def dt_diff_def seconds_def)
  have "evaluate e demo_request (demo_time 1) = decide_applicable demo_request pd [demo_rule]"
    unfolding evaluate_def Let_def cur pd times rules rbind_Inr sorted
    using demo_valid [of 1] known times by (simp add: demo_request_def)
  with decide h show thesis by (intro that) auto
qed

lemma demo_evaluate:
  obtains d where "evaluate demo_engine demo_request (demo_time 1) = Inr d" "dc_allowed d" "dc_matched d = [''p1'']"
    "dc_obligations d = [JStr ''emitActionReceipt'']" "request_digest demo_request = Inr (dc_request_digest d)"
    "is_sha256_text (dc_policy_digest d)" "dc_reason d = ''explicit_allow''"
proof -
  obtain pd where pd: "policy_digest demo_engine = Inr pd" "is_sha256_text pd" using demo_policy_digest by blast
  have "rfilter (rule_applies demo_engine demo_request now) (pe_rules demo_engine) = Inr [demo_rule]" for now
    using demo_applies by (simp add: demo_engine_def)
  then obtain d where "evaluate demo_engine demo_request (demo_time 1) = Inr d" "dc_allowed d" "dc_matched d = [''p1'']"
    "dc_obligations d = [JStr ''emitActionReceipt'']" "request_digest demo_request = Inr (dc_request_digest d)"
    "dc_policy_digest d = pd" "dc_reason d = ''explicit_allow''"
    using demo_evaluate_rules [OF pd(1)] by (auto simp: demo_engine_def)
  with pd(2) show thesis by (intro that) auto
qed

text \<open>A capability for it, accepted by the gate.\<close>

lemma demo_issue:
  obtains d env where "evaluate demo_engine demo_request (demo_time 1) = Inr d" "dc_allowed d" "[] \<notin> set (dc_matched d)"
    "is_sha256_text (dc_policy_digest d)" "dc_obligations d = [JStr ''emitActionReceipt'']"
    "issue demo_key demo_request d 30 (demo_time 1) demo_nonce = Inr env"
proof -
  obtain d where d: "evaluate demo_engine demo_request (demo_time 1) = Inr d" "dc_allowed d" "dc_matched d = [''p1'']"
    "dc_obligations d = [JStr ''emitActionReceipt'']" "request_digest demo_request = Inr (dc_request_digest d)" "is_sha256_text (dc_policy_digest d)"
    by (rule demo_evaluate)
  obtain i x where iso: "isoformat (demo_time 1) = Inr i" "isoformat (demo_time 31) = Inr x"
    using demo_iso [of 1] demo_iso [of 31] by auto
  have "\<exists>env. issue demo_key demo_request d 30 (demo_time 1) demo_nonce = Inr env"
    by (rule issue_total [OF d(2,5) _ _ _ _ iso(1) _ iso(2)])
      (use d(3,4) demo_add [of 1 30] in \<open>auto simp: unknown_obligations_def KNOWN_OBLIGATIONS_def\<close>)
  with d show thesis by (auto intro: that)
qed

section \<open>A receipt\<close>

lemma receipt_append_plain:
  assumes "ra_result a = ''succeeded''" "ra_evidence a = JNull" "ra_obligations a = JNull" "ra_failure a = JNull"
    "dindex (vc_claims vc) ''capability_id'' = Inr (JStr c)" "rl_log l = []"
    "receipt_window (vc_claims vc) (ra_started a) (ra_finished a) = Inr ()"
    "executed_action (vc_claims vc) (ra_request a) = Inr act" "dindex (vc_claims vc) ''request_digest'' = Inr rd"
    "dindex (vc_claims vc) ''agent'' = Inr agent" "dindex (vc_claims vc) ''target'' = Inr target"
    "isoformat (ra_started a) = Inr st" "isoformat (ra_finished a) = Inr ft"
    "\<not> dhas (vc_claims vc) ''approval_tier''" "\<not> dhas (vc_claims vc) ''constraints''"
    "\<not> dhas (vc_claims vc) ''parent_capability_id''"
    "list_all serializable [fst act, snd act, rd, agent, target]"
  obtains env where "receipt_append l vc a = Inr (l\<lparr>rl_log := [env]\<rparr>, env)"
proof -
  define body where "body = receipt_body (rl_key l) (vc_claims vc) a (JStr c) rd agent target (JStr ''0.1'') act st ft JNull"
  have opt: "optional_members (vc_claims vc) a = []" using assms by (simp add: optional_members_def)
  have s: "serializable (JDict body)" using assms opt by (simp add: body_def receipt_body_def)
  then obtain rid where rid: "content_id ''kinegrant:receipt'' (JDict body) = Inr rid" using content_id_total by blast
  have "serializable (JDict (dset body ''receipt_id'' (JStr rid)))"
    using s by (simp add: body_def receipt_body_def opt)
  from sign_envelope_total [OF this] obtain env where "sign_envelope (rl_key l) (dset body ''receipt_id'' (JStr rid)) = Inr env" ..
  then have "receipt_append l vc a = Inr (l\<lparr>rl_log := [env]\<rparr>, env)"
    using assms rid unfolding body_def
    by (simp add: receipt_append_def Let_def previous_hash_def validate_obligation_results_def)
  then show thesis by (rule that)
qed

definition demo_receipt_args :: receipt_args where
  "demo_receipt_args = \<lparr>ra_result = ''succeeded'', ra_evidence = JNull, ra_started = demo_time 2,
     ra_finished = demo_time 3, ra_request = Some demo_request, ra_obligations = JNull, ra_failure = JNull\<rparr>"

text \<open>The whole path of the demo: issued, authorized, receipted.\<close>

lemma demo_path:
  obtains env p c x renv where
    "authorize_checks demo_V demo_gate env demo_request (demo_time 2) None = Inr (p, c, x)"
    "verify_envelope demo_V env = Inr p" "dget p ''obligations'' = JList [JStr ''emitActionReceipt'']" "dget p ''capability_id'' = JStr c"
    "\<And>t. receipt_append (receipt_log_init demo_key) \<lparr>vc_claims = p, vc_authorized_at = t\<rparr> demo_receipt_args
       = Inr ((receipt_log_init demo_key)\<lparr>rl_log := [renv]\<rparr>, renv)"
proof -
  obtain d env where d: "evaluate demo_engine demo_request (demo_time 1) = Inr d" "dc_allowed d" "[] \<notin> set (dc_matched d)"
    "is_sha256_text (dc_policy_digest d)" "dc_obligations d = [JStr ''emitActionReceipt'']"
    and iss: "issue demo_key demo_request d 30 (demo_time 1) demo_nonce = Inr env" by (rule demo_issue)
  obtain p c x where a: "authorize_checks demo_V demo_gate env demo_request (demo_time 2) None = Inr (p, c, x)"
    and v: "verify_envelope demo_V env = Inr p"
    using issue_authorized [OF iss demo_good_key, of demo_gate "demo_time 2"] d demo_utc [of 1]
    by (auto simp: demo_gate_def seconds_def demo_nonce_def)
  from iss obtain iat ex cid expires where sgn: "sign_envelope demo_key (dset (issue_body demo_key demo_request d iat ex demo_nonce) ''capability_id'' (JStr cid)) = Inr env"
    and iso: "isoformat (demo_time 1) = Inr iat" "dt_add (demo_time 1) (seconds 30) = Inr expires" "isoformat expires = Inr ex"
    by (rule issueE)
  have p: "p = issue_body demo_key demo_request d iat ex demo_nonce @ [(''capability_id'', JStr cid)]"
    using sign_verify(1) [OF demo_good_key sgn] v by (simp add: issue_body_def)
  have t: "parse_time (JStr iat) = Inr (demo_time 1)" "parse_time (JStr ex) = Inr (demo_time 31)"
    using utc_time_parse [OF demo_utc iso(1)] utc_time_parse [OF demo_utc [of 31]] iso demo_add [of 1 30] by auto
  obtain st ft where st: "isoformat (demo_time 2) = Inr st" "isoformat (demo_time 3) = Inr ft"
    using demo_iso [of 2] demo_iso [of 3] by auto
  have w: "receipt_window p (demo_time 2) (demo_time 3) = Inr ()"
    using t by (simp add: receipt_window_def time_field_def p issue_body_def dt_less_def seconds_def)
  have "\<exists>env. receipt_append (receipt_log_init demo_key) \<lparr>vc_claims = p, vc_authorized_at = t\<rparr> demo_receipt_args
       = Inr ((receipt_log_init demo_key)\<lparr>rl_log := [env]\<rparr>, env)" for t
    apply (rule receipt_append_plain [where l = "receipt_log_init demo_key" and a = demo_receipt_args
        and vc = "\<lparr>vc_claims = p, vc_authorized_at = t\<rparr>" and c = cid and st = st and ft = ft])
    using w st by (auto simp: demo_receipt_args_def receipt_log_init_def executed_action_def p issue_body_def)
  then obtain renv where r: "receipt_append (receipt_log_init demo_key) \<lparr>vc_claims = p, vc_authorized_at = demo_time 2\<rparr> demo_receipt_args
       = Inr ((receipt_log_init demo_key)\<lparr>rl_log := [renv]\<rparr>, renv)" by blast
  have "receipt_append (receipt_log_init demo_key) \<lparr>vc_claims = p, vc_authorized_at = t\<rparr> demo_receipt_args
      = receipt_append (receipt_log_init demo_key) \<lparr>vc_claims = p, vc_authorized_at = demo_time 2\<rparr> demo_receipt_args" for t
    by (simp add: receipt_append_def)
  with r have r: "receipt_append (receipt_log_init demo_key) \<lparr>vc_claims = p, vc_authorized_at = t\<rparr> demo_receipt_args
       = Inr ((receipt_log_init demo_key)\<lparr>rl_log := [renv]\<rparr>, renv)" for t by simp
  have ob: "dget p ''obligations'' = JList [JStr ''emitActionReceipt'']" using d(5) by (simp add: p issue_body_def)
  have "dget p ''capability_id'' = JStr c" using authorize_checks_sound(1) [OF a] by (simp add: authorized_def)
  from that [OF a v ob this r] show thesis .
qed

text \<open>The gatekeeper of the demo, over the process-local store, and its first call.\<close>

definition demo_gatekeeper :: "(memory_store, nat \<Rightarrow> datetime) gatekeeper" where
  "demo_gatekeeper = \<lparr>gk_verifier = demo_V, gk_consume = memory_consume, gk_gate = demo_gate, gk_sequence = [],
     gk_trusted = [kid demo_key], gk_revocations = None\<rparr>"

definition demo_execution :: "dict \<Rightarrow> (nat \<Rightarrow> datetime) execution" where
  "demo_execution env = \<lparr>ex_env = (\<lambda>_. demo_time 2), ex_capability = env, ex_request = demo_request,
     ex_now = demo_time 2, ex_parent = None, ex_actuator = (\<lambda>_. None), ex_result = ''succeeded'',
     ex_evidence = JNull, ex_obligations = JNull, ex_failure = JNull, ex_started = demo_time 2,
     ex_finished = demo_time 3\<rparr>"

definition demo_event :: "dict \<Rightarrow> (datetime \<times> exn option) gate_event" where
  "demo_event env = \<lparr>ge_env = (demo_time 2, None), ge_capability = env, ge_request = demo_request,
     ge_now = demo_time 2, ge_parent = None\<rparr>"

lemma demo_consume: "memory_consume [] clock c x = ([(c, x)], Inr True)"
  by (simp add: memory_consume_def memory_purge_def)

lemma demo_admits:
  assumes "authorize_checks demo_V demo_gate env demo_request (demo_time 2) None = Inr (p, c, x)"
  shows "gate_admits demo_gatekeeper (gatekeeper_start [] demo_key) (demo_execution env) [(c, x)]
    \<lparr>vc_claims = p, vc_authorized_at = demo_time 2\<rparr>"
  using assms
  by (simp add: gate_admits_def demo_gatekeeper_def demo_execution_def gatekeeper_start_def sequence_evaluate_def
      gatekeeper_revoked_def authorize_def demo_consume)

text \<open>The receipt of the demo verifies and fulfils the obligation; the call completes.\<close>

lemma demo_chain:
  assumes a: "authorize_checks demo_V demo_gate env demo_request (demo_time 2) None = Inr (p, c, x)"
    and cid: "dget p ''capability_id'' = JStr c"
    and r: "receipt_append (receipt_log_init demo_key) \<lparr>vc_claims = p, vc_authorized_at = t\<rparr> demo_receipt_args
       = Inr ((receipt_log_init demo_key)\<lparr>rl_log := [renv]\<rparr>, renv)"
  shows "verify_receipt_chain demo_V [renv] (Some [kid demo_key]) None = Inr True"
    "\<exists>q. verify_envelope demo_V renv = Inr q \<and> dget q ''capability_id'' = JStr c \<and> dget q ''obligation_results'' = JNull"
proof -
  have l: "rl_key (receipt_log_init demo_key) = demo_key" "rl_log (receipt_log_init demo_key) = []"
    by (simp_all add: receipt_log_init_def)
  have "verify_receipt_chain demo_V [] (Some [kid demo_key]) None = Inr True" by (simp add: verify_receipt_chain_def)
  with receipt_append_verifies [OF r, of demo_V "Some [kid demo_key]" None] cid demo_good_key l
  show "verify_receipt_chain demo_V [renv] (Some [kid demo_key]) None = Inr True" by simp
  show "\<exists>q. verify_envelope demo_V renv = Inr q \<and> dget q ''capability_id'' = JStr c \<and> dget q ''obligation_results'' = JNull"
    using r
  proof (cases rule: receipt_appendE)
    case (1 cid' act previous rd agent target s_text f_text rid body)
    have "cid' = JStr c" using 1(1) cid by (simp add: dget_dindex)
    then have "dget body ''capability_id'' = JStr c" "\<not> dhas body ''obligation_results''"
      using 1(7) receipt_body_members(4,7) by (simp_all add: demo_receipt_args_def)
    moreover from this have "dget body ''obligation_results'' = JNull"
      by (simp add: dhas_def dget_def split: option.splits)
    ultimately show ?thesis
      using sign_verify(1) [of demo_V demo_key, OF demo_good_key] 1(9) l by simp
  qed
qed

lemma demo_compliant:
  assumes "verify_envelope demo_V env = Inr p" "dget p ''obligations'' = JList [JStr ''emitActionReceipt'']"
    "dget p ''capability_id'' = JStr c" "verify_receipt_chain demo_V [renv] (Some [kid demo_key]) None = Inr True"
    "verify_envelope demo_V renv = Inr q" "dget q ''capability_id'' = JStr c" "dget q ''obligation_results'' = JNull"
  shows "compliance_evaluate demo_V env [renv] (Some [kid demo_key])
    = Inr \<lparr>cv_compliant = True, cv_results = [ob_satisfied (JStr ''emitActionReceipt'')], cv_reason = JNull\<rparr>"
  using assms
  by (simp add: compliance_evaluate_def check_obligation_def KNOWN_OBLIGATIONS_def ob_satisfied_def)

lemma demo_completes:
  obtains env st out where
    "execute demo_gatekeeper (gatekeeper_start [] demo_key) (demo_execution env) = (st, Inr out)" "go_allowed out"
proof -
  obtain env p c x renv where a: "authorize_checks demo_V demo_gate env demo_request (demo_time 2) None = Inr (p, c, x)"
    and v: "verify_envelope demo_V env = Inr p" and ob: "dget p ''obligations'' = JList [JStr ''emitActionReceipt'']"
    and cid: "dget p ''capability_id'' = JStr c"
    and r: "\<And>t. receipt_append (receipt_log_init demo_key) \<lparr>vc_claims = p, vc_authorized_at = t\<rparr> demo_receipt_args
       = Inr ((receipt_log_init demo_key)\<lparr>rl_log := [renv]\<rparr>, renv)" by (rule demo_path) blast
  let ?x = "demo_execution env" and ?vc = "\<lparr>vc_claims = p, vc_authorized_at = demo_time 2\<rparr>"
  have "execution_receipt ?x True JNull = demo_receipt_args"
    by (simp add: execution_receipt_def demo_execution_def demo_receipt_args_def)
  with r have r': "receipt_append (receipt_log_init demo_key) ?vc (execution_receipt ?x True JNull)
      = Inr ((receipt_log_init demo_key)\<lparr>rl_log := [renv]\<rparr>, renv)" by simp
  note ch = demo_chain [OF a cid r]
  from ch(2) obtain q where q: "verify_envelope demo_V renv = Inr q" "dget q ''capability_id'' = JStr c"
    "dget q ''obligation_results'' = JNull" by blast
  note c = demo_compliant [OF v ob cid ch(1) q]
  have j: "\<exists>j e. journal_record [] (JStr (rq_action demo_request)) (JStr (rq_target demo_request)) (demo_time 2) = Inr (j, e)"
    by (simp add: journal_record_def journal_entry_init_def demo_request_def blank_def py_isspace_def)
  have "\<exists>st out. execute demo_gatekeeper (gatekeeper_start [] demo_key) ?x = (st, Inr out) \<and> go_allowed out"
    using a r' c j
    by (auto simp: execute_def sequence_evaluate_def gatekeeper_revoked_def authorize_def demo_consume run_actuator_def
        finish_execution_def demo_gatekeeper_def gatekeeper_start_def demo_execution_def)
  then show thesis by (auto intro: that)
qed

section \<open>An attenuated capability\<close>

definition demo_lit :: "json \<Rightarrow> json \<Rightarrow> dict" where
  "demo_lit nb ex = dset (dset (dset (demo_parent nb ex) ''target'' (JStr ''door-7''))
      ''capability_id'' (JStr ''c2'')) ''parent_capability_id'' (JStr ''c1'')"

lemma demo_lit_verifies:
  "verify_attenuation (demo_lit (zulu 0) (zulu 30000000)) (demo_parent (zulu 0) (zulu 30000000)) = Inr True"
proof -
  have "require_parent (demo_parent nb ex) = Inr ()" "same_identity (demo_lit nb ex) (demo_parent nb ex)"
    "policies_narrow (demo_lit nb ex) (demo_parent nb ex) = Inr True"
    "scopes_narrow (demo_lit nb ex) (demo_parent nb ex) = Inr True"
    "delegation_narrow (demo_lit nb ex) (demo_parent nb ex) = Inr True"
    "py_eq (dget_or (demo_lit nb ex) ''approval_tier'' (JInt 0)) (dget_or (demo_parent nb ex) ''approval_tier'' (JInt 0))"
    "constraints_narrow (demo_lit nb ex) (demo_parent nb ex) = Inr True" for nb ex
    by code_simp+
  moreover have "times_less (demo_lit (zulu 0) ex) (demo_parent (zulu 0) ex) ''not_before'' = Inr False"
    "times_greater (demo_lit nb (zulu 30000000)) (demo_parent nb (zulu 30000000)) ''expires_at'' = Inr False" for nb ex
    by (simp_all add: times_less_def times_greater_def demo_lit_def demo_parent_def)
  ultimately show ?thesis by (simp add: verify_attenuation_def attenuation_checks_def)
qed

lemma demo_descends: "descends (demo_parent (zulu 0) (zulu 30000000)) (demo_lit (zulu 0) (zulu 30000000))"
proof -
  have "literal_target (demo_lit nb ex)" for nb ex
    by (simp add: literal_target_def demo_lit_def demo_parent_def literal_pat_def)
  then show ?thesis using demo_lit_verifies by (blast intro: descends.intros)
qed

section \<open>Other rules\<close>

text \<open>A rule of an issuer that is not trusted; a deny rule; a deny rule whose window is over.\<close>

definition demo_untrusted :: policy_rule where
  "demo_untrusted = demo_rule\<lparr>pr_policy_id := ''p2'', pr_issuer := ''stranger'', pr_actions := [''kg.action.open'']\<rparr>"

definition demo_deny :: policy_rule where
  "demo_deny = demo_rule\<lparr>pr_policy_id := ''p3'', pr_effect := Deny\<rparr>"

definition demo_windowed_deny :: policy_rule where
  "demo_windowed_deny = demo_deny\<lparr>pr_constraints := [(''not_after'', zulu 0)]\<rparr>"

lemma demo_rules_serializable:
  "serializable (JDict (rule_to_dict demo_rule))" "serializable (JDict (rule_to_dict demo_untrusted))"
  "serializable (JDict (rule_to_dict demo_deny))"
  by (simp_all add: rule_to_dict_def demo_rule_def demo_untrusted_def demo_deny_def JStrs_def max_safe_integer_def)

lemma demo_digests:
  assumes "list_all (\<lambda>r. serializable (JDict (rule_to_dict r))) (pe_rules e)"
  shows "\<exists>pd. policy_digest e = Inr pd"
proof -
  have "list_all (\<lambda>r. serializable (JDict (rule_to_dict r))) (sort_key pr_policy_id (pe_rules e))"
    using assms by (simp add: list_all_iff)
  then show ?thesis
    unfolding policy_digest_def by (intro digest_total) (auto simp: JStrs_def list_all_iff)
qed

lemma demo_extended:
  obtains e d where "engine_add demo_engine [demo_untrusted] = Inr e" "evaluate e demo_request (demo_time 1) = Inr d" "dc_allowed d"
proof -
  let ?e = "demo_engine\<lparr>pe_rules := [demo_rule, demo_untrusted]\<rparr>"
  have "known_action ''kg.action.open''" by code_simp
  then have add: "engine_add demo_engine [demo_untrusted] = Inr ?e"
    by (simp add: engine_add_def demo_engine_def validate_rule_def demo_untrusted_def demo_rule_def bad_limit_def
        bad_zones_def validate_actions_def)
  have "rule_applies ?e demo_request now demo_untrusted = Inr False" for now
    by (simp add: rule_applies_def demo_engine_def demo_untrusted_def demo_rule_def)
  moreover have "rule_applies ?e demo_request now demo_rule = Inr True" for now
    using demo_applies by (simp add: rule_applies_def)
  ultimately have "rfilter (rule_applies ?e demo_request now) (pe_rules ?e) = Inr [demo_rule]" for now by simp
  note rules = this
  obtain pd where pd: "policy_digest ?e = Inr pd" using demo_digests [of ?e] demo_rules_serializable by auto
  have f: "pe_max_age ?e = seconds 300" "pe_skew ?e = seconds 5" by (simp_all add: demo_engine_def)
  obtain d where "evaluate ?e demo_request (demo_time 1) = Inr d" "dc_allowed d"
    using demo_evaluate_rules [OF pd f rules] by blast
  with add show thesis by (rule that)
qed

lemma demo_denied:
  obtains d where "evaluate (demo_engine\<lparr>pe_rules := [demo_rule, demo_deny]\<rparr>) demo_request (demo_time 1) = Inr d"
proof -
  let ?e = "demo_engine\<lparr>pe_rules := [demo_rule, demo_deny]\<rparr>"
  obtain h where h: "request_digest demo_request = Inr h" using demo_digest by blast
  obtain pd where pd: "policy_digest ?e = Inr pd" using demo_digests [of ?e] demo_rules_serializable by auto
  have known: "known_action ''kg.action.open''" by code_simp
  have cur: "(demo_time 1)\<lparr>dt_tz := dt_tz (rq_issued_at demo_request)\<rparr> = demo_time 1"
    by (simp add: demo_request_def demo_time_def)
  have "rule_applies ?e demo_request now demo_deny = Inr True" for now
    using demo_matches constraints_hold_Nil [of demo_deny] by (simp add: rule_applies_def demo_deny_def demo_rule_def)
  moreover have "rule_applies ?e demo_request now demo_rule = Inr True" for now
    using demo_applies by (simp add: rule_applies_def)
  ultimately have rules: "rfilter (rule_applies ?e demo_request now) (pe_rules ?e) = Inr [demo_rule, demo_deny]" for now by simp
  have times: "dt_add (demo_time 1) (pe_skew ?e) = Inr (demo_time 6)"
      "dt_less (demo_time 6) (rq_issued_at demo_request) = Inr False"
      "dt_diff (demo_time 1) (rq_issued_at demo_request) = Inr (seconds 1)" "\<not> seconds 1 > pe_max_age ?e"
    using demo_add [of 1 5] by (simp_all add: demo_engine_def demo_request_def dt_less_def dt_diff_def seconds_def)
  obtain rs where sorted: "sort_applicable [demo_rule, demo_deny] = Inr rs" "demo_deny \<in> set rs"
    by (simp add: sort_applicable_def priority_key_def demo_rule_def demo_deny_def num_of.simps)
  have q: "rq_action demo_request = ''kg.action.open''" by (simp add: demo_request_def)
  have "\<exists>d. decide_applicable demo_request pd rs = Inr d"
  proof -
    have "list_ex (\<lambda>r. pr_effect r = Deny) rs"
      unfolding list_ex_iff using sorted(2) by (intro bexI [of _ demo_deny]) (simp_all add: demo_deny_def)
    then show ?thesis using h by (simp add: decide_applicable_def deny_decision_def)
  qed
  then have "\<exists>d. evaluate ?e demo_request (demo_time 1) = Inr d"
    unfolding evaluate_def Let_def cur pd times rules rbind_Inr sorted q
    using demo_valid [of 1] known times by simp
  then show thesis by (blast intro: that)
qed

lemma demo_windowed:
  "grants (demo_engine\<lparr>pe_rules := [demo_rule, demo_windowed_deny]\<rparr>) demo_request (demo_time 1)"
proof -
  have "context_hold [(''not_after'', zulu 0)] ctx (demo_time 1) = Inr False" for ctx
    by (simp add: context_hold_def dhas_def dget_def dt_less_def demo_time_def seconds_def)
  then have "rule_applies e demo_request (demo_time 1) demo_windowed_deny \<noteq> Inr True" for e
    by (simp add: rule_applies_def constraints_hold_def demo_windowed_deny_def)
  moreover have "rule_applies (demo_engine\<lparr>pe_rules := rs\<rparr>) demo_request now demo_rule = Inr True" for now rs
    using demo_applies by (simp add: rule_applies_def)
  moreover have "eval_time demo_request (demo_time 1) = demo_time 1"
    by (simp add: eval_time_def demo_request_def demo_time_def)
  moreover have "known_action ''kg.action.open''" by code_simp
  ultimately show ?thesis
    by (auto simp: grants_def applies_def fresh_def demo_engine_def demo_request_def seconds_def demo_windowed_deny_def
        demo_deny_def demo_rule_def)
qed

lemma demo_cached:
  obtains c c' d where "cached_engine_init demo_engine (JInt 2) = Inr c" "dc_allowed d" "dc_reason d = ''explicit_allow''"
    "cache_evaluate c demo_request None (demo_time 1) = (c', Inr d)"
proof -
  obtain pd where pd: "policy_digest demo_engine = Inr pd" using demo_policy_digest by blast
  obtain h where h: "request_digest demo_request = Inr h" using demo_digest by blast
  obtain d where d: "evaluate demo_engine demo_request (demo_time 1) = Inr d" "dc_allowed d" "dc_reason d = ''explicit_allow''"
    by (rule demo_evaluate)
  let ?c = "\<lparr>ce_engine = demo_engine, ce_capacity = 2, ce_cache = [], ce_policy_digest = pd, ce_hits = 0, ce_misses = 0\<rparr>"
  have "cached_engine_init demo_engine (JInt 2) = Inr ?c" using pd by (simp add: cached_engine_init_def)
  moreover have "\<exists>c'. cache_evaluate ?c demo_request None (demo_time 1) = (c', Inr d)"
    using pd h d by (simp add: cache_evaluate_def refresh_def)
  ultimately show thesis using d by (auto intro: that)
qed

section \<open>Attenuation, revocation and sequences\<close>

lemma demo_attenuates:
  obtains c where "attenuate_capability (demo_parent (zulu 0) (zulu 30000000)) (no_args\<lparr>aa_ttl := JInt 5\<rparr>) (demo_time 1) demo_nonce = Inr c"
proof -
  let ?p = "demo_parent (zulu 0) (zulu 30000000)"
  have parts: "require_parent (demo_parent nb ex) = Inr ()"
    "parent_scope (demo_parent nb ex) = Inr (JStr ''door-?'', JList [JStr ''open''], JList [JStr ''p''])"
    "narrow_constraints (demo_parent nb ex) JNull JNull JNull = Inr []"
    "child_delegation (demo_parent nb ex) JNull None t a u = Inr (JNull, JInt 0, JBool False, JInt 0, JStr ''r'')"
    "tier_ok (dget_or (demo_parent nb ex) ''approval_tier'' (JInt 0))"
    "check_allowlist JNull (dget (demo_parent nb ex) ''delegate_allowlist'') = Inr ()" for nb ex t a u
    by code_simp+
  have time: "narrow_time ?p (JInt 5) (demo_time 1) = Inr (demo_time 1, demo_time 6)"
    using demo_add [of 1 5] by (simp add: narrow_time_def demo_parent_def dt_less_def seconds_def)
  obtain i x where iso: "isoformat (demo_time 1) = Inr i" "isoformat (demo_time 6) = Inr x"
    using demo_iso [of 1] demo_iso [of 6] by auto
  have "\<exists>c. attenuate_capability ?p (no_args\<lparr>aa_ttl := JInt 5\<rparr>) (demo_time 1) demo_nonce = Inr c"
  proof -
    let ?b = "child_body ?p (JStr ''a'') (JStr ''door-?'') (JList [JStr ''open'']) (JList [JStr ''p''])
        (JNull, JInt 0, JBool False, JInt 0, JStr ''r'') (JList [JStr ''m'']) (JList []) i x demo_nonce []"
    have "serializable (JDict ?b)"
      by (simp add: child_body_def demo_parent_def root_of_def max_safe_integer_def is_v2_def)
    then have "\<exists>c. capability_id_of ?b = Inr c"
      unfolding capability_id_of_def by (intro content_id_total) (auto simp: list_all_iff dwithout_def)
    moreover have "dindex ?p ''agent'' = Inr (JStr ''a'')" "dget ?p ''matched_policy_ids'' = JList [JStr ''m'']"
      "dget ?p ''obligations'' = JList []" by (simp_all add: demo_parent_def)
    ultimately show ?thesis
      using parts time iso
      by (auto simp: attenuate_capability_def no_args_def child_target_def child_scope_def py_list_def py_iter_def)
  qed
  then show thesis by (blast intro: that)
qed

definition demo_revocations :: revocation_list where
  "demo_revocations = [(''c1'', \<lparr>re_id = ''c1'', re_reason = JNull, re_at = demo_time 1\<rparr>)]"

lemma demo_bundle:
  obtains b env where "build_revocation_bundle demo_revocations (JStr (kid demo_key)) (JInt 1) JNull (demo_time 1) = Inr b"
    "sign_revocation_bundle b demo_key = Inr env"
proof -
  obtain i where i: "isoformat (demo_time 1) = Inr i" using demo_iso [of 1] by auto
  let ?body = "[(''type'', JStr ''kinegrant:RevocationBundle''), (''schema_version'', JStr ''0.1''),
      (''issuer'', JStr (kid demo_key)), (''version'', JInt 1), (''previous_bundle_digest'', JNull),
      (''issued_at'', JStr i), (''revocations'', JList [JDict [(''capability_id'', JStr ''c1''), (''reason'', JNull), (''at'', JStr i)]])]"
  have s: "serializable (JDict ?body)" by (simp add: max_safe_integer_def)
  then obtain cid where c: "content_id ''kinegrant:revocation-bundle'' (JDict ?body) = Inr cid" using content_id_total by blast
  have "kid demo_key \<noteq> []" by (simp add: kid_def key_id_def demo_key_def)
  with i c have b: "build_revocation_bundle demo_revocations (JStr (kid demo_key)) (JInt 1) JNull (demo_time 1)
      = Inr (?body @ [(''bundle_id'', JStr cid)])"
    by (simp add: build_revocation_bundle_def demo_revocations_def rl_entries_def revocation_entry_to_dict_def
        valid_version_def bad_previous_def dwithout_def)
  from s have "serializable (JDict (?body @ [(''bundle_id'', JStr cid)]))" by simp
  from sign_envelope_total [OF this] obtain env where "sign_envelope demo_key (?body @ [(''bundle_id'', JStr cid)]) = Inr env" ..
  with b show thesis by (intro that) (simp_all add: sign_revocation_bundle_def)
qed

definition demo_combination :: forbidden_combination where
  "demo_combination = \<lparr>fc_id = ''f1'', fc_patterns = [(''kg.action.record'', ''cam-*'')], fc_window = JInt 60, fc_trigger = None\<rparr>"

definition demo_journal :: journal where
  "demo_journal = [\<lparr>je_action = ''kg.action.record'', je_target = ''cam-1'', je_at = demo_time 90\<rparr>]"

lemma demo_forbidden:
  obtains v where "sequence_evaluate [demo_combination] demo_request demo_journal (demo_time 100) = Inr v" "\<not> sv_allowed v"
proof -
  have m: "fnmatchcase ''kg.action.record'' ''kg.action.record''" "fnmatchcase ''cam-1'' ''cam-*''" by code_simp+
  have c: "dt_add (demo_time 100) (- seconds 60) = Inr (demo_time 40)"
    by (simp add: dt_add_Inr) (simp add: demo_time_def dt_valid_def dt_local_def seconds_def max_us_val)
  have "is_complete demo_combination demo_journal (demo_time 100) = Inr True"
    using m c by (simp add: is_complete_def demo_combination_def demo_journal_def journal_matches_def window_ok_def
        entry_in_window_def dt_less_def seconds_def)
  then show thesis
    by (intro that [of "\<lparr>sv_allowed = False, sv_reason = ''forbidden_combination'', sv_matched = [''f1'']\<rparr>"])
      (simp_all add: sequence_evaluate_def combination_denies_def demo_combination_def)
qed

end
