(* ===== verification/DeviceStore.thy ===== *)
theory DeviceStore
  imports PyValue
begin

text \<open>
  \<open>experimental/esp32c3.py\<close>, the state a device keeps across boots: its boot counter, the last
  accepted sequence number, the number of actuations and the commands it has consumed. The
  protocol class \<open>DeviceStateStore\<close> is a record of operations; its contract is the abstract
  state machine below, and the locale \<open>device_store\<close> says that an implementation refines it.
  Both implementations of the source are interpretations.
\<close>

section \<open>The contract\<close>

text \<open>Per device the boot counter, last sequence and actuator count; the consumed commands.\<close>

record device_view =
  dw_state :: "string \<Rightarrow> (int \<times> int \<times> int) option"
  dw_consumed :: "(string \<times> string) set"

definition view_boot :: "device_view \<Rightarrow> string \<Rightarrow> int" where
  "view_boot v d = (case dw_state v d of None \<Rightarrow> 1 | Some (b, _, _) \<Rightarrow> b + 1)"

definition view_begin :: "device_view \<Rightarrow> string \<Rightarrow> device_view" where
  "view_begin v d = v\<lparr>dw_state := (dw_state v)
     (d \<mapsto> (view_boot v d, 0, case dw_state v d of None \<Rightarrow> 0 | Some (_, _, c) \<Rightarrow> c))\<rparr>"

definition view_consume :: "device_view \<Rightarrow> string \<Rightarrow> int \<Rightarrow> int \<Rightarrow> string \<Rightarrow> (int \<times> device_view) option" where
  "view_consume v d boot sequence cid = (case dw_state v d of
      None \<Rightarrow> None
    | Some (b, l, c) \<Rightarrow>
        if b \<noteq> boot \<or> sequence \<noteq> l + 1 \<or> (d, cid) \<in> dw_consumed v then None
        else Some (c + 1, v\<lparr>dw_state := (dw_state v)(d \<mapsto> (b, sequence, c + 1)),
                            dw_consumed := insert (d, cid) (dw_consumed v)\<rparr>))"

record ('s, 'e) state_store =
  ss_begin_boot :: "'s \<Rightarrow> 'e \<Rightarrow> string \<Rightarrow> 's \<times> int res"
  ss_next_sequence :: "'s \<Rightarrow> 'e \<Rightarrow> string \<Rightarrow> int \<Rightarrow> int res"
  ss_actuator_count :: "'s \<Rightarrow> 'e \<Rightarrow> string \<Rightarrow> int res"
  ss_consume_command :: "'s \<Rightarrow> 'e \<Rightarrow> string \<Rightarrow> int \<Rightarrow> int \<Rightarrow> string \<Rightarrow> 's \<times> int option res"

text \<open>An operation that succeeds does what the contract says; one that raises changes nothing;
  \<open>works e\<close> says that the environment \<open>e\<close> makes nothing fail.\<close>

locale device_store =
  fixes S :: "('s, 'e) state_store"
    and store_ok :: "'s \<Rightarrow> bool"
    and view :: "'s \<Rightarrow> device_view"
    and works :: "'e \<Rightarrow> bool"
  assumes begin_ok: "store_ok s \<Longrightarrow> store_ok (fst (ss_begin_boot S s e d))"
    and begin_boot: "store_ok s \<Longrightarrow> ss_begin_boot S s e d = (s', Inr b) \<Longrightarrow> b = view_boot (view s) d \<and> view s' = view_begin (view s) d"
    and begin_fails: "ss_begin_boot S s e d = (s', Inl x) \<Longrightarrow> s' = s"
    and begin_works: "works e \<Longrightarrow> \<exists>s' b. ss_begin_boot S s e d = (s', Inr b)"
    and next_sequence: "store_ok s \<Longrightarrow> ss_next_sequence S s e d b = Inr n \<Longrightarrow> \<exists>c. dw_state (view s) d = Some (b, n - 1, c)"
    and next_works: "store_ok s \<Longrightarrow> works e \<Longrightarrow> dw_state (view s) d = Some (b, l, c) \<Longrightarrow> ss_next_sequence S s e d b = Inr (l + 1)"
    and actuator_count: "store_ok s \<Longrightarrow> ss_actuator_count S s e d = Inr n \<Longrightarrow> \<exists>b l. dw_state (view s) d = Some (b, l, n)"
    and count_works: "store_ok s \<Longrightarrow> works e \<Longrightarrow> dw_state (view s) d = Some (b, l, c) \<Longrightarrow> ss_actuator_count S s e d = Inr c"
    and consume_ok: "store_ok s \<Longrightarrow> store_ok (fst (ss_consume_command S s e d b n cid))"
    and consume_accepts: "store_ok s \<Longrightarrow> ss_consume_command S s e d b n cid = (s', Inr (Some c)) \<Longrightarrow>
      view_consume (view s) d b n cid = Some (c, view s')"
    and consume_refuses: "ss_consume_command S s e d b n cid = (s', Inr None) \<Longrightarrow> s' = s"
    and consume_fails: "ss_consume_command S s e d b n cid = (s', Inl x) \<Longrightarrow> s' = s"
    and consume_works: "store_ok s \<Longrightarrow> works e \<Longrightarrow> view_consume (view s) d b n cid = Some (c, v) \<Longrightarrow>
      \<exists>s'. ss_consume_command S s e d b n cid = (s', Inr (Some c))"

section \<open>The process-local store\<close>

record memory_device_state =
  md_state :: "(string \<times> int \<times> int \<times> int) list"
  md_consumed :: "(string \<times> string) list"

definition memory_begin_boot :: "memory_device_state \<Rightarrow> unit \<Rightarrow> string \<Rightarrow> memory_device_state \<times> int res" where
  "memory_begin_boot m e d =
     (let (old_boot, _, count) = (case map_of (md_state m) d of None \<Rightarrow> (0, 0, 0) | Some x \<Rightarrow> x)
      in (m\<lparr>md_state := dset (md_state m) d (old_boot + 1, 0, count)\<rparr>, Inr (old_boot + 1)))"

definition memory_next_sequence :: "memory_device_state \<Rightarrow> unit \<Rightarrow> string \<Rightarrow> int \<Rightarrow> int res" where
  "memory_next_sequence m e d boot_counter = (case map_of (md_state m) d of
      None \<Rightarrow> Inl (KeyError d)
    | Some (current_boot, last_sequence, _) \<Rightarrow>
        if current_boot \<noteq> boot_counter then Inl (RuntimeError ''device boot state changed'')
        else Inr (last_sequence + 1))"

definition memory_actuator_count :: "memory_device_state \<Rightarrow> unit \<Rightarrow> string \<Rightarrow> int res" where
  "memory_actuator_count m e d = (case map_of (md_state m) d of
      None \<Rightarrow> Inl (KeyError d) | Some (_, _, count) \<Rightarrow> Inr count)"

definition memory_consume_command ::
  "memory_device_state \<Rightarrow> unit \<Rightarrow> string \<Rightarrow> int \<Rightarrow> int \<Rightarrow> string \<Rightarrow> memory_device_state \<times> int option res" where
  "memory_consume_command m e d boot_counter sequence cid = (case map_of (md_state m) d of
      None \<Rightarrow> (m, Inl (KeyError d))
    | Some (current_boot, last_sequence, count) \<Rightarrow>
        if current_boot \<noteq> boot_counter \<or> sequence \<noteq> last_sequence + 1 \<or> (d, cid) \<in> set (md_consumed m)
        then (m, Inr None)
        else (m\<lparr>md_state := dset (md_state m) d (current_boot, sequence, count + 1),
                md_consumed := (d, cid) # md_consumed m\<rparr>, Inr (Some (count + 1))))"

definition memory_device_store :: "(memory_device_state, unit) state_store" where
  "memory_device_store = \<lparr>ss_begin_boot = memory_begin_boot, ss_next_sequence = memory_next_sequence,
     ss_actuator_count = memory_actuator_count, ss_consume_command = memory_consume_command\<rparr>"

definition memory_view :: "memory_device_state \<Rightarrow> device_view" where
  "memory_view m = \<lparr>dw_state = map_of (md_state m), dw_consumed = set (md_consumed m)\<rparr>"

interpretation memory_device: device_store memory_device_store "\<lambda>_. True" memory_view "\<lambda>_. True"
proof
  fix s s' :: memory_device_state and e d b
  assume "ss_begin_boot memory_device_store s e d = (s', Inr b)"
  then show "b = view_boot (memory_view s) d \<and> memory_view s' = view_begin (memory_view s) d"
    by (auto simp: memory_device_store_def memory_begin_boot_def memory_view_def view_boot_def view_begin_def map_of_dset
        split: option.splits)
next
  fix s s' :: memory_device_state and e d b n cid c
  assume "ss_consume_command memory_device_store s e d b n cid = (s', Inr (Some c))"
  then show "view_consume (memory_view s) d b n cid = Some (c, memory_view s')"
    by (auto simp: memory_device_store_def memory_consume_command_def memory_view_def view_consume_def map_of_dset
        split: option.splits if_splits)
next
  fix s :: memory_device_state and e d b n cid c v
  assume "view_consume (memory_view s) d b n cid = Some (c, v)"
  then show "\<exists>s'. ss_consume_command memory_device_store s e d b n cid = (s', Inr (Some c))"
    by (auto simp: memory_device_store_def memory_consume_command_def memory_view_def view_consume_def
        split: option.splits if_splits)
qed (auto simp: memory_device_store_def memory_begin_boot_def memory_next_sequence_def memory_actuator_count_def
    memory_consume_command_def memory_view_def case_prod_unfold Let_def split: option.splits if_splits)

section \<open>The SQLite store\<close>

text \<open>
  The rows of the two tables. A statement may fail (\<open>failure\<close>): the transaction is rolled back
  and the exception passed on.
\<close>

record sqlite_device_state =
  sd_device_state :: "(string \<times> int \<times> int \<times> int) list"
  sd_consumed :: "(string \<times> string) list"

definition sqlite_device_open :: "string \<Rightarrow> sqlite_device_state \<Rightarrow> sqlite_device_state res" where
  "sqlite_device_open path stored =
     (if path = '':memory:'' then Inl (ValueError ''SQLiteDeviceStateStore requires a filesystem path'')
      else Inr stored)"

text \<open>\<open>INSERT ... ON CONFLICT(device_id) DO UPDATE SET boot_counter=excluded.boot_counter, last_sequence=0\<close>\<close>

definition upsert_boot :: "string \<Rightarrow> int \<Rightarrow> int \<Rightarrow> (string \<times> int \<times> int \<times> int) list \<Rightarrow> (string \<times> int \<times> int \<times> int) list" where
  "upsert_boot d boot count t =
     (if d \<in> fst ` set t then map (\<lambda>(k, b, l, c). if k = d then (k, boot, 0, c) else (k, b, l, c)) t
      else t @ [(d, boot, 0, count)])"

text \<open>\<open>UPDATE device_state SET last_sequence = ?, actuator_count = ? WHERE device_id = ?\<close>\<close>

definition update_counts :: "string \<Rightarrow> int \<Rightarrow> int \<Rightarrow> (string \<times> int \<times> int \<times> int) list \<Rightarrow> (string \<times> int \<times> int \<times> int) list" where
  "update_counts d sequence count t = map (\<lambda>(k, b, l, c). if k = d then (k, b, sequence, count) else (k, b, l, c)) t"

definition sqlite_begin_boot :: "sqlite_device_state \<Rightarrow> exn option \<Rightarrow> string \<Rightarrow> sqlite_device_state \<times> int res" where
  "sqlite_begin_boot t failure d = (case failure of
      Some x \<Rightarrow> (t, Inl x)
    | None \<Rightarrow>
        let row = map_of (sd_device_state t) d;
            boot_counter = (case row of None \<Rightarrow> 0 | Some (b, _, _) \<Rightarrow> b) + 1;
            count = (case row of None \<Rightarrow> 0 | Some (_, _, c) \<Rightarrow> c)
        in (t\<lparr>sd_device_state := upsert_boot d boot_counter count (sd_device_state t)\<rparr>, Inr boot_counter))"

definition sqlite_next_sequence :: "sqlite_device_state \<Rightarrow> exn option \<Rightarrow> string \<Rightarrow> int \<Rightarrow> int res" where
  "sqlite_next_sequence t failure d boot_counter = (case failure of
      Some x \<Rightarrow> Inl x
    | None \<Rightarrow> (case map_of (sd_device_state t) d of
          None \<Rightarrow> Inl (RuntimeError ''device boot state changed'')
        | Some (b, l, _) \<Rightarrow> if b \<noteq> boot_counter then Inl (RuntimeError ''device boot state changed'') else Inr (l + 1)))"

definition sqlite_actuator_count :: "sqlite_device_state \<Rightarrow> exn option \<Rightarrow> string \<Rightarrow> int res" where
  "sqlite_actuator_count t failure d = (case failure of
      Some x \<Rightarrow> Inl x
    | None \<Rightarrow> (case map_of (sd_device_state t) d of
          None \<Rightarrow> Inl (RuntimeError ''device state is not initialized'') | Some (_, _, c) \<Rightarrow> Inr c))"

definition sqlite_consume_command ::
  "sqlite_device_state \<Rightarrow> exn option \<Rightarrow> string \<Rightarrow> int \<Rightarrow> int \<Rightarrow> string \<Rightarrow> sqlite_device_state \<times> int option res" where
  "sqlite_consume_command t failure d boot_counter sequence cid = (case failure of
      Some x \<Rightarrow> (t, Inl x)
    | None \<Rightarrow> (case map_of (sd_device_state t) d of
          None \<Rightarrow> (t, Inr None)
        | Some (b, l, c) \<Rightarrow>
            if b \<noteq> boot_counter \<or> sequence \<noteq> l + 1 then (t, Inr None)
            else if (d, cid) \<in> set (sd_consumed t) then (t, Inr None)
            else (t\<lparr>sd_device_state := update_counts d sequence (c + 1) (sd_device_state t),
                    sd_consumed := sd_consumed t @ [(d, cid)]\<rparr>, Inr (Some (c + 1)))))"

definition sqlite_device_store :: "(sqlite_device_state, exn option) state_store" where
  "sqlite_device_store = \<lparr>ss_begin_boot = sqlite_begin_boot, ss_next_sequence = sqlite_next_sequence,
     ss_actuator_count = sqlite_actuator_count, ss_consume_command = sqlite_consume_command\<rparr>"

text \<open>The primary key of the first table.\<close>

definition sqlite_device_ok :: "sqlite_device_state \<Rightarrow> bool" where
  "sqlite_device_ok t \<longleftrightarrow> distinct (map fst (sd_device_state t))"

definition sqlite_device_view :: "sqlite_device_state \<Rightarrow> device_view" where
  "sqlite_device_view t = \<lparr>dw_state = map_of (sd_device_state t), dw_consumed = set (sd_consumed t)\<rparr>"

lemma map_of_upsert_boot:
  "map_of (upsert_boot d boot count t) k =
    (if k = d then Some (boot, 0, case map_of t d of None \<Rightarrow> count | Some (_, _, c) \<Rightarrow> c) else map_of t k)"
proof (cases "d \<in> fst ` set t")
  case True
  have "map_of (map (\<lambda>(k, b, l, c). if k = d then (k, boot, 0, c) else (k, b, l, c)) t) k
      = (if k = d then map_option (\<lambda>x. (boot, 0, snd (snd x))) (map_of t d) else map_of t k)"
    by (induction t) auto
  moreover obtain x where "map_of t d = Some x" using True by (metis map_of_eq_None_iff not_None_eq)
  ultimately show ?thesis using True by (simp add: upsert_boot_def case_prod_unfold)
next
  case False
  then have "map_of t d = None" by (simp add: map_of_eq_None_iff)
  with False show ?thesis by (auto simp: upsert_boot_def map_add_def split: option.splits)
qed

lemma map_of_update_counts:
  "map_of (update_counts d sequence count t) k =
    (if k = d then (case map_of t d of None \<Rightarrow> None | Some (b, _, _) \<Rightarrow> Some (b, sequence, count)) else map_of t k)"
  by (induction t) (auto simp: update_counts_def)

lemma table_keys:
  "distinct (map fst t) \<Longrightarrow> distinct (map fst (upsert_boot d boot count t))"
  "distinct (map fst t) \<Longrightarrow> distinct (map fst (update_counts d sequence count t))"
  by (auto simp: upsert_boot_def update_counts_def comp_def case_prod_unfold distinct_map if_distrib cong: if_cong)

interpretation sqlite_device: device_store sqlite_device_store sqlite_device_ok sqlite_device_view "\<lambda>e. e = None"
proof
  fix s s' :: sqlite_device_state and e d b
  assume "ss_begin_boot sqlite_device_store s e d = (s', Inr b)"
  then show "b = view_boot (sqlite_device_view s) d \<and> sqlite_device_view s' = view_begin (sqlite_device_view s) d"
    by (auto simp: sqlite_device_store_def sqlite_begin_boot_def sqlite_device_view_def view_boot_def view_begin_def
        map_of_upsert_boot Let_def fun_eq_iff split: option.splits)
next
  fix s s' :: sqlite_device_state and e d b n cid c
  assume "ss_consume_command sqlite_device_store s e d b n cid = (s', Inr (Some c))"
  then show "view_consume (sqlite_device_view s) d b n cid = Some (c, sqlite_device_view s')"
    by (auto simp: sqlite_device_store_def sqlite_consume_command_def sqlite_device_view_def view_consume_def
        map_of_update_counts fun_eq_iff split: option.splits if_splits)
next
  fix s :: sqlite_device_state and e :: "exn option" and d b n cid c v
  assume "view_consume (sqlite_device_view s) d b n cid = Some (c, v)" "e = None"
  then show "\<exists>s'. ss_consume_command sqlite_device_store s e d b n cid = (s', Inr (Some c))"
    by (auto simp: sqlite_device_store_def sqlite_consume_command_def sqlite_device_view_def view_consume_def
        split: option.splits if_splits)
qed (auto simp: sqlite_device_store_def sqlite_begin_boot_def sqlite_next_sequence_def sqlite_actuator_count_def
    sqlite_consume_command_def sqlite_device_view_def sqlite_device_ok_def table_keys Let_def simp del: map_of_eq_Some_iff split: option.splits if_splits)

section \<open>What the contract gives\<close>

context device_store
begin

text \<open>A command is consumed at most once, also by stores that other devices and boots share.\<close>

lemma consumed_refused:
  assumes "store_ok s" "(d, cid) \<in> dw_consumed (view s)"
  shows "snd (ss_consume_command S s e d b n cid) \<noteq> Inr (Some c)"
proof
  assume "snd (ss_consume_command S s e d b n cid) = Inr (Some c)"
  then obtain s' where "ss_consume_command S s e d b n cid = (s', Inr (Some c))" by (metis prod.collapse)
  from consume_accepts [OF assms(1) this] assms(2) show False
    by (auto simp: view_consume_def split: option.splits if_splits)
qed

text \<open>Every outcome of an operation, as a change of the view.\<close>

lemma consume_cases:
  assumes "store_ok s" "ss_consume_command S s e d b n cid = (s', r)"
  obtains (accepted) l c where "r = Inr (Some (c + 1))" "dw_state (view s) d = Some (b, l, c)" "n = l + 1"
      "(d, cid) \<notin> dw_consumed (view s)" "dw_state (view s') = (dw_state (view s))(d \<mapsto> (b, n, c + 1))"
      "dw_consumed (view s') = insert (d, cid) (dw_consumed (view s))"
  | (refused) "s' = s" "\<forall>c. r \<noteq> Inr (Some c)"
proof (cases "\<exists>c. r = Inr (Some c)")
  case True
  then obtain c where c: "r = Inr (Some c)" ..
  from consume_accepts [OF assms(1)] assms(2) c have "view_consume (view s) d b n cid = Some (c, view s')" by simp
  then obtain l k where "dw_state (view s) d = Some (b, l, k)" "n = l + 1" "(d, cid) \<notin> dw_consumed (view s)" "c = k + 1"
    and w: "view s' = view s\<lparr>dw_state := (dw_state (view s))(d \<mapsto> (b, n, k + 1)),
      dw_consumed := insert (d, cid) (dw_consumed (view s))\<rparr>"
    by (auto simp: view_consume_def split: option.splits if_splits)
  with c show thesis by (intro accepted [of k l]) (simp_all add: w)
next
  case False
  then have "r = Inr None \<or> (\<exists>x. r = Inl x)" by (metis option.exhaust sum.exhaust)
  then have "s' = s" using assms(2) by (auto intro: consume_refuses consume_fails)
  with False refused show thesis by blast
qed

end

end
