(* ===== verification/Device.thy ===== *)
theory Device
  imports DeviceStore Gate Statement
begin

text \<open>
  \<open>experimental/esp32c3.py\<close>: the challenge of a device, the issuer that binds a capability the
  gate has consumed to one challenge, the device that checks and consumes a command before it
  actuates, and the verification of its acknowledgement. The reading of \<open>time.monotonic()\<close> is a
  rational argument (its arithmetic is exact), so is the result of \<open>secrets.token_urlsafe\<close>.
\<close>

section \<open>Challenges\<close>

definition PROFILE :: string where
  "PROFILE = ''kgp-esp32c3-paper-barrier/0.1''"

definition CHALLENGE_TYPE :: string where
  "CHALLENGE_TYPE = ''kinegrant:ExperimentalDeviceChallenge''"

definition COMMAND_TYPE :: string where
  "COMMAND_TYPE = ''kinegrant:ExperimentalDeviceCommand''"

definition ACK_TYPE :: string where
  "ACK_TYPE = ''kinegrant:ExperimentalDeviceAck''"

definition MAX_CHALLENGE_AGE_MS :: int where
  "MAX_CHALLENGE_AGE_MS = 10000"

definition CHALLENGE_FIELDS :: "string list" where
  "CHALLENGE_FIELDS = [''type'', ''profile'', ''device_id'', ''boot_counter'', ''challenge_nonce'', ''next_sequence'', ''max_age_ms'']"

definition COMMAND_FIELDS :: "string list" where
  "COMMAND_FIELDS = [''type'', ''profile'', ''executor'', ''device_id'', ''capability_id'', ''request_digest'', ''action'',
     ''parameters'', ''boot_counter'', ''challenge_nonce'', ''sequence'', ''command_id'']"

definition ACK_FIELDS :: "string list" where
  "ACK_FIELDS = [''type'', ''profile'', ''device'', ''device_id'', ''command_id'', ''capability_id'', ''boot_counter'',
     ''sequence'', ''result'', ''actuator_count'', ''ack_id'']"

definition ENVELOPE_FIELDS :: "string list" where
  "ENVELOPE_FIELDS = [''alg'', ''kid'', ''payload'', ''signature'']"

record device_challenge =
  ch_device_id :: string
  ch_boot_counter :: int
  ch_nonce :: string
  ch_next_sequence :: int
  ch_max_age_ms :: json

text \<open>\<open>isinstance(v, int) and not isinstance(v, bool) and v >= 1\<close>\<close>

definition positive_int :: "json \<Rightarrow> bool" where
  "positive_int v \<longleftrightarrow> is_int_nb v \<and> 1 \<le> the_int v"

text \<open>\<open>re.compile(r"^[A-Za-z0-9_-]{20,}$").fullmatch(s)\<close>\<close>

definition nonce_text :: "string \<Rightarrow> bool" where
  "nonce_text s \<longleftrightarrow> 20 \<le> length s \<and> list_all (\<lambda>c. b64_val c \<noteq> None) s"

definition device_challenge_init :: "json \<Rightarrow> json \<Rightarrow> json \<Rightarrow> json \<Rightarrow> json \<Rightarrow> device_challenge res" where
  "device_challenge_init device_id boot_counter nonce next_sequence max_age =
     (if \<not> nonblank_str device_id then Inl (ValueError ''device_id must be a non-empty string'')
      else if \<not> positive_int boot_counter then Inl (ValueError ''boot_counter must be a positive integer'')
      else if \<not> (is_str nonce \<and> nonce_text (the_str nonce))
        then Inl (ValueError ''challenge_nonce must be canonical base64url with at least 20 characters'')
      else if \<not> positive_int next_sequence then Inl (ValueError ''next_sequence must be a positive integer'')
      else if \<not> py_eq max_age (JInt MAX_CHALLENGE_AGE_MS) then Inl (ValueError ''unsupported challenge lifetime'')
      else Inr \<lparr>ch_device_id = the_str device_id, ch_boot_counter = the_int boot_counter, ch_nonce = the_str nonce,
                ch_next_sequence = the_int next_sequence, ch_max_age_ms = max_age\<rparr>)"

definition challenge_to_dict :: "device_challenge \<Rightarrow> dict" where
  "challenge_to_dict c =
     [(''type'', JStr CHALLENGE_TYPE), (''profile'', JStr PROFILE), (''device_id'', JStr (ch_device_id c)),
      (''boot_counter'', JInt (ch_boot_counter c)), (''challenge_nonce'', JStr (ch_nonce c)),
      (''next_sequence'', JInt (ch_next_sequence c)), (''max_age_ms'', ch_max_age_ms c)]"

definition challenge_from_dict :: "json \<Rightarrow> device_challenge res" where
  "challenge_from_dict v = (case v of
      JDict d \<Rightarrow>
        if \<not> dkeys_eq d CHALLENGE_FIELDS then Inl (ValueError ''device challenge fields do not match the proof profile'')
        else if dget d ''type'' \<noteq> JStr CHALLENGE_TYPE \<or> dget d ''profile'' \<noteq> JStr PROFILE
          then Inl (ValueError ''unsupported device challenge profile'')
        else device_challenge_init (dget d ''device_id'') (dget d ''boot_counter'') (dget d ''challenge_nonce'')
               (dget d ''next_sequence'') (dget d ''max_age_ms'')
    | _ \<Rightarrow> Inl (ValueError ''device challenge fields do not match the proof profile''))"

text \<open>A challenge sent as JSON reads back.\<close>

theorem challenge_roundtrip:
  assumes "device_challenge_init d b n s a = Inr c"
  shows "challenge_from_dict (JDict (challenge_to_dict c)) = Inr c"
proof -
  have c: "c = \<lparr>ch_device_id = the_str d, ch_boot_counter = the_int b, ch_nonce = the_str n,
      ch_next_sequence = the_int s, ch_max_age_ms = a\<rparr>"
    and ok: "nonblank_str d" "positive_int b" "is_str n" "nonce_text (the_str n)" "positive_int s"
      "py_eq a (JInt MAX_CHALLENGE_AGE_MS)"
    using assms by (auto simp: device_challenge_init_def split: if_splits)
  have "dkeys_eq (challenge_to_dict c) CHALLENGE_FIELDS"
    by (simp add: challenge_to_dict_def CHALLENGE_FIELDS_def dkeys_eq_def)
  with ok show ?thesis
    by (auto simp: challenge_from_dict_def challenge_to_dict_def device_challenge_init_def c kind_iffs positive_int_def)
qed

section \<open>The command issuer\<close>

text \<open>\<open>capability[field]\<close> for the fields that must be those of the request\<close>

fun fields_match :: "dict \<Rightarrow> (string \<times> string) list \<Rightarrow> unit res" where
  "fields_match claims [] = Inr ()"
| "fields_match claims ((field, wanted) # r) =
     rbind (dindex claims field) (\<lambda>v.
     if v \<noteq> JStr wanted then Inl (PermissionError (''verified capability '' @ field @ '' mismatch''))
     else fields_match claims r)"

definition bound_fields :: "action_request \<Rightarrow> (string \<times> string) list" where
  "bound_fields q = [(''agent'', rq_agent q), (''target'', rq_target q), (''action'', rq_action q), (''purpose'', rq_purpose q)]"

definition command_expiry :: "dict \<Rightarrow> datetime res" where
  "command_expiry claims = (case rbind (dindex claims ''expires_at'') parse_time of
      Inl e \<Rightarrow> if is_KeyError e \<or> is_TypeError e \<or> is_ValueError e
          then Inl (PermissionError ''verified capability has an invalid expiry'') else Inl e
    | Inr x \<Rightarrow> Inr x)"

definition command_body :: "key_pair \<Rightarrow> device_challenge \<Rightarrow> string \<Rightarrow> string \<Rightarrow> string \<Rightarrow> dict \<Rightarrow> dict" where
  "command_body k ch cap_id qd action parameters =
     [(''type'', JStr COMMAND_TYPE), (''profile'', JStr PROFILE), (''executor'', JStr (kid k)),
      (''device_id'', JStr (ch_device_id ch)), (''capability_id'', JStr cap_id), (''request_digest'', JStr qd),
      (''action'', JStr action), (''parameters'', JDict parameters), (''boot_counter'', JInt (ch_boot_counter ch)),
      (''challenge_nonce'', JStr (ch_nonce ch)), (''sequence'', JInt (ch_next_sequence ch))]"

text \<open>
  What \<open>issue\<close> checks before it consults its store: the digest of the request, the parameters,
  the expiry and the id of the capability. The claims come from the gate, so the id is a text; the
  branch for another value is never reached.
\<close>

definition issue_checks ::
  "dict \<Rightarrow> action_request \<Rightarrow> device_challenge \<Rightarrow> datetime \<Rightarrow> (string \<times> dict \<times> datetime \<times> string) res" where
  "issue_checks claims q ch now =
     rbind (dindex claims ''request_digest'') (\<lambda>rd.
     rbind (request_digest q) (\<lambda>qd.
     if rd \<noteq> JStr qd then Inl (PermissionError ''verified capability does not bind this request'')
     else
     rbind (fields_match claims (bound_fields q)) (\<lambda>_.
     if rq_target q \<noteq> ch_device_id ch then Inl (PermissionError ''request target does not match challenged device'')
     else (case dget (rq_context q) ''device_parameters'' of
       JDict parameters \<Rightarrow>
         if naive now then Inl (PermissionError ''device-command issuance time must include a timezone'')
         else
         rbind (command_expiry claims) (\<lambda>expires_at.
         if dt_us expires_at \<le> dt_us now then Inl (PermissionError ''verified capability expired before device-command issuance'')
         else
         rbind (dindex claims ''capability_id'') (\<lambda>cap_id.
           case cap_id of JStr c \<Rightarrow> Inr (qd, parameters, expires_at, c)
           | _ \<Rightarrow> Inl (TypeError ''capability_id is not a text'')))
     | _ \<Rightarrow> Inl (PermissionError ''request context must contain device_parameters'')))))"

definition issue_command ::
  "('s \<Rightarrow> 'e \<Rightarrow> string \<Rightarrow> datetime \<Rightarrow> 's \<times> bool res) \<Rightarrow> key_pair \<Rightarrow> 's \<Rightarrow> 'e \<Rightarrow> verified_capability \<Rightarrow> action_request
    \<Rightarrow> device_challenge \<Rightarrow> datetime \<Rightarrow> 's \<times> dict res" where
  "issue_command consume k s env vc q ch now =
     (case issue_checks (vc_claims vc) q ch now of
        Inl x \<Rightarrow> (s, Inl x)
      | Inr (qd, parameters, expires_at, cap_id) \<Rightarrow>
          (case consume s env cap_id expires_at of
             (s', Inl x) \<Rightarrow> (s', Inl x)
           | (s', Inr first) \<Rightarrow>
               (s', if \<not> first then Inl (PermissionError ''verified capability already produced a device command'')
                    else sign_statement ''kinegrant:device-command'' ''command_id'' k
                      (command_body k ch cap_id qd (rq_action q) parameters))))"

text \<open>A capability of version 0.2 has no single action: the lookup raises, so none can ever become
  a device command.\<close>

lemma v2_not_commanded:
  assumes "dkeys_eq claims CAPABILITY_FIELDS_V2"
  shows "\<exists>x. issue_checks claims q ch now = Inl x"
proof -
  have "\<not> dhas claims ''action''"
    using dkeys_eq_dhas [OF assms] by (simp add: CAPABILITY_FIELDS_V2_def CAPABILITY_FIELDS_def)
  then have "map_of claims ''action'' = None" by (simp add: dhas_def)
  then have "fields_match claims (bound_fields q) \<noteq> Inr ()"
    by (auto simp: bound_fields_def res_simps split: if_splits)
  then show ?thesis
    by (cases "issue_checks claims q ch now") (auto simp: issue_checks_def res_simps split: if_splits)
qed

section \<open>The device\<close>

record device =
  dv_id :: string
  dv_key :: key_pair
  dv_trusted :: "string list"
  dv_boot :: int
  dv_active :: "(device_challenge \<times> rat) option"

definition device_init ::
  "('s, 'e) state_store \<Rightarrow> 's \<Rightarrow> 'e \<Rightarrow> json \<Rightarrow> key_pair \<Rightarrow> string list \<Rightarrow> 's \<times> device res" where
  "device_init S s e device_id k trusted =
     (if \<not> nonblank_str device_id then (s, Inl (ValueError ''device_id must be a non-empty string''))
      else case ss_begin_boot S s e (the_str device_id) of
        (s', Inl x) \<Rightarrow> (s', Inl x)
      | (s', Inr boot) \<Rightarrow> (s', Inr \<lparr>dv_id = the_str device_id, dv_key = k, dv_trusted = trusted, dv_boot = boot,
                                   dv_active = None\<rparr>))"

definition device_count :: "('s, 'e) state_store \<Rightarrow> 's \<Rightarrow> 'e \<Rightarrow> device \<Rightarrow> int res" where
  "device_count S s e dev = ss_actuator_count S s e (dv_id dev)"

definition challenge ::
  "('s, 'e) state_store \<Rightarrow> 's \<Rightarrow> 'e \<Rightarrow> device \<Rightarrow> string \<Rightarrow> rat \<Rightarrow> device \<times> device_challenge res" where
  "challenge S s e dev nonce monotonic =
     (case rbind (ss_next_sequence S s e (dv_id dev) (dv_boot dev)) (\<lambda>n.
        device_challenge_init (JStr (dv_id dev)) (JInt (dv_boot dev)) (JStr nonce) (JInt n) (JInt MAX_CHALLENGE_AGE_MS)) of
        Inl x \<Rightarrow> (dev, Inl x)
      | Inr c \<Rightarrow> (dev\<lparr>dv_active := Some (c, monotonic)\<rparr>, Inr c))"

text \<open>The identifiers \<open>^prefix[0-9a-f]{64}$\<close>. \<open>str(v)\<close> of a value that is no text never has this
  form.\<close>

definition is_hex_id :: "string \<Rightarrow> json \<Rightarrow> bool" where
  "is_hex_id prefix v \<longleftrightarrow> (case v of
      JStr s \<Rightarrow> startswith s prefix \<and> length s = length prefix + 64 \<and> list_all is_lower_hex (drop (length prefix) s)
    | _ \<Rightarrow> False)"

definition as_permission :: "string \<Rightarrow> 'a res \<Rightarrow> 'a res" where
  "as_permission msg r = (case r of
      Inl e \<Rightarrow> if is_TypeError e \<or> is_ValueError e then Inl (PermissionError msg) else Inl e
    | Inr x \<Rightarrow> Inr x)"

definition check_parameters :: "dict \<Rightarrow> unit res" where
  "check_parameters p = (case dget p ''parameters'' of
      JDict d \<Rightarrow>
        if \<not> dkeys_eq d [''position''] then Inl (PermissionError ''unsupported physical proof parameters'')
        else rbind (in_str_set (dget d ''position'') [''open'', ''closed'']) (\<lambda>ok.
          require ok (PermissionError ''paper barrier position must be open or closed''))
    | _ \<Rightarrow> Inl (PermissionError ''unsupported physical proof parameters''))"

text \<open>The checks of \<open>execute\<close> that read no state of the device but its identity and its trust.\<close>

definition check_command :: "verifier \<Rightarrow> device \<Rightarrow> json \<Rightarrow> (dict \<times> string) res" where
  "check_command V dev command = (case command of
      JDict env \<Rightarrow>
        if \<not> dkeys_eq env ENVELOPE_FIELDS
          then Inl (PermissionError ''device command envelope fields do not match the proof profile'')
        else
        rbind (as_permission ''invalid device command signature'' (verify_envelope V env)) (\<lambda>p.
        if \<not> dkeys_eq p COMMAND_FIELDS then Inl (PermissionError ''device command fields do not match the proof profile'')
        else if dget p ''type'' \<noteq> JStr COMMAND_TYPE \<or> dget p ''profile'' \<noteq> JStr PROFILE
          then Inl (PermissionError ''unsupported device command profile'')
        else if \<not> py_eq (dget p ''executor'') (dget env ''kid'')
          then Inl (PermissionError ''device command executor does not match signing key'')
        else
        rbind (in_str_set (dget p ''executor'') (dv_trusted dev)) (\<lambda>known.
        if \<not> known then Inl (PermissionError ''untrusted device command executor'')
        else if dget p ''device_id'' \<noteq> JStr (dv_id dev) then Inl (PermissionError ''device command target mismatch'')
        else if \<not> is_hex_id ''kinegrant:cap:'' (dget p ''capability_id'')
          then Inl (PermissionError ''invalid capability identifier'')
        else if \<not> is_sha256 (dget p ''request_digest'') then Inl (PermissionError ''invalid request digest'')
        else if dget p ''action'' \<noteq> JStr ''move_paper_barrier''
          then Inl (PermissionError ''unsupported physical proof action'')
        else if \<not> positive_int (dget p ''boot_counter'')
          then Inl (PermissionError ''device command boot_counter must be a positive integer'')
        else if \<not> positive_int (dget p ''sequence'')
          then Inl (PermissionError ''device command sequence must be a positive integer'')
        else
        rbind (check_parameters p) (\<lambda>_.
        if \<not> is_hex_id ''kinegrant:device-command:'' (dget p ''command_id'')
          then Inl (PermissionError ''invalid device command identifier'')
        else
        rbind (content_id ''kinegrant:device-command'' (JDict (dwithout [''command_id''] p))) (\<lambda>cid.
        if dget p ''command_id'' \<noteq> JStr cid then Inl (PermissionError ''device command identifier is inconsistent'')
        else Inr (p, cid)))))
    | _ \<Rightarrow> Inl (PermissionError ''device command envelope fields do not match the proof profile''))"

text \<open>\<open>elapsed < 0 or elapsed * 1000 >= challenge.max_age_ms\<close>\<close>

definition stale :: "device_challenge \<Rightarrow> rat \<Rightarrow> bool" where
  "stale ch elapsed \<longleftrightarrow> elapsed < 0 \<or> (case num_of (ch_max_age_ms ch) of
      Some (FFin m) \<Rightarrow> m \<le> elapsed * 1000 | _ \<Rightarrow> False)"

definition answers :: "dict \<Rightarrow> device_challenge \<Rightarrow> bool" where
  "answers p ch \<longleftrightarrow> py_eq (dget p ''device_id'') (JStr (ch_device_id ch))
     \<and> py_eq (dget p ''boot_counter'') (JInt (ch_boot_counter ch))
     \<and> py_eq (dget p ''challenge_nonce'') (JStr (ch_nonce ch))
     \<and> py_eq (dget p ''sequence'') (JInt (ch_next_sequence ch))"

text \<open>The critical section: the challenge is used up whatever happens next, and the command is
  consumed before anything moves.\<close>

definition consume_challenge ::
  "('s, 'e) state_store \<Rightarrow> 's \<Rightarrow> 'e \<Rightarrow> device \<Rightarrow> dict \<Rightarrow> string \<Rightarrow> rat \<Rightarrow> 's \<times> device \<times> int res" where
  "consume_challenge S s e dev p cid monotonic = (case dv_active dev of
      None \<Rightarrow> (s, dev, Inl (PermissionError ''no active device challenge''))
    | Some (ch, issued_at) \<Rightarrow>
        let dev' = dev\<lparr>dv_active := None\<rparr> in
        if stale ch (monotonic - issued_at) then (s, dev', Inl (PermissionError ''device challenge expired''))
        else if \<not> answers p ch
          then (s, dev', Inl (PermissionError ''device command does not match the active challenge''))
        else (case ss_consume_command S s e (dv_id dev) (dv_boot dev) (ch_next_sequence ch) cid of
            (s', Inl x) \<Rightarrow> (s', dev', Inl x)
          | (s', Inr None) \<Rightarrow> (s', dev', Inl (PermissionError ''device command replay or sequence conflict''))
          | (s', Inr (Some n)) \<Rightarrow> (s', dev', Inr n)))"

definition actuate ::
  "verifier \<Rightarrow> ('s, 'e) state_store \<Rightarrow> 's \<Rightarrow> 'e \<Rightarrow> device \<Rightarrow> json \<Rightarrow> rat \<Rightarrow> 's \<times> device \<times> (dict \<times> string \<times> int) res" where
  "actuate V S s e dev command monotonic = (case check_command V dev command of
      Inl x \<Rightarrow> (s, dev, Inl x)
    | Inr (p, cid) \<Rightarrow> (case consume_challenge S s e dev p cid monotonic of
        (s', dev', Inl x) \<Rightarrow> (s', dev', Inl x)
      | (s', dev', Inr n) \<Rightarrow> (s', dev', Inr (p, cid, n))))"

definition ack_body :: "device \<Rightarrow> dict \<Rightarrow> string \<Rightarrow> int \<Rightarrow> dict" where
  "ack_body dev p cid n =
     [(''type'', JStr ACK_TYPE), (''profile'', JStr PROFILE), (''device'', JStr (kid (dv_key dev))),
      (''device_id'', JStr (dv_id dev)), (''command_id'', JStr cid), (''capability_id'', dget p ''capability_id''),
      (''boot_counter'', JInt (dv_boot dev)), (''sequence'', dget p ''sequence''), (''result'', JStr ''succeeded''),
      (''actuator_count'', JInt n)]"

definition device_execute ::
  "verifier \<Rightarrow> ('s, 'e) state_store \<Rightarrow> 's \<Rightarrow> 'e \<Rightarrow> device \<Rightarrow> json \<Rightarrow> rat \<Rightarrow> 's \<times> device \<times> dict res" where
  "device_execute V S s e dev command monotonic = (case actuate V S s e dev command monotonic of
      (s', dev', r) \<Rightarrow> (s', dev', rbind r (\<lambda>(p, cid, n).
        sign_statement ''kinegrant:device-ack'' ''ack_id'' (dv_key dev) (ack_body dev p cid n))))"

section \<open>Acknowledgements\<close>

definition expects :: "string list option \<Rightarrow> json \<Rightarrow> bool" where
  "expects wanted v \<longleftrightarrow> (case wanted of None \<Rightarrow> True | Some ws \<Rightarrow> v \<in> JStr ` set ws)"

definition verify_device_ack ::
  "verifier \<Rightarrow> json \<Rightarrow> string list \<Rightarrow> string list option \<Rightarrow> string list option \<Rightarrow> string list option \<Rightarrow> bool res" where
  "verify_device_ack V ack trusted commands devices capabilities = (case ack of
      JDict env \<Rightarrow>
        if \<not> dkeys_eq env ENVELOPE_FIELDS then Inr False
        else (case verify_envelope V env of
          Inl e \<Rightarrow> if is_TypeError e \<or> is_ValueError e then Inr False else Inl e
        | Inr p \<Rightarrow>
          if \<not> dkeys_eq p ACK_FIELDS then Inr False
          else if dget p ''type'' \<noteq> JStr ACK_TYPE \<or> dget p ''profile'' \<noteq> JStr PROFILE then Inr False
          else if \<not> py_eq (dget p ''device'') (dget env ''kid'') then Inr False
          else
          rbind (in_str_set (dget p ''device'') trusted) (\<lambda>known.
          if \<not> known then Inr False
          else if \<not> nonblank_str (dget p ''device_id'') then Inr False
          else if \<not> expects devices (dget p ''device_id'') then Inr False
          else if \<not> is_hex_id ''kinegrant:device-command:'' (dget p ''command_id'') then Inr False
          else if \<not> expects commands (dget p ''command_id'') then Inr False
          else if \<not> is_hex_id ''kinegrant:cap:'' (dget p ''capability_id'') then Inr False
          else if \<not> expects capabilities (dget p ''capability_id'') then Inr False
          else
          rbind (in_str_set (dget p ''result'') [''succeeded'', ''failed'']) (\<lambda>ok.
          if \<not> ok then Inr False
          else if \<not> (positive_int (dget p ''boot_counter'') \<and> positive_int (dget p ''sequence'')
                     \<and> positive_int (dget p ''actuator_count'')) then Inr False
          else
          rbind (content_id ''kinegrant:device-ack'' (JDict (dwithout [''ack_id''] p))) (\<lambda>cid.
            Inr (dget p ''ack_id'' = JStr cid)))))
    | _ \<Rightarrow> Inr False)"

section \<open>What an actuation means\<close>

lemma check_commandD:
  assumes "check_command V dev command = Inr (p, cid)"
  obtains env where "command = JDict env" "verify_envelope V env = Inr p"
    "\<exists>x\<in>set (dv_trusted dev). dget p ''executor'' = JStr x \<and> dget env ''kid'' = JStr x"
    "dget p ''device_id'' = JStr (dv_id dev)" "dget p ''action'' = JStr ''move_paper_barrier''"
    "content_id ''kinegrant:device-command'' (JDict (dwithout [''command_id''] p)) = Inr cid" "dget p ''command_id'' = JStr cid"
proof -
  have "\<exists>env. command = JDict env \<and> as_permission ''invalid device command signature'' (verify_envelope V env) = Inr p
      \<and> py_eq (dget p ''executor'') (dget env ''kid'') \<and> in_str_set (dget p ''executor'') (dv_trusted dev) = Inr True
      \<and> dget p ''device_id'' = JStr (dv_id dev) \<and> dget p ''action'' = JStr ''move_paper_barrier''
      \<and> content_id ''kinegrant:device-command'' (JDict (dwithout [''command_id''] p)) = Inr cid \<and> dget p ''command_id'' = JStr cid"
    using assms unfolding check_command_def by (elim res_elims) auto
  then obtain env where *: "command = JDict env" "as_permission ''invalid device command signature'' (verify_envelope V env) = Inr p"
    "py_eq (dget p ''executor'') (dget env ''kid'')" "in_str_set (dget p ''executor'') (dv_trusted dev) = Inr True"
    "dget p ''device_id'' = JStr (dv_id dev)" "dget p ''action'' = JStr ''move_paper_barrier''"
    "content_id ''kinegrant:device-command'' (JDict (dwithout [''command_id''] p)) = Inr cid" "dget p ''command_id'' = JStr cid"
    by blast
  have v: "verify_envelope V env = Inr p" using *(2) by (auto simp: as_permission_def split: sum.splits if_splits)
  obtain s where "dget env ''kid'' = JStr s" using verify_envelope_kid [OF v] by blast
  with *(3,4) have "\<exists>x\<in>set (dv_trusted dev). dget p ''executor'' = JStr x \<and> dget env ''kid'' = JStr x"
    by (auto simp: res_simps)
  with * v show thesis by (intro that [of env]) auto
qed

interpretation device_command: signed_statement "\<lambda>V env dev. check_command V dev (JDict env)"
  "''kinegrant:device-command''" "''command_id''" "''executor''"
proof
  fix V env dev and r :: "dict \<times> string"
  assume "check_command V dev (JDict env) = Inr r"
  moreover obtain p cid where "r = (p, cid)" by (cases r)
  ultimately have "check_command V dev (JDict env) = Inr (p, cid)" by simp
  then show "\<exists>p. verify_envelope V env = Inr p \<and> content_addressed ''kinegrant:device-command'' ''command_id'' p
      \<and> dget p ''executor'' = dget env ''kid''"
    by (rule check_commandD) (auto simp: content_addressed_def statement_body_def)
qed

lemma actuate_Inr:
  assumes "actuate V S s e dev command m = (s', dev', Inr (p, cid, n))"
  obtains ch t where "check_command V dev command = Inr (p, cid)" "dv_active dev = Some (ch, t)" "\<not> stale ch (m - t)"
    "answers p ch" "ss_consume_command S s e (dv_id dev) (dv_boot dev) (ch_next_sequence ch) cid = (s', Inr (Some n))"
    "dev' = dev\<lparr>dv_active := None\<rparr>"
  using assms
  by (auto simp: actuate_def consume_challenge_def Let_def split: sum.splits prod.splits option.splits if_splits)

text \<open>A refused command leaves the store as it was, unless the store itself consumed it.\<close>

lemma actuate_Inl:
  assumes "actuate V S s e dev command m = (s', dev', Inl x)"
  shows "dev' \<in> {dev, dev\<lparr>dv_active := None\<rparr>} \<and> (s' = s \<or> (\<exists>n cid r. (\<forall>k. r \<noteq> Inr (Some k))
    \<and> ss_consume_command S s e (dv_id dev) (dv_boot dev) n cid = (s', r)))"
  using assms
  by (fastforce simp: actuate_def consume_challenge_def Let_def split: sum.splits prod.splits option.splits if_splits)

text \<open>A challenge answers once: after any command that reached it, the device has none.\<close>

lemma actuate_uses_challenge:
  assumes "actuate V S s e dev command m = (s', dev', r)" "check_command V dev command = Inr pc"
  shows "dv_active dev' = None"
  using assms
  by (auto simp: actuate_def consume_challenge_def Let_def split: sum.splits prod.splits option.splits if_splits)

section \<open>The honest path\<close>

lemma dkeys_eq_fields: "map fst d = ks \<Longrightarrow> dkeys_eq d ks"
  by (simp add: dkeys_eq_set) (metis list.set_map)

lemma is_hex_id_content:
  assumes "content_id prefix v = Inr s"
  shows "is_hex_id (prefix @ '':'') (JStr s)"
  using assms by (rule content_id_text) (simp add: is_hex_id_def startswith_def)

lemma issue_commandE:
  assumes "issue_command consume k s env vc q ch now = (s', Inr command)"
  obtains qd parameters expires cap where "request_digest q = Inr qd" "rq_target q = ch_device_id ch"
    "dget (rq_context q) ''device_parameters'' = JDict parameters"
    "map_of (vc_claims vc) ''capability_id'' = Some (JStr cap)" "consume s env cap expires = (s', Inr True)"
    "sign_statement ''kinegrant:device-command'' ''command_id'' k (command_body k ch cap qd (rq_action q) parameters) = Inr command"
proof -
  obtain qd parameters expires cap where c: "issue_checks (vc_claims vc) q ch now = Inr (qd, parameters, expires, cap)"
    and r: "consume s env cap expires = (s', Inr True)"
      "sign_statement ''kinegrant:device-command'' ''command_id'' k (command_body k ch cap qd (rq_action q) parameters) = Inr command"
    using assms by (auto simp: issue_command_def split: sum.splits prod.splits if_splits)
  have "request_digest q = Inr qd \<and> rq_target q = ch_device_id ch
      \<and> dget (rq_context q) ''device_parameters'' = JDict parameters \<and> map_of (vc_claims vc) ''capability_id'' = Some (JStr cap)"
    using c unfolding issue_checks_def
    by (elim res_elims) (auto simp: res_simps split: json.splits if_splits)
  with r show thesis by (intro that) auto
qed

lemma command_accepted:
  assumes s: "sign_statement ''kinegrant:device-command'' ''command_id'' k (command_body k ch cap qd ''move_paper_barrier'' [(''position'', JStr pos)]) = Inr command"
    and k: "good_key V k" "kid k \<in> set (dv_trusted dev)"
    and ch: "ch_device_id ch = dv_id dev" "1 \<le> ch_boot_counter ch" "1 \<le> ch_next_sequence ch"
    and ids: "is_hex_id ''kinegrant:cap:'' (JStr cap)" "is_sha256_text qd" and pos: "pos \<in> {''open'', ''closed''}"
  obtains cid where "check_command V dev (JDict command)
      = Inr (command_body k ch cap qd ''move_paper_barrier'' [(''position'', JStr pos)] @ [(''command_id'', JStr cid)], cid)"
proof -
  let ?b = "command_body k ch cap qd ''move_paper_barrier'' [(''position'', JStr pos)]"
  have "\<not> dhas ?b ''command_id''" by (simp add: command_body_def)
  from sign_statement_verifies [OF s k(1) this] obtain cid where v: "verify_envelope V command = Inr (?b @ [(''command_id'', JStr cid)])"
    and kid: "dget command ''kid'' = JStr (kid k)"
    and cid: "content_id ''kinegrant:device-command'' (JDict (dwithout [''command_id''] (?b @ [(''command_id'', JStr cid)]))) = Inr cid" .
  let ?p = "?b @ [(''command_id'', JStr cid)]"
  have env: "dkeys_eq command ENVELOPE_FIELDS"
    using sign_statement_fields [OF s] by (intro dkeys_eq_fields) (simp add: ENVELOPE_FIELDS_def)
  have fields: "dkeys_eq ?p COMMAND_FIELDS"
    by (rule dkeys_eq_fields) (simp add: command_body_def COMMAND_FIELDS_def)
  have members: "dget ?p ''type'' = JStr COMMAND_TYPE" "dget ?p ''profile'' = JStr PROFILE" "dget ?p ''executor'' = JStr (kid k)"
    "dget ?p ''device_id'' = JStr (dv_id dev)" "dget ?p ''capability_id'' = JStr cap" "dget ?p ''request_digest'' = JStr qd"
    "dget ?p ''action'' = JStr ''move_paper_barrier''" "dget ?p ''parameters'' = JDict [(''position'', JStr pos)]"
    "dget ?p ''boot_counter'' = JInt (ch_boot_counter ch)" "dget ?p ''sequence'' = JInt (ch_next_sequence ch)"
    "dget ?p ''command_id'' = JStr cid"
    using ch(1) by (simp_all add: command_body_def)
  have par: "check_parameters ?p = Inr ()"
    using pos unfolding check_parameters_def members by (simp add: dkeys_eq_def)
  have hex: "is_hex_id ''kinegrant:device-command:'' (JStr cid)" using is_hex_id_content [OF cid] by simp
  have "check_command V dev (JDict command) = Inr (?p, cid)"
    unfolding check_command_def json.case members
    using env fields v kid k(2) ch(2,3) ids par hex cid
    by (simp add: as_permission_def members positive_int_def del: dget_append dwithout_append)
  then show thesis by (rule that)
qed

lemma ack_verifies:
  assumes s: "sign_statement ''kinegrant:device-ack'' ''ack_id'' (dv_key dev) (ack_body dev p cid n) = Inr ack"
    and k: "good_key V (dv_key dev)" "kid (dv_key dev) \<in> set trusted"
    and b: "1 \<le> dv_boot dev" "positive_int (dget p ''sequence'')" "1 \<le> n" "\<not> blank (dv_id dev)"
    and ids: "is_hex_id ''kinegrant:cap:'' (dget p ''capability_id'')" "is_hex_id ''kinegrant:device-command:'' (JStr cid)"
    and ex: "expects commands (JStr cid)" "expects devices (JStr (dv_id dev))" "expects caps (dget p ''capability_id'')"
  shows "verify_device_ack V (JDict ack) trusted commands devices caps = Inr True"
proof -
  let ?b = "ack_body dev p cid n"
  have "\<not> dhas ?b ''ack_id''" by (simp add: ack_body_def)
  from sign_statement_verifies [OF s k(1) this] obtain aid where v: "verify_envelope V ack = Inr (?b @ [(''ack_id'', JStr aid)])"
    and kid: "dget ack ''kid'' = JStr (kid (dv_key dev))"
    and aid: "content_id ''kinegrant:device-ack'' (JDict (dwithout [''ack_id''] (?b @ [(''ack_id'', JStr aid)]))) = Inr aid" .
  let ?p = "?b @ [(''ack_id'', JStr aid)]"
  have env: "dkeys_eq ack ENVELOPE_FIELDS"
    using sign_statement_fields [OF s] by (intro dkeys_eq_fields) (simp add: ENVELOPE_FIELDS_def)
  have fields: "dkeys_eq ?p ACK_FIELDS" by (rule dkeys_eq_fields) (simp add: ack_body_def ACK_FIELDS_def)
  have members: "dget ?p ''type'' = JStr ACK_TYPE" "dget ?p ''profile'' = JStr PROFILE" "dget ?p ''device'' = JStr (kid (dv_key dev))"
    "dget ?p ''device_id'' = JStr (dv_id dev)" "dget ?p ''command_id'' = JStr cid" "dget ?p ''capability_id'' = dget p ''capability_id''"
    "dget ?p ''boot_counter'' = JInt (dv_boot dev)" "dget ?p ''sequence'' = dget p ''sequence''" "dget ?p ''result'' = JStr ''succeeded''"
    "dget ?p ''actuator_count'' = JInt n" "dget ?p ''ack_id'' = JStr aid"
    by (simp_all add: ack_body_def)
  have pos: "positive_int (JInt (dv_boot dev))" "positive_int (JInt n)" using b by (simp_all add: positive_int_def)
  show ?thesis
    unfolding verify_device_ack_def json.case
    using env fields v kid k(2) ids ex pos aid b(2,4)
    by (simp add: members del: dget_append dwithout_append)
qed

lemma challengeE:
  assumes "challenge S s e dev0 nonce t = (dev, Inr ch)"
  obtains n where "ss_next_sequence S s e (dv_id dev0) (dv_boot dev0) = Inr n" "dev = dev0\<lparr>dv_active := Some (ch, t)\<rparr>"
    "ch = \<lparr>ch_device_id = dv_id dev0, ch_boot_counter = dv_boot dev0, ch_nonce = nonce, ch_next_sequence = n,
           ch_max_age_ms = JInt MAX_CHALLENGE_AGE_MS\<rparr>"
    "1 \<le> dv_boot dev0" "1 \<le> n" "\<not> blank (dv_id dev0)"
proof -
  obtain n where a: "ss_next_sequence S s e (dv_id dev0) (dv_boot dev0) = Inr n" "dev = dev0\<lparr>dv_active := Some (ch, t)\<rparr>"
    and i: "device_challenge_init (JStr (dv_id dev0)) (JInt (dv_boot dev0)) (JStr nonce) (JInt n) (JInt MAX_CHALLENGE_AGE_MS) = Inr ch"
    using assms by (auto simp: challenge_def res_simps split: sum.splits)
  from i have b: "ch = \<lparr>ch_device_id = dv_id dev0, ch_boot_counter = dv_boot dev0, ch_nonce = nonce, ch_next_sequence = n,
           ch_max_age_ms = JInt MAX_CHALLENGE_AGE_MS\<rparr>" "1 \<le> dv_boot dev0" "1 \<le> n" "\<not> blank (dv_id dev0)"
    by (auto simp: device_challenge_init_def positive_int_def split: if_splits)
  from a b show thesis by (rule that)
qed

lemma sign_statement_serializable:
  assumes "sign_statement prefix id_field k body = Inr env" "\<not> dhas body id_field"
  shows "serializable (JDict body)"
proof -
  obtain cid where "content_id prefix (JDict (dwithout [id_field] body)) = Inr cid"
    using assms(1) by (auto simp: sign_statement_def res_simps)
  then have "\<exists>b. canonical_json (JDict body) = Inr b"
    by (auto simp: dwithout_absent [OF assms(2)] content_id_def res_simps)
  then show ?thesis by (simp add: canonical_json_total)
qed

text \<open>
  A command issued for the device's live challenge within its time, by a trusted executor, moves the
  barrier, and the acknowledgement verifies against the device's key.
\<close>

context device_store
begin

lemma device_moves:
  assumes chal: "challenge S s e dev0 nonce t = (dev, Inr ch)"
    and iss: "issue_command consume k rs renv vc q ch now = (rs', Inr command)"
    and k: "good_key V k" "kid k \<in> set (dv_trusted dev0)"
    and q: "rq_action q = ''move_paper_barrier''" "dget (rq_context q) ''device_parameters'' = JDict [(''position'', JStr pos)]"
      "pos \<in> {''open'', ''closed''}"
    and cap: "is_hex_id ''kinegrant:cap:'' (dget (vc_claims vc) ''capability_id'')"
    and time: "t \<le> m" "m < t + 10"
    and st: "store_ok s" "works e" "ss_actuator_count S s e (dv_id dev0) = Inr c" "0 \<le> c" "c < max_safe_integer"
    and new: "\<forall>p cid. check_command V dev (JDict command) = Inr (p, cid) \<longrightarrow> (dv_id dev0, cid) \<notin> dw_consumed (view s)"
  obtains p cid cap s' ack where "check_command V dev (JDict command) = Inr (p, cid)"
    "actuate V S s e dev (JDict command) m = (s', dev0\<lparr>dv_active := None\<rparr>, Inr (p, cid, c + 1))"
    "device_execute V S s e dev (JDict command) m = (s', dev0\<lparr>dv_active := None\<rparr>, Inr ack)"
    "dget p ''capability_id'' = JStr cap" "\<exists>i. dget p ''sequence'' = JInt i"
    "sign_statement ''kinegrant:device-ack'' ''ack_id'' (dv_key dev) (ack_body dev p cid (c + 1)) = Inr ack"
    "\<And>W trusted commands caps. good_key W (dv_key dev0) \<Longrightarrow> kid (dv_key dev0) \<in> set trusted \<Longrightarrow> expects commands (JStr cid) \<Longrightarrow>
      expects caps (JStr cap) \<Longrightarrow> verify_device_ack W (JDict ack) trusted commands (Some [dv_id dev0]) caps = Inr True"
proof -
  obtain n where n: "ss_next_sequence S s e (dv_id dev0) (dv_boot dev0) = Inr n" and dev: "dev = dev0\<lparr>dv_active := Some (ch, t)\<rparr>"
    and ch: "ch = \<lparr>ch_device_id = dv_id dev0, ch_boot_counter = dv_boot dev0, ch_nonce = nonce, ch_next_sequence = n,
           ch_max_age_ms = JInt MAX_CHALLENGE_AGE_MS\<rparr>"
    and pos: "1 \<le> dv_boot dev0" "1 \<le> n" "\<not> blank (dv_id dev0)" by (rule challengeE [OF chal])
  obtain qd capid where qd: "request_digest q = Inr qd" and ci: "map_of (vc_claims vc) ''capability_id'' = Some (JStr capid)"
    and sgn: "sign_statement ''kinegrant:device-command'' ''command_id'' k
      (command_body k ch capid qd ''move_paper_barrier'' [(''position'', JStr pos)]) = Inr command"
    by (rule issue_commandE [OF iss]) (auto simp: q)
  have hexcap: "is_hex_id ''kinegrant:cap:'' (JStr capid)" using cap ci by (simp add: dget_def)
  have "is_sha256_text qd" using qd by (auto simp: request_digest_def res_simps dest: digest_shape)
  then obtain cid where cc: "check_command V dev (JDict command)
      = Inr (command_body k ch capid qd ''move_paper_barrier'' [(''position'', JStr pos)] @ [(''command_id'', JStr cid)], cid)"
    using command_accepted [OF sgn k(1), of dev] k(2) hexcap q(3) pos by (auto simp: dev ch)
  let ?p = "command_body k ch capid qd ''move_paper_barrier'' [(''position'', JStr pos)] @ [(''command_id'', JStr cid)]"
  obtain c' where w0: "dw_state (view s) (dv_id dev0) = Some (dv_boot dev0, n - 1, c')" using next_sequence [OF st(1) n] by blast
  have "c' = c" using actuator_count [OF st(1,3)] w0 by auto
  with w0 new cc obtain w where "view_consume (view s) (dv_id dev0) (dv_boot dev0) n cid = Some (c + 1, w)"
    by (auto simp: view_consume_def)
  then obtain s' where s': "ss_consume_command S s e (dv_id dev0) (dv_boot dev0) n cid = (s', Inr (Some (c + 1)))"
    using consume_works [OF st(1,2)] by blast
  have fresh: "\<not> stale ch (m - t)" using time by (simp add: stale_def ch MAX_CHALLENGE_AGE_MS_def)
  have ans: "answers ?p ch" by (simp add: answers_def ch command_body_def)
  have act: "actuate V S s e dev (JDict command) m = (s', dev0\<lparr>dv_active := None\<rparr>, Inr (?p, cid, c + 1))"
    using cc fresh ans s' by (simp add: actuate_def consume_challenge_def Let_def dev ch)
  have mem: "dget ?p ''capability_id'' = JStr capid" "dget ?p ''sequence'' = JInt n" by (simp_all add: command_body_def ch)
  have "serializable (JDict (command_body k ch capid qd ''move_paper_barrier'' [(''position'', JStr pos)]))"
    using sgn by (rule sign_statement_serializable) (simp add: command_body_def)
  then have "serializable (JDict (ack_body dev ?p cid (c + 1)))"
    using st(4,5) mem by (simp add: ack_body_def command_body_def ch dev max_safe_integer_def)
  then obtain ack where ack: "sign_statement ''kinegrant:device-ack'' ''ack_id'' (dv_key dev) (ack_body dev ?p cid (c + 1)) = Inr ack"
    using sign_statement_total [of "ack_body dev ?p cid (c + 1)" "''ack_id''"] by (auto simp: ack_body_def)
  have hex: "is_hex_id ''kinegrant:device-command:'' (JStr cid)"
  proof -
    have "content_id ''kinegrant:device-command'' (JDict (dwithout [''command_id''] ?p)) = Inr cid"
      using cc by (rule check_commandD)
    from is_hex_id_content [OF this] show ?thesis by simp
  qed
  have ver: "verify_device_ack W (JDict ack) trusted commands (Some [dv_id dev0]) caps = Inr True"
    if "good_key W (dv_key dev0)" "kid (dv_key dev0) \<in> set trusted" "expects commands (JStr cid)" "expects caps (JStr capid)"
    for W trusted commands caps
    by (rule ack_verifies [OF ack])
      (use that pos st(4) hex hexcap in \<open>simp_all add: dev mem positive_int_def expects_def [of "Some [dv_id dev0]"] del: dget_append\<close>)
  have "device_execute V S s e dev (JDict command) m = (s', dev0\<lparr>dv_active := None\<rparr>, Inr ack)"
    using act ack by (simp add: device_execute_def)
  from that [OF cc act this mem(1) _ ack ver] mem(2) show thesis by blast
qed

lemma device_loop:
  assumes chal: "challenge S s e dev0 nonce t = (dev, Inr ch)"
    and iss: "issue_command consume k rs renv vc q ch now = (rs', Inr command)"
    and k: "good_key V k" "kid k \<in> set (dv_trusted dev0)"
    and q: "rq_action q = ''move_paper_barrier''" "dget (rq_context q) ''device_parameters'' = JDict [(''position'', JStr pos)]"
      "pos \<in> {''open'', ''closed''}"
    and cap: "is_hex_id ''kinegrant:cap:'' (dget (vc_claims vc) ''capability_id'')"
    and time: "t \<le> m" "m < t + 10"
    and st: "store_ok s" "works e" "ss_actuator_count S s e (dv_id dev0) = Inr c" "0 \<le> c" "c < max_safe_integer"
    and new: "\<forall>p cid. check_command V dev (JDict command) = Inr (p, cid) \<longrightarrow> (dv_id dev0, cid) \<notin> dw_consumed (view s)"
  shows "\<exists>s' dev' ack. device_execute V S s e dev (JDict command) m = (s', dev', Inr ack)
    \<and> (\<forall>W. good_key W (dv_key dev0) \<longrightarrow>
        verify_device_ack W (JDict ack) [kid (dv_key dev0)] None (Some [dv_id dev0]) None = Inr True)"
proof -
  from device_moves [OF assms] show ?thesis
    by (smt (verit) expects_def list.set_intros(1) option.case(1))
qed

end

section \<open>Devices over one store\<close>

text \<open>
  A world: the store and every device object that has been created over it for one device, in the
  order of their boots. An event names the object it is for; the actuations of a run are
  recorded with their command and their count.
\<close>

datatype 'e device_event =
    Boot 'e
  | Challenge nat 'e string rat
  | Execute nat 'e json rat

fun world_step ::
  "verifier \<Rightarrow> ('s, 'e) state_store \<Rightarrow> string \<Rightarrow> key_pair \<Rightarrow> string list \<Rightarrow> 's \<times> device list \<Rightarrow> 'e device_event
    \<Rightarrow> ('s \<times> device list) \<times> (string \<times> int) list" where
  "world_step V S d k trusted (s, devs) (Boot e) = (case device_init S s e (JStr d) k trusted of
      (s', Inl x) \<Rightarrow> ((s', devs), []) | (s', Inr dev) \<Rightarrow> ((s', devs @ [dev]), []))"
| "world_step V S d k trusted (s, devs) (Challenge i e nonce m) =
     (if i < length devs then ((s, devs[i := fst (challenge S s e (devs ! i) nonce m)]), []) else ((s, devs), []))"
| "world_step V S d k trusted (s, devs) (Execute i e command m) =
     (if i < length devs then (case actuate V S s e (devs ! i) command m of
        (s', dev', r) \<Rightarrow> ((s', devs[i := dev']), case r of Inl x \<Rightarrow> [] | Inr (p, cid, n) \<Rightarrow> [(cid, n)]))
      else ((s, devs), []))"

fun world_run ::
  "verifier \<Rightarrow> ('s, 'e) state_store \<Rightarrow> string \<Rightarrow> key_pair \<Rightarrow> string list \<Rightarrow> 's \<times> device list \<Rightarrow> 'e device_event list
    \<Rightarrow> ('s \<times> device list) \<times> (string \<times> int) list" where
  "world_run V S d k trusted w [] = (w, [])"
| "world_run V S d k trusted w (ev # evs) =
     (case world_step V S d k trusted w ev of (w', out) \<Rightarrow>
        case world_run V S d k trusted w' evs of (w'', outs) \<Rightarrow> (w'', out @ outs))"

definition view_count :: "device_view \<Rightarrow> string \<Rightarrow> int" where
  "view_count v d = (case dw_state v d of None \<Rightarrow> 0 | Some (_, _, c) \<Rightarrow> c)"

definition devices_of :: "string \<Rightarrow> device list \<Rightarrow> bool" where
  "devices_of d devs \<longleftrightarrow> (\<forall>dev\<in>set devs. dv_id dev = d)"

lemma devices_of_update: "devices_of d devs \<Longrightarrow> dv_id dev = d \<Longrightarrow> devices_of d (devs[i := dev])"
  by (auto simp: devices_of_def dest: subsetD [OF set_update_subset_insert])

text \<open>How a step may move the abstract state: not at all as far as consumption goes, or by one
  actuation of a command that had not been consumed.\<close>

definition moves :: "string \<Rightarrow> device_view \<Rightarrow> device_view \<Rightarrow> (string \<times> int) list \<Rightarrow> bool" where
  "moves d v w out \<longleftrightarrow>
     (out = [] \<and> dw_consumed w = dw_consumed v \<and> view_count w d = view_count v d) \<or>
     (\<exists>cid. out = [(cid, view_count v d + 1)] \<and> (d, cid) \<notin> dw_consumed v
        \<and> dw_consumed w = insert (d, cid) (dw_consumed v) \<and> view_count w d = view_count v d + 1)"

context device_store
begin

lemma step_moves:
  assumes "store_ok s" "devices_of d devs" "world_step V S d k trusted (s, devs) ev = ((s', devs'), out)"
  shows "store_ok s' \<and> devices_of d devs' \<and> moves d (view s) (view s') out"
proof (cases ev)
  case (Boot e)
  show ?thesis
  proof (cases "ss_begin_boot S s e d")
    case (Pair s1 r)
    show ?thesis
    proof (cases r)
      case (Inl x)
      with Pair have "s1 = s" using begin_fails by blast
      with assms Boot Pair Inl show ?thesis by (auto simp: device_init_def moves_def split: if_splits)
    next
      case (Inr b)
      have "view s1 = view_begin (view s) d" using begin_boot [OF assms(1)] Pair Inr by simp
      moreover have "store_ok s1" using begin_ok [OF assms(1), of e d] Pair by simp
      ultimately show ?thesis using assms Boot Pair Inr
        by (auto simp: device_init_def moves_def view_begin_def view_count_def devices_of_def
            split: if_splits option.splits)
    qed
  qed
next
  case (Challenge i e nonce m)
  have id: "dv_id (fst (challenge S s e dev nonce m)) = dv_id dev" for dev
    by (auto simp: challenge_def split: sum.splits)
  show ?thesis
  proof (cases "i < length devs")
    case True
    then have "devices_of d (devs[i := fst (challenge S s e (devs ! i) nonce m)])"
      using assms(2) by (intro devices_of_update) (simp_all add: id devices_of_def)
    with assms True Challenge show ?thesis by (auto simp: moves_def)
  qed (use assms Challenge in \<open>auto simp: moves_def\<close>)
next
  case (Execute i e command m)
  show ?thesis
  proof (cases "i < length devs")
    case False
    with assms Execute show ?thesis by (auto simp: moves_def)
  next
    case True
    obtain s1 dev1 r where a: "actuate V S s e (devs ! i) command m = (s1, dev1, r)" by (cases "actuate V S s e (devs ! i) command m")
    have id: "dv_id (devs ! i) = d" using assms(2) True by (simp add: devices_of_def)
    have s': "s' = s1" "devs' = devs[i := dev1]" "out = (case r of Inl x \<Rightarrow> [] | Inr (p, cid, n) \<Rightarrow> [(cid, n)])"
      using assms(3) True a by (auto simp: Execute)
    show ?thesis
    proof (cases r)
      case (Inl x)
      from actuate_Inl [OF a [unfolded Inl]] have dev1: "dv_id dev1 = d"
        and st: "s1 = s \<or> (\<exists>n cid r. (\<forall>k. r \<noteq> Inr (Some k)) \<and> ss_consume_command S s e (dv_id (devs ! i)) (dv_boot (devs ! i)) n cid = (s1, r))"
        using id by auto
      from st have "s1 = s"
      proof
        assume "\<exists>n cid r. (\<forall>k. r \<noteq> Inr (Some k)) \<and> ss_consume_command S s e (dv_id (devs ! i)) (dv_boot (devs ! i)) n cid = (s1, r)"
        then obtain n cid r' where "ss_consume_command S s e (dv_id (devs ! i)) (dv_boot (devs ! i)) n cid = (s1, r')"
          "\<forall>k. r' \<noteq> Inr (Some k)" by blast
        then show ?thesis by (auto elim!: consume_cases [OF assms(1)])
      qed
      with s' Inl assms(1,2) dev1 show ?thesis by (auto simp: moves_def intro: devices_of_update)
    next
      case (Inr x)
      obtain p cid n where x: "x = (p, cid, n)" by (cases x)
      obtain ch :: device_challenge where c0: "ss_consume_command S s e (dv_id (devs ! i)) (dv_boot (devs ! i)) (ch_next_sequence ch) cid = (s1, Inr (Some n))"
        and dev1: "dev1 = (devs ! i)\<lparr>dv_active := None\<rparr>"
        by (rule actuate_Inr [OF a [unfolded Inr x]])
      note c = c0 [unfolded id]
      have "moves d (view s) (view s1) [(cid, n)]"
        using consume_cases [OF assms(1) c] by (rule) (auto simp: moves_def view_count_def)
      moreover have "store_ok s1" using consume_ok [OF assms(1), of e d "dv_boot (devs ! i)" "ch_next_sequence ch" cid] c by simp
      ultimately show ?thesis using s' Inr x dev1 id assms(2) by (auto intro: devices_of_update)
    qed
  qed
qed

text \<open>Whatever the boots, challenges and commands: every actuation is of a new command, and the
  counter counts them.\<close>

lemma run_moves:
  assumes "store_ok s" "devices_of d devs" "world_run V S d k trusted (s, devs) evs = ((s', devs'), outs)"
  shows "store_ok s' \<and> devices_of d devs' \<and> distinct (map fst outs)
    \<and> (\<forall>cid\<in>fst ` set outs. (d, cid) \<notin> dw_consumed (view s)) \<and> dw_consumed (view s) \<subseteq> dw_consumed (view s')
    \<and> view_count (view s') d = view_count (view s) d + int (length outs)"
  using assms
proof (induction evs arbitrary: s devs outs)
  case (Cons ev evs)
  obtain s1 devs1 out where st: "world_step V S d k trusted (s, devs) ev = ((s1, devs1), out)"
    by (metis prod.collapse)
  obtain outs1 where r: "world_run V S d k trusted (s1, devs1) evs = ((s', devs'), outs1)" "outs = out @ outs1"
    using Cons.prems(3) st by (auto split: prod.splits)
  from step_moves [OF Cons.prems(1,2) st] have s1: "store_ok s1" "devices_of d devs1" and m: "moves d (view s) (view s1) out"
    by auto
  from Cons.IH [OF s1 r(1)] have ih: "store_ok s'" "devices_of d devs'" "distinct (map fst outs1)"
    "\<forall>cid\<in>fst ` set outs1. (d, cid) \<notin> dw_consumed (view s1)" "dw_consumed (view s1) \<subseteq> dw_consumed (view s')"
    "view_count (view s') d = view_count (view s1) d + int (length outs1)"
    by auto
  from m show ?case
    unfolding moves_def
  proof (elim disjE conjE exE)
    fix cid
    assume "out = [(cid, view_count (view s) d + 1)]" "(d, cid) \<notin> dw_consumed (view s)"
      "dw_consumed (view s1) = insert (d, cid) (dw_consumed (view s))" "view_count (view s1) d = view_count (view s) d + 1"
    with ih r(2) show ?case by auto
  qed (use ih r(2) in auto)
qed auto

end

end
