(* ===== verification/DemoDevice.thy ===== *)
theory DemoDevice
  imports Device Demo
begin

text \<open>
  A concrete device over an empty SQLite database: its first boot, one challenge, and the command
  issued for it. The witnesses of the device properties use it.
\<close>

definition barrier_request :: action_request where
  "barrier_request = \<lparr>rq_request_id = ''r2'', rq_agent = ''robot'', rq_target = ''barrier-1'',
     rq_action = ''move_paper_barrier'', rq_purpose = ''delivery'', rq_issued_at = demo_time 0,
     rq_context = [(''device_parameters'', JDict [(''position'', JStr ''open'')])]\<rparr>"

definition barrier_capability :: string where
  "barrier_capability = ''kinegrant:cap:'' @ replicate 64 CHR ''a''"

definition barrier_claims :: "string \<Rightarrow> string \<Rightarrow> dict" where
  "barrier_claims rd ex = [(''request_digest'', JStr rd), (''agent'', JStr ''robot''), (''target'', JStr ''barrier-1''),
     (''action'', JStr ''move_paper_barrier''), (''purpose'', JStr ''delivery''), (''expires_at'', JStr ex),
     (''capability_id'', JStr barrier_capability)]"

definition barrier_device :: device where
  "barrier_device = \<lparr>dv_id = ''barrier-1'', dv_key = demo_key, dv_trusted = [kid demo_key], dv_boot = 1, dv_active = None\<rparr>"

definition barrier_challenge :: device_challenge where
  "barrier_challenge = \<lparr>ch_device_id = ''barrier-1'', ch_boot_counter = 1, ch_nonce = demo_nonce, ch_next_sequence = 1,
     ch_max_age_ms = JInt 10000\<rparr>"

definition barrier_store :: sqlite_device_state where
  "barrier_store = \<lparr>sd_device_state = [(''barrier-1'', 1, 0, 0)], sd_consumed = []\<rparr>"

definition empty_device_store :: sqlite_device_state where
  "empty_device_store = \<lparr>sd_device_state = [], sd_consumed = []\<rparr>"

lemma barrier_boot:
  "device_init sqlite_device_store empty_device_store None (JStr ''barrier-1'') demo_key [kid demo_key] = (barrier_store, Inr barrier_device)"
  by (simp add: device_init_def sqlite_device_store_def sqlite_begin_boot_def upsert_boot_def empty_device_store_def
      barrier_store_def barrier_device_def blank_def py_isspace_def)

lemma barrier_challenged:
  "challenge sqlite_device_store barrier_store None barrier_device demo_nonce 0
    = (barrier_device\<lparr>dv_active := Some (barrier_challenge, 0)\<rparr>, Inr barrier_challenge)"
proof -
  have n: "nonce_text demo_nonce" by code_simp
  have b: "\<not> blank ''barrier-1''" by code_simp
  show ?thesis
    using n b by (simp add: challenge_def sqlite_device_store_def sqlite_next_sequence_def barrier_store_def barrier_device_def
        device_challenge_init_def barrier_challenge_def positive_int_def MAX_CHALLENGE_AGE_MS_def)
qed

lemma barrier_issued:
  obtains vc rs command where
    "issue_command memory_consume demo_key [] (\<lambda>_. demo_time 2) vc barrier_request barrier_challenge (demo_time 2) = (rs, Inr command)"
    "dget (vc_claims vc) ''capability_id'' = JStr barrier_capability"
proof -
  obtain iso where iso: "isoformat (demo_time 0) = Inr iso" using demo_iso [of 0] by auto
  have "\<exists>d. request_to_dict barrier_request = Inr d \<and> serializable (JDict d)"
    using iso by (simp add: request_to_dict_def barrier_request_def)
  then obtain rd where rd: "request_digest barrier_request = Inr rd"
    using digest_total by (fastforce simp: request_digest_def)
  obtain ex where ex: "isoformat (demo_time 31) = Inr ex" "parse_time (JStr ex) = Inr (demo_time 31)"
    using utc_time_iso [OF demo_utc [of 31]] by auto
  let ?vc = "\<lparr>vc_claims = barrier_claims rd ex, vc_authorized_at = demo_time 2\<rparr>"
  let ?body = "command_body demo_key barrier_challenge barrier_capability rd ''move_paper_barrier'' [(''position'', JStr ''open'')]"
  have "serializable (JDict ?body)" "\<not> dhas ?body ''command_id''"
    by (simp_all add: command_body_def barrier_challenge_def max_safe_integer_def)
  then obtain command where command: "sign_statement ''kinegrant:device-command'' ''command_id'' demo_key ?body = Inr command"
    using sign_statement_total by blast
  have "issue_checks (vc_claims ?vc) barrier_request barrier_challenge (demo_time 2)
      = Inr (rd, [(''position'', JStr ''open'')], demo_time 31, barrier_capability)"
    using rd ex by (simp add: issue_checks_def barrier_claims_def bound_fields_def barrier_request_def barrier_challenge_def
        command_expiry_def seconds_def)
  then have "issue_command memory_consume demo_key [] (\<lambda>_. demo_time 2) ?vc barrier_request barrier_challenge (demo_time 2)
      = ([(barrier_capability, demo_time 31)], Inr command)"
    using command by (simp add: issue_command_def demo_consume barrier_request_def)
  then show thesis by (rule that) (simp add: barrier_claims_def)
qed

lemma list_all_replicate: "P a \<Longrightarrow> list_all P (replicate n a)"
  by (induction n) auto

lemma barrier_hex: "list_all is_lower_hex (replicate 64 CHR ''a'')"
  by (rule list_all_replicate) (simp add: is_lower_hex_def)

lemma barrier_ready:
  "is_hex_id ''kinegrant:cap:'' (JStr barrier_capability)" "sqlite_device_ok barrier_store"
  "ss_actuator_count sqlite_device_store barrier_store None ''barrier-1'' = Inr 0"
  "dw_consumed (sqlite_device_view barrier_store) = {}" "sqlite_device_ok empty_device_store"
  "rq_action barrier_request = ''move_paper_barrier''"
  "dget (rq_context barrier_request) ''device_parameters'' = JDict [(''position'', JStr ''open'')]"
  by (simp_all add: is_hex_id_def barrier_capability_def startswith_def barrier_hex barrier_store_def
      sqlite_device_store_def sqlite_actuator_count_def sqlite_device_ok_def sqlite_device_view_def empty_device_store_def barrier_request_def)

text \<open>The device executes the command.\<close>

lemma barrier_executed:
  obtains command s' dev' ack where "device_execute demo_V sqlite_device_store barrier_store None
      (barrier_device\<lparr>dv_active := Some (barrier_challenge, 0)\<rparr>) (JDict command) 1 = (s', dev', Inr ack)"
proof -
  obtain vc rs command where c: "issue_command memory_consume demo_key [] (\<lambda>_. demo_time 2) vc barrier_request barrier_challenge (demo_time 2) = (rs, Inr command)"
    "dget (vc_claims vc) ''capability_id'' = JStr barrier_capability" by (rule barrier_issued)
  have dev: "dv_id barrier_device = ''barrier-1''" "dv_trusted barrier_device = [kid demo_key]" by (simp_all add: barrier_device_def)
  have "\<exists>s' dev' ack. device_execute demo_V sqlite_device_store barrier_store None
      (barrier_device\<lparr>dv_active := Some (barrier_challenge, 0)\<rparr>) (JDict command) 1 = (s', dev', Inr ack)
    \<and> (\<forall>W. good_key W (dv_key barrier_device) \<longrightarrow>
        verify_device_ack W (JDict ack) [kid (dv_key barrier_device)] None (Some [dv_id barrier_device]) None = Inr True)"
    by (rule sqlite_device.device_loop [OF barrier_challenged c(1), of demo_V "''open''" 1 0])
      (use c(2) barrier_ready demo_good_key dev in \<open>simp_all add: max_safe_integer_def\<close>)
  then show thesis using that by blast
qed

end
