(* ===== verification/StrictJson.thy ===== *)
theory StrictJson
  imports CanonicalInj
begin

text \<open>
  \<open>json.loads\<close> with the hooks of \<open>experimental/esp32c3_transport.py\<close>: objects with a repeated
  name, floating-point numbers and the constants of JavaScript are refused. The reader follows
  CPython's scanner on a list of code points. \<open>n\<close> is the nesting the interpreter's recursion limit
  leaves. Text of this model ends at code point 255: a string with a higher one is an
  \<open>OverflowError\<close>, which no caller handles, and nothing is claimed about it.
\<close>

section \<open>UTF-8\<close>

definition utf8_cont :: "nat \<Rightarrow> bool" where
  "utf8_cont b \<longleftrightarrow> 0x80 \<le> b \<and> b < 0xC0"

text \<open>\<open>bytes.decode("utf-8", errors="strict")\<close>\<close>

fun decode_utf8 :: "nat list \<Rightarrow> cps option" where
  "decode_utf8 [] = Some []"
| "decode_utf8 (b # r) =
     (if b < 0x80 then map_option ((#) b) (decode_utf8 r)
      else if 0xC2 \<le> b \<and> b < 0xE0 then (case r of
          c # r' \<Rightarrow> if utf8_cont c then map_option ((#) ((b - 0xC0) * 64 + (c - 0x80))) (decode_utf8 r') else None
        | _ \<Rightarrow> None)
      else if 0xE0 \<le> b \<and> b < 0xF0 then (case r of
          c # d # r' \<Rightarrow>
            if utf8_cont c \<and> utf8_cont d \<and> (b = 0xE0 \<longrightarrow> 0xA0 \<le> c) \<and> (b = 0xED \<longrightarrow> c < 0xA0)
            then map_option ((#) ((b - 0xE0) * 4096 + (c - 0x80) * 64 + (d - 0x80))) (decode_utf8 r') else None
        | _ \<Rightarrow> None)
      else if 0xF0 \<le> b \<and> b < 0xF5 then (case r of
          c # d # e # r' \<Rightarrow>
            if utf8_cont c \<and> utf8_cont d \<and> utf8_cont e \<and> (b = 0xF0 \<longrightarrow> 0x90 \<le> c) \<and> (b = 0xF4 \<longrightarrow> c < 0x90)
            then map_option ((#) ((b - 0xF0) * 262144 + (c - 0x80) * 4096 + (d - 0x80) * 64 + (e - 0x80))) (decode_utf8 r')
            else None
        | _ \<Rightarrow> None)
      else None)"

section \<open>Strings\<close>

definition json_error :: "string \<Rightarrow> 'a res" where
  "json_error msg = Inl (ValueError msg)"

definition text_char :: "nat \<Rightarrow> char res" where
  "text_char c = (if c < 256 then Inr (char_of c) else Inl (OverflowError ''code point above 255''))"

definition is_hex_cp :: "nat \<Rightarrow> bool" where
  "is_hex_cp c \<longleftrightarrow> (48 \<le> c \<and> c \<le> 57) \<or> (97 \<le> c \<and> c \<le> 102) \<or> (65 \<le> c \<and> c \<le> 70)"

definition hex_cp_val :: "nat \<Rightarrow> nat" where
  "hex_cp_val c = (if c < 58 then c - 48 else if c < 71 then c - 55 else c - 87)"

definition simple_escape :: "nat \<Rightarrow> nat option" where
  "simple_escape e = map_of [(34, 34), (92, 92), (47, 47), (98, 8), (102, 12), (110, 10), (114, 13), (116, 9)] e"

text \<open>The text of a string after its opening quote (\<open>strict=True\<close>: no control characters).\<close>

fun read_chars :: "cps \<Rightarrow> (string \<times> cps) res" where
  "read_chars [] = json_error ''Unterminated string''"
| "read_chars (c # r) =
     (if c = 34 then Inr ([], r)
      else if c = 92 then (case r of
          [] \<Rightarrow> json_error ''Unterminated string''
        | e # s \<Rightarrow>
            if e = 117 then (case s of
                h1 # h2 # h3 # h4 # s' \<Rightarrow>
                  if is_hex_cp h1 \<and> is_hex_cp h2 \<and> is_hex_cp h3 \<and> is_hex_cp h4
                  then rbind (text_char (((hex_cp_val h1 * 16 + hex_cp_val h2) * 16 + hex_cp_val h3) * 16 + hex_cp_val h4)) (\<lambda>ch.
                    rbind (read_chars s') (\<lambda>(t, q). Inr (ch # t, q)))
                  else json_error ''Invalid unicode escape''
              | _ \<Rightarrow> json_error ''Invalid unicode escape'')
            else (case simple_escape e of
                None \<Rightarrow> json_error ''Invalid escape''
              | Some x \<Rightarrow> rbind (read_chars s) (\<lambda>(t, q). Inr (char_of x # t, q))))
      else if c < 32 then json_error ''Invalid control character''
      else rbind (text_char c) (\<lambda>ch. rbind (read_chars r) (\<lambda>(t, q). Inr (ch # t, q))))"

section \<open>Numbers\<close>

definition is_digit_cp :: "nat \<Rightarrow> bool" where
  "is_digit_cp c \<longleftrightarrow> 48 \<le> c \<and> c \<le> 57"

definition cps_val :: "cps \<Rightarrow> nat" where
  "cps_val ds = foldl (\<lambda>a c. 10 * a + (c - 48)) 0 ds"

definition has_fraction :: "cps \<Rightarrow> bool" where
  "has_fraction r \<longleftrightarrow> (case r of a # b # _ \<Rightarrow> a = 46 \<and> is_digit_cp b | _ \<Rightarrow> False)"

definition has_exponent :: "cps \<Rightarrow> bool" where
  "has_exponent r \<longleftrightarrow> (case r of
      a # b # q \<Rightarrow> (a = 101 \<or> a = 69) \<and> (is_digit_cp b \<or> (b = 43 \<or> b = 45) \<and> q \<noteq> [] \<and> is_digit_cp (hd q))
    | _ \<Rightarrow> False)"

text \<open>Integers may have 4300 digits; a number with a fraction or an exponent is a float.\<close>

definition read_number :: "cps \<Rightarrow> (json \<times> cps) res" where
  "read_number t =
     (let neg = (t \<noteq> [] \<and> hd t = 45); u = (if neg then tl t else t)
      in if u = [] \<or> \<not> is_digit_cp (hd u) then json_error ''Expecting value''
         else
         (let ds = (if hd u = 48 then [48] else takeWhile is_digit_cp u); r = drop (length ds) u
          in if has_fraction r \<or> has_exponent r then json_error ''floating-point JSON number is not allowed: ''
             else if 4300 < length ds then json_error ''Exceeds the limit for integer string conversion''
             else Inr (JInt (if neg then - int (cps_val ds) else int (cps_val ds)), r)))"

section \<open>Values\<close>

definition skip_ws :: "cps \<Rightarrow> cps" where
  "skip_ws t = dropWhile (\<lambda>c. c = 32 \<or> c = 9 \<or> c = 10 \<or> c = 13) t"

definition begins :: "string \<Rightarrow> cps \<Rightarrow> bool" where
  "begins s t \<longleftrightarrow> take (length s) t = cps_of s"

text \<open>\<open>_unique_object\<close>\<close>

definition unique_object :: "dict \<Rightarrow> dict res" where
  "unique_object pairs = (if distinct (map fst pairs) then Inr pairs else json_error ''duplicate JSON key: '')"

lemma skip_ws_length: "length (skip_ws t) \<le> length t"
  by (simp add: skip_ws_def length_dropWhile_le)

lemma skip_ws_Cons: "skip_ws t = c # r \<Longrightarrow> length r < length t"
  using skip_ws_length [of t] by simp

lemma skip_ws_less [simp]:
  "length q < Suc m \<Longrightarrow> 2 * length (skip_ws q) < Suc (Suc (2 * m))"
  "length q < Suc m \<Longrightarrow> 2 * length (skip_ws q) < Suc (Suc (Suc (2 * m)))"
  "length q < m \<Longrightarrow> length (skip_ws q) < m"
  using skip_ws_length [of q] by simp_all

text \<open>
  A value, the elements after an opening bracket, the members after an opening brace. That the rest
  is shorter, as the guards ask, always holds (\<open>read_value_shorter\<close>).
\<close>

function (sequential) read_value :: "nat \<Rightarrow> cps \<Rightarrow> (json \<times> cps) res"
and read_elements :: "nat \<Rightarrow> cps \<Rightarrow> (json list \<times> cps) res"
and read_members :: "nat \<Rightarrow> cps \<Rightarrow> (dict \<times> cps) res" where
  "read_value n t = (case t of
      [] \<Rightarrow> json_error ''Expecting value''
    | c # r \<Rightarrow>
        if c = 34 then rbind (read_chars r) (\<lambda>(s, q). Inr (JStr s, q))
        else if c = 123 then
          (if n = 0 then Inl (RuntimeError ''maximum recursion depth exceeded'')
           else (case skip_ws r of
               [] \<Rightarrow> json_error ''Expecting property name enclosed in double quotes''
             | b # q \<Rightarrow>
                 if b = 125 then Inr (JDict [], q)
                 else rbind (read_members (n - 1) (skip_ws r)) (\<lambda>(d, z). rbind (unique_object d) (\<lambda>d'. Inr (JDict d', z)))))
        else if c = 91 then
          (if n = 0 then Inl (RuntimeError ''maximum recursion depth exceeded'')
           else (case skip_ws r of
               [] \<Rightarrow> json_error ''Expecting value''
             | b # q \<Rightarrow>
                 if b = 93 then Inr (JList [], q)
                 else rbind (read_elements (n - 1) (skip_ws r)) (\<lambda>(xs, z). Inr (JList xs, z))))
        else if begins ''null'' t then Inr (JNull, drop 4 t)
        else if begins ''true'' t then Inr (JBool True, drop 4 t)
        else if begins ''false'' t then Inr (JBool False, drop 5 t)
        else if begins ''NaN'' t \<or> begins ''Infinity'' t \<or> begins ''-Infinity'' t
          then json_error ''non-finite JSON number is not allowed: ''
        else read_number t)"
| "read_elements n t = rbind (read_value n t) (\<lambda>(v, r). case skip_ws r of
      [] \<Rightarrow> json_error ''Expecting ',' delimiter''
    | c # q \<Rightarrow>
        if c = 93 then Inr ([v], q)
        else if c = 44 \<and> length q < length t
          then rbind (read_elements n (skip_ws q)) (\<lambda>(vs, z). Inr (v # vs, z))
        else json_error ''Expecting ',' delimiter'')"
| "read_members n t = (case t of
      [] \<Rightarrow> json_error ''Expecting property name enclosed in double quotes''
    | c # r \<Rightarrow>
        if c \<noteq> 34 then json_error ''Expecting property name enclosed in double quotes''
        else rbind (read_chars r) (\<lambda>(k, q). case skip_ws q of
            [] \<Rightarrow> json_error ''Expecting ':' delimiter''
          | d # q' \<Rightarrow>
              if d \<noteq> 58 \<or> \<not> length q' < length t then json_error ''Expecting ':' delimiter''
              else rbind (read_value n (skip_ws q')) (\<lambda>(v, z). case skip_ws z of
                  [] \<Rightarrow> json_error ''Expecting ',' delimiter''
                | e # y \<Rightarrow>
                    if e = 125 then Inr ([(k, v)], y)
                    else if e = 44 \<and> length y < length t
                      then rbind (read_members n (skip_ws y)) (\<lambda>(d, x). Inr ((k, v) # d, x))
                    else json_error ''Expecting ',' delimiter'')))"
  by pat_completeness auto
termination
proof (relation "measure (\<lambda>x. case x of Inl (n, t) \<Rightarrow> 2 * length t | Inr (Inl (n, t)) \<Rightarrow> 2 * length t + 1
     | Inr (Inr (n, t)) \<Rightarrow> 2 * length t + 1)", goal_cases)
qed (auto dest!: skip_ws_Cons)

declare read_value.simps [simp del] read_elements.simps [simp del] read_members.simps [simp del]

definition loads_strict :: "nat \<Rightarrow> cps \<Rightarrow> json res" where
  "loads_strict n t = rbind (read_value n (skip_ws t)) (\<lambda>(v, r).
     if skip_ws r = [] then Inr v else json_error ''Extra data'')"

section \<open>Reading consumes\<close>

lemma read_chars_shorter: "read_chars t = Inr (s, q) \<Longrightarrow> length q < length t"
  by (induction t arbitrary: s q rule: read_chars.induct)
    (auto simp: json_error_def res_simps split: if_splits list.splits option.splits, fastforce+)

lemma read_number_shorter: "read_number t = Inr (v, q) \<Longrightarrow> length q < length t"
  by (auto simp: read_number_def Let_def json_error_def neq_Nil_conv split: if_splits)

lemma json_error_Inr [simp]: "json_error m \<noteq> Inr y" "Inr y \<noteq> json_error m"
  by (simp_all add: json_error_def)

lemma case_list_error: "(case xs of [] \<Rightarrow> json_error m | c # q \<Rightarrow> f c q) = Inr y \<longleftrightarrow> (\<exists>c q. xs = c # q \<and> f c q = Inr y)"
  by (cases xs) auto

lemma read_elements_InrD:
  "read_elements n t = Inr (vs, q) \<Longrightarrow> (\<exists>v r c z. read_value n t = Inr (v, r) \<and> skip_ws r = c # z
     \<and> (c = 93 \<and> vs = [v] \<and> q = z
        \<or> c = 44 \<and> length z < length t \<and> (\<exists>ws. read_elements n (skip_ws z) = Inr (ws, q) \<and> vs = v # ws)))"
  by (subst (asm) (1) read_elements.simps) (auto simp: case_list_error res_simps split: if_splits)

lemma read_members_InrD:
  "read_members n t = Inr (d, q) \<Longrightarrow> (\<exists>t1 k y z v x e u. t = 34 # t1 \<and> read_chars t1 = Inr (k, y)
     \<and> skip_ws y = 58 # z \<and> length z < length t \<and> read_value n (skip_ws z) = Inr (v, x) \<and> skip_ws x = e # u
     \<and> (e = 125 \<and> d = [(k, v)] \<and> q = u
        \<or> e = 44 \<and> length u < length t \<and> (\<exists>ws. read_members n (skip_ws u) = Inr (ws, q) \<and> d = (k, v) # ws)))"
  by (subst (asm) (1) read_members.simps) (auto simp: case_list_error res_simps split: if_splits)

lemma read_value_shorter:
  "read_value n t = Inr (v, q) \<Longrightarrow> length q < length t"
  "read_elements n t = Inr (vs, q) \<Longrightarrow> length q < length t"
  "read_members n t = Inr (d, q) \<Longrightarrow> length q < length t"
proof (induction n t and n t and n t arbitrary: v q and vs q and d q rule: read_value_read_elements_read_members.induct)
  case (1 n t)
  show ?case
  proof (cases t)
    case (Cons c r)
    note IH = "1.IH" [OF Cons]
    show ?thesis
      using "1.prems" Cons IH skip_ws_length [of r] read_chars_shorter [of r] read_number_shorter [of t]
      by (subst (asm) read_value.simps) (auto simp: json_error_def unique_object_def res_simps split: if_splits list.splits, fastforce+)
  qed (use 1 in \<open>simp add: read_value.simps json_error_def\<close>)
next
  case (2 n t)
  from "2.prems" obtain v r c z where v: "read_value n t = Inr (v, r)" and c: "skip_ws r = c # z" and
    rest: "q = z \<or> (\<exists>ws. length z < length t \<and> c = 44 \<and> read_elements n (skip_ws z) = Inr (ws, q))"
    using read_elements_InrD [OF "2.prems"] by auto
  have r: "length r < length t" using "2.IH"(1) [OF v] .
  have z: "length z < length t" using skip_ws_Cons [OF c] r by simp
  from rest show ?case
  proof (elim disjE exE conjE)
    fix ws
    assume "length z < length t" "c = 44" "read_elements n (skip_ws z) = Inr (ws, q)"
    with "2.IH"(2) [of "(v, r)" v r c z ws q] v c have "length q < length (skip_ws z)" by auto
    with z skip_ws_length [of z] show ?thesis by simp
  qed (use z in simp)
next
  case (3 n t)
  from "3.prems" obtain t1 k y d z v x e u where t: "t = 34 # t1" "read_chars t1 = Inr (k, y)" "skip_ws y = 58 # z" "length z < length t"
    and v: "read_value n (skip_ws z) = Inr (v, x)" "skip_ws x = e # u" and
    rest: "q = u \<or> (\<exists>ws. length u < length t \<and> e = 44 \<and> read_members n (skip_ws u) = Inr (ws, q))"
    using read_members_InrD [OF "3.prems"] by auto
  have "length x < length (skip_ws z)" using "3.IH"(1) [of 34 t1 "(k, y)" k y 58 z v x] t v by auto
  then have u: "length u < length t" using skip_ws_Cons [OF v(2)] skip_ws_length [of z] t(4) by simp
  from rest show ?case
  proof (elim disjE exE conjE)
    fix ws
    assume "length u < length t" "e = 44" "read_members n (skip_ws u) = Inr (ws, q)"
    with "3.IH"(2) [of 34 t1 "(k, y)" k y 58 z "(v, x)" v x e u ws q] t v have "length q < length (skip_ws u)" by auto
    with u skip_ws_length [of u] show ?thesis by simp
  qed (use u in simp)
qed

section \<open>Strings and numbers read back\<close>

lemma hex_digit_cp: "n < 16 \<Longrightarrow> is_hex_cp (of_char (hex_digit n)) \<and> hex_cp_val (of_char (hex_digit n)) = n"
  by (cases "n < 10") (simp_all add: is_hex_cp_def hex_cp_val_def hex_digit_def)

lemma read_escape: "c < 256 \<Longrightarrow> read_chars (escape_cp c @ r) = rbind (read_chars r) (\<lambda>(t, q). Inr (char_of c # t, q))"
proof (cases "c < 32 \<and> c \<noteq> 8 \<and> c \<noteq> 12 \<and> c \<noteq> 10 \<and> c \<noteq> 13 \<and> c \<noteq> 9")
  case True
  then have e: "escape_cp c = 92 # 117 # hex4 c" by (auto simp: escape_cp_def)
  have n: "c div 4096 mod 16 = 0" "c div 256 mod 16 = 0" "c mod 16 < 16" "c div 16 mod 16 < 16" "c div 16 mod 16 = c div 16" using True by auto
  have v: "((0 * 16 + 0) * 16 + c div 16 mod 16) * 16 + c mod 16 = c" unfolding n(5) by simp
  show ?thesis
    unfolding e using hex_digit_cp [of 0] hex_digit_cp [OF n(3)] hex_digit_cp [OF n(4)] n(1,2) v True
    by (simp add: hex4_def cps_of_def text_char_def)
next
  case False
  then have "32 \<le> c \<or> c = 8 \<or> c = 12 \<or> c = 10 \<or> c = 13 \<or> c = 9" by arith
  moreover have "32 \<le> c \<Longrightarrow> c < 256 \<Longrightarrow> escape_cp c = (if c = 34 \<or> c = 92 then [92, c] else [c])"
    by (simp add: escape_cp_def)
  moreover assume "c < 256"
  ultimately show ?thesis
    by (elim disjE) (simp_all add: simple_escape_def text_char_def, simp_all add: escape_cp_def simple_escape_def)
qed

lemma read_string: "read_chars (concat (map escape_cp (cps_of s)) @ 34 # r) = Inr (s, r)"
proof (induction s)
  case (Cons c s)
  have "(of_char c :: nat) < 256" using cps_of_small [of "[c]"] by (simp add: cps_of_def)
  with Cons show ?case by (simp add: cps_of_def read_escape)
qed (simp add: cps_of_def)

text \<open>What may follow a value in canonical text, and what is left of a number that was not read to
  its end.\<close>

definition stop :: "cps \<Rightarrow> bool" where
  "stop r \<longleftrightarrow> r = [] \<or> hd r = 44 \<or> hd r = 93 \<or> hd r = 125"

definition leftover :: "cps \<Rightarrow> bool" where
  "leftover q \<longleftrightarrow> q \<noteq> [] \<and> num_cp (hd q)"

lemma read_number_prefix:
  assumes "read_number t = Inr (w, q)"
  shows "\<exists>u. t = u @ q \<and> (\<forall>c\<in>set u. is_digit_cp c \<or> c = 45)"
proof -
  have digits: "\<exists>ds. u = ds @ q \<and> (\<forall>c\<in>set ds. is_digit_cp c)"
    if "u \<noteq> []" "q = drop (length (if hd u = 48 then [48] else takeWhile is_digit_cp u)) u" for u
  proof (cases "hd u = 48")
    case True
    with that show ?thesis by (intro exI [of _ "[48]"]) (auto simp: is_digit_cp_def neq_Nil_conv)
  next
    case False
    with that have "q = dropWhile is_digit_cp u" by (simp add: dropWhile_eq_drop)
    then show ?thesis
      by (intro exI [of _ "takeWhile is_digit_cp u"]) (auto dest: set_takeWhileD)
  qed
  show ?thesis
  proof (cases "t \<noteq> [] \<and> hd t = 45")
    case True
    then obtain u where t: "t = 45 # u" by (cases t) auto
    with assms digits [of u] obtain ds where "u = ds @ q" "\<forall>c\<in>set ds. is_digit_cp c"
      by (auto simp: read_number_def Let_def split: if_splits)
    with t show ?thesis by (intro exI [of _ "45 # ds"]) auto
  next
    case False
    with assms digits [of t] obtain ds where "t = ds @ q" "\<forall>c\<in>set ds. is_digit_cp c"
      by (auto simp: read_number_def Let_def split: if_splits)
    then show ?thesis by blast
  qed
qed

lemma read_number_whole:
  assumes "read_number (cps_of s @ r) = Inr (w, q)" "num_str s" "stop r"
  shows "q = r \<and> list_all (\<lambda>c. is_digit c \<or> c = CHR ''-'') s \<or> leftover q"
proof -
  obtain u where u: "cps_of s @ r = u @ q" "\<forall>c\<in>set u. is_digit_cp c \<or> c = 45" using read_number_prefix [OF assms(1)] by blast
  have dig: "list_all (\<lambda>c. is_digit c \<or> c = CHR ''-'') s" if "\<forall>c\<in>set (cps_of s). is_digit_cp c \<or> c = 45"
  proof -
    have "is_digit c \<or> c = CHR ''-''" if "is_digit_cp (of_char c) \<or> (of_char c :: nat) = of_char (CHR ''-'')" for c
      using that by (auto simp: is_digit_def is_digit_cp_def Let_def simp del: of_char_Char)
    with that show ?thesis by (auto simp: cps_of_def list_all_iff)
  qed
  from u(1) obtain x where "cps_of s = u @ x \<and> x @ r = q \<or> cps_of s @ x = u \<and> r = x @ q"
    unfolding append_eq_append_conv2 by blast
  then show ?thesis
  proof (elim disjE conjE)
    assume x: "cps_of s = u @ x" "x @ r = q"
    show ?thesis
    proof (cases "x = []")
      case True
      with x u dig show ?thesis by auto
    next
      case False
      then have "hd x \<in> set (cps_of s)" using x by simp
      then have "num_cp (hd x)" using assms(2) by (auto simp: num_str_def cps_of_def list_all_iff)
      with False x show ?thesis by (auto simp: leftover_def)
    qed
  next
    assume x: "cps_of s @ x = u" "r = x @ q"
    have "x = []"
    proof (rule ccontr)
      assume "x \<noteq> []"
      then have "hd x \<in> set u" "hd r = hd x" "r \<noteq> []" using x by auto
      with u(2) assms(3) show False by (auto simp: stop_def is_digit_cp_def)
    qed
    with x u dig show ?thesis by auto
  qed
qed

lemma hd_nat_str: "of_char (hd (nat_str n)) = (48 :: nat) \<longleftrightarrow> n = 0"
proof (induction n rule: nat_str.induct)
  case (1 n)
  show ?case
  proof (cases "n < 10")
    case True
    then show ?thesis by (subst nat_str.simps) simp
  next
    case False
    with 1 show ?thesis by (subst nat_str.simps) simp
  qed
qed

lemma cps_val_digits: "list_all is_digit s \<Longrightarrow> cps_val (cps_of s) = digits_val s"
proof -
  have "foldl (\<lambda>a c. 10 * a + (c - 48)) k (cps_of s) = foldl (\<lambda>a c. 10 * a + digit_val c) k s" for k
    by (induction s arbitrary: k) (simp_all add: cps_of_def digit_val_def)
  then show ?thesis by (simp add: cps_val_def digits_val_def)
qed

lemma read_digits:
  assumes "stop r" "u = cps_of (nat_str n) @ r"
  shows "u \<noteq> []" "is_digit_cp (hd u)" "hd u \<noteq> 45"
    "(if hd u = 48 then [48] else takeWhile is_digit_cp u) = cps_of (nat_str n)" "\<not> has_fraction r" "\<not> has_exponent r"
proof -
  have d: "\<forall>c\<in>set (cps_of (nat_str n)). is_digit_cp c"
    using nat_str_digits [of n] by (auto simp: cps_of_def list_all_iff is_digit_def is_digit_cp_def Let_def)
  have ne: "cps_of (nat_str n) \<noteq> []" by (simp add: cps_of_def)
  then have h: "hd u = of_char (hd (nat_str n))" using assms(2) by (simp add: cps_of_def hd_map)
  show "u \<noteq> []" using assms(2) ne by simp
  have "hd u \<in> set (cps_of (nat_str n))" using assms(2) ne by simp
  with d show "is_digit_cp (hd u)" by blast
  then show "hd u \<noteq> 45" by (auto simp: is_digit_cp_def)
  have tw: "takeWhile is_digit_cp u = cps_of (nat_str n)"
    using d assms by (cases r) (auto simp: takeWhile_append stop_def is_digit_cp_def)
  show "(if hd u = 48 then [48] else takeWhile is_digit_cp u) = cps_of (nat_str n)"
  proof (cases "hd u = 48")
    case True
    then have "n = 0" using h hd_nat_str by simp
    then have "cps_of (nat_str n) = [48]" by (subst nat_str.simps) (simp add: cps_of_def)
    with True show ?thesis by simp
  qed (use tw in simp)
  show "\<not> has_fraction r" "\<not> has_exponent r"
    using assms(1) by (auto simp: stop_def has_fraction_def has_exponent_def split: list.splits)
qed

lemma read_int:
  assumes "read_number (cps_of (int_str i) @ r) = Inr (w, q)" "stop r"
  shows "w = JInt i \<and> q = r"
proof (cases "i < 0")
  case True
  let ?u = "cps_of (nat_str (nat (- i))) @ r"
  have t: "cps_of (int_str i) @ r = 45 # ?u" using True by (simp add: int_str_def cps_of_def)
  note d = read_digits [OF assms(2) refl [of ?u]]
  have "w = JInt (- int (cps_val (cps_of (nat_str (nat (- i)))))) \<and> q = drop (length (cps_of (nat_str (nat (- i))))) ?u"
    using assms(1) d unfolding t read_number_def Let_def by (auto split: if_splits)
  with True show ?thesis by (simp add: cps_val_digits nat_str_digits)
next
  case False
  let ?u = "cps_of (nat_str (nat i)) @ r"
  have t: "cps_of (int_str i) @ r = ?u" using False by (simp add: int_str_def)
  note d = read_digits [OF assms(2) refl [of ?u]]
  have "w = JInt (int (cps_val (cps_of (nat_str (nat i))))) \<and> q = drop (length (cps_of (nat_str (nat i)))) ?u"
    using assms(1) d unfolding t read_number_def Let_def by (auto split: if_splits)
  with False show ?thesis by (simp add: cps_val_digits nat_str_digits)
qed

text \<open>A float whose text has neither point nor exponent is an integer, written as one.\<close>

lemma float_text_digits:
  assumes "list_all (\<lambda>c. is_digit c \<or> c = CHR ''-'') (float_text v)"
  shows "float_text v = int_str \<lfloor>v\<rfloor>"
proof -
  have no: "\<not> list_all (\<lambda>c. is_digit c \<or> c = CHR ''-'') (exp_text ds p)"
    "\<not> list_all (\<lambda>c. is_digit c \<or> c = CHR ''-'') (fixed_text ds p)" for ds p
    by (simp_all add: exp_text_def fixed_text_def is_digit_def Let_def)
  have "float_text v = int_str \<lfloor>v\<rfloor>" if "v = 0"
  proof -
    have "cps_of (nat_str 0) = cps_of ''0''" by (subst nat_str.simps) (simp add: cps_of_def)
    with that show ?thesis by (simp add: float_text_def int_str_def)
  qed
  with assms no show ?thesis by (auto simp: float_text_def Let_def split: prod.splits if_splits)
qed

section \<open>Canonical text reads back\<close>

text \<open>What reading returns for a value that was written: members in the order of their names, an
  integral float as the integer.\<close>

fun plain :: "json \<Rightarrow> json"
and plain_list :: "json list \<Rightarrow> json list"
and plain_items :: "dict \<Rightarrow> dict" where
  "plain JNull = JNull"
| "plain (JBool b) = JBool b"
| "plain (JStr s) = JStr s"
| "plain (JInt i) = JInt i"
| "plain (JFloat f) = (case f of FFin r \<Rightarrow> JInt \<lfloor>r\<rfloor> | _ \<Rightarrow> JFloat f)"
| "plain (JList xs) = JList (plain_list xs)"
| "plain (JDict d) = JDict (sort_key (\<lambda>m. utf16_key (fst m)) (plain_items d))"
| "plain_list [] = []"
| "plain_list (x # xs) = plain x # plain_list xs"
| "plain_items [] = []"
| "plain_items ((k, v) # d) = (k, plain v) # plain_items d"

lemma plain_maps: "plain_list xs = map plain xs" "plain_items d = map (\<lambda>m. (fst m, plain (snd m))) d"
  by (induction xs, simp_all) (induction d, auto)

lemma plain_dict: "plain (JDict d) = JDict (map (\<lambda>m. (fst m, plain (snd m))) (sort_key (\<lambda>m. utf16_key (fst m)) d))"
  by (simp add: plain_maps sort_key_map)

definition plain_head :: "cps \<Rightarrow> bool" where
  "plain_head t \<longleftrightarrow> t \<noteq> [] \<and> hd t \<notin> {32, 9, 10, 13}"

lemma skip_ws_plain: "plain_head t \<Longrightarrow> skip_ws (t @ r) = t @ r"
  by (cases t) (auto simp: plain_head_def skip_ws_def)

lemma skip_ws_leftover: "leftover q \<Longrightarrow> skip_ws q = q"
  by (cases q) (auto simp: leftover_def skip_ws_def num_cp_def)

lemma num_plain_head: "num_str s \<Longrightarrow> plain_head (cps_of s) \<and> num_cp (hd (cps_of s))"
  by (cases s) (auto simp: num_str_def plain_head_def cps_of_def num_cp_def)

lemma jcs_plain_head: "jcs v = Inr t \<Longrightarrow> plain_head t"
  using num_plain_head number_text_num
  by (cases v) (auto simp: res_simps cps_of_def string_cps_def plain_head_def split: if_splits)

lemma skip_ws_stop: "c \<in> {44, 93, 125, 58} \<Longrightarrow> skip_ws (c # r) = c # r"
  by (auto simp: skip_ws_def)

text \<open>A number is read by \<open>read_number\<close>.\<close>

lemma read_value_number:
  assumes "read_value n (c # t) = Inr y" "num_cp c"
  shows "read_number (c # t) = Inr y"
proof -
  have "c \<noteq> 34 \<and> c \<noteq> 123 \<and> c \<noteq> 91 \<and> \<not> begins ''null'' (c # t) \<and> \<not> begins ''true'' (c # t) \<and> \<not> begins ''false'' (c # t)"
    using assms(2) by (auto simp: num_cp_def begins_def cps_of_def)
  with assms(1) show ?thesis by (auto simp: read_value.simps [of n "c # t"] split: if_splits)
qed

lemma read_number_json:
  assumes "is_number v" "jcs v = Inr t" "stop r" "read_value n (t @ r) = Inr (w, q)"
  shows "w = plain v \<and> q = r \<or> leftover q"
proof -
  obtain s where s: "number_text v = Inr s" "t = cps_of s" using assms(1,2) by (auto simp: jcs_number res_simps)
  note ns = number_text_num [OF s(1)]
  obtain c u where cu: "cps_of s = c # u" "num_cp c" using num_plain_head [OF ns] by (cases "cps_of s") (auto simp: plain_head_def)
  have rd: "read_number (cps_of s @ r) = Inr (w, q)"
    using read_value_number [of n c "u @ r"] assms(4) cu s(2) by simp
  show ?thesis
  proof (cases "\<exists>i. s = int_str i \<and> plain v = JInt i")
    case True
    with read_int [of _ r] rd assms(3) show ?thesis by auto
  next
    case False
    with s(1) obtain x where x: "v = JFloat (FFin x)" "s = float_text x" "s \<noteq> int_str \<lfloor>x\<rfloor>"
      by (auto simp: number_text_def split: json.splits pyfloat.splits if_splits)
    with float_text_digits [of x] have "\<not> list_all (\<lambda>c. is_digit c \<or> c = CHR ''-'') s" by auto
    with read_number_whole [OF rd ns assms(3)] show ?thesis by blast
  qed
qed

definition reads_back :: "json \<Rightarrow> bool" where
  "reads_back v \<longleftrightarrow> (\<forall>t r n w q. jcs v = Inr t \<longrightarrow> stop r \<longrightarrow> read_value n (t @ r) = Inr (w, q) \<longrightarrow>
     w = plain v \<and> q = r \<or> leftover q)"

lemma read_elements_canonical:
  assumes "\<forall>x\<in>set xs. reads_back x" "rmapM jcs xs = Inr ts" "xs \<noteq> []" "read_elements n (join_comma ts @ 93 # r) = Inr (ws, q)"
  shows "ws = map plain xs \<and> q = r"
  using assms
proof (induction xs arbitrary: ts ws q)
  case (Cons x xs)
  obtain t ts' where t: "jcs x = Inr t" "rmapM jcs xs = Inr ts'" "ts = t # ts'" using Cons.prems(2) by (auto simp: res_simps)
  let ?rest = "concat (map ((#) 44) ts') @ 93 # r"
  have whole: "join_comma ts @ 93 # r = t @ ?rest" by (simp add: t(3) join_comma_Cons)
  obtain v r1 c z where v: "read_value n (t @ ?rest) = Inr (v, r1)" "skip_ws r1 = c # z"
    and rest: "c = 93 \<and> ws = [v] \<and> q = z \<or> c = 44 \<and> (\<exists>ws'. read_elements n (skip_ws z) = Inr (ws', q) \<and> ws = v # ws')"
    using read_elements_InrD [OF Cons.prems(4)] unfolding whole by blast
  have st: "stop ?rest" by (cases ts') (simp_all add: stop_def)
  have "v = plain x \<and> r1 = ?rest \<or> leftover r1"
    using Cons.prems(1) t(1) st v(1) unfolding reads_back_def by fastforce
  moreover have "\<not> leftover r1"
  proof
    assume l: "leftover r1"
    then have "r1 = c # z" using v(2) skip_ws_leftover by simp
    with l rest show False by (auto simp: leftover_def num_cp_def)
  qed
  ultimately have x: "v = plain x" "r1 = ?rest" by auto
  show ?case
  proof (cases ts')
    case Nil
    then have "xs = []" using t(2) by (cases xs) (auto simp: res_simps)
    with x v(2) rest Nil show ?thesis by (auto simp: skip_ws_def)
  next
    case (Cons t2 ts2)
    then have xs: "xs \<noteq> []" using t(2) by auto
    have z: "c = 44" "z = join_comma ts' @ 93 # r"
      using v(2) x(2) Cons by (auto simp: skip_ws_def join_comma_Cons)
    obtain y ys where "xs = y # ys" using xs by (cases xs) auto
    with t(2) Cons have "jcs y = Inr t2" by (auto simp: res_simps)
    then have "plain_head t2" by (rule jcs_plain_head)
    then have "skip_ws z = z" unfolding z Cons join_comma_Cons by (simp add: skip_ws_plain)
    with rest z obtain ws' where "read_elements n (join_comma ts' @ 93 # r) = Inr (ws', q)" "ws = v # ws'" by auto
    with Cons.IH [OF _ t(2) xs] Cons.prems(1) x show ?thesis by auto
  qed
qed simp

lemma read_members_canonical:
  assumes "\<forall>x\<in>set xs. reads_back (snd x)" "rmapM member_jcs xs = Inr ts" "xs \<noteq> []"
    "read_members n (join_comma ts @ 125 # r) = Inr (d, q)"
  shows "d = map (\<lambda>m. (fst m, plain (snd m))) xs \<and> q = r"
  using assms
proof (induction xs arbitrary: ts d q)
  case (Cons x xs)
  obtain u ts' where t: "jcs (snd x) = Inr u" "rmapM member_jcs xs = Inr ts'"
    "ts = (string_cps (cps_of (fst x)) @ 58 # u) # ts'"
    using Cons.prems(2) by (auto simp: res_simps member_jcs_def [of x])
  let ?rest = "concat (map ((#) 44) ts') @ 125 # r"
  have whole: "join_comma ts @ 125 # r = 34 # concat (map escape_cp (cps_of (fst x))) @ 34 # 58 # u @ ?rest"
    by (simp add: t(3) join_comma_Cons string_cps_def)
  have str: "read_chars (concat (map escape_cp (cps_of (fst x))) @ 34 # 58 # u @ ?rest) = Inr (fst x, 58 # u @ ?rest)"
    by (rule read_string)
  obtain t1 k y z v r1 c e where p: "join_comma ts @ 125 # r = 34 # t1" "read_chars t1 = Inr (k, y)" "skip_ws y = 58 # z"
    "read_value n (skip_ws z) = Inr (v, r1)" "skip_ws r1 = c # e"
    and rest: "c = 125 \<and> d = [(k, v)] \<and> q = e \<or> c = 44 \<and> (\<exists>ws'. read_members n (skip_ws e) = Inr (ws', q) \<and> d = (k, v) # ws')"
    using read_members_InrD [OF Cons.prems(4)] by blast
  have "t1 = concat (map escape_cp (cps_of (fst x))) @ 34 # 58 # u @ ?rest" using p(1) whole by simp
  then have k: "k = fst x" "y = 58 # u @ ?rest" using p(2) str by auto
  then have "z = u @ ?rest" using p(3) by (simp add: skip_ws_def)
  then have v: "read_value n (u @ ?rest) = Inr (v, r1)"
    using p(4) skip_ws_plain [OF jcs_plain_head [OF t(1)]] by simp
  have st: "stop ?rest" by (cases ts') (simp_all add: stop_def)
  have "v = plain (snd x) \<and> r1 = ?rest \<or> leftover r1"
    using Cons.prems(1) t(1) st v unfolding reads_back_def by fastforce
  moreover have "\<not> leftover r1"
  proof
    assume l: "leftover r1"
    then have "r1 = c # e" using p(5) skip_ws_leftover by simp
    with l rest show False by (auto simp: leftover_def num_cp_def)
  qed
  ultimately have x: "v = plain (snd x)" "r1 = ?rest" by auto
  show ?case
  proof (cases ts')
    case Nil
    then have "xs = []" using t(2) by (cases xs) (auto simp: res_simps)
    with x p(5) rest Nil k show ?thesis by (auto simp: skip_ws_def)
  next
    case (Cons t2 ts2)
    then have xs: "xs \<noteq> []" using t(2) by auto
    have z: "c = 44" "e = join_comma ts' @ 125 # r"
      using p(5) x(2) Cons by (auto simp: skip_ws_def join_comma_Cons)
    obtain m ms where "xs = m # ms" using xs by (cases xs) auto
    with t(2) Cons have "plain_head t2" by (auto simp: res_simps member_jcs_def string_cps_def plain_head_def)
    then have "skip_ws e = e" unfolding z Cons join_comma_Cons by (simp add: skip_ws_plain)
    with rest z obtain ws' where "read_members n (join_comma ts' @ 125 # r) = Inr (ws', q)" "d = (k, v) # ws'" by auto
    with Cons.IH [OF _ t(2) xs] Cons.prems(1) x k show ?thesis by auto
  qed
qed simp

lemma join_plain_head:
  assumes "rmapM f xs = Inr ts" "xs \<noteq> []" "\<And>x t. x \<in> set xs \<Longrightarrow> f x = Inr t \<Longrightarrow> plain_head t"
  shows "plain_head (join_comma ts @ r)" "hd (join_comma ts @ r) = hd (hd ts)"
proof -
  obtain x ys where xs: "xs = x # ys" using assms(2) by (cases xs) auto
  with assms(1) obtain t ts' where ts: "ts = t # ts'" "f x = Inr t" by (auto simp: res_simps)
  with assms(3) xs have "plain_head t" by auto
  with ts show "plain_head (join_comma ts @ r)" "hd (join_comma ts @ r) = hd (hd ts)"
    by (auto simp: join_comma_Cons plain_head_def)
qed

lemma canonical_reads_back: "reads_back v"
proof (induction v rule: measure_induct_rule [of size])
  case (less v)
  have "w = plain v \<and> q = r \<or> leftover q"
    if j: "jcs v = Inr t" and st: "stop r" and rd: "read_value n (t @ r) = Inr (w, q)" for t r n w q
  proof (cases "is_number v")
    case True
    from read_number_json [OF True j st rd] show ?thesis .
  next
    case False
    show ?thesis
    proof (cases v)
      case (JStr s)
      with j have "t @ r = 34 # concat (map escape_cp (cps_of s)) @ 34 # r" by (auto simp: string_cps_def)
      with rd JStr show ?thesis by (auto simp: read_value.simps read_string)
    next
      case (JList xs)
      then obtain ts where ts: "rmapM jcs xs = Inr ts" "t = 91 # join_comma ts @ [93]"
        using j by (auto simp: res_simps rseq_jcs_list)
      show ?thesis
      proof (cases "xs = []")
        case True
        with ts rd JList show ?thesis by (auto simp: read_value.simps [of n "91 # 93 # r"] skip_ws_def split: if_splits)
      next
        case False
        have h: "plain_head (join_comma ts @ 93 # r)" "hd (join_comma ts @ 93 # r) = hd (hd ts)"
          using join_plain_head [OF ts(1) False] jcs_plain_head by blast+
        obtain b y where hb: "join_comma ts @ 93 # r = b # y" using h(1) by (cases "join_comma ts @ 93 # r") (auto simp: plain_head_def)
        have sk: "skip_ws (join_comma ts @ 93 # r) = b # y" using skip_ws_plain [OF h(1), of "[]"] hb by simp
        have "b \<noteq> 93"
        proof -
          obtain x ys where "xs = x # ys" using False by (cases xs) auto
          with ts(1) obtain t1 where "jcs x = Inr t1" "hd ts = t1" by (auto simp: res_simps)
          with jcs_start h(2) hb show ?thesis by force
        qed
        with rd ts(2) sk hb obtain ws where ws: "read_elements (n - 1) (join_comma ts @ 93 # r) = Inr (ws, q)" "w = JList ws"
          by (auto simp: read_value.simps [of n "91 # b # y"] res_simps split: if_splits)
        have "\<forall>x\<in>set xs. reads_back x" using less JList size_list_member by blast
        from read_elements_canonical [OF this ts(1) False ws(1)] ws(2) JList show ?thesis by (simp add: plain_maps)
      qed
    next
      case (JDict d)
      let ?d = "sort_key (\<lambda>m. utf16_key (fst m)) d"
      obtain ts where ts: "rmapM member_jcs ?d = Inr ts" "t = 123 # join_comma ts @ [125]"
        using j JDict by (auto simp: res_simps jcs_dict simp del: jcs.simps(7))
      show ?thesis
      proof (cases "?d = []")
        case True
        with ts rd JDict show ?thesis
          by (auto simp: read_value.simps [of n "123 # 125 # r"] skip_ws_def plain_dict simp del: plain.simps(7) split: if_splits)
      next
        case False
        have mh: "plain_head t1 \<and> hd t1 = 34" if "member_jcs x = Inr t1" for x t1
          using that by (auto simp: member_jcs_def res_simps string_cps_def plain_head_def)
        have h: "plain_head (join_comma ts @ 125 # r)" "hd (join_comma ts @ 125 # r) = hd (hd ts)"
          using join_plain_head [OF ts(1) False] mh by blast+
        obtain b y where hb: "join_comma ts @ 125 # r = b # y" using h(1) by (cases "join_comma ts @ 125 # r") (auto simp: plain_head_def)
        have sk: "skip_ws (join_comma ts @ 125 # r) = b # y" using skip_ws_plain [OF h(1), of "[]"] hb by simp
        have "b \<noteq> 125"
        proof -
          obtain x ys where "?d = x # ys" using False by (cases ?d) auto
          with ts(1) obtain t1 where t1: "member_jcs x = Inr t1" "hd ts = t1" by (auto simp: res_simps)
          have "hd t1 = 34" using mh [OF t1(1)] by simp
          with t1(2) h(2) hb show ?thesis by simp
        qed
        with rd ts(2) sk hb obtain e where e: "read_members (n - 1) (join_comma ts @ 125 # r) = Inr (e, q)" "w = JDict e"
          by (auto simp: read_value.simps [of n "123 # b # y"] unique_object_def res_simps split: if_splits)
        have "\<forall>x\<in>set ?d. reads_back (snd x)" using less JDict size_dict_member by (metis prod.collapse set_sort)
        from read_members_canonical [OF this ts(1) False e(1)] e(2) JDict show ?thesis
          by (simp add: plain_dict del: plain.simps(7))
      qed
    next
      case JNull
      with j have "t @ r = 110 # 117 # 108 # 108 # r" by (auto simp: cps_of_def)
      with rd JNull show ?thesis by (auto simp: read_value.simps begins_def cps_of_def)
    next
      case (JBool b)
      with j have "t @ r = (if b then 116 # 114 # 117 # 101 # r else 102 # 97 # 108 # 115 # 101 # r)"
        by (auto simp: cps_of_def)
      with rd JBool show ?thesis by (cases b) (auto simp: read_value.simps begins_def cps_of_def)
    qed (use False in \<open>simp_all add: is_number_def\<close>)
  qed
  then show ?case by (auto simp: reads_back_def)
qed

lemma loads_canonical:
  assumes "jcs v = Inr t" "loads_strict n t = Inr w"
  shows "w = plain v"
proof -
  from assms(2) obtain q where q: "read_value n (skip_ws t) = Inr (w, q)" "skip_ws q = []"
    by (auto simp: loads_strict_def res_simps split: if_splits)
  have "skip_ws t = t" using skip_ws_plain [OF jcs_plain_head [OF assms(1)], of "[]"] by simp
  with q(1) canonical_reads_back [of v] assms(1) have "w = plain v \<or> leftover q"
    unfolding reads_back_def by (metis append_Nil2 stop_def)
  moreover have "\<not> leftover q" using q(2) skip_ws_leftover by (auto simp: leftover_def)
  ultimately show ?thesis by blast
qed

lemma decode_encode: "list_all (\<lambda>c. c < 0x800) t \<Longrightarrow> decode_utf8 (concat (map utf8 t)) = Some t"
proof (induction t)
  case (Cons c t)
  show ?case
  proof (cases "c < 0x80")
    case False
    then have "0xC2 \<le> 0xC0 + c div 64" "0xC0 + c div 64 < 0xE0" "utf8_cont (0x80 + c mod 64)"
      using Cons.prems by (auto simp: utf8_cont_def)
    moreover have "(0xC0 + c div 64 - 0xC0) * 64 + (0x80 + c mod 64 - 0x80) = c" by simp
    ultimately show ?thesis using False Cons by (simp add: utf8_def)
  qed (use Cons in \<open>simp add: utf8_def\<close>)
qed simp

end
