(* ===== verification/JsonRoundtrip.thy ===== *)
theory JsonRoundtrip
  imports StrictJson
begin

text \<open>
  The reader of \<open>StrictJson\<close> accepts what the canonical encoder writes: a value without floats,
  with distinct member names and no deeper than the nesting limit is read back completely.
\<close>

section \<open>Numbers\<close>

lemma nat_str_length: "m < 10 ^ k \<Longrightarrow> 0 < k \<Longrightarrow> length (nat_str m) \<le> k"
proof (induction k arbitrary: m)
  case (Suc k)
  show ?case
  proof (cases "m < 10")
    case True
    then show ?thesis by (subst nat_str.simps) simp
  next
    case False
    then have "m div 10 < 10 ^ k" "0 < k" using Suc.prems by (cases k, auto)+
    then have "length (nat_str (m div 10)) \<le> k" by (rule Suc.IH)
    with False show ?thesis by (subst nat_str.simps) simp
  qed
qed simp

lemma read_number_text:
  assumes "stop r" "u = cps_of (nat_str k) @ r" "length (cps_of (nat_str k)) \<le> 16"
  shows "read_number u = Inr (JInt (int k), r)" "read_number (45 # u) = Inr (JInt (- int k), r)"
proof -
  note d = read_digits [OF assms(1,2)]
  have step: "read_number u = Inr (JInt (int (cps_val ds)), drop (length ds) u)"
    "read_number (45 # u) = Inr (JInt (- int (cps_val ds)), drop (length ds) u)"
    if "(if hd u = 48 then [48] else takeWhile is_digit_cp u) = ds" "length ds \<le> 16"
      "\<not> has_fraction (drop (length ds) u)" "\<not> has_exponent (drop (length ds) u)" for ds
    using d(1-3) that(2-4) by (simp_all add: read_number_def that(1))
  show "read_number u = Inr (JInt (int k), r)" "read_number (45 # u) = Inr (JInt (- int k), r)"
    using step [OF d(4) assms(3)] d(5,6) by (simp_all add: assms(2) cps_val_digits nat_str_digits)
qed

lemma read_int_total:
  assumes "\<bar>i\<bar> \<le> max_safe_integer" "stop r"
  shows "read_number (cps_of (int_str i) @ r) = Inr (JInt i, r)"
proof -
  have len: "length (cps_of (nat_str (nat \<bar>i\<bar>))) \<le> 16"
    using assms(1) nat_str_length [of "nat \<bar>i\<bar>" 16] by (simp add: max_safe_integer_def cps_of_def)
  note rd = read_number_text [OF assms(2) refl len]
  show ?thesis
  proof (cases "i < 0")
    case True
    then have "cps_of (int_str i) @ r = 45 # cps_of (nat_str (nat \<bar>i\<bar>)) @ r" by (simp add: int_str_def cps_of_def)
    with rd(2) True show ?thesis by simp
  next
    case False
    then have "cps_of (int_str i) @ r = cps_of (nat_str (nat \<bar>i\<bar>)) @ r" by (simp add: int_str_def)
    with rd(1) False show ?thesis by simp
  qed
qed

lemma read_value_int:
  assumes "\<bar>i\<bar> \<le> max_safe_integer" "stop r"
  shows "read_value n (cps_of (int_str i) @ r) = Inr (JInt i, r)"
proof -
  obtain c u where s: "int_str i = c # u" "is_digit c \<or> c = CHR ''-'' \<and> u \<noteq> [] \<and> is_digit (hd u)"
  proof (cases "i < 0")
    case True
    with nat_str_digits [of "nat (- i)"] show thesis
      by (intro that [of "CHR ''-''" "nat_str (nat (- i))"]) (auto simp: int_str_def list_all_iff)
  next
    case False
    obtain c u where "nat_str (nat i) = c # u" using nat_str_nonempty [of "nat i"] by (cases "nat_str (nat i)") auto
    with False nat_str_digits [of "nat i"] show thesis by (intro that [of c u]) (auto simp: int_str_def)
  qed
  let ?t = "cps_of (int_str i) @ r"
  obtain a w where t: "?t = a # w" and a: "is_digit_cp a \<or> a = 45 \<and> w \<noteq> [] \<and> is_digit_cp (hd w)"
    using s by (cases u) (auto simp: cps_of_def is_digit_def is_digit_cp_def Let_def)
  have ne: "a \<noteq> 34 \<and> a \<noteq> 123 \<and> a \<noteq> 91 \<and> \<not> begins ''null'' ?t \<and> \<not> begins ''true'' ?t \<and> \<not> begins ''false'' ?t
      \<and> \<not> begins ''NaN'' ?t \<and> \<not> begins ''Infinity'' ?t \<and> \<not> begins ''-Infinity'' ?t"
    using a unfolding t by (cases w) (auto simp: is_digit_cp_def begins_def cps_of_def)
  then have "read_value n ?t = read_number ?t" unfolding t by (simp add: read_value.simps [of n "a # w"])
  with read_int_total [OF assms] show ?thesis by simp
qed

section \<open>Values\<close>

text \<open>No floats, distinct names, at most \<open>n\<close> brackets deep.\<close>

function strict_value :: "nat \<Rightarrow> json \<Rightarrow> bool" where
  "strict_value n v = (case v of
      JFloat _ \<Rightarrow> False
    | JList xs \<Rightarrow> 0 < n \<and> (\<forall>x\<in>set xs. strict_value (n - 1) x)
    | JDict d \<Rightarrow> 0 < n \<and> distinct (map fst d) \<and> (\<forall>m\<in>set d. strict_value (n - 1) (snd m))
    | _ \<Rightarrow> True)"
  by pat_completeness auto
termination
  by (relation "measure (\<lambda>(n, v). size v)") (auto intro: size_list_member [simplified] size_dict_member [simplified])

declare strict_value.simps [simp del]

definition reads_whole :: "json \<Rightarrow> bool" where
  "reads_whole v \<longleftrightarrow> (\<forall>t r n. jcs v = Inr t \<longrightarrow> strict_value n v \<longrightarrow> stop r \<longrightarrow> read_value n (t @ r) = Inr (plain v, r))"

lemma reads_wholeD: "reads_whole v \<Longrightarrow> jcs v = Inr t \<Longrightarrow> strict_value n v \<Longrightarrow> stop r \<Longrightarrow> read_value n (t @ r) = Inr (plain v, r)"
  by (simp add: reads_whole_def)

lemma read_elements_total:
  assumes "\<forall>x\<in>set xs. reads_whole x \<and> strict_value n x" "rmapM jcs xs = Inr ts" "xs \<noteq> []"
  shows "read_elements n (join_comma ts @ 93 # r) = Inr (map plain xs, r)"
  using assms
proof (induction xs arbitrary: ts)
  case (Cons x xs)
  obtain t ts' where t: "jcs x = Inr t" "rmapM jcs xs = Inr ts'" "ts = t # ts'" using Cons.prems(2) by (auto simp: res_simps)
  let ?rest = "concat (map ((#) 44) ts') @ 93 # r"
  have whole: "join_comma ts @ 93 # r = t @ ?rest" by (simp add: t(3) join_comma_Cons)
  have "stop ?rest" by (cases ts') (simp_all add: stop_def)
  then have v: "read_value n (t @ ?rest) = Inr (plain x, ?rest)" using Cons.prems(1) t(1) by (simp add: reads_wholeD)
  show ?case
  proof (cases ts')
    case Nil
    then have "xs = []" using t(2) by (cases xs) (auto simp: res_simps)
    with v Nil show ?thesis unfolding whole by (subst read_elements.simps) (simp add: skip_ws_def)
  next
    case (Cons t2 ts2)
    then have xs: "xs \<noteq> []" using t(2) by auto
    have z: "?rest = 44 # join_comma ts' @ 93 # r" using Cons by (simp add: join_comma_Cons)
    have "plain_head (join_comma ts' @ 93 # r)"
      using join_plain_head(1) [OF t(2) xs] jcs_plain_head by blast
    from skip_ws_plain [OF this, of "[]"] have sk: "skip_ws (join_comma ts' @ 93 # r) = join_comma ts' @ 93 # r" by simp
    have "read_elements n (join_comma ts' @ 93 # r) = Inr (map plain xs, r)"
      using Cons.IH [OF _ t(2) xs] Cons.prems(1) by simp
    moreover have "t \<noteq> []" using jcs_start [OF t(1)] by simp
    ultimately show ?thesis
      unfolding whole by (subst read_elements.simps) (simp add: v, simp add: z skip_ws_stop sk)
  qed
qed simp

lemma read_members_total:
  assumes "\<forall>x\<in>set xs. reads_whole (snd x) \<and> strict_value n (snd x)" "rmapM member_jcs xs = Inr ts" "xs \<noteq> []"
  shows "read_members n (join_comma ts @ 125 # r) = Inr (map (\<lambda>m. (fst m, plain (snd m))) xs, r)"
  using assms
proof (induction xs arbitrary: ts)
  case (Cons x xs)
  obtain u ts' where t: "jcs (snd x) = Inr u" "rmapM member_jcs xs = Inr ts'"
    "ts = (string_cps (cps_of (fst x)) @ 58 # u) # ts'"
    using Cons.prems(2) by (auto simp: res_simps member_jcs_def [of x])
  let ?rest = "concat (map ((#) 44) ts') @ 125 # r"
  let ?s = "concat (map escape_cp (cps_of (fst x))) @ 34 # 58 # u @ ?rest"
  have whole: "join_comma ts @ 125 # r = 34 # ?s"
    by (simp add: t(3) join_comma_Cons string_cps_def)
  have str: "read_chars ?s = Inr (fst x, 58 # u @ ?rest)" by (rule read_string)
  have len: "length (u @ ?rest) < length (34 # ?s)" by simp
  have sku: "skip_ws (u @ ?rest) = u @ ?rest" by (rule skip_ws_plain [OF jcs_plain_head [OF t(1)]])
  have "stop ?rest" by (cases ts') (simp_all add: stop_def)
  then have v: "read_value n (u @ ?rest) = Inr (plain (snd x), ?rest)" using Cons.prems(1) t(1) by (simp add: reads_wholeD)
  have step: "read_members n (34 # ?s) = (case skip_ws ?rest of
      [] \<Rightarrow> json_error ''Expecting ',' delimiter''
    | e # y \<Rightarrow>
        if e = 125 then Inr ([(fst x, plain (snd x))], y)
        else if e = 44 \<and> length y < length (34 # ?s)
          then rbind (read_members n (skip_ws y)) (\<lambda>(d, z). Inr ((fst x, plain (snd x)) # d, z))
        else json_error ''Expecting ',' delimiter'')"
    using len by (subst read_members.simps) (simp add: str skip_ws_stop sku v del: length_append)
  show ?case
  proof (cases ts')
    case Nil
    then have "xs = []" using t(2) by (cases xs) (auto simp: res_simps)
    with Nil show ?thesis unfolding whole step by (simp add: skip_ws_def)
  next
    case (Cons t2 ts2)
    then have xs: "xs \<noteq> []" using t(2) by auto
    have z: "?rest = 44 # join_comma ts' @ 125 # r" using Cons by (simp add: join_comma_Cons)
    have mh: "plain_head t1" if "member_jcs y = Inr t1" for y t1
      using that by (auto simp: member_jcs_def res_simps string_cps_def plain_head_def)
    have "plain_head (join_comma ts' @ 125 # r)" using join_plain_head(1) [OF t(2) xs] mh by blast
    from skip_ws_plain [OF this, of "[]"] have sk: "skip_ws (join_comma ts' @ 125 # r) = join_comma ts' @ 125 # r" by simp
    have "read_members n (join_comma ts' @ 125 # r) = Inr (map (\<lambda>m. (fst m, plain (snd m))) xs, r)"
      using Cons.IH [OF _ t(2) xs] Cons.prems(1) by simp
    moreover have "length (join_comma ts' @ 125 # r) < length (34 # ?s)" using z by (simp add: z)
    ultimately show ?thesis unfolding whole step by (simp add: z skip_ws_stop sk del: length_append)
  qed
qed simp

lemma canonical_reads_whole: "reads_whole v"
proof (induction v rule: measure_induct_rule [of size])
  case (less v)
  have "read_value n (t @ r) = Inr (plain v, r)"
    if j: "jcs v = Inr t" and s: "strict_value n v" and st: "stop r" for t r n
  proof (cases v)
    case (JStr x)
    with j have "t @ r = 34 # concat (map escape_cp (cps_of x)) @ 34 # r" by (auto simp: string_cps_def)
    with JStr show ?thesis by (simp add: read_value.simps read_string)
  next
    case (JInt i)
    then have "\<bar>i\<bar> \<le> max_safe_integer" "t = cps_of (int_str i)"
      using j by (auto simp: number_text_def res_simps split: if_splits)
    with JInt st show ?thesis by (simp add: read_value_int)
  next
    case (JList xs)
    obtain ts where ts: "rmapM jcs xs = Inr ts" "t = 91 # join_comma ts @ [93]"
      using j JList by (auto simp: res_simps rseq_jcs_list)
    have n: "0 < n" "\<forall>x\<in>set xs. strict_value (n - 1) x" using s JList by (simp_all add: strict_value.simps [of n])
    show ?thesis
    proof (cases "xs = []")
      case True
      with ts n JList show ?thesis by (auto simp: read_value.simps [of n "91 # 93 # r"] skip_ws_def)
    next
      case False
      have h: "plain_head (join_comma ts @ 93 # r)" "hd (join_comma ts @ 93 # r) = hd (hd ts)"
        using join_plain_head [OF ts(1) False] jcs_plain_head by blast+
      obtain x ys where "xs = x # ys" using False by (cases xs) auto
      with ts(1) obtain t1 where "jcs x = Inr t1" "hd ts = t1" by (auto simp: res_simps)
      with jcs_start h(2) have ne: "hd (join_comma ts @ 93 # r) \<noteq> 93" by force
      obtain b y where hb: "join_comma ts @ 93 # r = b # y" using h(1) by (cases "join_comma ts @ 93 # r") (auto simp: plain_head_def)
      have sk: "skip_ws (b # y) = b # y" using skip_ws_plain [OF h(1), of "[]"] hb by simp
      have "\<forall>x\<in>set xs. reads_whole x \<and> strict_value (n - 1) x" using less JList n(2) size_list_member by blast
      from read_elements_total [OF this ts(1) False, of r] have "read_elements (n - 1) (b # y) = Inr (map plain xs, r)" by (simp add: hb)
      with sk ne n(1) hb JList ts(2) show ?thesis by (simp add: read_value.simps [of n "91 # b # y"] plain_maps)
    qed
  next
    case (JDict d)
    let ?d = "sort_key (\<lambda>m. utf16_key (fst m)) d"
    obtain ts where ts: "rmapM member_jcs ?d = Inr ts" "t = 123 # join_comma ts @ [125]"
      using j JDict by (auto simp: res_simps jcs_dict simp del: jcs.simps(7))
    have n: "0 < n" "distinct (map fst d)" "\<forall>x\<in>set ?d. strict_value (n - 1) (snd x)"
      using s JDict by (simp_all add: strict_value.simps [of n])
    have dist: "distinct (map fst ?d)"
      using n(2) by (simp add: distinct_map)
    show ?thesis
    proof (cases "?d = []")
      case True
      with ts n JDict show ?thesis
        by (simp add: read_value.simps [of n "123 # 125 # r"] skip_ws_def plain_dict del: plain.simps(7))
    next
      case False
      have mh: "plain_head t1 \<and> hd t1 = 34" if "member_jcs x = Inr t1" for x t1
        using that by (auto simp: member_jcs_def res_simps string_cps_def plain_head_def)
      have h: "plain_head (join_comma ts @ 125 # r)" "hd (join_comma ts @ 125 # r) = hd (hd ts)"
        using join_plain_head [OF ts(1) False] mh by blast+
      obtain x ys where "?d = x # ys" using False by (cases ?d) auto
      with ts(1) obtain t1 where t1: "member_jcs x = Inr t1" "hd ts = t1" by (auto simp: res_simps)
      with mh [OF t1(1)] h(2) have ne: "hd (join_comma ts @ 125 # r) \<noteq> 125" by simp
      obtain b y where hb: "join_comma ts @ 125 # r = b # y" using h(1) by (cases "join_comma ts @ 125 # r") (auto simp: plain_head_def)
      have sk: "skip_ws (b # y) = b # y" using skip_ws_plain [OF h(1), of "[]"] hb by simp
      have "\<forall>x\<in>set ?d. reads_whole (snd x) \<and> strict_value (n - 1) (snd x)"
        using less JDict n(3) size_dict_member by (metis prod.collapse set_sort)
      from read_members_total [OF this ts(1) False, of r]
      have rm: "read_members (n - 1) (b # y) = Inr (map (\<lambda>m. (fst m, plain (snd m))) ?d, r)" by (simp add: hb)
      have "distinct (map fst (map (\<lambda>m. (fst m, plain (snd m))) ?d))" using dist by (simp add: comp_def)
      with rm sk ne n(1) hb JDict ts(2) show ?thesis
        by (simp add: read_value.simps [of n "123 # b # y"] plain_dict unique_object_def del: plain.simps(7) map_map)
    qed
  next
    case JNull
    with j have "t @ r = 110 # 117 # 108 # 108 # r" by (auto simp: cps_of_def)
    with JNull show ?thesis by (simp add: read_value.simps begins_def cps_of_def)
  next
    case (JBool b)
    with j have "t @ r = (if b then 116 # 114 # 117 # 101 # r else 102 # 97 # 108 # 115 # 101 # r)"
      by (auto simp: cps_of_def)
    with JBool show ?thesis by (cases b) (simp_all add: read_value.simps begins_def cps_of_def)
  qed (use s in \<open>simp add: strict_value.simps [of n]\<close>)
  then show ?case by (simp add: reads_whole_def)
qed

lemma loads_total:
  assumes "jcs v = Inr t" "strict_value n v"
  shows "loads_strict n t = Inr (plain v)"
proof -
  have "skip_ws t = t" using skip_ws_plain [OF jcs_plain_head [OF assms(1)], of "[]"] by simp
  moreover have "read_value n t = Inr (plain v, [])"
    using reads_wholeD [OF canonical_reads_whole assms, of "[]"] by (simp add: stop_def)
  ultimately show ?thesis by (simp add: loads_strict_def skip_ws_def)
qed

section \<open>What a reader gets\<close>

text \<open>The members that are read for a written object: they index as the original's.\<close>

definition plain_members :: "dict \<Rightarrow> dict" where
  "plain_members d = map (\<lambda>m. (fst m, plain (snd m))) (sort_key (\<lambda>m. utf16_key (fst m)) d)"

lemma plain_JDict: "plain (JDict d) = JDict (plain_members d)"
  by (simp add: plain_dict plain_members_def del: plain.simps(7))

lemma map_of_plain:
  assumes "distinct (map fst d)"
  shows "map_of (plain_members d) k = map_option plain (map_of d k)"
proof -
  let ?s = "sort_key (\<lambda>m. utf16_key (fst m)) d"
  have "distinct (map fst ?s)" using assms by (simp add: distinct_map)
  then have "map_of ?s k = Some v \<longleftrightarrow> map_of d k = Some v" for v using assms by simp
  then have "map_of ?s k = map_of d k" by (metis option.exhaust)
  moreover have "map_of (map (\<lambda>m. (fst m, plain (snd m))) xs) k = map_option plain (map_of xs k)" for xs
    by (induction xs) auto
  ultimately show ?thesis by (simp add: plain_members_def)
qed

lemma dget_plain: "distinct (map fst d) \<Longrightarrow> dget (plain_members d) k = plain (dget d k)"
  by (simp add: dget_def map_of_plain split: option.split)

lemma dkeys_eq_plain: "dkeys_eq (plain_members d) ks = dkeys_eq d ks"
  by (simp add: dkeys_eq_set plain_members_def image_image)

lemma dwithout_plain: "plain_members (dwithout ks d) = dwithout ks (plain_members d)"
  by (simp add: plain_members_def dwithout_def filter_sort [symmetric] filter_map split_def comp_def)

text \<open>The canonical text is the same, so a digest, an identifier or a signature is.\<close>

lemma jcs_plain: "strict_value n v \<Longrightarrow> jcs (plain v) = jcs v"
proof (induction v arbitrary: n rule: measure_induct_rule [of size])
  case (less v)
  show ?case
  proof (cases v)
    case (JList xs)
    have "jcs (plain x) = jcs x" if "x \<in> set xs" for x
      using less.IH [of x "n - 1"] less.prems that JList size_list_member by (auto simp: strict_value.simps [of n])
    then have "rmapM jcs (map plain xs) = rmapM jcs xs"
      by (induction xs) auto
    with JList show ?thesis by (simp add: plain_maps rseq_jcs_list)
  next
    case (JDict d)
    let ?f = "\<lambda>m. utf16_key (fst m)"
    have "jcs (plain (snd m)) = jcs (snd m)" if "m \<in> set d" for m
      using less.IH [of "snd m" "n - 1"] less.prems that JDict size_dict_member [of "fst m" "snd m" d] by (auto simp: strict_value.simps [of n])
    then have eq: "\<forall>m\<in>set (sort_key ?f d). member_jcs (fst m, plain (snd m)) = member_jcs m" by (simp add: member_jcs_def)
    have "rmapM member_jcs (map (\<lambda>m. (fst m, plain (snd m))) ms) = rmapM member_jcs ms"
      if "\<forall>m\<in>set ms. member_jcs (fst m, plain (snd m)) = member_jcs m" for ms
      using that by (induction ms) auto
    note this [OF eq]
    moreover have "sort_key ?f (plain_members d) = plain_members d"
      by (simp add: plain_members_def sort_key_map comp_def sort_key_id_if_sorted)
    ultimately show ?thesis using JDict by (simp add: plain_JDict jcs_dict plain_members_def del: plain.simps(7) jcs.simps(7))
  qed (use less.prems in \<open>simp_all add: strict_value.simps [of n]\<close>)
qed

end
