(* ===== verification/Frames.thy ===== *)
theory Frames
  imports JsonRoundtrip
begin

text \<open>
  \<open>experimental/esp32c3_transport.py\<close>: one JSON object per line of a serial connection.
  \<open>encode_frame\<close> and \<open>decode_frame\<close> write and read one frame; \<open>NDJSONStreamDecoder\<close> cuts the
  bytes as they arrive into frames and faults for good on the first bad one. \<open>n\<close> is the nesting
  depth the interpreter's recursion limit leaves to \<open>json.loads\<close>.
\<close>

section \<open>One frame\<close>

definition MAX_FRAME_BYTES :: int where
  "MAX_FRAME_BYTES = 8192"

definition limit_ok :: "json \<Rightarrow> bool" where
  "limit_ok m \<longleftrightarrow> is_int_nb m \<and> 2 \<le> the_int m"

text \<open>\<open>frame[:-1].decode("utf-8", errors="strict")\<close> and \<open>json.loads\<close> with its hooks\<close>

definition parse_frame :: "nat \<Rightarrow> byte list \<Rightarrow> json res" where
  "parse_frame n b = (case decode_utf8 (map unat b) of
      None \<Rightarrow> Inl (ValueError ''invalid UTF-8'')
    | Some t \<Rightarrow> loads_strict n t)"

definition decode_frame :: "nat \<Rightarrow> json \<Rightarrow> byte list \<Rightarrow> dict res" where
  "decode_frame n m frame =
     (if \<not> limit_ok m then Inl (ValueError ''max_bytes must be an integer of at least two'')
      else if frame = [] \<or> the_int m < int (length frame)
        then Inl (PermissionError ''serial frame is empty or exceeds the byte limit'')
      else if last frame \<noteq> 10 \<or> count_list frame 10 \<noteq> 1
        then Inl (PermissionError ''serial frame must end with exactly one LF'')
      else if 13 \<in> set frame \<or> 0 \<in> set frame \<or> take 3 frame = [0xEF, 0xBB, 0xBF]
        then Inl (PermissionError ''serial frame contains a forbidden byte sequence'')
      else (case parse_frame n (butlast frame) of
          Inl e \<Rightarrow> if is_ValueError e \<or> is_RuntimeError e
            then Inl (PermissionError ''serial frame is not strict UTF-8 JSON'') else Inl e
        | Inr (JDict d) \<Rightarrow> Inr d
        | Inr _ \<Rightarrow> Inl (PermissionError ''serial frame root must be a JSON object'')))"

definition encode_frame :: "nat \<Rightarrow> json \<Rightarrow> json \<Rightarrow> byte list res" where
  "encode_frame n m v = (case v of
      JDict d \<Rightarrow>
        if \<not> limit_ok m then Inl (ValueError ''max_bytes must be an integer of at least two'')
        else
        rbind (canonical_json (JDict d)) (\<lambda>b.
        let frame = b @ [10] in
        if the_int m < int (length frame) then Inl (ValueError ''serial frame exceeds the configured byte limit'')
        else (case decode_frame n m frame of
            Inl e \<Rightarrow> if is_PermissionError e
              then Inl (ValueError ''value is not valid for the strict serial profile'') else Inl e
          | Inr _ \<Rightarrow> Inr frame))
    | _ \<Rightarrow> Inl (TypeError ''serial frames must contain a JSON object''))"

section \<open>The decoder of a connection\<close>

record ndjson_decoder =
  nj_max :: int
  nj_buffer :: "byte list"
  nj_closed :: bool
  nj_faulted :: bool

definition ndjson_init :: "json \<Rightarrow> ndjson_decoder res" where
  "ndjson_init m =
     (if \<not> limit_ok m then Inl (ValueError ''max_frame_bytes must be an integer of at least two'')
      else Inr \<lparr>nj_max = the_int m, nj_buffer = [], nj_closed = False, nj_faulted = False\<rparr>)"

definition nj_fault :: "ndjson_decoder \<Rightarrow> string \<Rightarrow> ndjson_decoder \<times> 'a res" where
  "nj_fault st msg = (st\<lparr>nj_buffer := [], nj_faulted := True\<rparr>, Inl (PermissionError msg))"

text \<open>\<open>buffer[: newline + 1]\<close> and what is left of the buffer\<close>

definition cut_line :: "byte list \<Rightarrow> (byte list \<times> byte list) option" where
  "cut_line b = (if 10 \<in> set b then Some (takeWhile (\<lambda>c. c \<noteq> 10) b @ [10], tl (dropWhile (\<lambda>c. c \<noteq> 10) b)) else None)"

lemma cut_line_shorter: "cut_line b = Some (f, r) \<Longrightarrow> length r < length b"
  using length_dropWhile_le [of "\<lambda>c. c \<noteq> 10" b]
  by (cases b) (auto simp: cut_line_def split: if_splits)

function nj_loop :: "nat \<Rightarrow> ndjson_decoder \<Rightarrow> dict list \<Rightarrow> ndjson_decoder \<times> dict list res" where
  "nj_loop n st decoded = (case cut_line (nj_buffer st) of
      None \<Rightarrow>
        if nj_max st \<le> int (length (nj_buffer st))
        then nj_fault st ''unterminated serial frame reached the byte limit'' else (st, Inr decoded)
    | Some (frame, rest) \<Rightarrow>
        let st' = st\<lparr>nj_buffer := rest\<rparr> in
        (case decode_frame n (JInt (nj_max st)) frame of
           Inl e \<Rightarrow> if is_TypeError e \<or> is_ValueError e \<or> is_PermissionError e
             then nj_fault st' ''invalid serial frame faulted the connection'' else (st', Inl e)
         | Inr d \<Rightarrow>
             if nj_max st \<le> int (length rest)
             then nj_fault st' ''unterminated serial frame reached the byte limit''
             else nj_loop n st' (decoded @ [d])))"
  by pat_completeness auto
termination
  by (relation "measure (\<lambda>(n, st, decoded). length (nj_buffer st))") (auto dest: cut_line_shorter)

declare nj_loop.simps [simp del]

definition nj_feed :: "nat \<Rightarrow> ndjson_decoder \<Rightarrow> byte list \<Rightarrow> ndjson_decoder \<times> dict list res" where
  "nj_feed n st chunk =
     (if nj_closed st \<or> nj_faulted st then (st, Inl (PermissionError ''serial decoder is closed or faulted''))
      else if chunk = [] then (st, Inr [])
      else nj_loop n (st\<lparr>nj_buffer := nj_buffer st @ chunk\<rparr>) [])"

definition nj_close :: "ndjson_decoder \<Rightarrow> ndjson_decoder \<times> unit res" where
  "nj_close st =
     (if nj_closed st then (st, Inr ())
      else if nj_buffer st \<noteq> []
        then (st\<lparr>nj_closed := True, nj_buffer := [], nj_faulted := True\<rparr>,
              Inl (PermissionError ''serial connection closed with a truncated frame''))
      else (st\<lparr>nj_closed := True\<rparr>, Inr ()))"

section \<open>A frame reads back\<close>

lemma unat_utf8:
  assumes "list_all (\<lambda>c. c < 256) t"
  shows "map unat (encode_utf8 t) = concat (map utf8 t)"
proof -
  have "\<forall>b\<in>set (utf8 c). b < 256" if "c < 256" for c
  proof -
    have "192 + c div 64 < 256" "128 + c mod 64 < 256" using that by linarith+
    with that show ?thesis by (simp add: utf8_def)
  qed
  then have "\<forall>b\<in>set (concat (map utf8 t)). b < 256" using assms by (auto simp: list_all_iff)
  then have "map (\<lambda>b. unat (of_nat b :: byte)) (concat (map utf8 t)) = concat (map utf8 t)"
    by (intro map_idI) (auto simp: unat_of_nat take_bit_eq_mod)
  then show ?thesis by (simp add: encode_utf8_def comp_def)
qed

lemma decode_canonical:
  assumes "jcs v = Inr t"
  shows "decode_utf8 (map unat (encode_utf8 t)) = Some t"
proof -
  have "list_all (\<lambda>c. c < 256) t" using jcs_small [OF assms] by (auto simp: list_all_iff)
  moreover from this have "list_all (\<lambda>c. c < 0x800) t" by (auto simp: list_all_iff)
  ultimately show ?thesis by (simp only: unat_utf8 decode_encode)
qed

lemma decode_frameD:
  assumes "decode_frame n m f = Inr d"
  shows "limit_ok m" "f \<noteq> []" "last f = 10" "count_list f 10 = 1" "int (length f) \<le> the_int m"
    "parse_frame n (butlast f) = Inr (JDict d)" "10 \<notin> set (butlast f)" "13 \<notin> set f" "0 \<notin> set f"
proof -
  have a: "limit_ok m \<and> f \<noteq> [] \<and> last f = 10 \<and> count_list f 10 = 1 \<and> int (length f) \<le> the_int m
      \<and> parse_frame n (butlast f) = Inr (JDict d) \<and> 13 \<notin> set f \<and> 0 \<notin> set f"
    using assms by (auto simp: decode_frame_def split: if_splits sum.splits json.splits)
  then show "limit_ok m" "f \<noteq> []" "last f = 10" "count_list f 10 = 1" "int (length f) \<le> the_int m"
    "parse_frame n (butlast f) = Inr (JDict d)" "13 \<notin> set f" "0 \<notin> set f" by auto
  have "f = butlast f @ [10]" using a append_butlast_last_id [of f] by simp
  then have "count_list f 10 = count_list (butlast f) 10 + 1" by (metis count_list.simps count_list_append add_0)
  with a show "10 \<notin> set (butlast f)" by (simp add: count_list_0_iff)
qed

lemma encode_frameD:
  assumes "encode_frame n m v = Inr f"
  obtains d b w where "v = JDict d" "canonical_json v = Inr b" "f = b @ [10]" "decode_frame n m f = Inr w"
  using assms by (cases v) (auto simp: encode_frame_def Let_def res_simps split: if_splits sum.splits)

lemma frame_reads_back:
  assumes "encode_frame n m v = Inr f"
  shows "\<exists>w. decode_frame n m f = Inr w \<and> plain v = JDict w"
proof -
  obtain d b w where f: "v = JDict d" "canonical_json v = Inr b" "f = b @ [10]" "decode_frame n m f = Inr w"
    by (rule encode_frameD [OF assms])
  obtain t where t: "jcs v = Inr t" "b = encode_utf8 t" using f(2) by (auto simp: canonical_json_def res_simps)
  have "loads_strict n t = Inr (JDict w)"
    using decode_frameD(6) [OF f(4)] f(3) t decode_canonical [OF t(1)] by (simp add: parse_frame_def)
  with loads_canonical [OF t(1)] f(4) show ?thesis by metis
qed

text \<open>Every value of the strict profile that fits has a frame: canonical text has no control
  character and starts with a brace.\<close>

lemma utf8_printable: "b \<in> set (encode_utf8 t) \<Longrightarrow> (\<And>c. c \<in> set t \<Longrightarrow> 32 \<le> c \<and> c < 256) \<Longrightarrow> 32 \<le> unat b"
proof -
  assume b: "b \<in> set (encode_utf8 t)" and t: "\<And>c. c \<in> set t \<Longrightarrow> 32 \<le> c \<and> c < 256"
  then have "unat b \<in> set (map unat (encode_utf8 t))" by simp
  also have "map unat (encode_utf8 t) = concat (map utf8 t)" using t by (intro unat_utf8) (auto simp: list_all_iff)
  finally show "32 \<le> unat b" using t by (auto simp: utf8_def split: if_splits)
qed

lemma frame_bytes:
  assumes "canonical_json (JDict d) = Inr b"
  shows "10 \<notin> set b" "13 \<notin> set b" "0 \<notin> set b" "take 3 (b @ [10]) \<noteq> [0xEF, 0xBB, 0xBF]"
proof -
  obtain t where t: "jcs (JDict d) = Inr t" "b = encode_utf8 t" using assms by (auto simp: canonical_json_def res_simps)
  have "32 \<le> unat x" if "x \<in> set b" for x using that utf8_printable jcs_chars [OF t(1)] unfolding t(2) by blast
  then show "10 \<notin> set b" "13 \<notin> set b" "0 \<notin> set b" by fastforce+
  obtain u where "t = 123 # u" using t(1) by (auto simp: jcs_dict res_simps simp del: jcs.simps(7))
  then obtain w where "b = 123 # w" by (auto simp: t(2) encode_utf8_def utf8_def)
  then show "take 3 (b @ [10]) \<noteq> [0xEF, 0xBB, 0xBF]" by simp
qed

lemma frame_written:
  assumes "canonical_json (JDict d) = Inr b" "strict_value n (JDict d)" "limit_ok m" "int (length b) < the_int m"
  shows "encode_frame n m (JDict d) = Inr (b @ [10])"
proof -
  obtain t where t: "jcs (JDict d) = Inr t" "b = encode_utf8 t" using assms(1) by (auto simp: canonical_json_def res_simps)
  obtain w where w: "plain (JDict d) = JDict w" by simp
  have "parse_frame n b = Inr (JDict w)"
    using loads_total [OF t(1) assms(2)] w decode_canonical [OF t(1)] by (simp add: parse_frame_def t(2))
  moreover have "count_list (b @ [10]) 10 = 1" using frame_bytes(1) [OF assms(1)] by (simp add: count_list_0_iff)
  ultimately have "decode_frame n m (b @ [10]) = Inr w"
    using frame_bytes [OF assms(1)] assms(3,4) by (simp add: decode_frame_def)
  with assms show ?thesis by (simp add: encode_frame_def)
qed

section \<open>The lines of a stream\<close>

text \<open>What a connection carries: its complete lines, with their LF, and the bytes after the last
  one.\<close>

fun lines_of :: "byte list \<Rightarrow> byte list list \<times> byte list" where
  "lines_of [] = ([], [])"
| "lines_of (b # r) = (case lines_of r of (fs, q) \<Rightarrow>
     if b = 10 then ([b] # fs, q)
     else (case fs of [] \<Rightarrow> ([], b # q) | f # gs \<Rightarrow> ((b # f) # gs, q)))"

lemma lines_of_cut:
  "lines_of b = (case cut_line b of None \<Rightarrow> ([], b) | Some (f, r) \<Rightarrow> (f # fst (lines_of r), snd (lines_of r)))"
  by (induction b) (auto simp: cut_line_def split: prod.splits list.splits if_splits)

lemma lines_of_append:
  "lines_of (a @ b) = (fst (lines_of a) @ fst (lines_of (snd (lines_of a) @ b)), snd (lines_of (snd (lines_of a) @ b)))"
proof (induction a)
  case (Cons c a)
  then show ?case by (auto split: prod.splits list.splits)
qed simp

lemma lines_of_join: "concat (fst (lines_of b)) @ snd (lines_of b) = b"
  by (induction b) (auto split: prod.splits list.splits)

lemma lines_of_rest: "10 \<notin> set (snd (lines_of b))"
  by (induction b) (auto split: prod.splits list.splits)

lemma lines_of_partial: "10 \<notin> set b \<Longrightarrow> lines_of b = ([], b)"
  by (subst lines_of_cut) (simp add: cut_line_def)

text \<open>The room a call of \<open>feed\<close> needs: what remains after its first frame must be shorter than the
  limit, complete frames included.\<close>

definition room :: "int \<Rightarrow> byte list list \<times> byte list \<Rightarrow> bool" where
  "room m l \<longleftrightarrow> int (length (concat (tl (fst l)) @ snd l)) < m"

lemma room_Cons: "room m (f # fs, q) \<longleftrightarrow> int (length (concat fs @ q)) < m"
  by (simp add: room_def)

lemma room_shorter: "int (length (concat fs @ q)) < m \<Longrightarrow> room m (fs, q)"
  by (cases fs) (simp_all add: room_def)

lemma nj_loop_Inr:
  "nj_loop n st ds = (st', Inr es) \<longleftrightarrow> (\<exists>xs. rmapM (decode_frame n (JInt (nj_max st))) (fst (lines_of (nj_buffer st))) = Inr xs
     \<and> room (nj_max st) (lines_of (nj_buffer st)) \<and> es = ds @ xs \<and> st' = st\<lparr>nj_buffer := snd (lines_of (nj_buffer st))\<rparr>)"
proof (induction n st ds rule: nj_loop.induct)
  case (1 n st ds)
  show ?case
  proof (cases "cut_line (nj_buffer st)")
    case None
    then have l: "lines_of (nj_buffer st) = ([], nj_buffer st)" by (subst lines_of_cut) simp
    show ?thesis using None by (auto simp: nj_loop.simps [of n st] l room_def nj_fault_def)
  next
    case (Some z)
    then obtain f r where c: "cut_line (nj_buffer st) = Some (f, r)" by (cases z) auto
    then have l: "lines_of (nj_buffer st) = (f # fst (lines_of r), snd (lines_of r))" by (subst lines_of_cut) simp
    have j: "concat (fst (lines_of r)) @ snd (lines_of r) = r" by (rule lines_of_join)
    show ?thesis
    proof (cases "decode_frame n (JInt (nj_max st)) f")
      case (Inl e)
      then show ?thesis using c by (simp add: nj_loop.simps [of n st] l nj_fault_def Let_def)
    next
      case (Inr d)
      show ?thesis
      proof (cases "nj_max st \<le> int (length r)")
        case True
        then show ?thesis using c Inr by (simp add: nj_loop.simps [of n st] l room_Cons j nj_fault_def del: length_append)
      next
        case False
        have loop: "nj_loop n st ds = nj_loop n (st\<lparr>nj_buffer := r\<rparr>) (ds @ [d])"
          using c Inr False by (simp add: nj_loop.simps [of n st])
        have rm: "room (nj_max st) (lines_of (nj_buffer st))" "room (nj_max st) (lines_of r)"
          using False room_shorter [of "fst (lines_of r)" "snd (lines_of r)"] by (simp_all add: l room_Cons j del: length_append)
        show ?thesis
          unfolding loop "1.IH" [OF c refl refl Inr False] using rm by (auto simp: l Inr res_simps)
      qed
    qed
  qed
qed

text \<open>Between calls the buffer holds a part of a line, shorter than the limit.\<close>

definition nj_ok :: "ndjson_decoder \<Rightarrow> bool" where
  "nj_ok st \<longleftrightarrow> 10 \<notin> set (nj_buffer st) \<and> int (length (nj_buffer st)) < nj_max st"

definition nj_live :: "ndjson_decoder \<Rightarrow> bool" where
  "nj_live st \<longleftrightarrow> \<not> nj_closed st \<and> \<not> nj_faulted st"

lemma nj_feed_Inr:
  assumes "nj_ok st"
  shows "nj_feed n st chunk = (st', Inr ds) \<longleftrightarrow> nj_live st
     \<and> rmapM (decode_frame n (JInt (nj_max st))) (fst (lines_of (nj_buffer st @ chunk))) = Inr ds
     \<and> room (nj_max st) (lines_of (nj_buffer st @ chunk)) \<and> st' = st\<lparr>nj_buffer := snd (lines_of (nj_buffer st @ chunk))\<rparr>"
proof (cases "chunk = []")
  case True
  then show ?thesis
    using assms lines_of_partial [of "nj_buffer st"] by (auto simp: nj_feed_def nj_live_def nj_ok_def room_def)
next
  case False
  have "nj_feed n st chunk = (st', Inr ds) \<longleftrightarrow> nj_live st
      \<and> nj_loop n (st\<lparr>nj_buffer := nj_buffer st @ chunk\<rparr>) [] = (st', Inr ds)"
    using False by (auto simp: nj_feed_def nj_live_def)
  then show ?thesis by (simp add: nj_loop_Inr)
qed

section \<open>How the bytes are cut into chunks\<close>

text \<open>The calls of \<open>feed\<close> of one connection, up to the first that raises.\<close>

fun nj_feeds :: "nat \<Rightarrow> ndjson_decoder \<Rightarrow> byte list list \<Rightarrow> ndjson_decoder \<times> dict list res" where
  "nj_feeds n st [] = (st, Inr [])"
| "nj_feeds n st (c # cs) = (case nj_feed n st c of
      (st', Inl e) \<Rightarrow> (st', Inl e)
    | (st', Inr ds) \<Rightarrow> (case nj_feeds n st' cs of (st'', r) \<Rightarrow> (st'', rbind r (\<lambda>es. Inr (ds @ es)))))"

lemma nj_feeds_Inr_Cons:
  "nj_feeds n st (c # cs) = (st2, Inr es) \<longleftrightarrow> (\<exists>st1 xs ys. nj_feed n st c = (st1, Inr xs) \<and> nj_feeds n st1 cs = (st2, Inr ys) \<and> es = xs @ ys)"
  by (auto simp: res_simps split: prod.splits sum.splits)

lemma ndjson_init_ok:
  "ndjson_init m = Inr st \<Longrightarrow> nj_ok st \<and> nj_live st \<and> nj_buffer st = [] \<and> JInt (nj_max st) = m \<and> 2 \<le> nj_max st"
  by (auto simp: ndjson_init_def nj_ok_def nj_live_def limit_ok_def kind_iffs split: if_splits)

lemma nj_feed_ok:
  assumes "nj_ok st" "nj_feed n st chunk = (st', Inr ds)"
  shows "nj_ok st'" "nj_live st'" "nj_max st' = nj_max st"
proof -
  let ?l = "lines_of (nj_buffer st @ chunk)"
  have r: "nj_live st" "room (nj_max st) ?l" and st': "st' = st\<lparr>nj_buffer := snd ?l\<rparr>"
    using assms by (simp_all add: nj_feed_Inr)
  from r(2) have "int (length (snd ?l)) < nj_max st" by (simp add: room_def)
  with r(1) st' show "nj_ok st'" "nj_live st'" "nj_max st' = nj_max st"
    by (simp_all add: nj_ok_def nj_live_def lines_of_rest)
qed

text \<open>Whatever the chunks were, the objects are those of the lines.\<close>

lemma nj_feeds_lines:
  assumes "nj_ok st" "nj_feeds n st chunks = (st', Inr ds)"
  shows "rmapM (decode_frame n (JInt (nj_max st))) (fst (lines_of (nj_buffer st @ concat chunks))) = Inr ds
    \<and> nj_buffer st' = snd (lines_of (nj_buffer st @ concat chunks))"
  using assms
proof (induction chunks arbitrary: st ds)
  case Nil
  then show ?case using lines_of_partial [of "nj_buffer st"] by (simp add: nj_ok_def)
next
  case (Cons c cs)
  obtain st1 xs ys where f: "nj_feed n st c = (st1, Inr xs)" "nj_feeds n st1 cs = (st', Inr ys)" "ds = xs @ ys"
    using Cons.prems(2) unfolding nj_feeds_Inr_Cons by blast
  note ok = nj_feed_ok [OF Cons.prems(1) f(1)]
  have l: "rmapM (decode_frame n (JInt (nj_max st))) (fst (lines_of (nj_buffer st @ c))) = Inr xs"
    "nj_buffer st1 = snd (lines_of (nj_buffer st @ c))"
    using f(1) Cons.prems(1) by (simp_all add: nj_feed_Inr)
  from Cons.IH [OF ok(1) f(2)] ok(3) l f(3) lines_of_append [of "nj_buffer st @ c" "concat cs"]
  show ?case by (simp add: rmapM_append)
qed

lemma nj_feeds_ok: "nj_feeds n st chunks = (st', Inr ds) \<Longrightarrow> nj_ok st \<Longrightarrow> nj_ok st' \<and> nj_max st' = nj_max st"
proof (induction chunks arbitrary: st ds)
  case (Cons c cs)
  obtain st1 xs ys where f: "nj_feed n st c = (st1, Inr xs)" "nj_feeds n st1 cs = (st', Inr ys)"
    using Cons.prems(1) unfolding nj_feeds_Inr_Cons by blast
  with Cons.IH [OF f(2)] nj_feed_ok [OF Cons.prems(2) f(1)] show ?case by simp
qed simp

text \<open>A chunk that is accepted is accepted in two parts.\<close>

lemma line_has_LF:
  assumes "lines_of (q @ b) = (g # gs, p)" "10 \<notin> set q"
  shows "length q < length g"
proof -
  obtain r where c: "cut_line (q @ b) = Some (g, r)"
    using assms(1) lines_of_cut [of "q @ b"] by (auto split: option.splits)
  then have "g = takeWhile (\<lambda>c. c \<noteq> 10) (q @ b) @ [10]" by (simp add: cut_line_def split: if_splits)
  moreover have "takeWhile (\<lambda>c. c \<noteq> 10) (q @ b) = q @ takeWhile (\<lambda>c. c \<noteq> 10) b"
    using assms(2) by (intro takeWhile_append2) auto
  ultimately show ?thesis by simp
qed

lemma partial_room:
  assumes "lines_of (q @ b) = (gs, p)" "10 \<notin> set q" "rmapM (decode_frame n (JInt m)) gs = Inr ds" "int (length p) < m"
  shows "int (length q) < m"
proof (cases gs)
  case Nil
  with assms(1) lines_of_join [of "q @ b"] have "p = q @ b" by simp
  with assms(4) show ?thesis by simp
next
  case (Cons g hs)
  with assms(3) obtain d where "decode_frame n (JInt m) g = Inr d" by (auto simp: res_simps)
  from decode_frameD(5) [OF this] line_has_LF [OF assms(1) [unfolded Cons] assms(2)] show ?thesis by simp
qed

lemma nj_feed_split:
  assumes ok: "nj_ok st" and f: "nj_feed n st (a @ b) = (st2, Inr ds)"
  shows "\<exists>st1 xs ys. nj_feed n st a = (st1, Inr xs) \<and> nj_feed n st1 b = (st2, Inr ys) \<and> ds = xs @ ys"
proof -
  let ?m = "nj_max st"
  obtain fs q where fq: "lines_of (nj_buffer st @ a) = (fs, q)" by fastforce
  obtain gs p where gp: "lines_of (q @ b) = (gs, p)" by fastforce
  have all: "lines_of (nj_buffer st @ a @ b) = (fs @ gs, p)"
    using lines_of_append [of "nj_buffer st @ a" b] fq gp by simp
  have r: "nj_live st" "rmapM (decode_frame n (JInt ?m)) (fs @ gs) = Inr ds" "room ?m (fs @ gs, p)" "st2 = st\<lparr>nj_buffer := p\<rparr>"
    using f all by (simp_all add: nj_feed_Inr [OF ok])
  obtain xs ys where xy: "rmapM (decode_frame n (JInt ?m)) fs = Inr xs" "rmapM (decode_frame n (JInt ?m)) gs = Inr ys" "ds = xs @ ys"
    using r(2) by (auto simp: rmapM_append res_simps)
  have q: "10 \<notin> set q" using lines_of_rest [of "nj_buffer st @ a"] fq by simp
  have p: "int (length p) < ?m" using r(3) by (simp add: room_def)
  have lq: "int (length q) < ?m" by (rule partial_room [OF gp q xy(2) p])
  have jq: "length (concat gs @ p) = length (q @ b)" using lines_of_join [of "q @ b"] gp by simp
  have room1: "room ?m (fs, q)" "room ?m (gs, p)"
  proof -
    show "room ?m (fs, q)"
    proof (cases fs)
      case (Cons g hs)
      with r(3) have "int (length (concat hs @ concat gs @ p)) < ?m" by (simp add: room_def)
      with jq Cons show ?thesis by (simp add: room_def)
    qed (use lq in \<open>simp add: room_def\<close>)
    show "room ?m (gs, p)"
    proof (cases fs)
      case (Cons g hs)
      with r(3) have "int (length (concat gs @ p)) < ?m" by (simp add: room_def)
      then show ?thesis by (rule room_shorter)
    qed (use r(3) in simp)
  qed
  let ?s = "st\<lparr>nj_buffer := q\<rparr>"
  have "nj_feed n st a = (?s, Inr xs)" using r(1) fq xy(1) room1(1) by (simp add: nj_feed_Inr [OF ok])
  moreover have "nj_ok ?s" using q lq by (simp add: nj_ok_def)
  then have "nj_feed n ?s b = (st2, Inr ys)"
    using r(1,4) gp xy(2) room1(2) by (simp add: nj_feed_Inr nj_live_def)
  ultimately show ?thesis using xy(3) by blast
qed

text \<open>Byte by byte exactly the streams are read whose complete lines are frames and whose last
  part is shorter than the limit.\<close>

lemma lines_of_snoc:
  assumes "10 \<notin> set q"
  shows "lines_of (q @ [b]) = (if b = 10 then ([q @ [10]], []) else ([], q @ [b]))"
  using assms by (induction q) auto

lemma bytewise_complete:
  assumes "nj_ok st" "nj_live st"
    and "rmapM (decode_frame n (JInt (nj_max st))) (fst (lines_of (nj_buffer st @ s))) = Inr ds"
    and "int (length (snd (lines_of (nj_buffer st @ s)))) < nj_max st"
  shows "\<exists>st'. nj_feeds n st (map (\<lambda>b. [b]) s) = (st', Inr ds)"
  using assms
proof (induction s arbitrary: st ds)
  case Nil
  then show ?case using lines_of_partial [of "nj_buffer st"] by (simp add: nj_ok_def)
next
  case (Cons b s)
  let ?q = "nj_buffer st" and ?m = "nj_max st"
  have q: "10 \<notin> set ?q" "int (length ?q) < ?m" using Cons.prems(1) by (simp_all add: nj_ok_def)
  have l1: "lines_of (?q @ [b]) = (if b = 10 then ([?q @ [10]], []) else ([], ?q @ [b]))" by (rule lines_of_snoc [OF q(1)])
  have all: "lines_of (?q @ b # s) = (fst (lines_of (?q @ [b])) @ fst (lines_of (snd (lines_of (?q @ [b])) @ s)),
      snd (lines_of (snd (lines_of (?q @ [b])) @ s)))"
    using lines_of_append [of "?q @ [b]" s] by simp
  let ?st = "st\<lparr>nj_buffer := snd (lines_of (?q @ [b]))\<rparr>"
  obtain xs ys where xy: "rmapM (decode_frame n (JInt ?m)) (fst (lines_of (?q @ [b]))) = Inr xs"
    "rmapM (decode_frame n (JInt ?m)) (fst (lines_of (snd (lines_of (?q @ [b])) @ s))) = Inr ys" "ds = xs @ ys"
    using Cons.prems(3) unfolding all by (auto simp: rmapM_append res_simps)
  have short: "int (length (snd (lines_of (?q @ [b])))) < ?m"
    using partial_room [OF prod.collapse [symmetric] lines_of_rest xy(2)] Cons.prems(4) unfolding all by simp
  have "room ?m (lines_of (?q @ [b]))" using short by (auto simp: l1 room_def)
  then have f: "nj_feed n st [b] = (?st, Inr xs)" using Cons.prems(2) xy(1) by (simp add: nj_feed_Inr [OF Cons.prems(1)])
  have "\<exists>st'. nj_feeds n ?st (map (\<lambda>b. [b]) s) = (st', Inr ys)"
    using Cons.IH [of ?st ys] nj_feed_ok [OF Cons.prems(1) f] xy(2) Cons.prems(4) unfolding all by simp
  then show ?case using f xy(3) by auto
qed

lemma concat_singletons: "concat (map (\<lambda>b. [b]) s) = s"
  by (induction s) simp_all

lemma bytewise_iff:
  assumes "ndjson_init m = Inr st"
  shows "(\<exists>st'. nj_feeds n st (map (\<lambda>b. [b]) s) = (st', Inr ds)) \<longleftrightarrow>
    rmapM (decode_frame n m) (fst (lines_of s)) = Inr ds \<and> int (length (snd (lines_of s))) < the_int m"
    (is "?reads \<longleftrightarrow> ?lines")
proof
  note i = ndjson_init_ok [OF assms]
  then have m: "the_int m = nj_max st" by (metis the_int.simps)
  show "?reads \<Longrightarrow> ?lines"
  proof (elim exE)
    fix st'
    assume r: "nj_feeds n st (map (\<lambda>b. [b]) s) = (st', Inr ds)"
    from nj_feeds_lines [OF _ r] nj_feeds_ok [OF r] i show ?lines by (simp add: concat_singletons m nj_ok_def)
  qed
  show "?lines \<Longrightarrow> ?reads" using bytewise_complete [of st n s ds] i m by simp
qed

section \<open>Faults\<close>

text \<open>A frame that is refused empties the buffer and the decoder never reads again.\<close>

lemma nj_loop_fault:
  "nj_loop n st ds = (st', Inl (PermissionError msg)) \<Longrightarrow> nj_faulted st' \<and> nj_buffer st' = [] \<and> nj_closed st' = nj_closed st"
proof (induction n st ds rule: nj_loop.induct)
  case (1 n st ds)
  show ?case
  proof (cases "cut_line (nj_buffer st)")
    case None
    then show ?thesis using "1.prems" by (auto simp: nj_loop.simps [of n st] nj_fault_def split: if_splits)
  next
    case (Some z)
    then obtain f r where c: "cut_line (nj_buffer st) = Some (f, r)" by (cases z) auto
    show ?thesis
    proof (cases "decode_frame n (JInt (nj_max st)) f")
      case (Inl e)
      then show ?thesis using c "1.prems" by (auto simp: nj_loop.simps [of n st] nj_fault_def Let_def split: if_splits)
    next
      case (Inr d)
      with c "1.prems" "1.IH" [OF c refl refl Inr] show ?thesis
        by (auto simp: nj_loop.simps [of n st] nj_fault_def Let_def split: if_splits)
    qed
  qed
qed

lemma nj_feed_fault:
  assumes "nj_feed n st chunk = (st', Inl (PermissionError msg))" "nj_live st"
  shows "nj_faulted st' \<and> nj_buffer st' = []"
  using assms nj_loop_fault by (auto simp: nj_feed_def nj_live_def split: if_splits)

lemma nj_faulted_refuses:
  assumes "nj_faulted st \<or> nj_closed st"
  shows "nj_feed n st chunk = (st, Inl (PermissionError ''serial decoder is closed or faulted''))"
  using assms by (auto simp: nj_feed_def)

lemma nj_close_whole: "nj_close st = (st', Inr ()) \<Longrightarrow> \<not> nj_closed st \<Longrightarrow> nj_buffer st = [] \<and> nj_closed st'"
  by (auto simp: nj_close_def split: if_splits)

text \<open>The converse of \<open>nj_feed_split\<close> fails: two complete frames of three bytes, read by a decoder
  with a limit of three, are refused in one chunk as an unterminated frame and accepted in two.\<close>

definition two_frames :: "byte list" where
  "two_frames = [123, 125, 10]"

lemma chunks_matter:
  assumes "ndjson_init (JInt 3) = Inr st"
  shows "snd (nj_feed 1 st (two_frames @ two_frames)) = Inl (PermissionError ''unterminated serial frame reached the byte limit'')"
    "snd (nj_feeds 1 st [two_frames, two_frames]) = Inr [[], []]"
proof -
  have st: "st = \<lparr>nj_max = 3, nj_buffer = [], nj_closed = False, nj_faulted = False\<rparr>"
    using assms by (simp add: ndjson_init_def limit_ok_def)
  show "snd (nj_feed 1 st (two_frames @ two_frames)) = Inl (PermissionError ''unterminated serial frame reached the byte limit'')"
    unfolding st by code_simp
  show "snd (nj_feeds 1 st [two_frames, two_frames]) = Inr [[], []]"
    unfolding st by code_simp
qed

end
