(* ===== verification/Serial.thy ===== *)
theory Serial
  imports Frames Device
begin

text \<open>
  \<open>experimental/esp32c3_serial.py\<close>: one exchange with a device over a serial line. The transport
  and \<open>time.monotonic()\<close> are the world: what each pass of a read loop sees is a clock reading and
  the bytes \<open>transport.read\<close> returns then. A loop that has used up the readings it is given has not
  ended: its result is \<open>None\<close>. Clock arithmetic is exact.
\<close>

section \<open>Reading one object\<close>

text \<open>The clock when the call starts, and the passes of its loop.\<close>

type_synonym serial_input = "rat \<times> (rat \<times> byte list) list"

definition check_timeout :: "json \<Rightarrow> pyfloat res" where
  "check_timeout v = (case v of
      JInt i \<Rightarrow> if i \<le> 0 then Inl (ValueError ''timeout_seconds must be positive'') else Inr (FFin (of_int i))
    | JFloat f \<Rightarrow>
        if f_less f (FFin 0) \<or> f_eq f (FFin 0) then Inl (ValueError ''timeout_seconds must be positive'') else Inr f
    | _ \<Rightarrow> Inl (ValueError ''timeout_seconds must be numeric''))"

definition deadline_at :: "rat \<Rightarrow> pyfloat \<Rightarrow> pyfloat" where
  "deadline_at start t = (case t of FFin r \<Rightarrow> FFin (start + r) | _ \<Rightarrow> t)"

definition timed_out :: "ndjson_decoder \<Rightarrow> 'a res" where
  "timed_out dec = (case nj_close dec of
      (_, Inl e) \<Rightarrow> Inl (if is_PermissionError e then TimeoutError ''serial frame timed out after partial input'' else e)
    | (_, Inr _) \<Rightarrow> Inl (TimeoutError ''serial frame timed out''))"

fun read_loop :: "nat \<Rightarrow> pyfloat \<Rightarrow> ndjson_decoder \<Rightarrow> (rat \<times> byte list) list \<Rightarrow> dict res option" where
  "read_loop n deadline dec [] = None"
| "read_loop n deadline dec ((clock, chunk) # r) =
     (if \<not> f_less (FFin clock) deadline then Some (timed_out dec)
      else if chunk = [] then read_loop n deadline dec r
      else (case nj_feed n dec chunk of
          (dec', Inl e) \<Rightarrow> Some (Inl e)
        | (dec', Inr objects) \<Rightarrow>
            if 1 < length objects then Some (Inl (PermissionError ''serial peer sent surplus frames''))
            else if objects \<noteq> [] then Some (rbind (snd (nj_close dec')) (\<lambda>_. Inr (hd objects)))
            else read_loop n deadline dec' r))"

definition read_serial_object :: "nat \<Rightarrow> json \<Rightarrow> json \<Rightarrow> serial_input \<Rightarrow> dict res option" where
  "read_serial_object n timeout m input = (case check_timeout timeout of
      Inl e \<Rightarrow> Some (Inl e)
    | Inr t \<Rightarrow> (case ndjson_init m of
        Inl e \<Rightarrow> Some (Inl e)
      | Inr dec \<Rightarrow> read_loop n (deadline_at (fst input) t) dec (snd input)))"

definition read_device_challenge :: "nat \<Rightarrow> json \<Rightarrow> serial_input \<Rightarrow> device_challenge res option" where
  "read_device_challenge n timeout input =
     map_option (\<lambda>r. as_permission ''device supplied an invalid challenge'' (rbind r (\<lambda>d. challenge_from_dict (JDict d))))
       (read_serial_object n timeout (JInt MAX_FRAME_BYTES) input)"

section \<open>The client\<close>

text \<open>\<open>SerialExchange\<close>\<close>

record serial_exchange =
  se_challenge :: dict
  se_command :: dict
  se_ack :: dict
  se_frame :: "byte list"

definition client_init :: "string list \<Rightarrow> string list res" where
  "client_init trusted =
     (if trusted = [] then Inl (ValueError ''at least one trusted device key is required'') else Inr trusted)"

text \<open>
  The peer on the other end: what it sends first, how many bytes of a frame the line takes, what it
  sends after a frame.
\<close>

record serial_peer =
  sp_greeting :: serial_input
  sp_write :: "byte list \<Rightarrow> int"
  sp_answer :: "byte list \<Rightarrow> serial_input"

text \<open>The last part of \<open>execute_once\<close>. The identifiers of a command are texts, since the issuer
  has made it; the branch for other values is never reached.\<close>

definition accept_ack ::
  "verifier \<Rightarrow> string list \<Rightarrow> device_challenge \<Rightarrow> dict \<Rightarrow> byte list \<Rightarrow> dict \<Rightarrow> serial_exchange res" where
  "accept_ack V trusted ch command frame ack =
     rbind (verify_envelope V command) (\<lambda>p.
     rbind (dindex p ''command_id'') (\<lambda>cid.
     rbind (dindex p ''capability_id'') (\<lambda>cap. case (cid, cap) of
       (JStr c, JStr a) \<Rightarrow>
         rbind (verify_device_ack V (JDict ack) trusted (Some [c]) (Some [ch_device_id ch]) (Some [a])) (\<lambda>ok.
         if \<not> ok then Inl (PermissionError ''device acknowledgement failed trust or binding verification'')
         else Inr \<lparr>se_challenge = challenge_to_dict ch, se_command = command, se_ack = ack, se_frame = frame\<rparr>)
     | _ \<Rightarrow> Inl (TypeError ''command identifiers are not texts''))))"

text \<open>\<open>execute_once\<close>: the issuer's store after the call, the frames written and the result.\<close>

definition execute_once ::
  "nat \<Rightarrow> verifier \<Rightarrow> ('s \<Rightarrow> 'e \<Rightarrow> string \<Rightarrow> datetime \<Rightarrow> 's \<times> bool res) \<Rightarrow> key_pair \<Rightarrow> string list \<Rightarrow> json \<Rightarrow> json \<Rightarrow> serial_peer
    \<Rightarrow> 's \<Rightarrow> 'e \<Rightarrow> datetime \<Rightarrow> verified_capability \<Rightarrow> action_request \<Rightarrow> 's \<times> byte list list \<times> serial_exchange res option" where
  "execute_once n V consume k trusted wait_challenge wait_ack peer s env now vc q =
     (case read_device_challenge n wait_challenge (sp_greeting peer) of
        None \<Rightarrow> (s, [], None)
      | Some (Inl e) \<Rightarrow> (s, [], Some (Inl e))
      | Some (Inr ch) \<Rightarrow> (case issue_command consume k s env vc q ch now of
          (s', Inl e) \<Rightarrow> (s', [], Some (Inl e))
        | (s', Inr command) \<Rightarrow> (case encode_frame n (JInt MAX_FRAME_BYTES) (JDict command) of
            Inl e \<Rightarrow> (s', [], Some (Inl e))
          | Inr frame \<Rightarrow>
              (s', [frame],
               if sp_write peer frame \<noteq> int (length frame)
               then Some (Inl (ConnectionError ''serial transport did not write the complete command''))
               else (case read_serial_object n wait_ack (JInt MAX_FRAME_BYTES) (sp_answer peer frame) of
                   None \<Rightarrow> None
                 | Some r \<Rightarrow> Some (rbind r (accept_ack V trusted ch command frame)))))))"

section \<open>What a read returns\<close>

text \<open>The bytes of the passes before the deadline.\<close>

definition passes_before :: "pyfloat \<Rightarrow> (rat \<times> byte list) list \<Rightarrow> byte list list" where
  "passes_before deadline r = map snd (takeWhile (\<lambda>(clock, _). f_less (FFin clock) deadline) r)"

lemma nj_feed_objects:
  assumes "nj_ok st" "nj_feed n st chunk = (st', Inr ds)"
  shows "rmapM (decode_frame n (JInt (nj_max st))) (fst (lines_of (nj_buffer st @ chunk))) = Inr ds"
    "nj_buffer st' = snd (lines_of (nj_buffer st @ chunk))"
  using assms by (simp_all add: nj_feed_Inr)

lemma read_loop_Inr:
  assumes "read_loop n deadline dec r = Some (Inr d)" "nj_ok dec" "nj_live dec"
  shows "\<exists>pre f. (\<exists>post. passes_before deadline r = pre @ post) \<and> nj_buffer dec @ concat pre = f
    \<and> lines_of f = ([f], []) \<and> decode_frame n (JInt (nj_max dec)) f = Inr d"
  using assms
proof (induction r arbitrary: dec)
  case (Cons p r)
  obtain clock chunk where p: "p = (clock, chunk)" by (cases p)
  have live: "f_less (FFin clock) deadline" using Cons.prems(1) p by (auto simp: timed_out_def split: if_splits prod.splits sum.splits)
  have pb: "passes_before deadline (p # r) = chunk # passes_before deadline r" using live p by (simp add: passes_before_def)
  show ?case
  proof (cases "chunk = []")
    case True
    then obtain pre post f where "passes_before deadline r = pre @ post" "nj_buffer dec @ concat pre = f"
      "lines_of f = ([f], [])" "decode_frame n (JInt (nj_max dec)) f = Inr d"
      using Cons.IH [of dec] Cons.prems live p by auto
    with True pb show ?thesis by (intro exI [of _ "[] # pre"] exI [of _ f]) auto
  next
    case False
    obtain dec' ds where f: "nj_feed n dec chunk = (dec', Inr ds)"
      using Cons.prems(1) live p False by (auto split: prod.splits sum.splits)
    note ok = nj_feed_ok [OF Cons.prems(2) f] and ob = nj_feed_objects [OF Cons.prems(2) f]
    have rest: "length ds \<le> 1 \<and> (if ds \<noteq> [] then snd (nj_close dec') = Inr () \<and> d = hd ds
        else read_loop n deadline dec' r = Some (Inr d))"
      using Cons.prems(1) live p False f by (auto simp: res_simps split: if_splits)
    show ?thesis
    proof (cases "ds = []")
      case True
      with rest have "read_loop n deadline dec' r = Some (Inr d)" by simp
      from Cons.IH [OF this ok(1,2)] obtain pre post g where g: "passes_before deadline r = pre @ post"
        "nj_buffer dec' @ concat pre = g" "lines_of g = ([g], [])" "decode_frame n (JInt (nj_max dec)) g = Inr d"
        using ok(3) by auto
      have "fst (lines_of (nj_buffer dec @ chunk)) = []" using ob(1) True rmapM_length by fastforce
      then have "nj_buffer dec' = nj_buffer dec @ chunk" using ob(2) lines_of_join [of "nj_buffer dec @ chunk"] by simp
      with g pb show ?thesis by (intro exI [of _ "chunk # pre"] exI [of _ g]) auto
    next
      case False
      with rest have d: "ds = [d]" "snd (nj_close dec') = Inr ()" by (cases ds; auto)+
      have b: "nj_buffer dec' = []" using d(2) ok(2) by (auto simp: nj_close_def nj_live_def split: if_splits)
      obtain f where ff: "fst (lines_of (nj_buffer dec @ chunk)) = [f]" "decode_frame n (JInt (nj_max dec)) f = Inr d"
        using ob(1) d(1) by (cases "fst (lines_of (nj_buffer dec @ chunk))") (auto simp: res_simps; metis rmapM_length length_0_conv)+
      have "f = nj_buffer dec @ chunk" using lines_of_join [of "nj_buffer dec @ chunk"] ff(1) b ob(2) by simp
      with ff b ob(2) pb show ?thesis
        by (intro exI [of _ "[chunk]"] exI [of _ f]) (auto intro: prod_eqI)
    qed
  qed
qed simp

text \<open>A call whose clock reaches the deadline returns.\<close>

lemma read_loop_returns:
  assumes "\<exists>p\<in>set r. \<not> f_less (FFin (fst p)) deadline"
  shows "read_loop n deadline dec r \<noteq> None"
  using assms
proof (induction r arbitrary: dec)
  case (Cons p r)
  obtain clock chunk where p: "p = (clock, chunk)" by (cases p)
  show ?case
  proof (cases "f_less (FFin clock) deadline")
    case True
    then have "\<exists>p\<in>set r. \<not> f_less (FFin (fst p)) deadline" using Cons.prems p by auto
    with Cons.IH True p show ?thesis by (auto split: prod.splits sum.splits)
  qed (simp add: p)
qed simp

text \<open>The object returned is one frame, and every byte read before the return belongs to it.\<close>

lemma read_serial_object_Inr:
  assumes "read_serial_object n timeout m input = Some (Inr d)"
  shows "\<exists>t pre post f. check_timeout timeout = Inr t \<and> passes_before (deadline_at (fst input) t) (snd input) = pre @ post
    \<and> f = concat pre \<and> decode_frame n m f = Inr d"
proof -
  obtain t dec where t: "check_timeout timeout = Inr t" "ndjson_init m = Inr dec"
    "read_loop n (deadline_at (fst input) t) dec (snd input) = Some (Inr d)"
    using assms by (auto simp: read_serial_object_def split: sum.splits)
  note i = ndjson_init_ok [OF t(2)]
  from read_loop_Inr [OF t(3)] i obtain pre post f where "passes_before (deadline_at (fst input) t) (snd input) = pre @ post"
    "nj_buffer dec @ concat pre = f" "decode_frame n (JInt (nj_max dec)) f = Inr d" by blast
  with t(1) i show ?thesis by auto
qed

section \<open>What an exchange means\<close>

lemma as_permission_Inr: "as_permission msg r = Inr x \<longleftrightarrow> r = Inr x"
  by (auto simp: as_permission_def split: sum.splits)

lemma read_device_challenge_Inr:
  "read_device_challenge n timeout input = Some (Inr ch) \<Longrightarrow>
    \<exists>d. read_serial_object n timeout (JInt MAX_FRAME_BYTES) input = Some (Inr d) \<and> challenge_from_dict (JDict d) = Inr ch"
  by (auto simp: read_device_challenge_def as_permission_Inr res_simps)

lemma execute_onceE:
  assumes "execute_once n V consume k trusted wc wa peer s env now vc q = (s', ws, r)" "ws \<noteq> []"
  obtains ch command frame where "read_device_challenge n wc (sp_greeting peer) = Some (Inr ch)"
    "issue_command consume k s env vc q ch now = (s', Inr command)"
    "encode_frame n (JInt MAX_FRAME_BYTES) (JDict command) = Inr frame" "ws = [frame]"
    "r = (if sp_write peer frame \<noteq> int (length frame)
         then Some (Inl (ConnectionError ''serial transport did not write the complete command''))
         else map_option (\<lambda>a. rbind a (accept_ack V trusted ch command frame))
                (read_serial_object n wa (JInt MAX_FRAME_BYTES) (sp_answer peer frame)))"
  using assms by (auto simp: execute_once_def map_option_case split: option.splits sum.splits prod.splits if_splits)

lemma accept_ackD:
  assumes "accept_ack V trusted ch command frame ack = Inr x"
  obtains p cid cap where "verify_envelope V command = Inr p" "dget p ''command_id'' = JStr cid" "dget p ''capability_id'' = JStr cap"
    "verify_device_ack V (JDict ack) trusted (Some [cid]) (Some [ch_device_id ch]) (Some [cap]) = Inr True"
    "x = \<lparr>se_challenge = challenge_to_dict ch, se_command = command, se_ack = ack, se_frame = frame\<rparr>"
proof -
  obtain p c a where p: "verify_envelope V command = Inr p" "map_of p ''command_id'' = Some c" "map_of p ''capability_id'' = Some a"
    and r: "(case (c, a) of (JStr c, JStr a) \<Rightarrow>
         rbind (verify_device_ack V (JDict ack) trusted (Some [c]) (Some [ch_device_id ch]) (Some [a])) (\<lambda>ok.
         if \<not> ok then Inl (PermissionError ''device acknowledgement failed trust or binding verification'')
         else Inr \<lparr>se_challenge = challenge_to_dict ch, se_command = command, se_ack = ack, se_frame = frame\<rparr>)
       | _ \<Rightarrow> Inl (TypeError ''command identifiers are not texts'')) = Inr x"
    using assms unfolding accept_ack_def by (auto simp: res_simps)
  from r obtain cid cap where s: "c = JStr cid" "a = JStr cap" by (cases c; cases a) auto
  from r have "verify_device_ack V (JDict ack) trusted (Some [cid]) (Some [ch_device_id ch]) (Some [cap]) = Inr True
      \<and> x = \<lparr>se_challenge = challenge_to_dict ch, se_command = command, se_ack = ack, se_frame = frame\<rparr>"
    unfolding s by (auto simp: res_simps split: if_splits)
  with p s show thesis by (intro that) (auto simp: dget_def)
qed

lemma exchange_verified:
  assumes "execute_once n V consume k trusted wc wa peer s env now vc q = (s', ws, Some (Inr x))"
  obtains ch command frame ack p cid cap where
    "read_device_challenge n wc (sp_greeting peer) = Some (Inr ch)"
    "issue_command consume k s env vc q ch now = (s', Inr command)"
    "encode_frame n (JInt MAX_FRAME_BYTES) (JDict command) = Inr frame" "ws = [frame]"
    "read_serial_object n wa (JInt MAX_FRAME_BYTES) (sp_answer peer frame) = Some (Inr ack)"
    "verify_envelope V command = Inr p" "dget p ''command_id'' = JStr cid" "dget p ''capability_id'' = JStr cap"
    "verify_device_ack V (JDict ack) trusted (Some [cid]) (Some [ch_device_id ch]) (Some [cap]) = Inr True"
    "x = \<lparr>se_challenge = challenge_to_dict ch, se_command = command, se_ack = ack, se_frame = frame\<rparr>"
proof -
  have "ws \<noteq> []"
  proof
    assume "ws = []"
    with assms show False by (auto simp: execute_once_def split: option.splits sum.splits prod.splits if_splits)
  qed
  from execute_onceE [OF assms this] obtain ch command frame where c: "read_device_challenge n wc (sp_greeting peer) = Some (Inr ch)"
    "issue_command consume k s env vc q ch now = (s', Inr command)"
    "encode_frame n (JInt MAX_FRAME_BYTES) (JDict command) = Inr frame" "ws = [frame]"
    and r: "Some (Inr x) = (if sp_write peer frame \<noteq> int (length frame)
         then Some (Inl (ConnectionError ''serial transport did not write the complete command''))
         else map_option (\<lambda>a. rbind a (accept_ack V trusted ch command frame))
                (read_serial_object n wa (JInt MAX_FRAME_BYTES) (sp_answer peer frame)))" .
  from r obtain ack where a: "read_serial_object n wa (JInt MAX_FRAME_BYTES) (sp_answer peer frame) = Some (Inr ack)"
    "accept_ack V trusted ch command frame ack = Inr x"
    by (cases "read_serial_object n wa (JInt MAX_FRAME_BYTES) (sp_answer peer frame)") (auto simp: res_simps eq_commute [of "Inr x"] split: if_splits)
  from accept_ackD [OF a(2)] c a(1) show thesis by (metis that)
qed

text \<open>A capability is sent to a device once: the issuer's store refuses it the second time.\<close>

lemma issue_commandD:
  assumes "issue_command consume k s env vc q ch now = (s', Inr command)"
  obtains qd ps ex cap where "issue_checks (vc_claims vc) q ch now = Inr (qd, ps, ex, cap)" "consume s env cap ex = (s', Inr True)"
  using assms by (auto simp: issue_command_def split: sum.splits prod.splits if_splits)

lemma issue_checks_capability:
  "issue_checks claims q ch now = Inr (qd, ps, ex, cap) \<Longrightarrow> command_expiry claims = Inr ex \<and> dindex claims ''capability_id'' = Inr (JStr cap)"
  unfolding issue_checks_def by (elim res_elims) (auto simp: res_simps split: json.splits if_splits)

context replay_store
begin

lemma sent_once:
  assumes ok: "store_ok s" and first: "execute_once n V consume k trusted wc wa peer s e now vc q = (s1, ws, r)" "ws \<noteq> []"
    and ex: "command_expiry (vc_claims vc) = Inr ex" "clock_le e' (dt_us ex)" "\<not> naive ex"
    and second: "execute_once n' V' consume k' trusted' wc' wa' peer' s1 e' now' vc q' = (s2, ws', r')"
  shows "ws' = []"
proof (rule ccontr)
  assume ne: "ws' \<noteq> []"
  from execute_onceE [OF first] obtain ch command where "issue_command consume k s e vc q ch now = (s1, Inr command)" by metis
  then obtain qd ps x cap where c1: "issue_checks (vc_claims vc) q ch now = Inr (qd, ps, x, cap)" "consume s e cap x = (s1, Inr True)"
    by (rule issue_commandD)
  note i1 = issue_checks_capability [OF c1(1)]
  then have x: "x = ex" using ex(1) by simp
  have r: "recorded s1 cap = Some (dt_us ex)" using consume_records [OF ok] c1(2) x by simp
  have ok1: "store_ok s1" using consume_ok [OF ok ex(3), of e cap] c1(2) x by simp
  from execute_onceE [OF second ne] obtain ch' command' where "issue_command consume k' s1 e' vc q' ch' now' = (s2, Inr command')" by metis
  then obtain qd' ps' x' cap' where c2: "issue_checks (vc_claims vc) q' ch' now' = Inr (qd', ps', x', cap')" "consume s1 e' cap' x' = (s2, Inr True)"
    by (rule issue_commandD)
  have "cap' = cap" "x' = ex" using issue_checks_capability [OF c2(1)] i1 ex(1) by auto
  with consume_refuses [OF ok1 r ex(2), of ex] c2(2) show False by simp
qed

end

end
