(* ===== verification/SerialLoop.thy ===== *)
theory SerialLoop
  imports Serial
begin

text \<open>
  The whole path over a serial line: the challenge of a device, the command of the issuer and the
  acknowledgement each cross the line as a frame, and the receiver works on what it reads back. What
  \<open>experimental/esp32c3.py\<close> does with an object that was read is what it does with the object that
  was written; an honest peer therefore completes the exchange.
\<close>

section \<open>Signed objects that were read\<close>

lemma strict_JDict: "strict_value n (JDict d) \<longleftrightarrow> 0 < n \<and> distinct (map fst d) \<and> (\<forall>m\<in>set d. strict_value (n - 1) (snd m))"
  by (simp add: strict_value.simps [of n])

lemma strict_leaf [simp]: "strict_value n (JStr s)" "strict_value n (JInt i)" "strict_value n (JBool b)" "strict_value n JNull"
  by (simp_all add: strict_value.simps [of n])

lemma strict_dget: "strict_value n (JDict d) \<Longrightarrow> strict_value (n - 1) (dget d k)"
  by (cases "map_of d k") (auto simp: strict_JDict dget_def dest!: map_of_SomeD)

lemma sign_envelope_strict:
  assumes "sign_envelope k p = Inr env" "strict_value n (JDict p)"
  shows "strict_value (Suc n) (JDict env)"
  using assms by (auto simp: sign_envelope_def Let_def res_simps protected_dict_def strict_JDict [of "Suc n"])

lemma sign_statement_strict:
  assumes "sign_statement prefix id_field k body = Inr env" "strict_value n (JDict body)" "\<not> dhas body id_field"
  shows "strict_value (Suc n) (JDict env)"
proof -
  obtain cid where s: "sign_envelope k (dset body id_field (JStr cid)) = Inr env"
    using assms(1) by (auto simp: sign_statement_def res_simps)
  have "id_field \<notin> fst ` set body" using assms(3) by (auto simp: dhas_def map_of_eq_None_iff)
  then have "strict_value n (JDict (body @ [(id_field, JStr cid)]))" using assms(2) by (auto simp: strict_JDict)
  with s show ?thesis using dset_new [OF assms(3)] by (auto intro: sign_envelope_strict)
qed

lemma protected_plain:
  assumes "strict_value n (JDict p)"
  shows "canonical_json (JDict (protected_dict alg s (plain_members p))) = canonical_json (JDict (protected_dict alg s p))"
proof -
  have "jcs (JDict (plain_members p)) = jcs (JDict p)" using jcs_plain [OF assms] by (simp add: plain_JDict del: plain.simps(7) jcs.simps(7))
  then have "jcs_items (protected_dict alg s (plain_members p)) = jcs_items (protected_dict alg s p)"
    by (simp add: protected_dict_def del: jcs.simps(7))
  then show ?thesis by (simp add: canonical_json_def)
qed

lemma verify_envelope_plain:
  assumes "strict_value n (JDict env)" "verify_envelope V env = Inr p"
  shows "verify_envelope V (plain_members env) = Inr (plain_members p)"
proof -
  have d: "dget (plain_members env) k = plain (dget env k)" for k
    using assms(1) by (intro dget_plain) (simp add: strict_JDict)
  obtain alg kd sig where e: "dget env ''alg'' = JStr alg" "dget env ''kid'' = JStr kd" "dget env ''payload'' = JDict p"
    "dget env ''signature'' = JStr sig" "check_signature V alg kd p sig = Inr ()" "in_str_set (JStr alg) [''EdDSA'', mldsa_name] = Inr True"
    using assms(2) unfolding verify_envelope_def
    by (auto simp: res_simps split: if_splits json.splits sum.splits)
  have "strict_value (n - 1) (JDict p)" using strict_dget [OF assms(1), of "''payload''"] e(3) by simp
  note eq = protected_plain [OF this]
  have "check_signature V alg kd (plain_members p) sig = Inr ()" using e(5) unfolding check_signature_def eq .
  then show ?thesis using e by (simp add: verify_envelope_def d plain_JDict del: plain.simps(7))
qed

lemma content_id_plain: "strict_value n (JDict d) \<Longrightarrow> content_id prefix (JDict (plain_members d)) = content_id prefix (JDict d)"
  using jcs_plain [of n "JDict d"] by (simp add: content_id_def canonical_json_def plain_JDict del: plain.simps(7) jcs.simps(7))

lemma strict_dwithout: "strict_value n (JDict d) \<Longrightarrow> strict_value n (JDict (dwithout ks d))"
  by (auto simp: strict_JDict dwithout_def distinct_map_filter)

section \<open>Commands and acknowledgements that were read\<close>

lemma strict_payload:
  assumes "strict_value n (JDict env)" "verify_envelope V env = Inr p"
  shows "strict_value (n - 1) (JDict p)" "distinct (map fst p)"
proof -
  have "dget env ''payload'' = JDict p" using assms(2) by (rule verify_envelopeD)
  then show "strict_value (n - 1) (JDict p)" using strict_dget [OF assms(1), of "''payload''"] by simp
  then show "distinct (map fst p)" by (simp add: strict_JDict)
qed

lemma plain_scalars:
  "is_hex_id prefix v \<Longrightarrow> plain v = v" "is_sha256 v \<Longrightarrow> plain v = v" "positive_int v \<Longrightarrow> plain v = v"
  "in_str_set v xs = Inr True \<Longrightarrow> plain v = v" "nonblank_str v \<Longrightarrow> plain v = v"
  by (cases v; simp add: is_hex_id_def positive_int_def in_str_set_def)+

lemma check_parameters_plain:
  assumes "check_parameters p = Inr ()" "strict_value n (JDict p)"
  shows "check_parameters (plain_members p) = Inr ()"
proof -
  have dp: "dget (plain_members p) k = plain (dget p k)" for k using assms(2) by (intro dget_plain) (simp add: strict_JDict)
  obtain d where d: "dget p ''parameters'' = JDict d" "dkeys_eq d [''position'']" "in_str_set (dget d ''position'') [''open'', ''closed''] = Inr True"
    using assms(1) by (auto simp: check_parameters_def res_simps split: json.splits if_splits)
  have "distinct (map fst d)" using strict_dget [OF assms(2), of "''parameters''"] d(1) by (simp add: strict_JDict)
  then have "dget (plain_members d) ''position'' = dget d ''position''" using d(3) by (simp add: dget_plain plain_scalars)
  with d show ?thesis by (simp add: check_parameters_def dp plain_JDict dkeys_eq_plain del: plain.simps(7))
qed

lemma check_command_plain:
  assumes "check_command V dev (JDict env) = Inr (p, cid)" "strict_value n (JDict env)"
  shows "check_command V dev (JDict (plain_members env)) = Inr (plain_members p, cid)"
proof -
  have c: "dkeys_eq env ENVELOPE_FIELDS \<and> as_permission ''invalid device command signature'' (verify_envelope V env) = Inr p
      \<and> dkeys_eq p COMMAND_FIELDS \<and> dget p ''type'' = JStr COMMAND_TYPE \<and> dget p ''profile'' = JStr PROFILE
      \<and> py_eq (dget p ''executor'') (dget env ''kid'') \<and> in_str_set (dget p ''executor'') (dv_trusted dev) = Inr True
      \<and> dget p ''device_id'' = JStr (dv_id dev) \<and> is_hex_id ''kinegrant:cap:'' (dget p ''capability_id'')
      \<and> is_sha256 (dget p ''request_digest'') \<and> dget p ''action'' = JStr ''move_paper_barrier''
      \<and> positive_int (dget p ''boot_counter'') \<and> positive_int (dget p ''sequence'') \<and> check_parameters p = Inr ()
      \<and> is_hex_id ''kinegrant:device-command:'' (dget p ''command_id'')
      \<and> content_id ''kinegrant:device-command'' (JDict (dwithout [''command_id''] p)) = Inr cid \<and> dget p ''command_id'' = JStr cid"
    using assms(1) unfolding check_command_def by (elim res_elims) auto
  then have v: "verify_envelope V env = Inr p" by (simp add: as_permission_Inr)
  note p = strict_payload [OF assms(2) v]
  have de: "dget (plain_members env) ''kid'' = dget env ''kid''"
    using verify_envelope_kid [OF v] assms(2) by (auto simp: dget_plain strict_JDict [of n])
  have dp: "dget (plain_members p) k = plain (dget p k)" for k using p(2) by (rule dget_plain)
  have cid: "content_id ''kinegrant:device-command'' (JDict (dwithout [''command_id''] (plain_members p))) = Inr cid"
    using c content_id_plain [OF strict_dwithout [OF p(1)]] by (simp add: dwithout_plain)
  have scalars: "dget (plain_members p) k = dget p k"
    if "k \<in> {''type'', ''profile'', ''executor'', ''device_id'', ''capability_id'', ''request_digest'', ''action'', ''boot_counter'', ''sequence'', ''command_id''}" for k
    using that c by (auto simp: dp plain_scalars)
  have "is_hex_id ''kinegrant:device-command:'' (JStr cid)" using c by auto
  then show ?thesis
    using c cid verify_envelope_plain [OF assms(2) v] check_parameters_plain [OF _ p(1)]
    by (simp add: check_command_def dkeys_eq_plain de scalars as_permission_def)
qed

lemma check_answers_plain:
  assumes "check_command V dev (JDict env) = Inr (p, cid)" "strict_value n (JDict env)"
  shows "answers (plain_members p) ch = answers p ch" "ack_body dv (plain_members p) cid k = ack_body dv p cid k"
proof -
  have v: "verify_envelope V env = Inr p" using assms(1) by (rule check_commandD) auto
  have dp: "dget (plain_members p) k = plain (dget p k)" for k using strict_payload(2) [OF assms(2) v] by (rule dget_plain)
  have c: "dget p ''device_id'' = JStr (dv_id dev)" "is_hex_id ''kinegrant:cap:'' (dget p ''capability_id'')"
     "positive_int (dget p ''boot_counter'')" "positive_int (dget p ''sequence'')"
    using assms(1) unfolding check_command_def by (elim res_elims; auto)+
  have nonce: "plain v = JStr x \<longleftrightarrow> v = JStr x" for v x by (cases v) (auto split: pyfloat.splits)
  show "answers (plain_members p) ch = answers p ch" "ack_body dv (plain_members p) cid k = ack_body dv p cid k"
    using c by (simp_all add: answers_def ack_body_def dp plain_scalars nonce)
qed

lemma device_execute_plain:
  assumes "check_command V dev (JDict env) = Inr (p, cid)" "strict_value n (JDict env)"
  shows "device_execute V S s e dev (JDict (plain_members env)) m = device_execute V S s e dev (JDict env) m"
  using assms(1) check_command_plain [OF assms] check_answers_plain [OF assms]
  by (auto simp: device_execute_def actuate_def consume_challenge_def Let_def split: option.splits prod.splits sum.splits)

lemma verify_device_ack_plain:
  assumes "verify_device_ack V (JDict env) trusted commands devices caps = Inr True" "strict_value n (JDict env)"
  shows "verify_device_ack V (JDict (plain_members env)) trusted commands devices caps = Inr True"
proof -
  obtain p where v: "verify_envelope V env = Inr p"
    using assms(1) by (auto simp: verify_device_ack_def split: if_splits sum.splits)
  have c: "dkeys_eq env ENVELOPE_FIELDS \<and> dkeys_eq p ACK_FIELDS \<and> dget p ''type'' = JStr ACK_TYPE \<and> dget p ''profile'' = JStr PROFILE
      \<and> py_eq (dget p ''device'') (dget env ''kid'') \<and> in_str_set (dget p ''device'') trusted = Inr True
      \<and> nonblank_str (dget p ''device_id'') \<and> expects devices (dget p ''device_id'')
      \<and> is_hex_id ''kinegrant:device-command:'' (dget p ''command_id'') \<and> expects commands (dget p ''command_id'')
      \<and> is_hex_id ''kinegrant:cap:'' (dget p ''capability_id'') \<and> expects caps (dget p ''capability_id'')
      \<and> in_str_set (dget p ''result'') [''succeeded'', ''failed''] = Inr True
      \<and> positive_int (dget p ''boot_counter'') \<and> positive_int (dget p ''sequence'') \<and> positive_int (dget p ''actuator_count'')
      \<and> content_id ''kinegrant:device-ack'' (JDict (dwithout [''ack_id''] p)) = Inr (the_str (dget p ''ack_id''))
      \<and> is_str (dget p ''ack_id'')"
    using assms(1) v unfolding verify_device_ack_def
    by (auto simp: res_simps split: if_splits)
  note p = strict_payload [OF assms(2) v]
  have de: "dget (plain_members env) ''kid'' = dget env ''kid''"
    using verify_envelope_kid [OF v] assms(2) by (auto simp: dget_plain strict_JDict [of n])
  have dp: "dget (plain_members p) k = plain (dget p k)" for k using p(2) by (rule dget_plain)
  have cid: "content_id ''kinegrant:device-ack'' (JDict (dwithout [''ack_id''] (plain_members p))) = Inr (the_str (dget p ''ack_id''))"
    using c content_id_plain [OF strict_dwithout [OF p(1)]] by (simp add: dwithout_plain)
  have scalars: "dget (plain_members p) k = dget p k"
    if "k \<in> {''type'', ''profile'', ''device'', ''device_id'', ''command_id'', ''capability_id'', ''result'', ''boot_counter'', ''sequence'', ''actuator_count'', ''ack_id''}" for k
    using that c by (auto simp: dp plain_scalars is_str_iff)
  show ?thesis
    using c cid verify_envelope_plain [OF assms(2) v]
    by (auto simp: verify_device_ack_def dkeys_eq_plain de scalars is_str_iff)
qed

section \<open>Delivery\<close>

text \<open>The bytes of \<open>f\<close> arrive before the deadline, in whatever pieces.\<close>

definition delivers :: "json \<Rightarrow> serial_input \<Rightarrow> byte list \<Rightarrow> bool" where
  "delivers timeout input f \<longleftrightarrow> (\<exists>t r1 r2. check_timeout timeout = Inr t \<and> snd input = r1 @ r2 \<and> concat (map snd r1) = f
     \<and> (\<forall>p\<in>set r1. f_less (FFin (fst p)) (deadline_at (fst input) t)))"

lemma frame_lines:
  assumes "decode_frame n m f = Inr d"
  shows "lines_of f = ([f], [])" "f = butlast f @ [10]"
proof -
  note d = decode_frameD [OF assms]
  show f: "f = butlast f @ [10]" using d(2,3) append_butlast_last_id [of f] by simp
  show "lines_of f = ([f], [])" using lines_of_snoc [OF d(7), of 10] f by simp
qed

lemma read_loop_delivers:
  assumes "decode_frame n (JInt (nj_max dec)) f = Inr d" "nj_ok dec" "nj_live dec" "nj_buffer dec @ concat (map snd r1) = f"
    "\<forall>p\<in>set r1. f_less (FFin (fst p)) deadline"
  shows "read_loop n deadline dec (r1 @ r2) = Some (Inr d)"
  using assms
proof (induction r1 arbitrary: dec)
  case Nil
  then have "10 \<in> set (nj_buffer dec)" using frame_lines(2) [OF Nil.prems(1)] by (metis append_Nil2 concat.simps(1) in_set_conv_decomp list.map(1))
  with Nil.prems(2) show ?case by (simp add: nj_ok_def)
next
  case (Cons p r1)
  obtain clock chunk where p: "p = (clock, chunk)" by (cases p)
  have live: "f_less (FFin clock) deadline" using Cons.prems(5) p by simp
  have f: "f = (nj_buffer dec @ chunk) @ concat (map snd r1)" using Cons.prems(4) p by simp
  note l = frame_lines [OF Cons.prems(1)]
  show ?case
  proof (cases "chunk = []")
    case True
    then show ?thesis using Cons.IH [of dec] Cons.prems live p by simp
  next
    case chunk: False
    show ?thesis
    proof (cases "concat (map snd r1) = []")
      case True
      then have "nj_buffer dec @ chunk = f" using f by (simp only: append_Nil2)
      then have "nj_feed n dec chunk = (dec\<lparr>nj_buffer := []\<rparr>, Inr [d])"
        using l(1) Cons.prems(1-3) by (simp add: nj_feed_Inr [OF Cons.prems(2)] room_def nj_ok_def)
      then show ?thesis using live p chunk Cons.prems(3) by (simp add: nj_close_def nj_live_def)
    next
      case False
      let ?q = "nj_buffer dec @ chunk"
      have z: "butlast f = ?q @ butlast (concat (map snd r1))"
        unfolding f using False by (simp only: butlast_append if_False)
      have "set ?q \<subseteq> set (butlast f)" unfolding z by auto
      then have q: "10 \<notin> set ?q" using decode_frameD(7) [OF Cons.prems(1)] by blast
      have "length ?q \<le> length (butlast f)" unfolding z by simp
      moreover have "length f = length (butlast f) + 1" using l(2) by (metis length_append_singleton Suc_eq_plus1)
      moreover have "int (length f) \<le> nj_max dec" using decode_frameD(5) [OF Cons.prems(1)] by simp
      ultimately have short: "int (length ?q) < nj_max dec" by linarith
      let ?dec = "dec\<lparr>nj_buffer := ?q\<rparr>"
      have "nj_feed n dec chunk = (?dec, Inr [])"
        using q short Cons.prems(3) by (simp add: nj_feed_Inr [OF Cons.prems(2)] lines_of_partial room_def)
      moreover have "read_loop n deadline ?dec (r1 @ r2) = Some (Inr d)"
        using Cons.IH [of ?dec] Cons.prems q short f by (simp add: nj_ok_def nj_live_def)
      ultimately show ?thesis using live p chunk by simp
    qed
  qed
qed

lemma read_delivered:
  assumes "delivers timeout input f" "decode_frame n m f = Inr d"
  shows "read_serial_object n timeout m input = Some (Inr d)"
proof -
  obtain t r1 r2 where t: "check_timeout timeout = Inr t" "snd input = r1 @ r2" "concat (map snd r1) = f"
    "\<forall>p\<in>set r1. f_less (FFin (fst p)) (deadline_at (fst input) t)"
    using assms(1) by (auto simp: delivers_def)
  have "limit_ok m" using decode_frameD(1) [OF assms(2)] .
  then obtain dec where dec: "ndjson_init m = Inr dec" by (simp add: ndjson_init_def)
  note i = ndjson_init_ok [OF dec]
  have "read_loop n (deadline_at (fst input) t) dec (r1 @ r2) = Some (Inr d)"
    by (rule read_loop_delivers) (use i assms(2) t in auto)
  with t dec show ?thesis by (simp add: read_serial_object_def)
qed

section \<open>The whole path\<close>

definition fits_frame :: "json \<Rightarrow> bool" where
  "fits_frame v \<longleftrightarrow> (\<forall>b. canonical_json v = Inr b \<longrightarrow> int (length b) < MAX_FRAME_BYTES)"

lemma frame_of:
  assumes "serializable (JDict d)" "strict_value n (JDict d)" "fits_frame (JDict d)"
  obtains f where "encode_frame n (JInt MAX_FRAME_BYTES) (JDict d) = Inr f" "decode_frame n (JInt MAX_FRAME_BYTES) f = Inr (plain_members d)"
proof -
  obtain b where b: "canonical_json (JDict d) = Inr b" using assms(1) canonical_json_total by blast
  then have "int (length b) < the_int (JInt MAX_FRAME_BYTES)" using assms(3) by (simp add: fits_frame_def)
  moreover have "limit_ok (JInt MAX_FRAME_BYTES)" by (simp add: limit_ok_def MAX_FRAME_BYTES_def)
  ultimately have f: "encode_frame n (JInt MAX_FRAME_BYTES) (JDict d) = Inr (b @ [10])" using frame_written [OF b assms(2)] by simp
  from frame_reads_back [OF this] show thesis using that [OF f] by (auto simp: plain_JDict simp del: plain.simps(7))
qed

lemma sign_statement_env_serializable: "sign_statement prefix id_field k body = Inr env \<Longrightarrow> serializable (JDict env)"
  by (auto simp: sign_statement_def res_simps dest: sign_envelope_serializable)

lemma actuate_plain:
  assumes "check_command V dev (JDict env) = Inr (p, cid)" "strict_value n (JDict env)"
    and "actuate V S s e dev (JDict env) m = (s', dev', Inr (p, cid, c))"
  shows "\<exists>q. actuate V S s e dev (JDict (plain_members env)) m = (s', dev', Inr (q, cid, c))"
  using assms(1,3) check_command_plain [OF assms(1,2)] check_answers_plain(1) [OF assms(1,2)]
  by (auto simp: actuate_def consume_challenge_def Let_def split: option.splits prod.splits sum.splits if_splits)

text \<open>The other end of the line: it sends its challenge, takes every byte, executes what it reads
  and sends the acknowledgement, each before the client's deadline.\<close>

definition honest_peer ::
  "nat \<Rightarrow> verifier \<Rightarrow> ('s, 'e) state_store \<Rightarrow> 's \<Rightarrow> 'e \<Rightarrow> device \<Rightarrow> device_challenge \<Rightarrow> rat \<Rightarrow> json \<Rightarrow> json \<Rightarrow> serial_peer \<Rightarrow> bool" where
  "honest_peer n V S s e dev ch m wc wa peer \<longleftrightarrow>
     (\<forall>f. encode_frame n (JInt MAX_FRAME_BYTES) (JDict (challenge_to_dict ch)) = Inr f \<longrightarrow> delivers wc (sp_greeting peer) f)
     \<and> (\<forall>f. sp_write peer f = int (length f))
     \<and> (\<forall>f c s' dev' ack g. decode_frame n (JInt MAX_FRAME_BYTES) f = Inr c \<longrightarrow>
          device_execute V S s e dev (JDict c) m = (s', dev', Inr ack) \<longrightarrow>
          encode_frame n (JInt MAX_FRAME_BYTES) (JDict ack) = Inr g \<longrightarrow> delivers wa (sp_answer peer f) g)"

lemma honest_peerD:
  assumes "honest_peer n V S s e dev ch m wc wa peer"
  shows "encode_frame n (JInt MAX_FRAME_BYTES) (JDict (challenge_to_dict ch)) = Inr f \<Longrightarrow> delivers wc (sp_greeting peer) f"
    "sp_write peer f = int (length f)"
    "decode_frame n (JInt MAX_FRAME_BYTES) f = Inr c \<Longrightarrow> device_execute V S s e dev (JDict c) m = (s', dev', Inr ack) \<Longrightarrow>
       encode_frame n (JInt MAX_FRAME_BYTES) (JDict ack) = Inr g \<Longrightarrow> delivers wa (sp_answer peer f) g"
  using assms unfolding honest_peer_def by blast+

lemma challenge_delivered:
  assumes ch: "device_challenge_init (JStr d) (JInt b) (JStr nonce) (JInt i) (JInt a) = Inr ch"
    and ser: "serializable (JDict (challenge_to_dict ch))" and fit: "fits_frame (JDict (challenge_to_dict ch))" and n: "0 < n"
    and del: "\<And>f. encode_frame n (JInt MAX_FRAME_BYTES) (JDict (challenge_to_dict ch)) = Inr f \<Longrightarrow> delivers wc input f"
  shows "read_device_challenge n wc input = Some (Inr ch)"
proof -
  let ?d = "challenge_to_dict ch"
  have age: "ch_max_age_ms ch = JInt a" using ch by (auto simp: device_challenge_init_def split: if_splits)
  have st: "strict_value n (JDict ?d)" using n by (simp add: strict_JDict challenge_to_dict_def age)
  obtain f where f: "encode_frame n (JInt MAX_FRAME_BYTES) (JDict ?d) = Inr f" "decode_frame n (JInt MAX_FRAME_BYTES) f = Inr (plain_members ?d)"
    by (rule frame_of [OF ser st fit])
  have same: "dget (plain_members ?d) x = dget ?d x" for x
    using st by (subst dget_plain) (auto simp: strict_JDict, simp add: challenge_to_dict_def age)
  have "challenge_from_dict (JDict (plain_members ?d)) = challenge_from_dict (JDict ?d)"
    by (simp only: challenge_from_dict_def json.case dkeys_eq_plain same)
  also have "\<dots> = Inr ch" by (rule challenge_roundtrip [OF ch])
  finally show ?thesis
    using read_delivered [OF del [OF f(1)] f(2)] by (simp add: read_device_challenge_def as_permission_def)
qed

lemma command_strict:
  assumes "issue_command consume k s env vc q ch now = (s', Inr command)" "3 \<le> n"
    and "dget (rq_context q) ''device_parameters'' = JDict [(''position'', JStr pos)]"
  shows "strict_value n (JDict command)" "serializable (JDict command)"
    "\<bar>ch_boot_counter ch\<bar> \<le> max_safe_integer" "\<bar>ch_next_sequence ch\<bar> \<le> max_safe_integer"
proof -
  obtain qd cap where s: "sign_statement ''kinegrant:device-command'' ''command_id'' k
      (command_body k ch cap qd (rq_action q) [(''position'', JStr pos)]) = Inr command"
    by (rule issue_commandE [OF assms(1)]) (auto simp: assms(3))
  let ?b = "command_body k ch cap qd (rq_action q) [(''position'', JStr pos)]"
  have no: "\<not> dhas ?b ''command_id''" by (simp add: command_body_def)
  have "strict_value (n - 1) (JDict ?b)" using assms(2) by (simp add: command_body_def strict_JDict)
  from sign_statement_strict [OF s this no] assms(2) show "strict_value n (JDict command)" by simp
  show "serializable (JDict command)" using s by (rule sign_statement_env_serializable)
  have "serializable (JDict ?b)" using s no by (rule sign_statement_serializable)
  then show "\<bar>ch_boot_counter ch\<bar> \<le> max_safe_integer" "\<bar>ch_next_sequence ch\<bar> \<le> max_safe_integer"
    by (auto simp: command_body_def)
qed

lemma ack_strict:
  assumes "sign_statement ''kinegrant:device-ack'' ''ack_id'' k (ack_body dev p cid c) = Inr ack" "2 \<le> n"
    and "dget p ''capability_id'' = JStr cap" "\<exists>i. dget p ''sequence'' = JInt i"
  shows "strict_value n (JDict ack)" "serializable (JDict ack)"
proof -
  have no: "\<not> dhas (ack_body dev p cid c) ''ack_id''" by (simp add: ack_body_def)
  have "strict_value (n - 1) (JDict (ack_body dev p cid c))" using assms(2-4) by (auto simp: ack_body_def strict_JDict)
  from sign_statement_strict [OF assms(1) this no] assms(2) show "strict_value n (JDict ack)" by simp
  show "serializable (JDict ack)" using assms(1) by (rule sign_statement_env_serializable)
qed

text \<open>With an honest peer that has the live challenge, a command that is issued moves the barrier
  once and the client returns the verified exchange.\<close>

context device_store
begin

lemma serial_round:
  assumes chal: "challenge S s e dev0 nonce t = (dev, Inr ch)"
    and iss: "issue_command consume k rs renv vc q ch now = (rs', Inr command)"
    and k: "good_key V k" "kid k \<in> set (dv_trusted dev0)"
    and q: "rq_action q = ''move_paper_barrier''" "dget (rq_context q) ''device_parameters'' = JDict [(''position'', JStr pos)]"
      "pos \<in> {''open'', ''closed''}"
    and cap: "is_hex_id ''kinegrant:cap:'' (dget (vc_claims vc) ''capability_id'')"
    and time: "t \<le> m" "m < t + 10"
    and st: "store_ok s" "works e" "ss_actuator_count S s e (dv_id dev0) = Inr c" "0 \<le> c" "c < max_safe_integer"
    and new: "\<forall>p cid. check_command V dev (JDict command) = Inr (p, cid) \<longrightarrow> (dv_id dev0, cid) \<notin> dw_consumed (view s)"
    and dk: "good_key V (dv_key dev0)" "kid (dv_key dev0) \<in> set trusted"
    and n: "3 \<le> n"
    and fit: "fits_frame (JDict (challenge_to_dict ch))" "fits_frame (JDict command)"
      "\<And>s' dev' ack. device_execute V S s e dev (JDict command) m = (s', dev', Inr ack) \<Longrightarrow> fits_frame (JDict ack)"
    and peer: "honest_peer n V S s e dev ch m wc wa peer"
  shows "\<exists>frame x d s' ack p cid. execute_once n V consume k trusted wc wa peer rs renv now vc q = (rs', [frame], Some (Inr x))
    \<and> decode_frame n (JInt MAX_FRAME_BYTES) frame = Inr d
    \<and> actuate V S s e dev (JDict d) m = (s', dev0\<lparr>dv_active := None\<rparr>, Inr (p, cid, c + 1))
    \<and> device_execute V S s e dev (JDict d) m = (s', dev0\<lparr>dv_active := None\<rparr>, Inr ack)
    \<and> se_command x = command \<and> se_ack x = plain_members ack"
proof -
  obtain p cid cp s' ack where cc: "check_command V dev (JDict command) = Inr (p, cid)"
    and act: "actuate V S s e dev (JDict command) m = (s', dev0\<lparr>dv_active := None\<rparr>, Inr (p, cid, c + 1))"
    and ex: "device_execute V S s e dev (JDict command) m = (s', dev0\<lparr>dv_active := None\<rparr>, Inr ack)"
    and mem: "dget p ''capability_id'' = JStr cp" "\<exists>i. dget p ''sequence'' = JInt i"
    and sgn: "sign_statement ''kinegrant:device-ack'' ''ack_id'' (dv_key dev) (ack_body dev p cid (c + 1)) = Inr ack"
    and ver: "\<And>W trusted commands caps. good_key W (dv_key dev0) \<Longrightarrow> kid (dv_key dev0) \<in> set trusted \<Longrightarrow> expects commands (JStr cid) \<Longrightarrow>
      expects caps (JStr cp) \<Longrightarrow> verify_device_ack W (JDict ack) trusted commands (Some [dv_id dev0]) caps = Inr True"
    by (rule device_moves [OF chal iss k q cap time st new]) blast
  note cs = command_strict [OF iss n q(2)]
  have cid: "verify_envelope V command = Inr p" "dget p ''command_id'' = JStr cid" using cc by (rule check_commandD, simp)+
  obtain i where init: "device_challenge_init (JStr (dv_id dev0)) (JInt (dv_boot dev0)) (JStr nonce) (JInt i) (JInt MAX_CHALLENGE_AGE_MS) = Inr ch"
    using chal by (auto simp: challenge_def res_simps split: sum.splits)
  then have id: "ch_device_id ch = dv_id dev0" by (auto simp: device_challenge_init_def split: if_splits)
  have age: "ch_max_age_ms ch = JInt MAX_CHALLENGE_AGE_MS" using init by (auto simp: device_challenge_init_def split: if_splits)
  have ser: "serializable (JDict (challenge_to_dict ch))"
    using cs(3,4) by (simp add: challenge_to_dict_def age MAX_CHALLENGE_AGE_MS_def max_safe_integer_def abs_le_iff)
  have n0: "0 < n" "2 \<le> n" using n by simp_all
  have rc: "read_device_challenge n wc (sp_greeting peer) = Some (Inr ch)"
    by (rule challenge_delivered [OF init ser fit(1) n0(1) honest_peerD(1) [OF peer]])
  obtain frame where f: "encode_frame n (JInt MAX_FRAME_BYTES) (JDict command) = Inr frame"
    "decode_frame n (JInt MAX_FRAME_BYTES) frame = Inr (plain_members command)"
    by (rule frame_of [OF cs(2,1) fit(2)])
  have ex': "device_execute V S s e dev (JDict (plain_members command)) m = (s', dev0\<lparr>dv_active := None\<rparr>, Inr ack)"
    unfolding device_execute_plain [OF cc cs(1)] by (rule ex)
  note as = ack_strict [OF sgn n0(2) mem]
  obtain g where g: "encode_frame n (JInt MAX_FRAME_BYTES) (JDict ack) = Inr g"
    "decode_frame n (JInt MAX_FRAME_BYTES) g = Inr (plain_members ack)"
    by (rule frame_of [OF as(2,1) fit(3) [OF ex]])
  have ra: "read_serial_object n wa (JInt MAX_FRAME_BYTES) (sp_answer peer frame) = Some (Inr (plain_members ack))"
    using read_delivered [OF honest_peerD(3) [OF peer f(2) ex' g(1)] g(2)] .
  have "verify_device_ack V (JDict ack) trusted (Some [cid]) (Some [ch_device_id ch]) (Some [cp]) = Inr True"
    unfolding id by (rule ver [OF dk]) (simp_all add: expects_def)
  then have va: "verify_device_ack V (JDict (plain_members ack)) trusted (Some [cid]) (Some [ch_device_id ch]) (Some [cp]) = Inr True"
    using as(1) by (rule verify_device_ack_plain)
  let ?x = "\<lparr>se_challenge = challenge_to_dict ch, se_command = command, se_ack = plain_members ack, se_frame = frame\<rparr>"
  have "dindex p ''command_id'' = Inr (JStr cid)" "dindex p ''capability_id'' = Inr (JStr cp)"
    using cid(2) mem(1) by (auto simp: dindex_def dget_def split: option.splits)
  then have "accept_ack V trusted ch command frame (plain_members ack) = Inr ?x"
    using cid(1) va by (simp add: accept_ack_def)
  then have "execute_once n V consume k trusted wc wa peer rs renv now vc q = (rs', [frame], Some (Inr ?x))"
    using rc iss f(1) ra honest_peerD(2) [OF peer] by (simp add: execute_once_def)
  moreover obtain p' where "actuate V S s e dev (JDict (plain_members command)) m = (s', dev0\<lparr>dv_active := None\<rparr>, Inr (p', cid, c + 1))"
    using actuate_plain [OF cc cs(1) act] by blast
  ultimately show ?thesis using f(2) ex' by fastforce
qed

end

end
