(* ===== verification/FrameSize.thy ===== *)
theory FrameSize
  imports SerialLoop "HOL-Library.Multiset"
begin

text \<open>
  How long a frame of \<open>experimental/esp32c3_transport.py\<close> is: a bound from the texts of an object
  alone, so that an object can be shown to fit the limit before it is encoded.
\<close>

section \<open>How long canonical text is\<close>

text \<open>A bound on the bytes of a value without floats: six per character of a text.\<close>

fun json_weight :: "json \<Rightarrow> nat"
and list_weight :: "json list \<Rightarrow> nat"
and items_weight :: "dict \<Rightarrow> nat" where
  "json_weight (JStr s) = 6 * length s + 2"
| "json_weight (JList xs) = list_weight xs + 2"
| "json_weight (JDict d) = items_weight d + 2"
| "json_weight _ = 17"
| "list_weight [] = 0"
| "list_weight (x # xs) = json_weight x + 1 + list_weight xs"
| "items_weight [] = 0"
| "items_weight ((k, v) # d) = 6 * length k + 4 + json_weight v + items_weight d"

lemma weight_sums:
  "list_weight xs = (\<Sum>x\<leftarrow>xs. json_weight x + 1)"
  "items_weight d = (\<Sum>m\<leftarrow>d. 6 * length (fst m) + 4 + json_weight (snd m))"
  by (induction xs, simp_all) (induction d, auto)

lemma items_weight_sort: "items_weight (sort_key f d) = items_weight d"
proof -
  have "sum_list (map g (sort_key f d)) = sum_list (map g d)" for g :: "string \<times> json \<Rightarrow> nat"
    by (simp flip: sum_mset_sum_list)
  then show ?thesis by (simp add: weight_sums)
qed

lemma size_append [simp]: "length (encode_utf8 (s @ t)) = length (encode_utf8 s) + length (encode_utf8 t)"
  by (simp add: encode_utf8_def)

lemma size_Cons: "c < 128 \<Longrightarrow> length (encode_utf8 (c # t)) = length (encode_utf8 t) + 1"
  by (simp add: encode_utf8_def utf8_def)

lemma size_nil [simp]: "length (encode_utf8 []) = 0"
  by (simp add: encode_utf8_def)

lemma size_ascii: "\<forall>c\<in>set t. c < 128 \<Longrightarrow> length (encode_utf8 t) = length t"
  by (induction t) (simp_all add: size_Cons)

lemma size_escape:
  assumes "c < 256"
  shows "length (encode_utf8 (escape_cp c)) \<le> 6"
proof -
  have h: "(of_char (hex_digit i) :: nat) < 128" if "i < 16" for i
    using that by (cases "i < 10") (simp_all add: hex_digit_def)
  have "\<forall>x\<in>set (hex4 c). x < 128" by (simp add: hex4_def cps_of_def h)
  moreover have "length (hex4 c) = 4" by (simp add: hex4_def cps_of_def)
  ultimately have "length (encode_utf8 (hex4 c)) = 4" by (simp add: size_ascii)
  with assms show ?thesis
    by (auto simp: escape_cp_def size_Cons) (simp add: encode_utf8_def utf8_def)
qed

lemma size_string: "length (encode_utf8 (string_cps (cps_of s))) \<le> 6 * length s + 2"
proof -
  have "length (encode_utf8 (concat (map escape_cp (cps_of s)))) \<le> 6 * length s"
  proof (induction s)
    case (Cons c s)
    have "length (encode_utf8 (escape_cp (of_char c))) \<le> 6" by (rule size_escape) (rule of_char_small)
    with Cons show ?case by (simp add: cps_of_def)
  qed (simp add: cps_of_def)
  then show ?thesis by (simp add: string_cps_def size_Cons)
qed

lemma size_join: "length (encode_utf8 (join_comma ts)) \<le> (\<Sum>t\<leftarrow>ts. length (encode_utf8 t) + 1)"
  by (induction ts rule: join_comma.induct) (simp_all add: size_Cons)

lemma rmapM_sum:
  assumes "rmapM f xs = Inr ts" "\<And>x t. x \<in> set xs \<Longrightarrow> f x = Inr t \<Longrightarrow> g t \<le> (h x :: nat)"
  shows "(\<Sum>t\<leftarrow>ts. g t) \<le> (\<Sum>x\<leftarrow>xs. h x)"
  using assms
proof (induction xs arbitrary: ts)
  case (Cons x xs)
  obtain t ts' where t: "f x = Inr t" "rmapM f xs = Inr ts'" "ts = t # ts'" using Cons.prems(1) by (auto simp: res_simps)
  have "g t \<le> h x" using Cons.prems(2) t(1) by simp
  moreover have "(\<Sum>t\<leftarrow>ts'. g t) \<le> (\<Sum>x\<leftarrow>xs. h x)" using Cons.IH [OF t(2)] Cons.prems(2) by simp
  ultimately show ?case using t(3) by simp
qed simp

lemma int_size: "\<bar>i\<bar> \<le> max_safe_integer \<Longrightarrow> length (encode_utf8 (cps_of (int_str i))) \<le> 17"
proof -
  assume i: "\<bar>i\<bar> \<le> max_safe_integer"
  have "length (nat_str (nat \<bar>i\<bar>)) \<le> 16" using i nat_str_length [of "nat \<bar>i\<bar>" 16] by (simp add: max_safe_integer_def)
  then have "length (int_str i) \<le> 17" by (auto simp: int_str_def)
  moreover have "(of_char c :: nat) < 128" if "c \<in> set (nat_str m)" for c m
    using nat_str_digits [of m] that by (force simp: list_all_iff is_digit_def Let_def)
  then have "\<forall>c\<in>set (cps_of (int_str i)). c < 128" by (auto simp: int_str_def cps_of_def)
  ultimately show ?thesis by (simp add: size_ascii, simp add: cps_of_def)
qed

lemma canonical_size: "jcs v = Inr t \<Longrightarrow> strict_value n v \<Longrightarrow> length (encode_utf8 t) \<le> json_weight v"
proof (induction v arbitrary: t n rule: measure_induct_rule [of size])
  case (less v)
  show ?case
  proof (cases v)
    case (JStr s)
    with less.prems show ?thesis using size_string [of s] by simp
  next
    case (JInt i)
    with less.prems have "\<bar>i\<bar> \<le> max_safe_integer" "t = cps_of (int_str i)" by (auto simp: number_text_def res_simps split: if_splits)
    with JInt int_size show ?thesis by simp
  next
    case (JList xs)
    obtain ts where ts: "rmapM jcs xs = Inr ts" "t = 91 # join_comma ts @ [93]"
      using less.prems(1) JList by (auto simp: res_simps rseq_jcs_list)
    have "length (encode_utf8 u) + 1 \<le> json_weight x + 1" if "x \<in> set xs" "jcs x = Inr u" for x u
      using less.IH [of x u "n - 1"] that less.prems(2) JList size_list_member by (auto simp: strict_value.simps [of n])
    from rmapM_sum [OF ts(1) this] have "(\<Sum>t\<leftarrow>ts. length (encode_utf8 t) + 1) \<le> list_weight xs" by (simp add: weight_sums)
    with size_join [of ts] ts(2) JList show ?thesis by (simp add: size_Cons)
  next
    case (JDict d)
    let ?d = "sort_key (\<lambda>m. utf16_key (fst m)) d"
    obtain ts where ts: "rmapM member_jcs ?d = Inr ts" "t = 123 # join_comma ts @ [125]"
      using less.prems(1) JDict by (auto simp: res_simps jcs_dict simp del: jcs.simps(7))
    have "length (encode_utf8 u) + 1 \<le> 6 * length (fst m) + 4 + json_weight (snd m)" if m: "m \<in> set ?d" "member_jcs m = Inr u" for m u
    proof -
      obtain w where w: "jcs (snd m) = Inr w" "u = string_cps (cps_of (fst m)) @ 58 # w" using m(2) by (auto simp: member_jcs_def res_simps)
      have "size (snd m) < size v" "strict_value (n - 1) (snd m)"
        using m(1) less.prems(2) JDict size_dict_member [of "fst m" "snd m" d] by (auto simp: strict_value.simps [of n])
      from less.IH [OF this(1) w(1) this(2)] size_string [of "fst m"] show ?thesis by (simp add: w(2) size_Cons)
    qed
    from rmapM_sum [OF ts(1) this] have "(\<Sum>t\<leftarrow>ts. length (encode_utf8 t) + 1) \<le> items_weight ?d" by (simp add: weight_sums)
    with size_join [of ts] ts(2) JDict show ?thesis by (simp add: size_Cons items_weight_sort)
  next
    case JNull
    with less.prems have "t = cps_of ''null''" by simp
    then have "\<forall>c\<in>set t. c < 128" "length t = 4" by (simp_all add: cps_of_def)
    with JNull show ?thesis by (simp add: size_ascii)
  next
    case (JBool b)
    with less.prems have "t = cps_of (if b then ''true'' else ''false'')" by simp
    then have "\<forall>c\<in>set t. c < 128" "length t \<le> 5" by (simp_all add: cps_of_def split: if_splits)
    with JBool show ?thesis by (simp add: size_ascii)
  qed (use less.prems in \<open>simp add: strict_value.simps [of n]\<close>)
qed

section \<open>Signed statements that fit a frame\<close>

lemma fits_by_weight:
  assumes "strict_value n v" "int (json_weight v) < MAX_FRAME_BYTES"
  shows "fits_frame v"
  using canonical_size [OF _ assms(1)] assms(2) by (fastforce simp: fits_frame_def canonical_json_def res_simps)

lemma b64_length: "length (b64_encode bs) \<le> 2 * length bs"
  by (induction bs rule: b64_encode.induct) (simp_all add: sextets_def)

lemma items_weight_append: "items_weight (d @ e) = items_weight d + items_weight e"
  by (simp add: weight_sums)

lemma statement_fits:
  assumes s: "sign_statement prefix id_field k body = Inr env" "\<not> dhas body id_field" and st: "strict_value n (JDict body)"
    and k: "good_key V k" "kp_type k = Ed25519"
    and w: "items_weight body + 6 * (length id_field + length prefix + length (kid k)) + 1400 < 8192"
  shows "fits_frame (JDict env)"
proof -
  obtain cid b where cid: "content_id prefix (JDict (dwithout [id_field] body)) = Inr cid"
    and env: "env = protected_dict ''EdDSA'' (kid k) (dset body id_field (JStr cid)) @ [(''signature'', JStr (b64url (kp_sign k (domain_tag @ b))))]"
    using s(1) k(2) by (auto simp: sign_statement_def sign_envelope_def Let_def res_simps)
  have "length cid = length prefix + 65" using cid by (rule content_id_text) simp
  moreover have "length (b64url (kp_sign k (domain_tag @ b))) \<le> 128"
    using b64_length [of "map unat (kp_sign k (domain_tag @ b))"] k by (simp add: b64url_def good_key_def)
  ultimately have "int (json_weight (JDict env)) < MAX_FRAME_BYTES"
    using w by (simp add: env protected_dict_def dset_new [OF s(2)] items_weight_append MAX_FRAME_BYTES_def)
  with sign_statement_strict [OF s(1) st s(2)] show ?thesis by (rule fits_by_weight)
qed

end
