(* ===== verification/DemoSerial.thy ===== *)
theory DemoSerial
  imports FrameSize DemoDevice
begin

text \<open>
  The device of \<open>DemoDevice\<close> at the other end of a serial line that delivers every frame at once.
  The witnesses of the serial properties use it.
\<close>

definition frame_input :: "byte list res \<Rightarrow> serial_input" where
  "frame_input r = (0, case r of Inl _ \<Rightarrow> [] | Inr f \<Rightarrow> [(0, f)])"

text \<open>What the device sends back for a frame.\<close>

definition device_answer ::
  "nat \<Rightarrow> verifier \<Rightarrow> ('s, 'e) state_store \<Rightarrow> 's \<Rightarrow> 'e \<Rightarrow> device \<Rightarrow> rat \<Rightarrow> byte list \<Rightarrow> byte list res" where
  "device_answer n V S s e dev m f =
     rbind (decode_frame n (JInt MAX_FRAME_BYTES) f) (\<lambda>c.
     rbind (snd (snd (device_execute V S s e dev (JDict c) m))) (\<lambda>ack.
       encode_frame n (JInt MAX_FRAME_BYTES) (JDict ack)))"

definition device_peer ::
  "nat \<Rightarrow> verifier \<Rightarrow> ('s, 'e) state_store \<Rightarrow> 's \<Rightarrow> 'e \<Rightarrow> device \<Rightarrow> device_challenge \<Rightarrow> rat \<Rightarrow> serial_peer" where
  "device_peer n V S s e dev ch m =
     \<lparr>sp_greeting = frame_input (encode_frame n (JInt MAX_FRAME_BYTES) (JDict (challenge_to_dict ch))),
      sp_write = (\<lambda>f. int (length f)), sp_answer = (\<lambda>f. frame_input (device_answer n V S s e dev m f))\<rparr>"

lemma frame_input_delivers: "delivers (JInt 3) (frame_input (Inr f)) f"
  unfolding delivers_def
  by (intro exI [of _ "FFin 3"] exI [of _ "[(0, f)]"] exI [of _ "[]"]) (simp add: frame_input_def check_timeout_def deadline_at_def)

lemma device_peer_honest: "honest_peer n V S s e dev ch m (JInt 3) (JInt 3) (device_peer n V S s e dev ch m)"
  unfolding honest_peer_def by (auto simp: device_peer_def device_answer_def frame_input_delivers)

lemma demo_kid_length: "length (kid demo_key) = 65"
  by code_simp

lemma demo_key_type: "kp_type demo_key = Ed25519"
  by (simp add: demo_key_def)

lemma barrier_fits:
  assumes "issue_command consume demo_key rs renv vc barrier_request barrier_challenge now = (rs', Inr command)"
    and "dget (vc_claims vc) ''capability_id'' = JStr barrier_capability"
  shows "fits_frame (JDict (challenge_to_dict barrier_challenge))" "fits_frame (JDict command)"
proof -
  show "fits_frame (JDict (challenge_to_dict barrier_challenge))"
  proof (rule fits_by_weight [of 1])
    show "strict_value 1 (JDict (challenge_to_dict barrier_challenge))"
      by (simp add: strict_JDict challenge_to_dict_def barrier_challenge_def)
    show "int (json_weight (JDict (challenge_to_dict barrier_challenge))) < MAX_FRAME_BYTES"
      by (simp add: challenge_to_dict_def barrier_challenge_def demo_nonce_def CHALLENGE_TYPE_def PROFILE_def MAX_FRAME_BYTES_def)
  qed
  obtain qd where qd: "request_digest barrier_request = Inr qd"
    and s: "sign_statement ''kinegrant:device-command'' ''command_id'' demo_key
      (command_body demo_key barrier_challenge barrier_capability qd (rq_action barrier_request) [(''position'', JStr ''open'')]) = Inr command"
    by (rule issue_commandE [OF assms(1)]) (use assms(2) in \<open>auto simp: barrier_request_def dget_def\<close>)
  have "length qd = 71" using qd by (auto simp: request_digest_def res_simps is_sha256_text_def dest!: digest_shape)
  then show "fits_frame (JDict command)"
    by (intro statement_fits [OF s, of 2 demo_V])
      (simp_all add: demo_good_key demo_key_type, simp_all add: command_body_def strict_JDict demo_kid_length demo_key_type COMMAND_TYPE_def PROFILE_def
        barrier_challenge_def barrier_capability_def demo_nonce_def barrier_request_def)
qed

lemma barrier_ack_fits:
  assumes "device_execute V S s e dev command m = (s', dev', Inr ack)" "dv_key dev = demo_key" "dv_id dev = ''barrier-1''"
  shows "fits_frame (JDict ack)"
proof -
  obtain p cid c where act: "actuate V S s e dev command m = (s', dev', Inr (p, cid, c))"
    and sgn: "sign_statement ''kinegrant:device-ack'' ''ack_id'' (dv_key dev) (ack_body dev p cid c) = Inr ack"
    using assms(1) by (auto simp: device_execute_def res_simps split: prod.splits)
  from act have cc: "check_command V dev command = Inr (p, cid)" by (auto elim!: actuate_Inr)
  have c: "is_hex_id ''kinegrant:cap:'' (dget p ''capability_id'')" "positive_int (dget p ''sequence'')"
    "content_id ''kinegrant:device-command'' (JDict (dwithout [''command_id''] p)) = Inr cid"
    using cc unfolding check_command_def by (cases command; elim res_elims; auto split: json.splits)+
  obtain cap i where mem: "dget p ''capability_id'' = JStr cap" "length cap = 78" "dget p ''sequence'' = JInt i"
    using c(1,2) by (cases "dget p ''capability_id''") (auto simp: is_hex_id_def positive_int_def is_int_nb_iff)
  have "length cid = 89" using c(3) by (rule content_id_text) simp
  with mem show ?thesis
    by (intro statement_fits [OF sgn, of 1 demo_V])
      (simp_all add: assms(2) demo_good_key demo_key_type, simp_all add: ack_body_def strict_JDict demo_kid_length demo_key_type ACK_TYPE_def PROFILE_def assms)
qed

text \<open>The exchange of this device and an issuer.\<close>

lemma barrier_exchanged:
  obtains vc peer s ws x where "execute_once 3 demo_V memory_consume demo_key [kid demo_key] (JInt 3) (JInt 3) peer [] (\<lambda>_. demo_time 2) (demo_time 2) vc barrier_request
    = (s, ws, Some (Inr x))"
proof -
  obtain vc rs command where c: "issue_command memory_consume demo_key [] (\<lambda>_. demo_time 2) vc barrier_request barrier_challenge (demo_time 2) = (rs, Inr command)"
    "dget (vc_claims vc) ''capability_id'' = JStr barrier_capability" by (rule barrier_issued)
  let ?dev = "barrier_device\<lparr>dv_active := Some (barrier_challenge, 0)\<rparr>"
  have dev: "dv_id barrier_device = ''barrier-1''" "dv_key barrier_device = demo_key" "dv_trusted barrier_device = [kid demo_key]"
    by (simp_all add: barrier_device_def)
  have fits: "fits_frame (JDict ack)"
    if "device_execute demo_V sqlite_device_store barrier_store None ?dev (JDict command) 1 = (s', dev', Inr ack)" for s' dev' ack
    using barrier_ack_fits [OF that] dev by simp
  note round = sqlite_device.serial_round [OF barrier_challenged c(1), of demo_V "''open''" 1 0 "[kid demo_key]" 3 "JInt 3" "JInt 3"
      "device_peer 3 demo_V sqlite_device_store barrier_store None ?dev barrier_challenge 1"]
  have "\<exists>frame x. execute_once 3 demo_V memory_consume demo_key [kid demo_key] (JInt 3) (JInt 3)
      (device_peer 3 demo_V sqlite_device_store barrier_store None ?dev barrier_challenge 1) [] (\<lambda>_. demo_time 2) (demo_time 2) vc barrier_request
      = (rs, [frame], Some (Inr x))"
    using round c(2) barrier_ready demo_good_key dev barrier_fits [OF c] fits device_peer_honest
    by (fastforce simp: max_safe_integer_def)
  then show thesis using that by blast
qed

end
