(* ===== verification/Odrl.thy ===== *)
theory Odrl
  imports Models Vocabulary Sequence PyStr
begin

text \<open>
  \<open>adapters/odrl.py\<close>: a subset of W3C ODRL 2.2 mapped to rules and to forbidden combinations,
  and back. The results: rules written as ODRL read back with the same effect, target, actions,
  subjects, constraints and obligations; their purposes do not survive, which widens an allow
  rule, and an action that is no text reads as the wildcard.
\<close>

section \<open>Reading identifiers\<close>

definition POLICY_FIELDS :: "string list" where
  "POLICY_FIELDS = [''@context'', ''@type'', ''type'', ''uid'', ''@id'', ''profile'', ''assigner'',
     ''permission'', ''prohibition'', ''kg:prohibitedCombination'']"

definition STATEMENT_FIELDS :: "string list" where
  "STATEMENT_FIELDS = [''target'', ''assigner'', ''assignee'', ''action'', ''constraint'', ''duty'']"

definition CONSTRAINT_FIELDS :: "string list" where
  "CONSTRAINT_FIELDS = [''leftOperand'', ''operator'', ''rightOperand'']"

definition COMBINATION_FIELDS :: "string list" where
  "COMBINATION_FIELDS = [''uid'', ''patterns'', ''windowSeconds'', ''trigger'']"

definition PATTERN_FIELDS :: "string list" where
  "PATTERN_FIELDS = [''action'', ''target'']"

definition KGP_ODRL_PROFILE :: string where
  "KGP_ODRL_PROFILE = ''https://kinegrant.com/profiles/odrl/kgp-v0.2''"

definition reject_unknown_fields :: "dict \<Rightarrow> string list \<Rightarrow> string \<Rightarrow> unit res" where
  "reject_unknown_fields v allowed label =
     (if list_all (\<lambda>(k, _). k \<in> set allowed) v then Inr ()
      else Inl (ValueError (''unsupported '' @ label @ '' fields: '')))"

definition as_list :: "json \<Rightarrow> json list" where
  "as_list v = (case v of JNull \<Rightarrow> [] | JList xs \<Rightarrow> xs | _ \<Rightarrow> [v])"

text \<open>\<open>a or b\<close>\<close>

definition py_or :: "json \<Rightarrow> json \<Rightarrow> json" where
  "py_or a b = (if truthy a then a else b)"

definition id_of :: "json \<Rightarrow> string \<Rightarrow> string" where
  "id_of v dflt = (case v of
      JStr s \<Rightarrow> s
    | JDict d \<Rightarrow> (case py_or (py_or (dget d ''uid'') (dget d ''@id'')) (dget d ''id'') of JStr s \<Rightarrow> s | _ \<Rightarrow> dflt)
    | _ \<Rightarrow> dflt)"

definition required_id :: "json \<Rightarrow> string \<Rightarrow> string res" where
  "required_id v field =
     (let r = id_of v [] in
      if r = [] then Inl (ValueError (''ODRL '' @ field @ '' must contain an identifier'')) else Inr r)"

text \<open>\<open>s.rsplit("/", 1)[-1]\<close>\<close>

definition last_segment :: "string \<Rightarrow> string" where
  "last_segment s = rev (takeWhile (\<lambda>c. c \<noteq> CHR ''/'') (rev s))"

definition ACTION_ALIASES :: "(string \<times> string) list" where
  "ACTION_ALIASES = [(''http://www.w3.org/ns/odrl/2/read'', ''observe''), (''http://www.w3.org/ns/odrl/2/use'', ''use''),
     (''http://www.w3.org/ns/odrl/2/reproduce'', ''record''), (''read'', ''observe''), (''reproduce'', ''record'')]"

definition action_of :: "json \<Rightarrow> string" where
  "action_of v = (let raw = id_of v ''*'' in
     case map_of ACTION_ALIASES raw of Some a \<Rightarrow> a | None \<Rightarrow> last_segment raw)"

section \<open>Constraints\<close>

record constraint_state =
  cs_context :: dict
  cs_purposes :: "string list"
  cs_result :: dict

definition KGP_OPERANDS :: "string list" where
  "KGP_OPERANDS = [''maxForceNewtons'', ''maxVelocityMps'', ''allowedZones'', ''minApprovalTier'']"

definition bad_number :: "json \<Rightarrow> bool" where
  "bad_number v \<longleftrightarrow> \<not> is_num_nb v \<or> num_neg v"

definition put_result :: "constraint_state \<Rightarrow> string \<Rightarrow> json \<Rightarrow> constraint_state" where
  "put_result st k v = st\<lparr>cs_result := dset (cs_result st) k v\<rparr>"

text \<open>The branches of one round, given the two operands and the operator.\<close>

definition apply_constraint :: "bool \<Rightarrow> string \<Rightarrow> string \<Rightarrow> json \<Rightarrow> constraint_state \<Rightarrow> constraint_state res" where
  "apply_constraint allow_kgp left operator right st =
     (if left = ''purpose'' \<and> operator \<in> {''eq'', ''isA''}
        then Inr (st\<lparr>cs_purposes := cs_purposes st @ map py_str (as_list right)\<rparr>)
      else if left = ''dateTime'' \<and> operator \<in> {''lt'', ''lteq''} then Inr (put_result st ''not_after'' right)
      else if left = ''dateTime'' \<and> operator \<in> {''gt'', ''gteq''} then Inr (put_result st ''not_before'' right)
      else if allow_kgp \<and> left = ''maxForceNewtons'' \<and> operator \<in> {''eq'', ''lteq''}
        then (if bad_number right then Inl (ValueError ''ODRL kg:maxForceNewtons must be a non-negative number'')
              else Inr (put_result st ''max_force_newtons'' right))
      else if allow_kgp \<and> left = ''maxVelocityMps'' \<and> operator \<in> {''eq'', ''lteq''}
        then (if bad_number right then Inl (ValueError ''ODRL kg:maxVelocityMps must be a non-negative number'')
              else Inr (put_result st ''max_velocity_mps'' right))
      else if allow_kgp \<and> left = ''allowedZones'' \<and> operator = ''eq''
        then (if as_list right = [] \<or> \<not> list_all nonempty_str (as_list right)
              then Inl (ValueError ''ODRL kg:allowedZones must be a non-empty list of strings'')
              else Inr (put_result st ''allowed_zones'' (JList (as_list right))))
      else if allow_kgp \<and> left = ''minApprovalTier'' \<and> operator = ''eq''
        then (if \<not> is_int_nb right \<or> the_int right < 0 \<or> 2 < the_int right
              then Inl (ValueError ''ODRL kg:minApprovalTier must be an integer between 0 and 2'')
              else Inr (put_result st ''min_approval_tier'' right))
      else if left \<in> set KGP_OPERANDS
        then Inl (ValueError (''ODRL constraint '' @ left @ '' requires the KineGrant profile '' @ KGP_ODRL_PROFILE))
      else if operator = ''eq'' \<and> left \<noteq> [] then Inr (st\<lparr>cs_context := dset (cs_context st) left right\<rparr>)
      else Inl (ValueError (''unsupported ODRL constraint: '' @ (if left = [] then ''<missing>'' else left) @ '' '' @ operator)))"

fun read_constraints :: "bool \<Rightarrow> json list \<Rightarrow> constraint_state \<Rightarrow> constraint_state res" where
  "read_constraints allow_kgp [] st = Inr st"
| "read_constraints allow_kgp (item # r) st = (case item of
      JDict d \<Rightarrow>
        rbind (reject_unknown_fields d CONSTRAINT_FIELDS ''ODRL constraint'') (\<lambda>_.
        if dget d ''rightOperand'' = JNull then Inl (ValueError ''ODRL constraint rightOperand is required'')
        else
        rbind (apply_constraint allow_kgp (last_segment (id_of (dget d ''leftOperand'') []))
                 (last_segment (id_of (dget d ''operator'') ''eq'')) (dget d ''rightOperand'') st)
          (read_constraints allow_kgp r))
    | _ \<Rightarrow> Inl (ValueError ''ODRL constraints must be objects''))"

definition odrl_constraints :: "json list \<Rightarrow> bool \<Rightarrow> (dict \<times> string list) res" where
  "odrl_constraints items allow_kgp =
     rbind (read_constraints allow_kgp items \<lparr>cs_context = [], cs_purposes = [], cs_result = []\<rparr>) (\<lambda>st.
       Inr (if cs_context st = [] then cs_result st else dset (cs_result st) ''required_context'' (JDict (cs_context st)),
            if cs_purposes st = [] then [''*''] else cs_purposes st))"

section \<open>Rules\<close>

definition read_duty :: "json \<Rightarrow> string res" where
  "read_duty item = (case item of
      JDict d \<Rightarrow>
        rbind (reject_unknown_fields d [''action''] ''ODRL duty'') (\<lambda>_.
        if dget d ''action'' = JNull then Inl (ValueError ''ODRL duty action is required'')
        else if action_of (dget d ''action'') \<notin> set KNOWN_OBLIGATIONS
          then Inl (ValueError (''unsupported ODRL duty action: '' @ action_of (dget d ''action'')))
        else Inr (action_of (dget d ''action'')))
    | _ \<Rightarrow> Inl (ValueError ''ODRL duties must be objects''))"

definition read_statement ::
  "bool \<Rightarrow> json \<Rightarrow> string \<Rightarrow> string \<Rightarrow> effect \<Rightarrow> string \<Rightarrow> nat \<times> json \<Rightarrow> policy_rule res" where
  "read_statement allow_kgp profile policy_uid default_issuer eff property = (\<lambda>(index, statement).
     case statement of
       JDict d \<Rightarrow>
         rbind (reject_unknown_fields d STATEMENT_FIELDS (''ODRL '' @ property)) (\<lambda>_.
         rbind (required_id (dget d ''target'') ''target'') (\<lambda>target.
         if dget d ''assignee'' = JNull
           then Inl (ValueError ''ODRL assignee must be explicit; use '*' intentionally for a wildcard'')
         else
         rbind (rmapM (\<lambda>v. required_id v ''assignee'') (as_list (dget d ''assignee''))) (\<lambda>subjects.
         let actions = map action_of (as_list (dget d ''action'')) in
         if actions = [] then Inl (ValueError ''ODRL action is required'')
         else
         rbind (odrl_constraints (as_list (dget d ''constraint'')) allow_kgp) (\<lambda>(constraints, purposes).
         rbind (rmapM read_duty (as_list (dget d ''duty''))) (\<lambda>obligations.
           policy_rule_init (JStr (policy_uid @ ''#'' @ property @ ''-'' @ nat_str index))
             (JStr (id_of (dget d ''assigner'') default_issuer)) (JStr target) (JStr (effect_name eff))
             (map JStr actions) (map JStr subjects) (map JStr purposes) (JDict constraints) (map JStr obligations)
             (JInt 0) (JDict [(''standard'', JStr ''W3C ODRL 2.2''), (''profile'', profile)]))))))
     | _ \<Rightarrow> Inl (ValueError (''ODRL '' @ property @ '' statements must be objects'')))"

definition odrl_to_rules :: "dict \<Rightarrow> policy_rule list res" where
  "odrl_to_rules policy =
     rbind (reject_unknown_fields policy POLICY_FIELDS ''ODRL policy'') (\<lambda>_.
     let allow_kgp = (dget policy ''profile'' = JStr KGP_ODRL_PROFILE) in
     if dget policy ''kg:prohibitedCombination'' \<noteq> JNull \<and> \<not> allow_kgp
       then Inl (ValueError (''kg:prohibitedCombination requires the KineGrant profile '' @ KGP_ODRL_PROFILE))
     else
       let uid = id_of (py_or (dget policy ''uid'') (dget policy ''@id'')) ''odrl:anonymous'';
           issuer = id_of (dget policy ''assigner'') ''odrl:unknown-assigner'';
           part = (\<lambda>eff property. rmapM (read_statement allow_kgp (dget policy ''profile'') uid issuer eff property)
                      (enumerate 0 (as_list (dget policy property))))
       in rbind (part Allow ''permission'') (\<lambda>allows.
          rbind (part Deny ''prohibition'') (\<lambda>denies. Inr (allows @ denies))))"

section \<open>Forbidden combinations\<close>

text \<open>A pattern or a trigger: an object with exactly an action and a target.\<close>

definition read_pattern :: "string \<Rightarrow> string \<Rightarrow> json \<Rightarrow> (string \<times> string) res" where
  "read_pattern label missing v = (case v of
      JDict d \<Rightarrow>
        rbind (reject_unknown_fields d PATTERN_FIELDS label) (\<lambda>_.
        let a = id_of (dget d ''action'') []; t = id_of (dget d ''target'') [] in
        if a = [] \<or> t = [] then Inl (ValueError (label @ '' requires action and target'')) else Inr (a, t))
    | _ \<Rightarrow> Inl (ValueError missing))"

definition read_combination :: "nat \<times> json \<Rightarrow> forbidden_combination res" where
  "read_combination = (\<lambda>(index, item). case item of
      JDict d \<Rightarrow>
        rbind (reject_unknown_fields d COMBINATION_FIELDS ''kg:prohibitedCombination'') (\<lambda>_.
        let cid = id_of (dget d ''uid'') (''odrl:prohibited-combination:'' @ nat_str index) in
        case dget d ''patterns'' of
          JList raw \<Rightarrow>
            if raw = [] then Inl (ValueError ''kg:prohibitedCombination patterns must be a non-empty list'')
            else
            rbind (rmapM (read_pattern ''combination pattern'' ''combination patterns must be objects'') raw) (\<lambda>patterns.
            if \<not> window_ok (dget d ''windowSeconds'')
              then Inl (ValueError ''windowSeconds must be a positive integer or null'')
            else
            rbind (if dget d ''trigger'' = JNull then Inr None
                   else rbind (read_pattern ''combination trigger'' ''combination trigger must be an object'' (dget d ''trigger''))
                     (\<lambda>p. Inr (Some p))) (\<lambda>trigger.
              combination_init (JStr cid) (map (\<lambda>(a, t). (JStr a, JStr t)) patterns) (dget d ''windowSeconds'')
                (map_option (\<lambda>(a, t). (JStr a, JStr t)) trigger)))
        | _ \<Rightarrow> Inl (ValueError ''kg:prohibitedCombination patterns must be a non-empty list''))
    | _ \<Rightarrow> Inl (ValueError ''kg:prohibitedCombination entries must be objects''))"

definition odrl_forbidden_combinations :: "dict \<Rightarrow> forbidden_combination list res" where
  "odrl_forbidden_combinations policy =
     rbind (reject_unknown_fields policy POLICY_FIELDS ''ODRL policy'') (\<lambda>_.
     let raw = as_list (dget policy ''kg:prohibitedCombination'') in
     if raw \<noteq> [] \<and> dget policy ''profile'' \<noteq> JStr KGP_ODRL_PROFILE
       then Inl (ValueError (''kg:prohibitedCombination requires the KineGrant profile '' @ KGP_ODRL_PROFILE))
     else rmapM read_combination (enumerate 0 raw))"

definition odrl_to_sequence_policy :: "dict \<Rightarrow> forbidden_combination list res" where
  "odrl_to_sequence_policy policy = rbind (odrl_forbidden_combinations policy) sequence_policy_init"

section \<open>Writing\<close>

definition odrl_constraint :: "string \<Rightarrow> string \<Rightarrow> json \<Rightarrow> json" where
  "odrl_constraint left operator right =
     JDict [(''leftOperand'', JStr left), (''operator'', JStr operator), (''rightOperand'', right)]"

text \<open>A single constraint counts as a list of one.\<close>

definition constraint_to_odrl :: "string \<times> json \<Rightarrow> json list res" where
  "constraint_to_odrl = (\<lambda>(key, v).
     if key = ''max_force_newtons'' then Inr [odrl_constraint ''maxForceNewtons'' ''eq'' v]
     else if key = ''max_velocity_mps'' then Inr [odrl_constraint ''maxVelocityMps'' ''eq'' v]
     else if key = ''allowed_zones'' then Inr [odrl_constraint ''allowedZones'' ''eq'' v]
     else if key = ''min_approval_tier'' then Inr [odrl_constraint ''minApprovalTier'' ''eq'' v]
     else if key = ''not_before'' then Inr [odrl_constraint ''dateTime'' ''gt'' v]
     else if key = ''not_after'' then Inr [odrl_constraint ''dateTime'' ''lt'' v]
     else if key = ''required_context'' \<and> is_dict v
       then Inr (map (\<lambda>(operand, right). odrl_constraint operand ''eq'' right) (the_dict v))
     else Inl (ValueError (''cannot serialize unknown KineGrant constraint: '' @ key)))"

definition duty_to_odrl :: "json \<Rightarrow> json res" where
  "duty_to_odrl v =
     (if \<not> hashable v then Inl unhashable_exn
      else if v \<notin> JStr ` set KNOWN_OBLIGATIONS then Inl (ValueError ''cannot serialize unknown obligation: '')
      else Inr (JDict [(''action'', v)]))"

definition rule_to_statement :: "policy_rule \<Rightarrow> dict res" where
  "rule_to_statement r =
     rbind (rmapM constraint_to_odrl (pr_constraints r)) (\<lambda>css.
     rbind (rmapM duty_to_odrl (pr_obligations r)) (\<lambda>duties.
       Inr ([(''target'', JStr (pr_target r)), (''assignee'', JStrs (pr_subjects r)), (''action'', JStrs (pr_actions r))]
         @ (if concat css = [] then [] else [(''constraint'', JList (concat css))])
         @ (if pr_obligations r = [] then [] else [(''duty'', JList duties)]))))"

definition pattern_to_odrl :: "string \<times> string \<Rightarrow> json" where
  "pattern_to_odrl = (\<lambda>(a, t). JDict [(''action'', JStr a), (''target'', JStr t)])"

definition combination_to_odrl :: "forbidden_combination \<Rightarrow> json" where
  "combination_to_odrl c =
     JDict ([(''uid'', JStr (fc_id c)), (''patterns'', JList (map pattern_to_odrl (fc_patterns c)))]
       @ (if fc_window c = JNull then [] else [(''windowSeconds'', fc_window c)])
       @ (case fc_trigger c of None \<Rightarrow> [] | Some p \<Rightarrow> [(''trigger'', pattern_to_odrl p)]))"

definition rules_to_odrl ::
  "policy_rule list \<Rightarrow> string \<Rightarrow> string \<Rightarrow> json \<Rightarrow> forbidden_combination list \<Rightarrow> dict res" where
  "rules_to_odrl rules policy_uid assigner profile combinations =
     (if blank policy_uid then Inl (ValueError ''policy_uid must be a non-empty string'')
      else if blank assigner then Inl (ValueError ''assigner must be a non-empty string'')
      else
      rbind (rmapM (\<lambda>r. rbind (rule_to_statement r) (\<lambda>d. Inr (pr_effect r, JDict d))) rules) (\<lambda>sts.
      let permission = map snd (filter (\<lambda>x. fst x = Allow) sts);
          prohibition = map snd (filter (\<lambda>x. fst x \<noteq> Allow) sts)
      in Inr ([(''@context'', JStr ''http://www.w3.org/ns/odrl/2/''), (''@type'', JStr ''Offer''),
               (''uid'', JStr policy_uid), (''profile'', profile), (''assigner'', JStr assigner)]
           @ (if permission = [] then [] else [(''permission'', JList permission)])
           @ (if prohibition = [] then [] else [(''prohibition'', JList prohibition)])
           @ (if combinations = [] then []
              else [(''kg:prohibitedCombination'', JList (map combination_to_odrl combinations))]))))"

section \<open>What is written reads back\<close>

lemma last_segment_plain [simp]: "CHR ''/'' \<notin> set s \<Longrightarrow> last_segment s = s"
proof -
  assume "CHR ''/'' \<notin> set s"
  then have "takeWhile (\<lambda>c. c \<noteq> CHR ''/'') (rev s) = rev s" by (subst takeWhile_eq_all_conv) auto
  then show ?thesis by (simp only: last_segment_def rev_rev_ident)
qed

lemma id_of_JStr [simp]: "id_of (JStr s) dflt = s"
  by (simp add: id_of_def)

text \<open>The constraints that survive: known ones with valid values, and a context whose operands
  are not taken for something else.\<close>

definition context_key_ok :: "string \<Rightarrow> bool" where
  "context_key_ok k \<longleftrightarrow> k \<noteq> [] \<and> CHR ''/'' \<notin> set k \<and> k \<noteq> ''purpose'' \<and> k \<notin> set KGP_OPERANDS"

definition context_ok :: "json \<Rightarrow> bool" where
  "context_ok v \<longleftrightarrow> (case v of
      JDict d \<Rightarrow> d \<noteq> [] \<and> distinct (map fst d) \<and> list_all (\<lambda>(k, v). context_key_ok k \<and> v \<noteq> JNull) d | _ \<Rightarrow> False)"

definition zones_ok :: "json \<Rightarrow> bool" where
  "zones_ok v \<longleftrightarrow> (case v of JList zs \<Rightarrow> zs \<noteq> [] \<and> list_all nonempty_str zs | _ \<Rightarrow> False)"

definition constraint_ok :: "string \<times> json \<Rightarrow> bool" where
  "constraint_ok = (\<lambda>(k, v). v \<noteq> JNull \<and>
     (if k = ''max_force_newtons'' \<or> k = ''max_velocity_mps'' then \<not> bad_number v
      else if k = ''allowed_zones'' then zones_ok v
      else if k = ''min_approval_tier'' then is_int_nb v \<and> 0 \<le> the_int v \<and> the_int v \<le> 2
      else if k = ''required_context'' then context_ok v
      else k = ''not_before'' \<or> k = ''not_after''))"

definition action_ok :: "string \<Rightarrow> bool" where
  "action_ok a \<longleftrightarrow> map_of ACTION_ALIASES a = None \<and> CHR ''/'' \<notin> set a"

definition odrl_rule :: "policy_rule \<Rightarrow> bool" where
  "odrl_rule r \<longleftrightarrow> rule_ok r \<and> list_all action_ok (pr_actions r) \<and> distinct (map fst (pr_constraints r))
     \<and> list_all constraint_ok (pr_constraints r)"

lemma action_of_ok [simp]: "action_ok a \<Longrightarrow> action_of (JStr a) = a"
  by (simp add: action_ok_def action_of_def)

lemma known_action_ok: "a \<in> set KNOWN_OBLIGATIONS \<Longrightarrow> action_ok a"
proof -
  have "list_all action_ok KNOWN_OBLIGATIONS" by code_simp
  then show "a \<in> set KNOWN_OBLIGATIONS \<Longrightarrow> action_ok a" by (simp add: list_all_iff)
qed

lemma read_constraints_append:
  "read_constraints b (xs @ ys) st = rbind (read_constraints b xs st) (read_constraints b ys)"
proof (induction xs arbitrary: st)
  case Nil
  show ?case by (cases "read_constraints b ys st") simp_all
next
  case (Cons x xs)
  have "read_constraints b (xs @ ys) = (\<lambda>st. rbind (read_constraints b xs st) (read_constraints b ys))"
    by (rule ext) (rule Cons.IH)
  then show ?case by (cases x) (simp_all add: rbind_assoc)
qed

lemma read_one:
  "v \<noteq> JNull \<Longrightarrow> CHR ''/'' \<notin> set left \<Longrightarrow> CHR ''/'' \<notin> set op \<Longrightarrow>
    read_constraints b [odrl_constraint left op v] st = apply_constraint b left op v st"
  by (cases "apply_constraint b left op v st")
    (simp_all add: odrl_constraint_def reject_unknown_fields_def CONSTRAINT_FIELDS_def)

lemma read_scalar:
  assumes "constraint_ok (k, v)" "k \<noteq> ''required_context''" "constraint_to_odrl (k, v) = Inr cs"
  shows "read_constraints True cs st = Inr (put_result st k v)"
proof -
  have z: "zones_ok v \<Longrightarrow> as_list v \<noteq> [] \<and> list_all nonempty_str (as_list v) \<and> JList (as_list v) = v" for v
    by (cases v) (simp_all add: zones_ok_def as_list_def)
  have r: "read_constraints True [odrl_constraint left op v] st = apply_constraint True left op v st"
    if "CHR ''/'' \<notin> set left" "CHR ''/'' \<notin> set op" for left op
    using that assms(1) by (intro read_one) (simp_all add: constraint_ok_def)
  show ?thesis
    using assms z [of v]
    by (auto simp: constraint_ok_def constraint_to_odrl_def r apply_constraint_def KGP_OPERANDS_def
        simp del: read_constraints.simps split: if_splits)
qed

lemma read_context:
  assumes "list_all (\<lambda>(k, v). context_key_ok k \<and> v \<noteq> JNull) d" "distinct (map fst d)" "fst ` set (cs_context st) \<inter> fst ` set d = {}"
  shows "read_constraints True (map (\<lambda>(operand, right). odrl_constraint operand ''eq'' right) d) st
    = Inr (st\<lparr>cs_context := cs_context st @ d\<rparr>)"
  using assms
proof (induction d arbitrary: st)
  case (Cons kv d)
  obtain k v where kv: "kv = (k, v)" by (cases kv)
  let ?st = "st\<lparr>cs_context := cs_context st @ [(k, v)]\<rparr>"
  have new: "\<not> dhas (cs_context st) k" using Cons.prems(3) by (auto simp: kv dhas_def map_of_eq_None_iff)
  have k: "context_key_ok k" "v \<noteq> JNull" using Cons.prems(1) by (simp_all add: kv)
  have "read_constraints True [odrl_constraint k ''eq'' v] st = apply_constraint True k ''eq'' v st"
    using k by (intro read_one) (simp_all add: context_key_ok_def)
  also have "\<dots> = Inr ?st"
    using k dset_new [OF new] by (auto simp: context_key_ok_def apply_constraint_def KGP_OPERANDS_def)
  finally have one: "read_constraints True [odrl_constraint k ''eq'' v] st = Inr ?st" .
  have "read_constraints True (map (\<lambda>(operand, right). odrl_constraint operand ''eq'' right) d) ?st
      = Inr (?st\<lparr>cs_context := cs_context ?st @ d\<rparr>)"
    using Cons.prems by (intro Cons.IH) (auto simp: kv)
  with one show ?case
    using read_constraints_append [of True "[odrl_constraint k ''eq'' v]" "map (\<lambda>(operand, right). odrl_constraint operand ''eq'' right) d" st]
    by (simp add: kv)
qed simp

definition scalars :: "dict \<Rightarrow> dict" where
  "scalars cs = filter (\<lambda>(k, _). k \<noteq> ''required_context'') cs"

definition context_of :: "dict \<Rightarrow> dict" where
  "context_of cs = (case map_of cs ''required_context'' of Some (JDict d) \<Rightarrow> d | _ \<Rightarrow> [])"

lemma read_written:
  assumes "list_all constraint_ok cs" "distinct (map fst cs)" "rmapM constraint_to_odrl cs = Inr css"
    and "fst ` set (cs_result st) \<inter> fst ` set cs = {}" "''required_context'' \<in> fst ` set cs \<longrightarrow> cs_context st = []"
  shows "read_constraints True (concat css) st =
    Inr (st\<lparr>cs_result := cs_result st @ scalars cs, cs_context := cs_context st @ context_of cs\<rparr>)"
  using assms
proof (induction cs arbitrary: st css)
  case Nil
  then show ?case by (simp add: scalars_def context_of_def)
next
  case (Cons kv cs)
  obtain k v where kv: "kv = (k, v)" by (cases kv)
  obtain c css' where c: "constraint_to_odrl (k, v) = Inr c" "rmapM constraint_to_odrl cs = Inr css'" "css = c # css'"
    using Cons.prems(3) by (auto simp: kv res_simps)
  have ok: "constraint_ok (k, v)" "list_all constraint_ok cs" "distinct (map fst cs)" "k \<notin> fst ` set cs"
    using Cons.prems(1,2) by (simp_all add: kv)
  show ?case
  proof (cases "k = ''required_context''")
    case False
    let ?st = "st\<lparr>cs_result := cs_result st @ [(k, v)]\<rparr>"
    have "\<not> dhas (cs_result st) k" using Cons.prems(4) by (auto simp: kv dhas_def map_of_eq_None_iff)
    then have 1: "read_constraints True c st = Inr ?st"
      using read_scalar [OF ok(1) False c(1)] by (simp add: put_result_def dset_new)
    have "read_constraints True (concat css') ?st =
        Inr (?st\<lparr>cs_result := cs_result ?st @ scalars cs, cs_context := cs_context ?st @ context_of cs\<rparr>)"
      using Cons.prems(4,5) ok by (intro Cons.IH [OF ok(2,3) c(2)]) (auto simp: kv)
    with 1 c(3) False show ?thesis
      by (simp add: read_constraints_append kv scalars_def context_of_def)
  next
    case True
    obtain d where d: "v = JDict d" "d \<noteq> []" "distinct (map fst d)" "list_all (\<lambda>(k, v). context_key_ok k \<and> v \<noteq> JNull) d"
      using ok(1) True by (auto simp: constraint_ok_def context_ok_def split: json.splits)
    have c': "c = map (\<lambda>(operand, right). odrl_constraint operand ''eq'' right) d" using c(1) by (simp add: constraint_to_odrl_def True d(1))
    have e: "cs_context st = []" using Cons.prems(5) by (simp add: kv True)
    have none: "map_of cs ''required_context'' = None" using ok(4) True by (simp add: map_of_eq_None_iff)
    let ?st = "st\<lparr>cs_context := d\<rparr>"
    have 1: "read_constraints True c st = Inr ?st" using read_context [OF d(4,3), of st] e by (simp add: c')
    have "read_constraints True (concat css') ?st =
        Inr (?st\<lparr>cs_result := cs_result ?st @ scalars cs, cs_context := cs_context ?st @ context_of cs\<rparr>)"
      using Cons.prems(4) ok True by (intro Cons.IH [OF ok(2,3) c(2)]) (auto simp: kv)
    with 1 c(3) show ?thesis
      by (simp add: read_constraints_append kv True d(1) scalars_def context_of_def e none)
  qed
qed

lemma constraints_read_back:
  assumes "list_all constraint_ok cs" "distinct (map fst cs)" "rmapM constraint_to_odrl cs = Inr css"
  shows "\<exists>cs'. odrl_constraints (concat css) True = Inr (cs', [''*'']) \<and> distinct (map fst cs') \<and> map_of cs' = map_of cs"
proof -
  let ?st = "\<lparr>cs_context = [], cs_purposes = [], cs_result = []\<rparr>"
  have r: "read_constraints True (concat css) ?st = Inr (?st\<lparr>cs_result := scalars cs, cs_context := context_of cs\<rparr>)"
    using read_written [OF assms, of ?st] by simp
  have d: "distinct (map fst (scalars cs))" using assms(2) by (simp add: scalars_def distinct_map_filter)
  have nr: "\<not> dhas (scalars cs) ''required_context''" by (auto simp: scalars_def dhas_def map_of_eq_None_iff)
  have look: "map_of (scalars cs) k = (if k = ''required_context'' then None else map_of cs k)" for k
    by (induction cs) (auto simp: scalars_def)
  show ?thesis
  proof (cases "map_of cs ''required_context''")
    case None
    then have "context_of cs = []" by (simp add: context_of_def)
    with r d look None show ?thesis by (auto simp: odrl_constraints_def fun_eq_iff)
  next
    case (Some v)
    have "constraint_ok (''required_context'', v)" using assms(1) map_of_SomeD [OF Some] by (auto simp: list_all_iff)
    then obtain c where c: "v = JDict c" "c \<noteq> []" by (auto simp: constraint_ok_def context_ok_def split: json.splits)
    then have "context_of cs = c" by (simp add: context_of_def Some)
    moreover have "distinct (map fst (scalars cs @ [(''required_context'', JDict c)]))"
      using d nr by (auto simp: dhas_def map_of_eq_None_iff)
    ultimately show ?thesis using r look Some c dset_new [OF nr]
      by (auto simp: odrl_constraints_def fun_eq_iff map_add_def split: option.splits)
  qed
qed

text \<open>The loaded rule: everything but identity, priority, provenance and purposes.\<close>

definition read_as :: "string \<Rightarrow> policy_rule \<Rightarrow> policy_rule \<Rightarrow> bool" where
  "read_as assigner r r' \<longleftrightarrow> pr_effect r' = pr_effect r \<and> pr_target r' = pr_target r \<and> pr_actions r' = pr_actions r
     \<and> pr_subjects r' = pr_subjects r \<and> pr_obligations r' = pr_obligations r
     \<and> map_of (pr_constraints r') = map_of (pr_constraints r) \<and> pr_issuer r' = assigner \<and> pr_purposes r' = [''*'']"

lemma duties_read_back:
  "rmapM duty_to_odrl obs = Inr ds \<Longrightarrow> \<exists>os. rmapM read_duty ds = Inr os \<and> obs = map JStr os"
proof (induction obs arbitrary: ds)
  case (Cons v obs)
  then obtain d ds' where d: "duty_to_odrl v = Inr d" "rmapM duty_to_odrl obs = Inr ds'" "ds = d # ds'"
    by (auto simp: res_simps)
  then obtain a where a: "v = JStr a" "a \<in> set KNOWN_OBLIGATIONS" "d = JDict [(''action'', v)]"
    by (auto simp: duty_to_odrl_def split: if_splits)
  from Cons.IH [OF d(2)] obtain os where os: "rmapM read_duty ds' = Inr os" "obs = map JStr os" by blast
  have "read_duty d = Inr a"
    using a action_of_ok [OF known_action_ok [OF a(2)]] by (simp add: read_duty_def reject_unknown_fields_def)
  with d(3) a(1) os show ?case by (intro exI [of _ "a # os"]) simp
qed simp

lemma as_list_JStrs [simp]: "as_list (JStrs ss) = map JStr ss" "JStrs ss \<noteq> JNull"
  by (simp_all add: as_list_def JStrs_def)

lemma required_ids:
  "list_all (\<lambda>s. \<not> blank s) ss \<Longrightarrow> rmapM (\<lambda>v. required_id v field) (map JStr ss) = Inr ss"
  by (induction ss) (auto simp: required_id_def blank_def)

lemma actions_of_ok: "list_all action_ok ss \<Longrightarrow> map action_of (map JStr ss) = ss"
  by (induction ss) simp_all

lemma statement_read_back:
  assumes "odrl_rule r" "rule_to_statement r = Inr d" "\<not> blank uid" "\<not> blank assigner"
  shows "\<exists>r'. read_statement True profile uid assigner (pr_effect r) property (i, JDict d) = Inr r' \<and> read_as assigner r r'"
proof -
  have ok: "rule_ok r" "list_all action_ok (pr_actions r)" "distinct (map fst (pr_constraints r))"
    "list_all constraint_ok (pr_constraints r)" using assms(1) by (simp_all add: odrl_rule_def)
  obtain css ds where c: "rmapM constraint_to_odrl (pr_constraints r) = Inr css" "rmapM duty_to_odrl (pr_obligations r) = Inr ds"
    and d: "d = [(''target'', JStr (pr_target r)), (''assignee'', JStrs (pr_subjects r)), (''action'', JStrs (pr_actions r))]
         @ (if concat css = [] then [] else [(''constraint'', JList (concat css))])
         @ (if pr_obligations r = [] then [] else [(''duty'', JList ds)])"
    using assms(2) by (auto simp: rule_to_statement_def res_simps)
  have lists: "as_list (dget d ''constraint'') = concat css" "as_list (dget d ''duty'') = ds"
    using c(2) by (auto simp: d as_list_def)
  have mem: "dget d ''target'' = JStr (pr_target r)" "dget d ''assignee'' = JStrs (pr_subjects r)"
    "dget d ''action'' = JStrs (pr_actions r)" "dget d ''assigner'' = JNull"
    by (simp_all add: d)
  have known: "reject_unknown_fields d STATEMENT_FIELDS label = Inr ()" for label
    by (simp add: d reject_unknown_fields_def STATEMENT_FIELDS_def)
  obtain cs' where cs: "odrl_constraints (concat css) True = Inr (cs', [''*''])" "map_of cs' = map_of (pr_constraints r)"
    using constraints_read_back [OF ok(4,3) c(1)] by blast
  obtain os where os: "rmapM read_duty ds = Inr os" "pr_obligations r = map JStr os" using duties_read_back [OF c(2)] by blast
  have subj: "rmapM (\<lambda>v. required_id v ''assignee'') (map JStr (pr_subjects r)) = Inr (pr_subjects r)"
    using ok(1) by (intro required_ids) (simp add: rule_ok_def list_all_iff)
  have acts: "map action_of (map JStr (pr_actions r)) = pr_actions r" using ok(2) by (rule actions_of_ok)
  have init: "policy_rule_init (JStr (uid @ ''#'' @ property @ ''-'' @ nat_str i)) (JStr assigner) (JStr (pr_target r))
      (JStr (effect_name (pr_effect r))) (map JStr (pr_actions r)) (map JStr (pr_subjects r)) (map JStr [''*''])
      (JDict cs') (map JStr os) (JInt 0) (JDict src)
    = Inr \<lparr>pr_policy_id = uid @ ''#'' @ property @ ''-'' @ nat_str i, pr_issuer = assigner, pr_target = pr_target r,
        pr_effect = pr_effect r, pr_actions = pr_actions r, pr_subjects = pr_subjects r, pr_purposes = [''*''],
        pr_constraints = cs', pr_obligations = map JStr os, pr_priority = JInt 0, pr_source = src\<rparr>" for src
  proof -
    have e: "parse_effect (JStr (effect_name (pr_effect r))) = Some (pr_effect r)"
      by (cases "pr_effect r") (simp_all add: parse_effect_def)
    have p: "nonblank_str (JStr (uid @ ''#'' @ property @ ''-'' @ nat_str i))" "nonblank_str (JStr assigner)"
      using assms(3,4) by (auto simp: nonblank_str_iff blank_def)
    have n: "nonblank_strs (map JStr ss)" if "ss \<noteq> []" "list_all (\<lambda>s. \<not> blank s) ss" for ss
      using that by (auto simp: nonblank_strs_def list_all_iff nonblank_str_iff)
    have star: "nonblank_strs [JStr ''*'']" by (simp add: nonblank_strs_def nonblank_str_iff py_isspace_def)
    have "nonblank_strs (map JStr (pr_actions r))" "nonblank_strs (map JStr (pr_subjects r))" "pr_actions r \<noteq> []"
      "nonblank_str (JStr (pr_target r))"
      using ok(1) by (auto simp: rule_ok_def nonblank_str_iff intro!: n)
    with e p star show ?thesis
      by (simp add: policy_rule_init_def require_def comp_def)
  qed
  have "pr_actions r \<noteq> []" "pr_target r \<noteq> []" using ok(1) by (auto simp: rule_ok_def)
  with init known mem lists cs os subj acts show ?thesis
    by (auto simp: read_statement_def required_id_def Let_def id_of_def [of JNull] read_as_def)
qed

lemma statements_read_back:
  assumes "list_all2 (\<lambda>r s. \<exists>d. s = JDict d \<and> rule_to_statement r = Inr d) rs ss"
    and "list_all odrl_rule rs" "list_all (\<lambda>r. pr_effect r = e) rs" "\<not> blank uid" "\<not> blank assigner"
  shows "\<exists>rs'. rmapM (read_statement True profile uid assigner e property) (enumerate n ss) = Inr rs'
    \<and> list_all2 (read_as assigner) rs rs'"
  using assms(1-3)
proof (induction arbitrary: n rule: list_all2_induct)
  case (Cons r rs s ss)
  from Cons.hyps(1) obtain d where d: "s = JDict d" "rule_to_statement r = Inr d" by blast
  have r: "odrl_rule r" "pr_effect r = e" and rs: "list_all odrl_rule rs" "list_all (\<lambda>r. pr_effect r = e) rs"
    using Cons.prems by simp_all
  obtain r' where r': "read_statement True profile uid assigner e property (n, s) = Inr r'" "read_as assigner r r'"
    using statement_read_back [OF r(1) d(2) assms(4,5), of profile property n] by (auto simp: r(2) d(1))
  obtain rs' where "rmapM (read_statement True profile uid assigner e property) (enumerate (Suc n) ss) = Inr rs'"
    "list_all2 (read_as assigner) rs rs'"
    using Cons.IH [OF rs] by blast
  with r' show ?case by simp
qed simp

lemma statements_written:
  assumes "rmapM (\<lambda>r. rbind (rule_to_statement r) (\<lambda>d. Inr (pr_effect r, JDict d))) rules = Inr sts"
  shows "list_all2 (\<lambda>r s. \<exists>d. s = JDict d \<and> rule_to_statement r = Inr d)
      (filter (\<lambda>r. pr_effect r = Allow) rules) (map snd (filter (\<lambda>x. fst x = Allow) sts))"
    and "list_all2 (\<lambda>r s. \<exists>d. s = JDict d \<and> rule_to_statement r = Inr d)
      (filter (\<lambda>r. pr_effect r \<noteq> Allow) rules) (map snd (filter (\<lambda>x. fst x \<noteq> Allow) sts))"
  using assms
proof (induction rules arbitrary: sts)
  case (Cons r rules)
  {
    case 1
    then show ?case using Cons.IH(1) by (auto simp: res_simps)
  next
    case 2
    then show ?case using Cons.IH(2) by (auto simp: res_simps)
  }
qed simp_all

text \<open>A policy written to ODRL under the KineGrant profile always loads, allow rules first, and every
  rule comes back with its meaning, purposes excepted.\<close>

lemma odrl_round:
  assumes "rules_to_odrl rules uid assigner (JStr KGP_ODRL_PROFILE) combos = Inr doc" "list_all odrl_rule rules"
  shows "\<exists>rs'. odrl_to_rules doc = Inr rs' \<and> list_all2 (read_as assigner)
    (filter (\<lambda>r. pr_effect r = Allow) rules @ filter (\<lambda>r. pr_effect r \<noteq> Allow) rules) rs'"
proof -
  let ?P = "\<lambda>r. pr_effect r = Allow"
  obtain sts where b: "\<not> blank uid" "\<not> blank assigner"
    and sts: "rmapM (\<lambda>r. rbind (rule_to_statement r) (\<lambda>d. Inr (pr_effect r, JDict d))) rules = Inr sts"
    and doc: "doc = [(''@context'', JStr ''http://www.w3.org/ns/odrl/2/''), (''@type'', JStr ''Offer''),
               (''uid'', JStr uid), (''profile'', JStr KGP_ODRL_PROFILE), (''assigner'', JStr assigner)]
           @ (if map snd (filter (\<lambda>x. fst x = Allow) sts) = [] then [] else [(''permission'', JList (map snd (filter (\<lambda>x. fst x = Allow) sts)))])
           @ (if map snd (filter (\<lambda>x. fst x \<noteq> Allow) sts) = [] then [] else [(''prohibition'', JList (map snd (filter (\<lambda>x. fst x \<noteq> Allow) sts)))])
           @ (if combos = [] then [] else [(''kg:prohibitedCombination'', JList (map combination_to_odrl combos))])"
    using assms(1) unfolding rules_to_odrl_def Let_def by (elim res_elims) auto
  have lists: "as_list (dget doc ''permission'') = map snd (filter (\<lambda>x. fst x = Allow) sts)"
    "as_list (dget doc ''prohibition'') = map snd (filter (\<lambda>x. fst x \<noteq> Allow) sts)"
    by (simp_all add: doc as_list_def)
  have known: "reject_unknown_fields doc POLICY_FIELDS ''ODRL policy'' = Inr ()"
    by (simp add: doc reject_unknown_fields_def POLICY_FIELDS_def)
  have ids: "dget doc ''uid'' = JStr uid" "dget doc ''assigner'' = JStr assigner" "dget doc ''profile'' = JStr KGP_ODRL_PROFILE"
    by (simp_all add: doc)
  have u: "py_or (JStr uid) (dget doc ''@id'') = JStr uid" using b(1) by (auto simp: py_or_def blank_def)
  have eff: "list_all (\<lambda>r. pr_effect r = Deny) (filter (\<lambda>r. \<not> ?P r) rules)" "list_all ?P (filter ?P rules)"
    using effect.exhaust by (auto simp: list_all_iff)
  have ok: "list_all odrl_rule (filter Q rules)" for Q using assms(2) by (simp add: list_all_iff)
  obtain as where "rmapM (read_statement True (JStr KGP_ODRL_PROFILE) uid assigner Allow ''permission'')
      (enumerate 0 (map snd (filter (\<lambda>x. fst x = Allow) sts))) = Inr as" "list_all2 (read_as assigner) (filter ?P rules) as"
    using statements_read_back [OF statements_written(1) [OF sts] ok eff(2) b] by blast
  moreover obtain ds where "rmapM (read_statement True (JStr KGP_ODRL_PROFILE) uid assigner Deny ''prohibition'')
      (enumerate 0 (map snd (filter (\<lambda>x. fst x \<noteq> Allow) sts))) = Inr ds" "list_all2 (read_as assigner) (filter (\<lambda>r. \<not> ?P r) rules) ds"
    using statements_read_back [OF statements_written(2) [OF sts] ok eff(1) b] by blast
  ultimately show ?thesis
    by (intro exI [of _ "as @ ds"]) (simp add: odrl_to_rules_def known lists ids u Let_def list_all2_appendI)
qed

text \<open>An action without an identifier reads as the wildcard.\<close>

lemma malformed_action: "action_of (JDict []) = ''*''" "action_of (JInt n) = ''*''"
  by (simp_all add: action_of_def id_of_def ACTION_ALIASES_def last_segment_def py_or_def)

end
