(* ===== verification/Server.thy ===== *)
theory Server
  imports Gate Receipt Odrl
begin

text \<open>
  \<open>server.py\<close>: the gate service behind its HTTP routes. The service owns a policy engine it
  reloads when the policy file changes, an issuer, a gate with its store, and the receipt log. The
  environment of one call holds what the call reads from outside: the file's signature and content,
  the clock readings in the order they are made, random values, and the failures of the store and of
  writing the log. A policy document is a JSON object; a restored log is a list of objects.
\<close>

section \<open>The service\<close>

definition DEFAULT_POLICY :: dict where
  "DEFAULT_POLICY =
     [(''@context'', JStr ''http://www.w3.org/ns/odrl.jsonld''), (''uid'', JStr ''urn:kinegrant:policy:delivery-door''),
      (''assigner'', JStr ''urn:person:space-owner''),
      (''permission'', JList [JDict [(''target'', JStr ''urn:space:demo:door-7''), (''assignee'', JStr ''urn:robot:delivery-1''),
         (''action'', JStr ''open''),
         (''constraint'', JList
            [JDict [(''leftOperand'', JStr ''purpose''), (''operator'', JStr ''eq''), (''rightOperand'', JStr ''delivery'')],
             JDict [(''leftOperand'', JStr ''risk_tier''), (''operator'', JStr ''eq''), (''rightOperand'', JInt 1)]]),
         (''duty'', JDict [(''action'', JStr ''emitActionReceipt'')])]]),
      (''prohibition'', JList [JDict [(''target'', JStr ''urn:space:demo:door-7''), (''assignee'', JStr ''*''),
         (''action'', JList [JStr ''record'', JStr ''train_on_data''])]])]"

datatype policy_content = Unreadable exn | NotJson | Document dict

record 'e service_env =
  se_stat :: "(int \<times> int) option"
  se_policy :: policy_content
  se_issued :: datetime
  se_token :: string
  se_evaluated :: datetime
  se_issue :: datetime
  se_nonce :: string
  se_gate :: datetime
  se_store :: 'e
  se_started :: datetime
  se_finished :: datetime
  se_write :: "exn option"

record 's gate_service =
  gsv_path :: bool
  gsv_trusted :: "string list"
  gsv_issuer :: key_pair
  gsv_executor :: key_pair
  gsv_ttl :: int
  gsv_stat :: "(int \<times> int) option"
  gsv_engine :: policy_engine
  gsv_store :: 's
  gsv_log :: receipt_log
  gsv_persists :: bool
  gsv_file :: "dict list option"

definition load_engine :: "string list \<Rightarrow> dict \<Rightarrow> policy_engine res" where
  "load_engine trusted document =
     rbind (odrl_to_rules document) (\<lambda>rules. policy_engine_init rules trusted 300 5 False)"

definition set_policy :: "'s gate_service \<Rightarrow> dict \<Rightarrow> 's gate_service res" where
  "set_policy sv document = rbind (load_engine (gsv_trusted sv) document) (\<lambda>e. Inr (sv\<lparr>gsv_engine := e\<rparr>))"

text \<open>\<open>stored\<close> is the list the receipt file holds, when there is a file and it holds one.\<close>

definition service_init ::
  "dict option \<Rightarrow> bool \<Rightarrow> string list \<Rightarrow> key_pair \<Rightarrow> key_pair \<Rightarrow> int \<Rightarrow> 's \<Rightarrow> bool \<Rightarrow> dict list option \<Rightarrow> 's gate_service res" where
  "service_init policy has_path trusted issuer executor ttl store persists stored =
     rbind (load_engine trusted (case policy of None \<Rightarrow> DEFAULT_POLICY | Some d \<Rightarrow> if d = [] then DEFAULT_POLICY else d)) (\<lambda>e.
       Inr \<lparr>gsv_path = has_path, gsv_trusted = trusted, gsv_issuer = issuer, gsv_executor = executor, gsv_ttl = ttl,
            gsv_stat = None, gsv_engine = e, gsv_store = store,
            gsv_log = (case (if persists then stored else None) of
                None \<Rightarrow> receipt_log_init executor | Some es \<Rightarrow> receipt_restore (receipt_log_init executor) es),
            gsv_persists = persists, gsv_file = (if persists then stored else None)\<rparr>)"

definition current_engine :: "'s gate_service \<Rightarrow> 'e service_env \<Rightarrow> 's gate_service \<times> policy_engine res" where
  "current_engine sv env =
     (if \<not> gsv_path sv \<or> se_stat env = None \<or> se_stat env = gsv_stat sv then (sv, Inr (gsv_engine sv))
      else case se_policy env of
        Unreadable x \<Rightarrow> (sv, Inl x)
      | NotJson \<Rightarrow> (sv, Inl (ValueError ''policy.json ''))
      | Document d \<Rightarrow> (case set_policy sv d of
            Inl x \<Rightarrow> (sv, Inl x)
          | Inr sv' \<Rightarrow> (sv'\<lparr>gsv_stat := se_stat env\<rparr>, Inr (gsv_engine sv'))))"

definition persist_receipts :: "'s gate_service \<Rightarrow> 'e service_env \<Rightarrow> 's gate_service \<times> unit res" where
  "persist_receipts sv env =
     (if \<not> gsv_persists sv then (sv, Inr ())
      else case se_write env of
        Some x \<Rightarrow> (sv, Inl x) | None \<Rightarrow> (sv\<lparr>gsv_file := Some (rl_log (gsv_log sv))\<rparr>, Inr ()))"

section \<open>Requests\<close>

definition missing_field :: "string \<Rightarrow> dict \<Rightarrow> json res" where
  "missing_field k d = (case map_of d k of
      None \<Rightarrow> Inl (ValueError (''missing request field: '' @ k)) | Some v \<Rightarrow> Inr v)"

definition request_issued :: "dict \<Rightarrow> datetime \<Rightarrow> datetime res" where
  "request_issued d clock =
     (if truthy (dget d ''issued_at'')
      then (case parse_time (dget d ''issued_at'') of
          Inl x \<Rightarrow> if is_KeyError x \<or> is_TypeError x \<or> is_ValueError x
              then Inl (ValueError ''request.issued_at is invalid'') else Inl x
        | Inr t \<Rightarrow> Inr t)
      else Inr clock)"

definition request_from_mapping :: "json \<Rightarrow> 'e service_env \<Rightarrow> action_request res" where
  "request_from_mapping value env = (case value of
      JDict d \<Rightarrow>
        rbind (request_issued d (se_issued env)) (\<lambda>issued_at.
        rbind (missing_field ''agent'' d) (\<lambda>agent.
        rbind (missing_field ''target'' d) (\<lambda>target.
        rbind (missing_field ''action'' d) (\<lambda>action.
        rbind (missing_field ''purpose'' d) (\<lambda>purpose.
          action_request_init
            (if truthy (dget d ''request_id'') then dget d ''request_id'' else JStr (''req-'' @ se_token env))
            agent target action purpose issued_at (dget_or d ''context'' (JDict [])))))))
    | _ \<Rightarrow> Inl (AttributeError ''get''))"

section \<open>Operations\<close>

definition service_gate :: "'s gate_service \<Rightarrow> gate_config" where
  "service_gate sv = \<lparr>gc_trusted = [kid (gsv_issuer sv)], gc_revocations = None\<rparr>"

text \<open>Request, engine, decision: what \<open>authorize\<close> and \<open>run\<close> begin with.\<close>

definition service_decide ::
  "'s gate_service \<Rightarrow> 'e service_env \<Rightarrow> json \<Rightarrow> 's gate_service \<times> (action_request \<times> decision) res" where
  "service_decide sv env value = (case request_from_mapping value env of
      Inl x \<Rightarrow> (sv, Inl x)
    | Inr q \<Rightarrow> (case current_engine sv env of
          (sv', Inl x) \<Rightarrow> (sv', Inl x)
        | (sv', Inr e) \<Rightarrow> (sv', rbind (evaluate e q (se_evaluated env)) (\<lambda>d. Inr (q, d)))))"

definition service_issue :: "'s gate_service \<Rightarrow> 'e service_env \<Rightarrow> action_request \<Rightarrow> decision \<Rightarrow> dict res" where
  "service_issue sv env q d = issue (gsv_issuer sv) q d (gsv_ttl sv) (se_issue env) (se_nonce env)"

definition service_authorize :: "'s gate_service \<Rightarrow> 'e service_env \<Rightarrow> json \<Rightarrow> 's gate_service \<times> dict res" where
  "service_authorize sv env value = (case service_decide sv env value of
      (sv', r) \<Rightarrow> (sv', rbind r (\<lambda>(q, d).
        rbind (request_to_dict q) (\<lambda>qd.
        rbind (if dc_allowed d then rbind (service_issue sv' env q d) (\<lambda>c. Inr (JDict c)) else Inr JNull) (\<lambda>cap.
          Inr [(''decision'', JDict (decision_to_dict d)), (''request'', JDict qd), (''capability'', cap)])))))"

text \<open>The capability must be an object, and the request must be one.\<close>

definition service_inputs :: "'e service_env \<Rightarrow> json \<Rightarrow> json \<Rightarrow> (dict \<times> action_request) res" where
  "service_inputs env value capability = (case capability of
      JDict c \<Rightarrow> rbind (request_from_mapping value env) (\<lambda>q. Inr (c, q))
    | _ \<Rightarrow> Inl (ValueError ''capability must be a JSON object''))"

type_synonym ('s, 'e) consumer = "'s \<Rightarrow> 'e \<Rightarrow> string \<Rightarrow> datetime \<Rightarrow> 's \<times> bool res"

definition service_verify ::
  "verifier \<Rightarrow> ('s, 'e) consumer \<Rightarrow> 's gate_service \<Rightarrow> 'e service_env \<Rightarrow> json \<Rightarrow> json \<Rightarrow> 's gate_service \<times> verified_capability res" where
  "service_verify V consume sv env value capability = (case service_inputs env value capability of
      Inl x \<Rightarrow> (sv, Inl x)
    | Inr (c, q) \<Rightarrow> (case authorize V consume (service_gate sv) (gsv_store sv) (se_store env) c q (se_gate env) None of
          (s', r) \<Rightarrow> (sv\<lparr>gsv_store := s'\<rparr>, r)))"

definition verify_reply :: "verified_capability \<Rightarrow> dict" where
  "verify_reply vc = [(''allowed'', JBool True), (''claims'', JDict (vc_claims vc))]"

text \<open>\<open>result not in _RESULT_VALUES\<close>\<close>

definition result_text :: "json \<Rightarrow> exn \<Rightarrow> string res" where
  "result_text v bad = rbind (in_str_set v [''succeeded'', ''failed'', ''aborted'']) (\<lambda>ok.
     if ok then Inr (the_str v) else Inl bad)"

definition append_args :: "'e service_env \<Rightarrow> string \<Rightarrow> json \<Rightarrow> receipt_args" where
  "append_args env result evidence =
     \<lparr>ra_result = result, ra_evidence = evidence, ra_started = se_started env, ra_finished = se_finished env,
      ra_request = None, ra_obligations = JNull, ra_failure = JNull\<rparr>"

text \<open>Append under the lock, then write the file.\<close>

definition service_append ::
  "'s gate_service \<Rightarrow> 'e service_env \<Rightarrow> verified_capability \<Rightarrow> string \<Rightarrow> json \<Rightarrow> 's gate_service \<times> dict res" where
  "service_append sv env vc result evidence = (case receipt_append (gsv_log sv) vc (append_args env result evidence) of
      Inl x \<Rightarrow> (sv, Inl x)
    | Inr (l, receipt) \<Rightarrow> (case persist_receipts (sv\<lparr>gsv_log := l\<rparr>) env of
          (sv', r) \<Rightarrow> (sv', rbind r (\<lambda>_. Inr receipt))))"

definition chain_reply :: "verifier \<Rightarrow> 's gate_service \<Rightarrow> bool res" where
  "chain_reply V sv = verify_receipt_chain V (rl_log (gsv_log sv)) (Some [kid (gsv_executor sv)]) None"

definition service_receipt ::
  "verifier \<Rightarrow> 's gate_service \<Rightarrow> 'e service_env \<Rightarrow> json \<Rightarrow> json \<Rightarrow> json \<Rightarrow> json \<Rightarrow> 's gate_service \<times> dict res" where
  "service_receipt V sv env value capability result evidence =
     (if \<not> is_dict capability then (sv, Inl (ValueError ''capability must be a JSON object''))
      else case result_text result (ValueError ''result must be one of succeeded, failed, aborted'') of
        Inl x \<Rightarrow> (sv, Inl x)
      | Inr res \<Rightarrow> (case service_inputs env value capability of
          Inl x \<Rightarrow> (sv, Inl x)
        | Inr (c, q) \<Rightarrow> (case snd (authorize V memory_consume (service_gate sv) [] (\<lambda>_. se_gate env) c q (se_gate env) None) of
            Inl x \<Rightarrow> (sv, Inl x)
          | Inr vc \<Rightarrow> (case service_append sv env vc res evidence of
              (sv', r) \<Rightarrow> (sv', rbind r (\<lambda>receipt. rbind (chain_reply V sv') (\<lambda>valid.
                Inr [(''receipt'', JDict receipt), (''receipt_chain_valid'', JBool valid)])))))))"

text \<open>The reply of \<open>run\<close>, its members absent while the action is denied.\<close>

definition run_reply :: "dict \<Rightarrow> decision \<Rightarrow> json \<Rightarrow> json \<Rightarrow> json \<Rightarrow> json \<Rightarrow> dict" where
  "run_reply qd d capability claims receipt valid =
     [(''request'', JDict qd), (''decision'', JDict (decision_to_dict d)), (''capability'', capability),
      (''claims'', claims), (''receipt'', receipt), (''receipt_chain_valid'', valid)]"

text \<open>The last component is what the gate accepted, if it did.\<close>

definition service_run ::
  "verifier \<Rightarrow> ('s, 'e) consumer \<Rightarrow> 's gate_service \<Rightarrow> 'e service_env \<Rightarrow> dict
    \<Rightarrow> 's gate_service \<times> dict res \<times> verified_capability list" where
  "service_run V consume sv env value = (case service_decide sv env (JDict value) of
      (sv1, Inl x) \<Rightarrow> (sv1, Inl x, [])
    | (sv1, Inr (q, d)) \<Rightarrow> (case request_to_dict q of
        Inl x \<Rightarrow> (sv1, Inl x, [])
      | Inr qd \<Rightarrow>
          if \<not> dc_allowed d then (sv1, Inr (run_reply qd d JNull JNull JNull JNull), [])
          else (case service_issue sv1 env q d of
            Inl x \<Rightarrow> (sv1, Inl x, [])
          | Inr c \<Rightarrow> (case authorize V consume (service_gate sv1) (gsv_store sv1) (se_store env) c q (se_gate env) None of
              (s', Inl x) \<Rightarrow> (sv1\<lparr>gsv_store := s'\<rparr>, Inl x, [])
            | (s', Inr vc) \<Rightarrow>
                let sv2 = sv1\<lparr>gsv_store := s'\<rparr>;
                    wanted = (if truthy (dget value ''result'') then dget value ''result'' else JStr ''succeeded'')
                in (case result_text wanted (ValueError ''invalid action result'') of
                  Inl x \<Rightarrow> (sv2, Inl x, [vc])
                | Inr res \<Rightarrow> (case service_append sv2 env vc res (dget value ''evidence_hash'') of
                    (sv3, r) \<Rightarrow> (sv3, rbind r (\<lambda>receipt. rbind (chain_reply V sv3) (\<lambda>valid.
                      Inr (run_reply qd d (JDict c) (JDict (vc_claims vc)) (JDict receipt) (JBool valid)))), [vc])))))))"

definition endpoints :: json where
  "endpoints = JDict [(''authorize'', JStr ''POST /authorize''), (''verify'', JStr ''POST /verify''),
     (''receipt'', JStr ''POST /receipt''), (''receipts'', JStr ''GET /receipts''), (''run'', JStr ''POST /run'')]"

text \<open>\<open>version\<close> is the version of the package.\<close>

definition service_health :: "string \<Rightarrow> 's gate_service \<Rightarrow> 'e service_env \<Rightarrow> 's gate_service \<times> dict res" where
  "service_health version sv env = (case current_engine sv env of
      (sv', r) \<Rightarrow> (sv', rbind r (\<lambda>e. rbind (policy_digest e) (\<lambda>pd.
        Inr [(''status'', JStr ''ok''), (''service'', JStr ''kinegrant-gate''), (''version'', JStr version),
             (''policy_digest'', JStr pd), (''issuer_kid'', JStr (kid (gsv_issuer sv'))),
             (''executor_kid'', JStr (kid (gsv_executor sv'))),
             (''receipt_count'', JInt (int (length (rl_log (gsv_log sv'))))), (''endpoints'', endpoints)]))))"

definition list_receipts :: "verifier \<Rightarrow> 's gate_service \<Rightarrow> nat \<Rightarrow> dict res" where
  "list_receipts V sv limit = rbind (chain_reply V sv) (\<lambda>valid.
     Inr [(''count'', JInt (int (length (rl_log (gsv_log sv))))), (''chain_valid'', JBool valid),
          (''receipts'', JList (map JDict (take limit (rev (rl_log (gsv_log sv))))))])"

section \<open>Routes\<close>

text \<open>A request: the method, the path and the values of \<open>limit\<close> its URL parses to, the header
  \<open>Content-Length\<close>, and the value the body decodes to.\<close>

record http_request =
  hq_command :: string
  hq_path :: string
  hq_limit :: "string list option"
  hq_length :: string
  hq_body :: "json option"

definition read_json :: "http_request \<Rightarrow> dict res" where
  "read_json h =
     rbind (if hq_length h = [] then Inr 0 else py_int (JStr (hq_length h))) (\<lambda>n.
     if n \<le> 0 \<or> 2000000 < n then Inl (ValueError ''empty or oversized request body'')
     else case hq_body h of
       None \<Rightarrow> Inl (ValueError ''request body must be valid JSON'')
     | Some (JDict d) \<Rightarrow> Inr d
     | Some _ \<Rightarrow> Inl (ValueError ''request body must be a JSON object''))"

definition limit_of :: "http_request \<Rightarrow> nat" where
  "limit_of h = (case hq_limit h of
      Some (s # _) \<Rightarrow> (case py_int (JStr s) of Inr n \<Rightarrow> nat (max 1 (min 1000 n)) | Inl _ \<Rightarrow> 100)
    | _ \<Rightarrow> 100)"

definition ok_reply :: "dict res \<Rightarrow> (int \<times> json) res" where
  "ok_reply r = rbind r (\<lambda>d. Inr (200, JDict d))"

text \<open>Two or more members of a body, looked up before the call.\<close>

definition verify_inputs :: "http_request \<Rightarrow> (json \<times> json) res" where
  "verify_inputs h = rbind (read_json h) (\<lambda>body.
     rbind (dindex body ''request'') (\<lambda>q. rbind (dindex body ''capability'') (\<lambda>c. Inr (q, c))))"

definition receipt_inputs :: "http_request \<Rightarrow> (json \<times> json \<times> json \<times> json) res" where
  "receipt_inputs h = rbind (read_json h) (\<lambda>body.
     rbind (dindex body ''request'') (\<lambda>q. rbind (dindex body ''capability'') (\<lambda>c.
     rbind (dindex body ''result'') (\<lambda>r. Inr (q, c, r, dget body ''evidence_hash'')))))"

definition http_route ::
  "verifier \<Rightarrow> ('s, 'e) consumer \<Rightarrow> string \<Rightarrow> 's gate_service \<Rightarrow> 'e service_env \<Rightarrow> http_request
    \<Rightarrow> 's gate_service \<times> (int \<times> json) res \<times> verified_capability list" where
  "http_route V consume version sv env h =
     (if hq_command h = ''OPTIONS'' then (sv, Inr (204, JNull), [])
      else if hq_command h = ''GET'' \<and> hq_path h \<in> {''/'', ''/health''}
        then (case service_health version sv env of (sv', r) \<Rightarrow> (sv', ok_reply r, []))
      else if hq_command h = ''GET'' \<and> hq_path h = ''/receipts''
        then (sv, ok_reply (list_receipts V sv (limit_of h)), [])
      else if hq_command h = ''POST'' \<and> hq_path h = ''/run''
        then (case read_json h of
            Inl x \<Rightarrow> (sv, Inl x, [])
          | Inr d \<Rightarrow> (case service_run V consume sv env d of (sv', r, vcs) \<Rightarrow> (sv', ok_reply r, vcs)))
      else if hq_command h = ''POST'' \<and> hq_path h = ''/authorize''
        then (case read_json h of
            Inl x \<Rightarrow> (sv, Inl x, [])
          | Inr d \<Rightarrow> (case service_authorize sv env (JDict d) of (sv', r) \<Rightarrow> (sv', ok_reply r, [])))
      else if hq_command h = ''POST'' \<and> hq_path h = ''/verify''
        then (case verify_inputs h of
            Inl x \<Rightarrow> (sv, Inl x, [])
          | Inr (q, c) \<Rightarrow> (case service_verify V consume sv env q c of
              (sv', Inl x) \<Rightarrow> (sv', Inl x, [])
            | (sv', Inr vc) \<Rightarrow> (sv', Inr (200, JDict (verify_reply vc)), [vc])))
      else if hq_command h = ''POST'' \<and> hq_path h = ''/receipt''
        then (case receipt_inputs h of
            Inl x \<Rightarrow> (sv, Inl x, [])
          | Inr (q, c, r, ev) \<Rightarrow> (case service_receipt V sv env q c r ev of (sv', r) \<Rightarrow> (sv', ok_reply r, [])))
      else (case service_health version sv env of
          (sv', r) \<Rightarrow> (sv', rbind r (\<lambda>_. Inr (404, JDict [(''error'', JStr ''not found''), (''endpoints'', endpoints)])), [])))"

text \<open>\<open>str(exc)\<close>: of a \<open>KeyError\<close> the representation of the key.\<close>

definition reply_text :: "exn \<Rightarrow> string" where
  "reply_text x = (case x of KeyError k \<Rightarrow> repr_str k | _ \<Rightarrow> exn_msg x)"

definition error_reply :: "exn \<Rightarrow> int \<times> json" where
  "error_reply x =
     (if is_PermissionError x then (403, JDict [(''allowed'', JBool False), (''reason'', JStr (reply_text x))])
      else if is_ValueError x \<or> is_KeyError x then (400, JDict [(''error'', JStr (reply_text x))])
      else (500, JDict [(''error'', JStr (exn_name x @ '': '' @ reply_text x))]))"

definition http_handle ::
  "verifier \<Rightarrow> ('s, 'e) consumer \<Rightarrow> string \<Rightarrow> 's gate_service \<Rightarrow> 'e service_env \<Rightarrow> http_request
    \<Rightarrow> 's gate_service \<times> (int \<times> json) \<times> verified_capability list" where
  "http_handle V consume version sv env h = (case http_route V consume version sv env h of
      (sv', Inl x, vcs) \<Rightarrow> (sv', error_reply x, vcs)
    | (sv', Inr r, vcs) \<Rightarrow> (sv', r, vcs))"

fun http_serve ::
  "verifier \<Rightarrow> ('s, 'e) consumer \<Rightarrow> string \<Rightarrow> 's gate_service \<Rightarrow> ('e service_env \<times> http_request) list
    \<Rightarrow> 's gate_service \<times> (int \<times> json) list \<times> verified_capability list" where
  "http_serve V consume version sv [] = (sv, [], [])"
| "http_serve V consume version sv ((env, h) # r) = (case http_handle V consume version sv env h of
      (sv', reply, vcs) \<Rightarrow> (case http_serve V consume version sv' r of
        (sv'', replies, later) \<Rightarrow> (sv'', reply # replies, vcs @ later)))"

section \<open>The policy file\<close>

text \<open>A file that cannot be used stops the service from deciding, and what it had is kept.\<close>

lemma reload_fails_closed:
  assumes "gsv_path sv" "se_stat env = Some sig" "gsv_stat sv \<noteq> Some sig"
    and "\<And>d. se_policy env = Document d \<Longrightarrow> \<exists>x. load_engine (gsv_trusted sv) d = Inl x"
  shows "\<exists>x. service_decide sv env value = (sv, Inl x)"
proof -
  have "\<exists>x. current_engine sv env = (sv, Inl x)"
    using assms by (cases "se_policy env") (auto simp: current_engine_def set_policy_def split: if_splits)
  then show ?thesis by (cases "request_from_mapping value env") (auto simp: service_decide_def)
qed

lemma current_engine_frame:
  assumes "current_engine sv env = (sv', r)"
  shows "gsv_store sv' = gsv_store sv \<and> gsv_issuer sv' = gsv_issuer sv \<and> gsv_executor sv' = gsv_executor sv
    \<and> gsv_log sv' = gsv_log sv \<and> gsv_file sv' = gsv_file sv \<and> gsv_persists sv' = gsv_persists sv"
  using assms
  by (auto simp: current_engine_def set_policy_def res_simps split: if_splits policy_content.splits sum.splits)

lemma service_decide_frame:
  assumes "service_decide sv env value = (sv', r)"
  shows "gsv_store sv' = gsv_store sv \<and> gsv_issuer sv' = gsv_issuer sv \<and> gsv_executor sv' = gsv_executor sv
    \<and> gsv_log sv' = gsv_log sv \<and> gsv_file sv' = gsv_file sv \<and> gsv_persists sv' = gsv_persists sv"
  using assms current_engine_frame [of sv env]
  by (auto simp: service_decide_def split: sum.splits prod.splits)

section \<open>Every reply of the service is one step of the gate\<close>

lemma persist_frame:
  assumes "persist_receipts sv env = (sv', r)"
  shows "gsv_store sv' = gsv_store sv \<and> gsv_issuer sv' = gsv_issuer sv \<and> gsv_executor sv' = gsv_executor sv
    \<and> gsv_log sv' = gsv_log sv \<and> gsv_persists sv' = gsv_persists sv \<and> (gsv_file sv' = gsv_file sv \<or> gsv_file sv' = Some (rl_log (gsv_log sv)))"
  using assms by (auto simp: persist_receipts_def split: if_splits option.splits)

lemma service_append_cases:
  assumes "service_append sv env vc res ev = (sv', r)"
  obtains (refused) x where "sv' = sv" "r = Inl x" "receipt_append (gsv_log sv) vc (append_args env res ev) = Inl x"
  | (appended) l e where "receipt_append (gsv_log sv) vc (append_args env res ev) = Inr (l, e)" "gsv_log sv' = l"
      "gsv_store sv' = gsv_store sv" "gsv_issuer sv' = gsv_issuer sv" "gsv_executor sv' = gsv_executor sv"
proof (cases "receipt_append (gsv_log sv) vc (append_args env res ev)")
  case (Inl x)
  with assms show thesis by (intro refused) (auto simp: service_append_def)
next
  case (Inr le)
  obtain l e where le: "le = (l, e)" by (cases le)
  obtain r0 where "persist_receipts (sv\<lparr>gsv_log := l\<rparr>) env = (sv', r0)"
    using assms by (auto simp: service_append_def Inr le split: prod.splits)
  from persist_frame [OF this] Inr le show thesis by (intro appended) auto
qed

text \<open>A gate event that is refused without a look at the store.\<close>

definition idle_event :: "'e service_env \<Rightarrow> 'e gate_event" where
  "idle_event env = \<lparr>ge_env = se_store env, ge_capability = [],
     ge_request = \<lparr>rq_request_id = [], rq_agent = [], rq_target = [], rq_action = [], rq_purpose = [],
       rq_issued_at = se_gate env, rq_context = []\<rparr>, ge_now = se_gate env, ge_parent = None\<rparr>"

lemma idle_step: "\<exists>x. gate_step V consume g s (idle_event env) = (s, Inl x)"
proof -
  have "\<exists>x. verify_envelope V [] = Inl x" by (simp add: verify_envelope_def in_str_set_def)
  then show ?thesis by (auto simp: gate_step_def idle_event_def authorize_def authorize_checks_def)
qed

definition accepted_claims :: "verified_capability res \<Rightarrow> verified_capability list" where
  "accepted_claims r = (case r of Inl _ \<Rightarrow> [] | Inr vc \<Rightarrow> [vc])"

definition gate_move ::
  "verifier \<Rightarrow> ('s, 'e) consumer \<Rightarrow> gate_config \<Rightarrow> 'e service_env \<Rightarrow> 's \<Rightarrow> 's \<Rightarrow> verified_capability list \<Rightarrow> bool" where
  "gate_move V consume g env s s' vcs \<longleftrightarrow> (\<exists>ev r. gate_step V consume g s ev = (s', r) \<and> ge_now ev = se_gate env
     \<and> ge_env ev = se_store env \<and> vcs = accepted_claims r)"

lemma gate_move_idle [simp]: "gate_move V consume g env s s []"
  using idle_step [of V consume g s env] unfolding gate_move_def
  by (intro exI [of _ "idle_event env"]) (auto simp: accepted_claims_def idle_event_def)

lemma gate_move_authorize:
  assumes "authorize V consume g s (se_store env) c q (se_gate env) None = (s', r)" "vcs = accepted_claims r"
  shows "gate_move V consume g env s s' vcs"
  unfolding gate_move_def
  by (rule exI [of _ "\<lparr>ge_env = se_store env, ge_capability = c, ge_request = q, ge_now = se_gate env, ge_parent = None\<rparr>"])
    (use assms in \<open>simp add: gate_step_def\<close>)

lemma service_verify_move:
  assumes "service_verify V consume sv env value cap = (sv', r)"
  shows "gate_move V consume (service_gate sv) env (gsv_store sv) (gsv_store sv') (accepted_claims r)
    \<and> gsv_issuer sv' = gsv_issuer sv \<and> gsv_executor sv' = gsv_executor sv \<and> gsv_log sv' = gsv_log sv"
proof (cases "service_inputs env value cap")
  case (Inl x)
  with assms show ?thesis by (auto simp: service_verify_def accepted_claims_def)
next
  case (Inr cq)
  obtain c q where cq: "cq = (c, q)" by (cases cq)
  obtain s' r' where a: "authorize V consume (service_gate sv) (gsv_store sv) (se_store env) c q (se_gate env) None = (s', r')"
    by (cases "authorize V consume (service_gate sv) (gsv_store sv) (se_store env) c q (se_gate env) None")
  with assms Inr cq have "sv' = sv\<lparr>gsv_store := s'\<rparr>" "r' = r" by (auto simp: service_verify_def)
  with gate_move_authorize [OF a refl] show ?thesis by simp
qed

lemma service_run_move:
  assumes "service_run V consume sv env value = (sv', r, vcs)"
  shows "gate_move V consume (service_gate sv) env (gsv_store sv) (gsv_store sv') vcs
    \<and> gsv_issuer sv' = gsv_issuer sv \<and> gsv_executor sv' = gsv_executor sv"
proof -
  obtain sv1 r1 where d: "service_decide sv env (JDict value) = (sv1, r1)" by (cases "service_decide sv env (JDict value)")
  note f = service_decide_frame [OF d]
  have g: "service_gate sv1 = service_gate sv" using f by (simp add: service_gate_def)
  show ?thesis
  proof (cases "\<exists>q dd qd c. r1 = Inr (q, dd) \<and> request_to_dict q = Inr qd \<and> dc_allowed dd \<and> service_issue sv1 env q dd = Inr c")
    case False
    with assms d f show ?thesis by (auto simp: service_run_def split: sum.splits prod.splits if_splits)
  next
    case True
    then obtain q dd qd c where *: "r1 = Inr (q, dd)" "request_to_dict q = Inr qd" "dc_allowed dd" "service_issue sv1 env q dd = Inr c"
      by blast
    obtain s' ra where a: "authorize V consume (service_gate sv1) (gsv_store sv1) (se_store env) c q (se_gate env) None = (s', ra)"
      by (cases "authorize V consume (service_gate sv1) (gsv_store sv1) (se_store env) c q (se_gate env) None")
    show ?thesis
    proof (cases ra)
      case (Inl x)
      with assms d * a have "sv' = sv1\<lparr>gsv_store := s'\<rparr>" "vcs = accepted_claims ra"
        by (auto simp: service_run_def accepted_claims_def)
      with gate_move_authorize [OF a] f g show ?thesis by simp
    next
      case (Inr vc)
      have "vcs = accepted_claims ra \<and> gsv_store sv' = s' \<and> gsv_issuer sv' = gsv_issuer sv \<and> gsv_executor sv' = gsv_executor sv"
      proof (cases "result_text (if truthy (dget value ''result'') then dget value ''result'' else JStr ''succeeded'') (ValueError ''invalid action result'')")
        case (Inl x)
        with assms d * a Inr f show ?thesis by (auto simp: service_run_def accepted_claims_def)
      next
        case (Inr res)
        obtain sv3 r3 where ap: "service_append (sv1\<lparr>gsv_store := s'\<rparr>) env vc res (dget value ''evidence_hash'') = (sv3, r3)"
          by (cases "service_append (sv1\<lparr>gsv_store := s'\<rparr>) env vc res (dget value ''evidence_hash'')")
        have "sv' = sv3" "vcs = [vc]" using assms d * a \<open>ra = Inr vc\<close> Inr ap by (auto simp: service_run_def Let_def)
        with ap f \<open>ra = Inr vc\<close> show ?thesis by (auto elim!: service_append_cases simp: accepted_claims_def)
      qed
      with gate_move_authorize [OF a] f g show ?thesis by simp
    qed
  qed
qed

lemma service_receipt_frame:
  assumes "service_receipt V sv env value cap res ev = (sv', r)"
  shows "gsv_store sv' = gsv_store sv \<and> gsv_issuer sv' = gsv_issuer sv \<and> gsv_executor sv' = gsv_executor sv"
  using assms
  by (auto simp: service_receipt_def elim!: service_append_cases split: if_splits sum.splits prod.splits)

lemma service_authorize_frame:
  assumes "service_authorize sv env value = (sv', r)"
  shows "gsv_store sv' = gsv_store sv \<and> gsv_issuer sv' = gsv_issuer sv \<and> gsv_executor sv' = gsv_executor sv \<and> gsv_log sv' = gsv_log sv"
  using assms service_decide_frame [of sv env "value"] by (auto simp: service_authorize_def split: prod.splits)

lemma service_health_frame:
  assumes "service_health version sv env = (sv', r)"
  shows "gsv_store sv' = gsv_store sv \<and> gsv_issuer sv' = gsv_issuer sv \<and> gsv_executor sv' = gsv_executor sv \<and> gsv_log sv' = gsv_log sv"
  using assms current_engine_frame [of sv env] by (auto simp: service_health_def split: prod.splits)

lemma http_route_move:
  assumes "http_route V consume version sv env h = (sv', r, vcs)"
  shows "gate_move V consume (service_gate sv) env (gsv_store sv) (gsv_store sv') vcs
    \<and> gsv_issuer sv' = gsv_issuer sv \<and> gsv_executor sv' = gsv_executor sv"
  using assms
  by (auto simp: http_route_def accepted_claims_def split: if_splits sum.splits prod.splits
      dest!: service_verify_move service_run_move service_receipt_frame service_authorize_frame service_health_frame)

lemma http_handle_move:
  assumes "http_handle V consume version sv env h = (sv', reply, vcs)"
  shows "gate_move V consume (service_gate sv) env (gsv_store sv) (gsv_store sv') vcs
    \<and> gsv_issuer sv' = gsv_issuer sv \<and> gsv_executor sv' = gsv_executor sv"
proof -
  obtain r where "http_route V consume version sv env h = (sv', r, vcs)"
    using assms by (auto simp: http_handle_def split: prod.splits sum.splits)
  then show ?thesis by (rule http_route_move)
qed

text \<open>So a session of requests is a run of the gate, with the same clock readings.\<close>

lemma http_serve_gate_run:
  assumes "http_serve V consume version sv reqs = (sv', replies, vcs)"
  shows "\<exists>evs rs. gate_run V consume (service_gate sv) (gsv_store sv) evs = (gsv_store sv', rs)
    \<and> map (\<lambda>ev. (ge_now ev, ge_env ev)) evs = map (\<lambda>(env, h). (se_gate env, se_store env)) reqs
    \<and> vcs = concat (map accepted_claims rs)"
  using assms
proof (induction reqs arbitrary: sv sv' replies vcs)
  case Nil
  then show ?case by (intro exI [of _ "[]"]) simp
next
  case (Cons x reqs)
  obtain env h where x: "x = (env, h)" by (cases x)
  obtain sv1 reply vcs1 where h: "http_handle V consume version sv env h = (sv1, reply, vcs1)"
    by (cases "http_handle V consume version sv env h")
  obtain replies2 vcs2 where r: "http_serve V consume version sv1 reqs = (sv', replies2, vcs2)" "vcs = vcs1 @ vcs2"
    using Cons.prems h by (auto simp: x split: prod.splits)
  from http_handle_move [OF h] have g: "service_gate sv1 = service_gate sv"
    and m: "gate_move V consume (service_gate sv) env (gsv_store sv) (gsv_store sv1) vcs1" by (auto simp: service_gate_def)
  from m obtain ev re where ev: "gate_step V consume (service_gate sv) (gsv_store sv) ev = (gsv_store sv1, re)"
    "ge_now ev = se_gate env" "ge_env ev = se_store env" "vcs1 = accepted_claims re" by (auto simp: gate_move_def)
  from Cons.IH [OF r(1)] obtain evs rs where
    "gate_run V consume (service_gate sv1) (gsv_store sv1) evs = (gsv_store sv', rs)"
    "map (\<lambda>ev. (ge_now ev, ge_env ev)) evs = map (\<lambda>(env, h). (se_gate env, se_store env)) reqs"
    "vcs2 = concat (map accepted_claims rs)" by blast
  with ev g r(2) x show ?case by (intro exI [of _ "ev # evs"] exI [of _ "re # rs"]) simp
qed

lemma accepted_ids_claims:
  "accepted_ids rs = map (\<lambda>vc. dget (vc_claims vc) ''capability_id'') (concat (map accepted_claims rs))"
  by (induction rs) (auto simp: accepted_ids_def accepted_claims_def split: sum.splits)

lemma in_accepted_claims: "Inr vc \<in> set rs \<longleftrightarrow> vc \<in> set (concat (map accepted_claims rs))"
proof (induction rs)
  case (Cons r rs)
  then show ?case by (cases r) (auto simp: accepted_claims_def)
qed simp

context replay_store
begin

text \<open>In a session no capability is accepted twice, whichever routes it comes through.\<close>

lemma http_serve_once:
  assumes "store_ok (gsv_store sv)" "http_serve V consume version sv reqs = (sv', replies, vcs)"
    "sorted (map (\<lambda>(env, h). dt_us (se_gate env)) reqs)"
    "\<forall>(env, h)\<in>set reqs. clock_le (se_store env) (dt_us (se_gate env))"
  shows "distinct (map (\<lambda>vc. dget (vc_claims vc) ''capability_id'') vcs)
    \<or> (\<exists>v\<in>set vcs. \<exists>w\<in>set vcs. claims_collide v w)"
proof -
  obtain evs rs where r: "run V (service_gate sv) (gsv_store sv) evs = (gsv_store sv', rs)"
    and t: "map (\<lambda>ev. (ge_now ev, ge_env ev)) evs = map (\<lambda>(env, h). (se_gate env, se_store env)) reqs"
    and v: "vcs = concat (map accepted_claims rs)"
    using http_serve_gate_run [OF assms(2)] by blast
  have "map (\<lambda>ev. dt_us (ge_now ev)) evs = map (\<lambda>(env, h). dt_us (se_gate env)) reqs"
    using arg_cong [OF t, of "map (\<lambda>x. dt_us (fst x))"] by (simp add: comp_def case_prod_unfold)
  then have sorted: "sorted (map (\<lambda>ev. dt_us (ge_now ev)) evs)" using assms(3) by simp
  have "\<forall>x\<in>set (map (\<lambda>(env, h). (se_gate env, se_store env)) reqs). clock_le (snd x) (dt_us (fst x))" using assms(4) by auto
  then have "\<forall>ev\<in>set evs. clock_le (ge_env ev) (dt_us (ge_now ev))" unfolding t [symmetric] by auto
  from gate_run_once [OF assms(1) r sorted this] show ?thesis
    unfolding v accepted_ids_claims in_accepted_claims by blast
qed

end

section \<open>The log stays a valid chain\<close>

lemma service_append_chain:
  assumes "service_append sv env vc res ev = (sv', r)" "good_key V (gsv_executor sv)" "rl_key (gsv_log sv) = gsv_executor sv"
    "chain_reply V sv = Inr True" "dget (vc_claims vc) ''capability_id'' = JStr c"
  shows "chain_reply V sv' = Inr True \<and> rl_key (gsv_log sv') = gsv_executor sv'"
  using assms(1)
proof (cases rule: service_append_cases)
  case refused
  with assms(3,4) show ?thesis by simp
next
  case (appended l e)
  have "rl_key l = rl_key (gsv_log sv)" using appended(1) by (rule receipt_appendE) simp
  moreover have "verify_receipt_chain V (rl_log l) (Some [kid (gsv_executor sv)]) None = Inr True"
    using receipt_append_verifies [OF appended(1), of V "Some [kid (gsv_executor sv)]" None c] assms
    by (simp add: chain_reply_def)
  ultimately show ?thesis using appended assms(3) by (simp add: chain_reply_def)
qed

lemma authorize_id:
  assumes "authorize V consume g s e cap q now parent = (s', Inr vc)"
  shows "\<exists>c. dget (vc_claims vc) ''capability_id'' = JStr c"
proof -
  from assms obtain p cid x where "authorize_checks V g cap q now parent = Inr (p, cid, x)" "vc_claims vc = p"
    by (auto simp: authorize_Inr)
  with authorize_checks_sound(1) show ?thesis by (fastforce simp: authorized_def)
qed

text \<open>What holds of the service between requests.\<close>

definition service_ok :: "verifier \<Rightarrow> 's gate_service \<Rightarrow> bool" where
  "service_ok V sv \<longleftrightarrow> rl_key (gsv_log sv) = gsv_executor sv \<and> chain_reply V sv = Inr True"

lemma service_receipt_chain:
  assumes "service_receipt V sv env value cap res ev = (sv', r)" "good_key V (gsv_executor sv)" "service_ok V sv"
  shows "service_ok V sv'"
proof (cases "\<exists>c q re vc. service_inputs env value cap = Inr (c, q) \<and> result_text res (ValueError ''result must be one of succeeded, failed, aborted'') = Inr re
    \<and> snd (authorize V memory_consume (service_gate sv) [] (\<lambda>_. se_gate env) c q (se_gate env) None) = Inr vc")
  case False
  with assms show ?thesis by (auto simp: service_receipt_def split: if_splits sum.splits prod.splits)
next
  case True
  then obtain c q re vc where *: "service_inputs env value cap = Inr (c, q)"
    "result_text res (ValueError ''result must be one of succeeded, failed, aborted'') = Inr re"
    "snd (authorize V memory_consume (service_gate sv) [] (\<lambda>_. se_gate env) c q (se_gate env) None) = Inr vc" by blast
  obtain i where i: "dget (vc_claims vc) ''capability_id'' = JStr i"
    using authorize_id *(3) by (metis surjective_pairing)
  obtain sv1 r1 where ap: "service_append sv env vc re ev = (sv1, r1)" by (cases "service_append sv env vc re ev")
  have "sv' = sv1 \<or> sv' = sv" using assms(1) * ap by (auto simp: service_receipt_def split: if_splits)
  with service_append_chain [OF ap assms(2) _ _ i] assms(3) show ?thesis by (auto simp: service_ok_def)
qed

lemma service_run_chain:
  assumes "service_run V consume sv env value = (sv', r, vcs)" "good_key V (gsv_executor sv)" "service_ok V sv"
  shows "service_ok V sv'"
proof -
  obtain sv1 r1 where d: "service_decide sv env (JDict value) = (sv1, r1)" by (cases "service_decide sv env (JDict value)")
  note f = service_decide_frame [OF d]
  have ok1: "service_ok V (sv1\<lparr>gsv_store := s\<rparr>)" "service_ok V sv1" "good_key V (gsv_executor sv1)" for s
    using assms(2,3) f by (simp_all add: service_ok_def chain_reply_def)
  consider (kept) s where "sv' = sv1 \<or> sv' = sv1\<lparr>gsv_store := s\<rparr>"
    | (appended) c q s vc re sv3 r3 where "authorize V consume (service_gate sv1) (gsv_store sv1) (se_store env) c q (se_gate env) None = (s, Inr vc)"
        "service_append (sv1\<lparr>gsv_store := s\<rparr>) env vc re (dget value ''evidence_hash'') = (sv3, r3)" "sv' = sv3"
    using assms(1) d
    by (fastforce simp: service_run_def Let_def split: sum.splits prod.splits if_splits)
  then show ?thesis
  proof cases
    case kept
    with ok1 show ?thesis by auto
  next
    case appended
    obtain i where "dget (vc_claims vc) ''capability_id'' = JStr i" using authorize_id [OF appended(1)] by blast
    from service_append_chain [OF appended(2) _ _ _ this, of V] ok1 appended(3) show ?thesis
      by (simp add: service_ok_def)
  qed
qed

lemma http_handle_chain:
  assumes "http_handle V consume version sv env h = (sv', reply, vcs)" "good_key V (gsv_executor sv)" "service_ok V sv"
  shows "service_ok V sv'"
proof -
  have same: "service_ok V s" if "gsv_executor s = gsv_executor sv" "gsv_log s = gsv_log sv" for s
    using assms(3) that by (simp add: service_ok_def chain_reply_def)
  obtain r where "http_route V consume version sv env h = (sv', r, vcs)"
    using assms(1) by (auto simp: http_handle_def split: prod.splits sum.splits)
  then show ?thesis
    using assms(2,3) same
    by (auto simp: http_route_def split: if_splits sum.splits prod.splits
        dest: service_receipt_chain service_run_chain
        dest!: service_verify_move service_authorize_frame service_health_frame)
qed

lemma http_serve_chain:
  assumes "http_serve V consume version sv reqs = (sv', replies, vcs)" "good_key V (gsv_executor sv)" "service_ok V sv"
  shows "service_ok V sv' \<and> gsv_executor sv' = gsv_executor sv"
  using assms
proof (induction reqs arbitrary: sv replies vcs)
  case (Cons x reqs)
  obtain env h where x: "x = (env, h)" by (cases x)
  obtain sv1 reply vcs1 where h: "http_handle V consume version sv env h = (sv1, reply, vcs1)"
    by (cases "http_handle V consume version sv env h")
  obtain replies2 vcs2 where r: "http_serve V consume version sv1 reqs = (sv', replies2, vcs2)"
    using Cons.prems(1) h by (auto simp: x split: prod.splits)
  have "gsv_executor sv1 = gsv_executor sv" using http_handle_move [OF h] by simp
  with Cons.IH [OF r] http_handle_chain [OF h Cons.prems(2,3)] Cons.prems(2) show ?case by simp
qed simp

section \<open>Replies\<close>

text \<open>A reply of 200 to \<open>/verify\<close> is an authorization by the gate.\<close>

lemma verify_200:
  assumes "http_handle V consume version sv env h = (sv', (200, v), vcs)" "hq_command h = ''POST''" "hq_path h = ''/verify''"
  shows "\<exists>vc. vcs = [vc] \<and> v = JDict (verify_reply vc) \<and> (\<exists>c q cid x. authorized V (service_gate sv) c q (se_gate env) (vc_claims vc) cid x)"
proof -
  obtain q c vc where r: "service_verify V consume sv env q c = (sv', Inr vc)" "v = JDict (verify_reply vc)" "vcs = [vc]"
    using assms by (auto simp: http_handle_def http_route_def error_reply_def split: prod.splits sum.splits if_splits)
  then obtain cap rq s where "authorize V consume (service_gate sv) (gsv_store sv) (se_store env) cap rq (se_gate env) None = (s, Inr vc)"
    by (auto simp: service_verify_def split: sum.splits prod.splits)
  then obtain p cid x where "authorize_checks V (service_gate sv) cap rq (se_gate env) None = Inr (p, cid, x)" "vc_claims vc = p"
    by (auto simp: authorize_Inr)
  with authorize_checks_sound(1) r show ?thesis by fastforce
qed

text \<open>Errors are answered, never leaked: the statuses are these.\<close>

lemma http_status:
  assumes "http_handle V consume version sv env h = (sv', (n, v), vcs)"
  shows "n \<in> {200, 204, 400, 403, 404, 500}"
  using assms
  by (auto simp: http_handle_def http_route_def ok_reply_def error_reply_def res_simps split: prod.splits sum.splits if_splits)

text \<open>A receipt does not depend on the store: \<open>/receipt\<close> signs one for a capability that was never
  presented to \<open>/verify\<close>.\<close>

lemma receipt_ignores_store:
  "service_receipt V (sv\<lparr>gsv_store := s\<rparr>) env value cap res ev
    = (case service_receipt V sv env value cap res ev of (sv', r) \<Rightarrow> (sv'\<lparr>gsv_store := s\<rparr>, r))"
  by (auto simp: service_receipt_def service_append_def persist_receipts_def service_gate_def chain_reply_def
      split: if_splits sum.splits prod.splits option.splits)

text \<open>The built-in policy loads: one permission with its duty and one prohibition.\<close>

lemma default_policy_loads:
  "case load_engine [''urn:person:space-owner''] DEFAULT_POLICY of Inl x \<Rightarrow> False | Inr e \<Rightarrow>
     map (\<lambda>r. (pr_policy_id r, pr_effect r)) (pe_rules e)
       = [(''urn:kinegrant:policy:delivery-door#permission-0'', Allow), (''urn:kinegrant:policy:delivery-door#prohibition-0'', Deny)]"
  by code_simp

end
