(* ===== verification/DemoService.thy ===== *)
theory DemoService
  imports Server Demo
begin

text \<open>
  A concrete service that trusts the demo key, and the HTTP request that offers the demo capability
  to \<open>/verify\<close>. The witnesses of the service's properties use them.
\<close>

definition demo_service :: "'s \<Rightarrow> 's gate_service" where
  "demo_service s = \<lparr>gsv_path = False, gsv_trusted = [''owner''], gsv_issuer = demo_key, gsv_executor = demo_key,
     gsv_ttl = 30, gsv_stat = None, gsv_engine = demo_engine, gsv_store = s, gsv_log = receipt_log_init demo_key,
     gsv_persists = False, gsv_file = None\<rparr>"

definition demo_service_env :: "'e \<Rightarrow> 'e service_env" where
  "demo_service_env e = \<lparr>se_stat = None, se_policy = NotJson, se_issued = demo_time 1, se_token = ''t'',
     se_evaluated = demo_time 1, se_issue = demo_time 1, se_nonce = demo_nonce, se_gate = demo_time 2, se_store = e,
     se_started = demo_time 2, se_finished = demo_time 3, se_write = None\<rparr>"

lemma demo_service_fields [simp]:
  "se_gate (demo_service_env e) = demo_time 2" "se_store (demo_service_env e) = e" "gsv_store (demo_service s) = s"
  by (simp_all add: demo_service_env_def demo_service_def)

definition demo_request_json :: "string \<Rightarrow> json" where
  "demo_request_json ts = JDict [(''request_id'', JStr ''r1''), (''agent'', JStr ''robot''), (''target'', JStr ''door-7''),
     (''action'', JStr ''kg.action.open''), (''purpose'', JStr ''delivery''), (''issued_at'', JStr ts)]"

definition demo_post :: "string \<Rightarrow> dict \<Rightarrow> http_request" where
  "demo_post path body = \<lparr>hq_command = ''POST'', hq_path = path, hq_limit = None, hq_length = ''900'', hq_body = Some (JDict body)\<rparr>"

definition demo_verify :: "string \<Rightarrow> dict \<Rightarrow> http_request" where
  "demo_verify ts env = demo_post ''/verify'' [(''request'', demo_request_json ts), (''capability'', JDict env)]"

definition demo_receipt :: "string \<Rightarrow> dict \<Rightarrow> http_request" where
  "demo_receipt ts env = demo_post ''/receipt'' [(''request'', demo_request_json ts), (''capability'', JDict env),
     (''result'', JStr ''succeeded'')]"

lemma demo_request_read:
  assumes "isoformat (demo_time 0) = Inr ts"
  shows "request_from_mapping (demo_request_json ts) e = Inr demo_request"
proof -
  have p: "parse_time (JStr ts) = Inr (demo_time 0)" by (rule utc_time_parse [OF demo_utc assms]) simp_all
  have "case parse_time (JStr []) of Inl x \<Rightarrow> True | Inr t \<Rightarrow> False" by code_simp
  with p have ne: "ts \<noteq> []" by auto
  have b: "\<not> blank ''r1''" "\<not> blank ''robot''" "\<not> blank ''door-7''" "\<not> blank ''kg.action.open''" "\<not> blank ''delivery''"
    by code_simp+
  show ?thesis
    using p ne b assms by (simp add: demo_request_json_def request_from_mapping_def request_issued_def missing_field_def
        action_request_init_def demo_request_def dget_or_def)
qed

lemma demo_posted: "read_json (demo_post path body) = Inr body"
proof -
  have "py_int (JStr ''900'') = Inr 900" by code_simp
  then show ?thesis by (simp add: read_json_def demo_post_def)
qed

lemma demo_verify_inputs: "verify_inputs (demo_verify ts env) = Inr (demo_request_json ts, JDict env)"
  by (simp add: verify_inputs_def demo_verify_def demo_posted dindex_def)

lemma demo_verify_handled:
  assumes ts: "isoformat (demo_time 0) = Inr ts"
    and a: "authorize V consume (service_gate (demo_service s)) s e env demo_request (demo_time 2) None = (s', r)"
  shows "http_handle V consume version (demo_service s) (demo_service_env e) (demo_verify ts env)
    = (demo_service s', case r of Inl x \<Rightarrow> error_reply x | Inr vc \<Rightarrow> (200, JDict (verify_reply vc)), accepted_claims r)"
proof -
  have "service_verify V consume (demo_service s) (demo_service_env e) (demo_request_json ts) (JDict env) = (demo_service s', r)"
    using a demo_request_read [OF ts, of "demo_service_env e"]
    by (simp add: service_verify_def service_inputs_def) (simp add: demo_service_def)
  then show ?thesis
    by (simp add: http_handle_def http_route_def demo_verify_inputs accepted_claims_def split: sum.split)
      (simp add: demo_verify_def demo_post_def)
qed

lemma demo_service_gate: "service_gate (demo_service s) = demo_gate"
  by (simp add: service_gate_def demo_service_def demo_gate_def)

text \<open>The capability of the demo is accepted over HTTP.\<close>

lemma demo_http_accepts:
  obtains ts env vc s' where "isoformat (demo_time 0) = Inr ts"
    "http_handle demo_V sqlite_consume version (demo_service []) (demo_service_env (demo_time 2, None)) (demo_verify ts env)
      = (demo_service s', (200, JDict (verify_reply vc)), [vc])"
proof -
  obtain ts where ts: "isoformat (demo_time 0) = Inr ts" using demo_iso [of 0] by auto
  obtain env p c x where a: "authorize_checks demo_V demo_gate env demo_request (demo_time 2) None = Inr (p, c, x)"
    by (rule demo_path)
  have "sqlite_consume [] (demo_time 2, None) c x = ([(c, dt_us x)], Inr True)"
    by (simp add: sqlite_consume_def sqlite_delete_expired_def sqlite_insert_or_ignore_def)
  then have "authorize demo_V sqlite_consume (service_gate (demo_service [])) [] (demo_time 2, None) env demo_request (demo_time 2) None
      = ([(c, dt_us x)], Inr \<lparr>vc_claims = p, vc_authorized_at = demo_time 2\<rparr>)"
    using a by (simp add: authorize_def demo_service_gate)
  from demo_verify_handled [OF ts this] ts show thesis by (intro that) (auto simp: accepted_claims_def)
qed

lemma demo_service_ok: "service_ok demo_V (demo_service s)"
  by (simp add: service_ok_def demo_service_def chain_reply_def receipt_log_init_def verify_receipt_chain_def)

end
