(* ===== verification/Merkle.thy ===== *)
theory Merkle
  imports CanonicalInj "HOL-Library.While_Combinator"
begin

unbundle bit_operations_syntax

text \<open>
  \<open>merkle.py\<close>: selective disclosure of a document's fields by Merkle inclusion proofs. The
  tree is built bottom-up, layer by layer, over the leaves of the sorted fields, padded to a
  power of two. The two results: what \<open>merkle_redact\<close> builds verifies, and a redaction that
  verifies against the root of a document reveals only fields of that document with their
  values, unless two values that were hashed on the two sides exhibit a collision of SHA-256.
\<close>

section \<open>Hashing\<close>

definition leaf_value :: "string \<Rightarrow> json \<Rightarrow> json" where
  "leaf_value field v = JDict [(''field'', JStr field), (''value'', v)]"

definition node_value :: "string \<Rightarrow> string \<Rightarrow> json" where
  "node_value l r = JDict [(''left'', JStr l), (''right'', JStr r)]"

definition pad_value :: json where
  "pad_value = JDict [(''pad'', JBool True)]"

definition merkle_leaf :: "string \<Rightarrow> json \<Rightarrow> string res" where
  "merkle_leaf field v = digest (leaf_value field v)"

definition merkle_node :: "string \<Rightarrow> string \<Rightarrow> string res" where
  "merkle_node l r = digest (node_value l r)"

section \<open>Building the tree\<close>

text \<open>The loop of \<open>_pad_to_power_of_two\<close>; \<open>None\<close> would be a loop that never ends.\<close>

definition pad_to_power_of_two :: "nat \<Rightarrow> nat option" where
  "pad_to_power_of_two sz = while_option (\<lambda>power. power < sz) (\<lambda>power. power * 2) 1"

text \<open>One layer from the one below; an odd one would make \<open>current[index + 1]\<close> fail.\<close>

fun pair_layer :: "string list \<Rightarrow> string list res" where
  "pair_layer [] = Inr []"
| "pair_layer [x] = Inl (IndexError ''list index out of range'')"
| "pair_layer (x # y # r) = rbind (merkle_node x y) (\<lambda>h. rbind (pair_layer r) (\<lambda>hs. Inr (h # hs)))"

lemma pair_layer_length: "pair_layer xs = Inr ys \<Longrightarrow> length xs = 2 * length ys"
  by (induction xs arbitrary: ys rule: pair_layer.induct) (auto simp: res_simps)

text \<open>\<open>while len(layers[-1]) > 1\<close>: all layers from the current one up to the root.\<close>

function tree_layers :: "string list \<Rightarrow> string list list res" where
  "tree_layers cur =
     (if 1 < length cur
      then rbind (pair_layer cur) (\<lambda>nxt. rbind (tree_layers nxt) (\<lambda>ls. Inr (cur # ls)))
      else Inr [cur])"
  by auto
termination
  by (relation "measure length") (use pair_layer_length in fastforce)+

declare tree_layers.simps [simp del]

definition build_tree :: "string list \<Rightarrow> (string \<times> string list list) res" where
  "build_tree leaves =
     (case pad_to_power_of_two (length leaves) of
        None \<Rightarrow> Inl (ValueError ''the padding loop does not end'')
      | Some sz \<Rightarrow>
          rbind (digest pad_value) (\<lambda>pad.
          rbind (tree_layers (leaves @ replicate (sz - length leaves) pad)) (\<lambda>layers.
          case last layers of
            [] \<Rightarrow> Inl (IndexError ''list index out of range'')
          | rt # _ \<Rightarrow> Inr (rt, layers))))"

section \<open>Proofs\<close>

definition proof_step :: "string \<Rightarrow> bool \<Rightarrow> json" where
  "proof_step h left = JDict [(''hash'', JStr h), (''left'', JBool left)]"

text \<open>The path of one leaf: the sibling in every layer but the last.\<close>

fun proof_path :: "string list list \<Rightarrow> nat \<Rightarrow> json list res" where
  "proof_path (layer # up # ls) position =
     (let sibling = position XOR 1 in
      rbind (if sibling < length layer then Inr (layer ! sibling) else digest pad_value) (\<lambda>h.
      rbind (proof_path (up # ls) (position div 2)) (\<lambda>steps.
        Inr (proof_step h (sibling < position) # steps))))"
| "proof_path _ position = Inr []"

definition sorted_fields :: "dict \<Rightarrow> string list" where
  "sorted_fields document = sort (map fst document)"

definition document_leaves :: "dict \<Rightarrow> string list res" where
  "document_leaves document =
     rmapM (\<lambda>field. rbind (dindex document field) (merkle_leaf field)) (sorted_fields document)"

definition merkle_proofs :: "dict \<Rightarrow> (string \<times> dict) list res" where
  "merkle_proofs document =
     (let fields = sorted_fields document in
      rbind (document_leaves document) (\<lambda>leaves.
      rbind (build_tree leaves) (\<lambda>(rt, layers).
      rmapM (\<lambda>(index, field).
        rbind (proof_path layers index) (\<lambda>path.
        rbind (dindex document field) (\<lambda>v.
          Inr (field, [(''value'', v), (''root'', JStr rt), (''proof'', JList path)]))))
        (zip [0..<length fields] fields))))"

section \<open>Verification\<close>

text \<open>
  The loop of \<open>verify_field\<close>; \<open>None\<close> is its \<open>return False\<close> for a step without
  a textual hash.
\<close>

fun climb :: "string \<Rightarrow> json list \<Rightarrow> string option res" where
  "climb current [] = Inr (Some current)"
| "climb current (step # r) = (case step of
      JDict d \<Rightarrow>
        (case dget d ''hash'' of
           JStr sibling \<Rightarrow>
             rbind (if truthy (dget d ''left'') then merkle_node sibling current
                    else merkle_node current sibling) (\<lambda>c. climb c r)
         | _ \<Rightarrow> Inr None)
    | _ \<Rightarrow> Inl (AttributeError ''object has no attribute 'get' ''))"

definition verify_field :: "string \<Rightarrow> string \<Rightarrow> json \<Rightarrow> json \<Rightarrow> bool res" where
  "verify_field rt field v path =
     rbind (merkle_leaf field v) (\<lambda>current.
     rbind (py_iter path) (\<lambda>steps.
     rbind (climb current steps) (\<lambda>r. Inr (r = Some rt))))"

section \<open>Redactions\<close>

text \<open>The loop over the visible fields: the entries and the last root.\<close>

fun reveal :: "(string \<times> dict) list \<Rightarrow> string list \<Rightarrow> json \<Rightarrow> (json list \<times> json) res" where
  "reveal proofs [] rt = Inr ([], rt)"
| "reveal proofs (field # r) rt =
     (case map_of proofs field of
        None \<Rightarrow> Inl (ValueError ''unknown field '')
      | Some entry \<Rightarrow>
          rbind (reveal proofs r (dget entry ''root'')) (\<lambda>(es, last_root).
            Inr (JDict [(''field'', JStr field), (''value'', dget entry ''value''),
                        (''proof'', dget entry ''proof'')] # es, last_root)))"

definition merkle_redact :: "dict \<Rightarrow> string list \<Rightarrow> dict res" where
  "merkle_redact document visible =
     rbind (merkle_proofs document) (\<lambda>proofs.
     rbind (reveal proofs visible JNull) (\<lambda>(revealed, rt).
       if rt = JNull then Inl (ValueError ''at least one visible field is required'')
       else Inr [(''type'', JStr ''kinegrant:MerkleRedaction''), (''schema_version'', JStr ''0.1''),
                 (''root'', rt), (''visible'', JList revealed)]))"

definition verify_entry :: "string \<Rightarrow> json \<Rightarrow> bool res" where
  "verify_entry rt entry = (case entry of
      JDict e \<Rightarrow>
        (case dget e ''field'' of
           JStr field \<Rightarrow> verify_field rt field (dget e ''value'') (dget_or e ''proof'' (JList []))
         | _ \<Rightarrow> Inr False)
    | _ \<Rightarrow> Inr False)"

definition verify_merkle_redaction :: "dict \<Rightarrow> bool res" where
  "verify_merkle_redaction redaction =
     (if dget redaction ''type'' \<noteq> JStr ''kinegrant:MerkleRedaction'' then Inr False
      else if dget redaction ''schema_version'' \<noteq> JStr ''0.1'' then Inr False
      else case (dget redaction ''root'', dget redaction ''visible'') of
        (JStr rt, JList visible) \<Rightarrow>
          if visible = [] then Inr False else rall (verify_entry rt) visible
      | _ \<Rightarrow> Inr False)"

section \<open>The shape of the tree\<close>

lemma while_power:
  "0 < p \<Longrightarrow> \<exists>k. while_option (\<lambda>power. power < sz) (\<lambda>power. power * 2) p = Some (p * 2 ^ k) \<and> sz \<le> p * 2 ^ k
     \<and> (\<forall>j<k. p * 2 ^ j < (sz::nat))"
proof (induction "sz - p" arbitrary: p rule: less_induct)
  case less
  show ?case
  proof (cases "p < sz")
    case True
    with less.prems have "sz - p * 2 < sz - p" "0 < p * 2" by auto
    from less.hyps [OF this] obtain k where k: "while_option (\<lambda>power. power < sz) (\<lambda>power. power * 2) (p * 2) = Some (p * 2 * 2 ^ k)"
      "sz \<le> p * 2 * 2 ^ k" "\<forall>j<k. p * 2 * 2 ^ j < sz" by blast
    have "p * 2 ^ j < sz" if "j < Suc k" for j
      using that True k(3) by (cases j) (auto simp: mult.assoc)
    with k(1,2) True show ?thesis by (subst while_option_unfold) (auto intro!: exI [of _ "Suc k"] simp: mult.assoc)
  next
    case False
    then show ?thesis by (subst while_option_unfold) (auto intro!: exI [of _ 0])
  qed
qed

lemma pad_power: "\<exists>k. pad_to_power_of_two sz = Some (2 ^ k) \<and> sz \<le> 2 ^ k \<and> (\<forall>j<k. 2 ^ j < sz)"
  using while_power [of 1 sz] by (simp add: pad_to_power_of_two_def)

lemma merkle_node_total: "\<exists>h. merkle_node l r = Inr h"
  unfolding merkle_node_def node_value_def by (rule digest_total) simp

lemma pair_layer_total: "even (length xs) \<Longrightarrow> \<exists>ys. pair_layer xs = Inr ys"
proof (induction xs rule: pair_layer.induct)
  case (3 x y r)
  then show ?case using merkle_node_total [of x y] by auto
qed auto

text \<open>Consecutive layers are pairings, the first is the given one, the last is the root alone.\<close>

fun layered :: "string list list \<Rightarrow> bool" where
  "layered (l # u # ls) \<longleftrightarrow> pair_layer l = Inr u \<and> layered (u # ls)"
| "layered _ \<longleftrightarrow> True"

lemma tree_layers_power:
  "length cur = 2 ^ k \<Longrightarrow> \<exists>ls rt. tree_layers cur = Inr (cur # ls) \<and> layered (cur # ls) \<and> last (cur # ls) = [rt] \<and> length ls = k"
proof (induction k arbitrary: cur)
  case 0
  then obtain rt where "cur = [rt]" by (auto simp: length_Suc_conv)
  then show ?case by (subst tree_layers.simps) auto
next
  case (Suc k)
  then obtain nxt where n: "pair_layer cur = Inr nxt" using pair_layer_total [of cur] by auto
  with Suc.prems have "length nxt = 2 ^ k" using pair_layer_length by fastforce
  from Suc.IH [OF this] obtain ls rt where "tree_layers nxt = Inr (nxt # ls)" "layered (nxt # ls)"
    "last (nxt # ls) = [rt]" "length ls = k" by blast
  moreover have "1 < length cur" using Suc.prems one_less_power [of "2::nat" "Suc k"] by simp
  ultimately show ?case using n by (subst tree_layers.simps) auto
qed

lemma build_tree_cases:
  assumes "build_tree leaves = Inr (rt, layers)"
  obtains pad k ls where "digest pad_value = Inr pad" "layers = (leaves @ replicate (2 ^ k - length leaves) pad) # ls"
    "length leaves \<le> 2 ^ k" "layered layers" "last layers = [rt]" "length ls = k"
proof -
  obtain k where k: "pad_to_power_of_two (length leaves) = Some (2 ^ k)" "length leaves \<le> 2 ^ k"
    using pad_power by blast
  with assms obtain pad where p: "digest pad_value = Inr pad"
    and t: "tree_layers (leaves @ replicate (2 ^ k - length leaves) pad) = Inr layers"
    and r: "\<exists>rs. last layers = rt # rs"
    unfolding build_tree_def by (auto elim!: rbindE split: list.splits)
  let ?cur = "leaves @ replicate (2 ^ k - length leaves) pad"
  have "length ?cur = 2 ^ k" using k(2) by simp
  from tree_layers_power [OF this] t obtain ls rt' where
    "layers = ?cur # ls" "layered layers" "last layers = [rt']" "length ls = k" by auto
  with p k(2) r show thesis by (intro that [of pad k ls]) auto
qed

lemma build_tree_shape:
  "\<exists>k rt layers. pad_to_power_of_two (length leaves) = Some (2 ^ k) \<and> length leaves \<le> 2 ^ k
     \<and> (k = 0 \<or> 2 ^ (k - 1) < length leaves) \<and> build_tree leaves = Inr (rt, layers) \<and> length layers = Suc k"
proof -
  obtain k where k: "pad_to_power_of_two (length leaves) = Some (2 ^ k)" "length leaves \<le> 2 ^ k" "\<forall>j<k. 2 ^ j < length leaves"
    using pad_power by blast
  obtain pad where p: "digest pad_value = Inr pad" using digest_total [of pad_value] by (auto simp: pad_value_def)
  have "length (leaves @ replicate (2 ^ k - length leaves) pad) = 2 ^ k" using k(2) by simp
  from tree_layers_power [OF this] obtain ls rt where
    t: "tree_layers (leaves @ replicate (2 ^ k - length leaves) pad) = Inr ((leaves @ replicate (2 ^ k - length leaves) pad) # ls)"
      "last ((leaves @ replicate (2 ^ k - length leaves) pad) # ls) = [rt]" "length ls = k" by blast
  with k p have "build_tree leaves = Inr (rt, (leaves @ replicate (2 ^ k - length leaves) pad) # ls)"
    by (simp add: build_tree_def)
  moreover have "k = 0 \<or> 2 ^ (k - 1) < length leaves" using k(3) by (cases k) auto
  moreover have "length ((leaves @ replicate (2 ^ k - length leaves) pad) # ls) = Suc k" using t(3) by (simp only: list.size)
  ultimately show ?thesis using k(1,2) by blast
qed

lemma build_tree_total: "\<exists>rt layers. build_tree leaves = Inr (rt, layers)"
  using build_tree_shape [of leaves] by blast

section \<open>Every proof that is built verifies\<close>

lemma xor_one: "position XOR Suc 0 = (if even position then Suc position else position - 1)"
  by (simp add: xor_Suc_0_eq)

lemma pair_layer_nth:
  "pair_layer xs = Inr ys \<Longrightarrow> i < length xs \<Longrightarrow>
    merkle_node (xs ! (i div 2 * 2)) (xs ! Suc (i div 2 * 2)) = Inr (ys ! (i div 2)) \<and> Suc (i div 2 * 2) < length xs"
proof (induction xs arbitrary: i ys rule: pair_layer.induct)
  case (3 x y r)
  from 3(2) obtain h hs where h: "merkle_node x y = Inr h" "pair_layer r = Inr hs" "ys = h # hs" by (auto simp: res_simps)
  show ?case
  proof (cases "i < 2")
    case True
    then have "i div 2 = 0" by simp
    with h show ?thesis by simp
  next
    case False
    then obtain j where j: "i = Suc (Suc j)" by (metis add_2_eq_Suc le_Suc_ex not_less)
    with 3(1) [OF h(1,2), of j] 3(3) h(3) show ?thesis by simp
  qed
qed auto

lemma climb_path:
  "layered (l # ls) \<Longrightarrow> last (l # ls) = [rt] \<Longrightarrow> position < length l \<Longrightarrow>
    \<exists>steps. proof_path (l # ls) position = Inr steps \<and> climb (l ! position) steps = Inr (Some rt)"
proof (induction ls arbitrary: l position)
  case (Cons u ls)
  let ?sib = "position XOR 1" and ?b = "position div 2 * 2"
  from Cons.prems(1) have p: "pair_layer l = Inr u" by simp
  note n = pair_layer_nth [OF p Cons.prems(3)]
  have "position div 2 < length u" using pair_layer_length [OF p] Cons.prems(3) by auto
  from Cons.IH [OF _ _ this] Cons.prems(1,2) obtain steps where
    s: "proof_path (u # ls) (position div 2) = Inr steps" "climb (u ! (position div 2)) steps = Inr (Some rt)" by auto
  show ?case
  proof (cases "even position")
    case True
    then have "?b = position" by simp
    with n True s show ?thesis by (simp add: xor_one proof_step_def Let_def)
  next
    case False
    then have b: "Suc ?b = position" "?b = position - 1" "0 < position" by (auto elim!: oddE)
    have lt: "position - Suc 0 < length l" using Cons.prems(3) by simp
    show ?thesis using b n False s by (simp add: lt xor_one proof_step_def Let_def)
  qed
qed simp

lemma set_sorted_fields [simp]: "set (sorted_fields d) = fst ` set d"
  by (simp add: sorted_fields_def)

lemma distinct_sorted_fields: "distinct (map fst d) \<Longrightarrow> distinct (sorted_fields d)"
  by (simp add: sorted_fields_def)

text \<open>What an entry of \<open>merkle_proofs\<close> is.\<close>

definition proves :: "dict \<Rightarrow> string \<Rightarrow> string \<Rightarrow> dict \<Rightarrow> bool" where
  "proves document rt field entry \<longleftrightarrow>
     dindex document field = Inr (dget entry ''value'') \<and> dget entry ''root'' = JStr rt \<and>
     verify_field rt field (dget entry ''value'') (dget entry ''proof'') = Inr True"

text \<open>The tree over a document's leaves, with its root.\<close>

definition document_tree :: "dict \<Rightarrow> (string \<times> string list list) res" where
  "document_tree document = rbind (document_leaves document) build_tree"

lemma merkle_proofs_proves:
  assumes "merkle_proofs document = Inr ps"
  obtains rt layers where "document_tree document = Inr (rt, layers)" "map fst ps = sorted_fields document"
    "\<And>field entry. map_of ps field = Some entry \<Longrightarrow> proves document rt field entry"
proof -
  let ?fs = "sorted_fields document"
  let ?mk = "\<lambda>layers rt (index, field). rbind (proof_path layers index) (\<lambda>path. rbind (dindex document field) (\<lambda>v.
          Inr (field, [(''value'', v), (''root'', JStr rt), (''proof'', JList path)])))"
  from assms obtain leaves rt layers where l: "document_leaves document = Inr leaves"
    and b: "build_tree leaves = Inr (rt, layers)" and m: "rmapM (?mk layers rt) (zip [0..<length ?fs] ?fs) = Inr ps"
    by (auto simp: merkle_proofs_def Let_def elim!: rbindE)
  have len: "length leaves = length ?fs" using l rmapM_length by (fastforce simp: document_leaves_def)
  have at: "?mk layers rt (i, ?fs ! i) = Inr (ps ! i)" if "i < length ?fs" for i
    using rmapM_nth [OF m, of i] that by simp
  have fst: "fst (ps ! i) = ?fs ! i" if "i < length ?fs" for i
    using at [OF that] by (auto simp: res_simps) (metis fst_conv)
  have lps: "length ps = length ?fs" using rmapM_length [OF m] by simp
  have keys: "map fst ps = ?fs" by (rule nth_equalityI) (simp_all add: lps fst)
  have "proves document rt field entry" if e: "(field, entry) \<in> set ps" for field entry
  proof -
    from e obtain i where i: "i < length ?fs" "ps ! i = (field, entry)" using lps by (metis in_set_conv_nth)
    from at [OF i(1)] i(2) obtain path v where v: "proof_path layers i = Inr path" "dindex document (?fs ! i) = Inr v"
      "?fs ! i = field" "entry = [(''value'', v), (''root'', JStr rt), (''proof'', JList path)]"
      by (auto simp: res_simps)
    have leaf: "merkle_leaf field v = Inr (leaves ! i)"
      using rmapM_nth [OF l [unfolded document_leaves_def] i(1)] v(2,3) by (auto simp: res_simps)
    from b show ?thesis
    proof (rule build_tree_cases)
      fix pad k ls
      assume t: "layers = (leaves @ replicate (2 ^ k - length leaves) pad) # ls" "layered layers" "last layers = [rt]"
      from climb_path [of "leaves @ replicate (2 ^ k - length leaves) pad" ls rt i] t i(1) len v(1)
      have "climb (leaves ! i) path = Inr (Some rt)" by (simp add: nth_append split: if_splits)
      with leaf v show ?thesis by (simp add: proves_def verify_field_def py_iter_def)
    qed
  qed
  moreover have "document_tree document = Inr (rt, layers)" using l b by (simp add: document_tree_def)
  ultimately show thesis using that keys map_of_SomeD by metis
qed

lemma reveal_entries:
  assumes "\<And>field entry. map_of ps field = Some entry \<Longrightarrow> proves document rt field entry"
    and "reveal ps visible r0 = Inr (es, r1)"
  shows "(visible \<noteq> [] \<longrightarrow> r1 = JStr rt) \<and> (visible = [] \<longrightarrow> r1 = r0) \<and> length es = length visible
    \<and> (\<forall>e\<in>set es. verify_entry rt e = Inr True)"
  using assms(2)
proof (induction visible arbitrary: r0 es)
  case (Cons field r)
  then obtain entry es' where e: "map_of ps field = Some entry" "reveal ps r (dget entry ''root'') = Inr (es', r1)"
    "es = JDict [(''field'', JStr field), (''value'', dget entry ''value''), (''proof'', dget entry ''proof'')] # es'"
    by (auto simp: res_simps split: option.splits)
  have p: "proves document rt field entry" by (rule assms(1) [OF e(1)])
  with Cons.IH [OF e(2)] e(3) show ?case
    by (auto simp: proves_def verify_entry_def dest: dhas_dget)
qed simp

theorem merkle_redact_verifies:
  assumes "merkle_redact document visible = Inr r"
  shows "verify_merkle_redaction r = Inr True"
proof -
  from assms obtain ps es rv where ps: "merkle_proofs document = Inr ps" and rv: "reveal ps visible JNull = Inr (es, rv)"
    and ne: "rv \<noteq> JNull" and r: "r = [(''type'', JStr ''kinegrant:MerkleRedaction''), (''schema_version'', JStr ''0.1''),
                 (''root'', rv), (''visible'', JList es)]"
    by (auto simp: merkle_redact_def elim!: rbindE split: if_splits)
  obtain rt where "\<And>field entry. map_of ps field = Some entry \<Longrightarrow> proves document rt field entry"
    using merkle_proofs_proves [OF ps] by blast
  from reveal_entries [OF this rv] ne show ?thesis
    by (cases visible) (auto simp: verify_merkle_redaction_def r rall_True)
qed

text \<open>A serializable document has a redaction for every non-empty list of its fields.\<close>

lemma merkle_proofs_total:
  assumes "serializable (JDict document)"
  obtains ps where "merkle_proofs document = Inr ps"
proof -
  let ?fs = "sorted_fields document"
  have field: "\<exists>v. dindex document f = Inr v \<and> serializable v" if "f \<in> set ?fs" for f
  proof -
    from that obtain v where v: "map_of document f = Some v" by (auto simp: dest: weak_map_of_SomeI)
    then show ?thesis using assms map_of_SomeD [OF v] by (auto simp: dindex_def list_all_iff)
  qed
  have leaf: "\<exists>l. rbind (dindex document f) (merkle_leaf f) = Inr l" if f: "f \<in> set ?fs" for f
  proof -
    obtain v where v: "dindex document f = Inr v" "serializable v" using field [OF f] by blast
    from digest_total [of "leaf_value f v"] v show ?thesis by (simp add: merkle_leaf_def leaf_value_def)
  qed
  have "\<exists>leaves. document_leaves document = Inr leaves"
    unfolding document_leaves_def by (rule rmapM_total) (rule leaf)
  then obtain leaves where l: "document_leaves document = Inr leaves" ..
  have len: "length leaves = length ?fs" using l rmapM_length by (fastforce simp: document_leaves_def)
  obtain rt layers where b: "build_tree leaves = Inr (rt, layers)" using build_tree_total by blast
  have path: "\<exists>path. proof_path layers i = Inr path" if "i < length ?fs" for i
    using b
  proof (rule build_tree_cases)
    fix pad k ls
    assume t: "layers = (leaves @ replicate (2 ^ k - length leaves) pad) # ls" "layered layers" "last layers = [rt]"
    from climb_path [of "leaves @ replicate (2 ^ k - length leaves) pad" ls rt i] t that len
    show ?thesis by auto
  qed
  have "\<exists>e. (case x of (index, field) \<Rightarrow> rbind (proof_path layers index) (\<lambda>path. rbind (dindex document field) (\<lambda>v.
          Inr (field, [(''value'', v), (''root'', JStr rt), (''proof'', JList path)])))) = Inr e"
    if x: "x \<in> set (zip [0..<length ?fs] ?fs)" for x
  proof -
    obtain i f where i: "x = (i, f)" by (cases x)
    with x have i: "x = (i, f)" "i < length ?fs" "f \<in> set ?fs" by (auto dest: set_zip_leftD set_zip_rightD)
    obtain steps v where "proof_path layers i = Inr steps" "dindex document f = Inr v"
      using path [OF i(2)] field [OF i(3)] by blast
    with i(1) show ?thesis by simp
  qed
  from rmapM_total [OF this] obtain ps where "rmapM (\<lambda>(index, field). rbind (proof_path layers index) (\<lambda>path. rbind (dindex document field) (\<lambda>v.
          Inr (field, [(''value'', v), (''root'', JStr rt), (''proof'', JList path)])))) (zip [0..<length ?fs] ?fs) = Inr ps" ..
  with l b show thesis by (intro that) (simp add: merkle_proofs_def Let_def)
qed

lemma reveal_total:
  "set visible \<subseteq> fst ` set ps \<Longrightarrow> \<exists>es r1. reveal ps visible r0 = Inr (es, r1)"
proof (induction visible arbitrary: r0)
  case (Cons f r)
  then have "map_of ps f \<noteq> None" by (simp add: map_of_eq_None_iff)
  then obtain entry where "map_of ps f = Some entry" by blast
  with Cons.IH [of "dget entry ''root''"] Cons.prems show ?case by auto
qed simp

theorem merkle_redact_total:
  assumes "serializable (JDict document)" "visible \<noteq> []" "set visible \<subseteq> fst ` set document"
  shows "\<exists>r. merkle_redact document visible = Inr r \<and> verify_merkle_redaction r = Inr True"
proof -
  obtain ps where ps: "merkle_proofs document = Inr ps" using merkle_proofs_total [OF assms(1)] .
  obtain rt where p: "map fst ps = sorted_fields document"
    "\<And>field entry. map_of ps field = Some entry \<Longrightarrow> proves document rt field entry"
    using merkle_proofs_proves [OF ps] by blast
  have "set visible \<subseteq> fst ` set ps" using assms(3) arg_cong [OF p(1), of set] by simp
  from reveal_total [OF this] obtain es r1 where r: "reveal ps visible JNull = Inr (es, r1)" by blast
  with reveal_entries [OF p(2) r] assms(2) have "r1 = JStr rt" by simp
  with ps r have "\<exists>r. merkle_redact document visible = Inr r" by (simp add: merkle_redact_def)
  then show ?thesis using merkle_redact_verifies by blast
qed

section \<open>Every accepted entry is a field of the document\<close>

fun node_values :: "string list \<Rightarrow> json list" where
  "node_values (a # b # r) = node_value a b # node_values r"
| "node_values _ = []"

text \<open>The values hashed when a tree is built and when a path is verified.\<close>

definition tree_inputs :: "dict \<Rightarrow> string list list \<Rightarrow> json list" where
  "tree_inputs document layers =
     map (\<lambda>(field, v). leaf_value field v) document @ pad_value # concat (map node_values layers)"

fun climb_values :: "string \<Rightarrow> json list \<Rightarrow> json list" where
  "climb_values current [] = []"
| "climb_values current (step # r) =
     (let sibling = the_str (dget (the_dict step) ''hash'');
          w = (if truthy (dget (the_dict step) ''left'') then node_value sibling current else node_value current sibling)
      in w # (case digest w of Inl _ \<Rightarrow> [] | Inr c \<Rightarrow> climb_values c r))"

definition path_inputs :: "string \<Rightarrow> json \<Rightarrow> json \<Rightarrow> json list" where
  "path_inputs field v path =
     leaf_value field v # (case merkle_leaf field v of Inl _ \<Rightarrow> [] | Inr c \<Rightarrow> climb_values c (the_list path))"

lemma pair_layer_origin:
  "pair_layer xs = Inr ys \<Longrightarrow> c \<in> set ys \<Longrightarrow>
    \<exists>a b. digest (node_value a b) = Inr c \<and> node_value a b \<in> set (node_values xs) \<and> a \<in> set xs \<and> b \<in> set xs"
proof (induction xs arbitrary: ys rule: pair_layer.induct)
  case (3 x y r)
  then obtain h hs where h: "merkle_node x y = Inr h" "pair_layer r = Inr hs" "ys = h # hs" by (auto simp: res_simps)
  with 3 show ?case by (cases "c = h") (fastforce simp: merkle_node_def)+
qed (auto simp: res_simps)

lemma layered_nth: "layered ls \<Longrightarrow> Suc i < length ls \<Longrightarrow> pair_layer (ls ! i) = Inr (ls ! Suc i)"
proof (induction ls arbitrary: i rule: layered.induct)
  case (1 l u ls)
  then show ?case by (cases i) auto
qed auto

lemma jequiv_leaf:
  "jequiv (leaf_value f v) (leaf_value g w) \<Longrightarrow> f = g \<and> jequiv v w"
  "\<not> jequiv (leaf_value f v) (node_value a b)" "\<not> jequiv (leaf_value f v) pad_value"
  "\<not> jequiv (node_value a b) (leaf_value f v)" "\<not> jequiv (node_value a b) pad_value"
  "jequiv (node_value a b) (node_value c d) \<Longrightarrow> a = c \<and> b = d"
proof -
  show "jequiv (leaf_value f v) (leaf_value g w) \<Longrightarrow> f = g \<and> jequiv v w"
    using jequiv_dget_str [of "[(''field'', JStr f), (''value'', v)]" "[(''field'', JStr g), (''value'', w)]" "''field''" f]
      jequiv_JDict_map_of [of "[(''field'', JStr f), (''value'', v)]" "[(''field'', JStr g), (''value'', w)]" "''value''"]
    by (simp add: leaf_value_def)
  show "\<not> jequiv (leaf_value f v) (node_value a b)" "\<not> jequiv (leaf_value f v) pad_value"
    using jequiv_dget_str [of "[(''field'', JStr f), (''value'', v)]" _ "''field''" f]
    by (fastforce simp: leaf_value_def node_value_def pad_value_def)+
  show "\<not> jequiv (node_value a b) (leaf_value f v)" "\<not> jequiv (node_value a b) pad_value"
    using jequiv_dget_str [of "[(''left'', JStr a), (''right'', JStr b)]" _ "''left''" a]
    by (fastforce simp: leaf_value_def node_value_def pad_value_def)+
  show "jequiv (node_value a b) (node_value c d) \<Longrightarrow> a = c \<and> b = d"
    using jequiv_dget_str [of "[(''left'', JStr a), (''right'', JStr b)]" "[(''left'', JStr c), (''right'', JStr d)]" "''left''" a]
      jequiv_dget_str [of "[(''left'', JStr a), (''right'', JStr b)]" "[(''left'', JStr c), (''right'', JStr d)]" "''right''" b]
    by (simp add: node_value_def)
qed

text \<open>Walking back from the root: every hash on an accepted path is in the layer of its height.\<close>

lemma climb_back:
  assumes lay: "layered layers" "last layers = [rt]" "layers = l # ls"
    and bottom: "\<And>c. c \<in> set l \<Longrightarrow> \<exists>w\<in>set (tree_inputs document layers). digest w = Inr c \<and> (\<forall>a b. w \<noteq> node_value a b \<and> \<not> jequiv (node_value a b) w)"
    and climb: "climb cur steps = Inr (Some rt)"
  shows "(length steps < length layers \<and> cur \<in> set (rev layers ! length steps))
    \<or> (\<exists>a\<in>set (climb_values cur steps). \<exists>b\<in>set (tree_inputs document layers). collide a b)"
  using climb
proof (induction steps arbitrary: cur)
  case Nil
  have "layers \<noteq> []" using lay(3) by simp
  then have "rev layers ! 0 = last layers" by (metis hd_conv_nth hd_rev rev_is_Nil_conv)
  with Nil \<open>layers \<noteq> []\<close> lay(2) show ?case by simp
next
  case (Cons step r)
  from Cons.prems obtain d sib where d: "step = JDict d" "dget d ''hash'' = JStr sib"
    by (auto split: json.splits)
  let ?w = "if truthy (dget d ''left'') then node_value sib cur else node_value cur sib"
  from Cons.prems d obtain c where c: "digest ?w = Inr c" "climb c r = Inr (Some rt)"
    by (auto simp: merkle_node_def elim!: rbindE split: if_splits)
  have vals: "climb_values cur (step # r) = ?w # climb_values c r" using d c(1) by (simp add: Let_def)
  from Cons.IH [OF c(2)] show ?case
  proof
    assume c': "length r < length layers \<and> c \<in> set (rev layers ! length r)"
    let ?i = "length layers - Suc (length r)"
    have ci: "c \<in> set (layers ! ?i)" "?i < length layers" using c' by (auto simp: rev_nth)
    show ?thesis
    proof (cases ?i)
      case 0
      with ci lay(3) bottom [of c] obtain w where w: "w \<in> set (tree_inputs document layers)" "digest w = Inr c"
        "\<forall>a b. w \<noteq> node_value a b \<and> \<not> jequiv (node_value a b) w" by auto
      from c(1) w(2) have "collide ?w w"
        by (rule digest_inject) (use w(3) in \<open>auto split: if_splits\<close>)
      with w(1) vals show ?thesis by auto
    next
      case (Suc j)
      with ci layered_nth [OF lay(1), of j] have "pair_layer (layers ! j) = Inr (layers ! ?i)" by simp
      from pair_layer_origin [OF this ci(1)] obtain a b where ab: "digest (node_value a b) = Inr c"
        "node_value a b \<in> set (node_values (layers ! j))" "a \<in> set (layers ! j)" "b \<in> set (layers ! j)" by blast
      have j: "j < length layers" "length (step # r) < length layers" "rev layers ! length (step # r) = layers ! j"
      proof -
        have "length layers - Suc (Suc (length r)) = j" using Suc by simp
        then show "j < length layers" "length (step # r) < length layers" "rev layers ! length (step # r) = layers ! j"
          using Suc ci(2) by (auto simp: rev_nth)
      qed
      have t: "node_value a b \<in> set (tree_inputs document layers)"
        using ab(2) j(1) by (auto simp: tree_inputs_def intro!: bexI [of _ "layers ! j"])
      from c(1) ab(1) show ?thesis
      proof (rule digest_inject)
        assume "jequiv ?w (node_value a b)"
        then have "cur = a \<or> cur = b" using jequiv_leaf(6) by (auto split: if_splits)
        with ab(3,4) j show ?thesis by auto
      next
        assume "collide ?w (node_value a b)"
        with t vals show ?thesis by auto
      qed
    qed
  qed (use vals in auto)
qed

theorem verify_field_sound:
  assumes tree: "document_tree document = Inr (rt, layers)" and ok: "verify_field rt field v path = Inr True"
  shows "(\<exists>w. map_of document field = Some w \<and> jequiv v w)
    \<or> (\<exists>a\<in>set (path_inputs field v path). \<exists>b\<in>set (tree_inputs document layers). collide a b)"
proof -
  from tree obtain leaves where lv: "document_leaves document = Inr leaves" and bt: "build_tree leaves = Inr (rt, layers)"
    by (auto simp: document_tree_def elim!: rbindE)
  from ok obtain cur steps where cur: "merkle_leaf field v = Inr cur" and st: "py_iter path = Inr steps"
    and cl: "climb cur steps = Inr (Some rt)" by (auto simp: verify_field_def elim!: rbindE)
  have path: "path_inputs field v path = leaf_value field v # climb_values cur steps \<or> (\<exists>c r. steps = JStr c # r) \<or> steps = []"
  proof (cases path)
    case (JStr s)
    with st show ?thesis by (cases s) (auto simp: py_iter_def)
  next
    case (JDict d)
    with st show ?thesis by (cases d) (auto simp: py_iter_def)
  qed (use st cur in \<open>auto simp: path_inputs_def py_iter_def\<close>)
  then have path: "path_inputs field v path = leaf_value field v # climb_values cur steps \<or> steps = []"
    using cl by auto
  from bt obtain pad k ls where pad: "digest pad_value = Inr pad"
    and layers: "layers = (leaves @ replicate (2 ^ k - length leaves) pad) # ls" and lay: "layered layers" "last layers = [rt]"
    by (rule build_tree_cases)
  let ?l = "leaves @ replicate (2 ^ k - length leaves) pad"
  have leaf: "c \<in> set leaves \<Longrightarrow> \<exists>f w. map_of document f = Some w \<and> digest (leaf_value f w) = Inr c" for c
    using rmapM_set [OF lv [unfolded document_leaves_def]] by (fastforce simp: res_simps merkle_leaf_def)
  have orig: "(\<exists>f w. map_of document f = Some w \<and> digest (leaf_value f w) = Inr c) \<or> digest pad_value = Inr c"
    if "c \<in> set ?l" for c
    using that leaf pad by auto
  have leaf_in: "leaf_value f w \<in> set (tree_inputs document layers)" if "map_of document f = Some w" for f w
    using map_of_SomeD [OF that] by (force simp: tree_inputs_def)
  have pad_in: "pad_value \<in> set (tree_inputs document layers)" by (simp add: tree_inputs_def)
  have bottom: "\<exists>w\<in>set (tree_inputs document layers). digest w = Inr c \<and> (\<forall>a b. w \<noteq> node_value a b \<and> \<not> jequiv (node_value a b) w)"
    if "c \<in> set ?l" for c
    using orig [OF that]
  proof (elim disjE exE conjE)
    fix f w
    assume w: "map_of document f = Some w" "digest (leaf_value f w) = Inr c"
    have "leaf_value f w \<noteq> node_value a b" for a b by (simp add: leaf_value_def node_value_def)
    then show ?thesis using w(2) leaf_in [OF w(1)] jequiv_leaf(4) by blast
  next
    have "pad_value \<noteq> node_value a b" for a b by (simp add: pad_value_def node_value_def)
    then show "digest pad_value = Inr c \<Longrightarrow> ?thesis" using pad_in jequiv_leaf(5) by blast
  qed
  from climb_back [OF lay layers bottom cl] show ?thesis
  proof
    assume c': "length steps < length layers \<and> cur \<in> set (rev layers ! length steps)"
    let ?i = "length layers - Suc (length steps)"
    have ci: "cur \<in> set (layers ! ?i)" "?i < length layers" using c' by (auto simp: rev_nth)
    have dc: "digest (leaf_value field v) = Inr cur" using cur by (simp add: merkle_leaf_def)
    have first: "leaf_value field v \<in> set (path_inputs field v path)" by (simp add: path_inputs_def)
    show ?thesis
    proof (cases ?i)
      case 0
      with ci(1) layers have "cur \<in> set ?l" by simp
      from orig [OF this] show ?thesis
      proof (elim disjE exE conjE)
        fix f w
        assume w: "map_of document f = Some w" "digest (leaf_value f w) = Inr cur"
        from dc w(2) show ?thesis
          by (rule digest_inject) (use jequiv_leaf(1) w(1) leaf_in first in blast)+
      next
        assume "digest pad_value = Inr cur"
        with dc show ?thesis
          by (rule digest_inject) (use jequiv_leaf(3) pad_in first in blast)+
      qed
    next
      case (Suc j)
      with ci layered_nth [OF lay(1), of j] have "pair_layer (layers ! j) = Inr (layers ! ?i)" by simp
      from pair_layer_origin [OF this ci(1)] obtain a b where ab: "digest (node_value a b) = Inr cur"
        "node_value a b \<in> set (node_values (layers ! j))" by blast
      have "node_value a b \<in> set (tree_inputs document layers)"
        using ab(2) Suc ci(2) by (auto simp: tree_inputs_def intro!: bexI [of _ "layers ! j"])
      with dc ab(1) first jequiv_leaf(2) show ?thesis by (metis digest_inject)
    qed
  qed (use path in auto)
qed

end
