(* ===== verification/Distribution.thy ===== *)
theory Distribution
  imports Statement Revocation
begin

text \<open>
  \<open>distribution.py\<close>: one verified revocation bundle applied to the revocation lists of many
  gates, and the verification of the report. The lists are mutable objects that gates may share,
  so they live in a store (addresses to lists) and the gates are a dictionary of addresses.
\<close>

type_synonym list_store = "nat \<Rightarrow> revocation_list"
type_synonym gates = "(string \<times> nat) list"

section \<open>Applying a bundle\<close>

record gate_ack =
  ga_gate :: string
  ga_bundle :: json
  ga_applied :: bool
  ga_added :: int
  ga_already :: int
  ga_detail :: json

definition gate_ack_to_dict :: "gate_ack \<Rightarrow> dict" where
  "gate_ack_to_dict a =
     [(''gate_id'', JStr (ga_gate a)), (''bundle_id'', ga_bundle a), (''applied'', JBool (ga_applied a)),
      (''added_count'', JInt (ga_added a)), (''already_present'', JInt (ga_already a)),
      (''detail'', ga_detail a)]"

record distributor =
  rd_trusted :: "string list"
  rd_expected :: "string option"

text \<open>The loop over the entries for one gate, with its two counters.\<close>

fun apply_entries :: "revocation_list \<Rightarrow> revocation_entry list \<Rightarrow> int \<Rightarrow> int \<Rightarrow> revocation_list \<times> (int \<times> int) res" where
  "apply_entries m [] added already = (m, Inr (added, already))"
| "apply_entries m (e # es) added already =
     (case is_revoked m (JStr (re_id e)) of
        Inl x \<Rightarrow> (m, Inl x)
      | Inr True \<Rightarrow> apply_entries m es added (already + 1)
      | Inr False \<Rightarrow>
          (case revoke m (JStr (re_id e)) (re_reason e) (re_at e) of
             Inl x \<Rightarrow> (m, Inl x)
           | Inr (m', _) \<Rightarrow> apply_entries m' es (added + 1) already))"

fun distribute_gates :: "json \<Rightarrow> revocation_entry list \<Rightarrow> gates \<Rightarrow> list_store \<Rightarrow> list_store \<times> gate_ack list res" where
  "distribute_gates bid es [] h = (h, Inr [])"
| "distribute_gates bid es ((gate, addr) # r) h =
     (case apply_entries (h addr) es 0 0 of
        (m, Inl x) \<Rightarrow> (h(addr := m), Inl x)
      | (m, Inr (added, already)) \<Rightarrow>
          (case distribute_gates bid es r (h(addr := m)) of
             (h', acks) \<Rightarrow> (h', rbind acks (\<lambda>as. Inr
               (\<lparr>ga_gate = gate, ga_bundle = bid, ga_applied = True, ga_added = added,
                 ga_already = already, ga_detail = JNull\<rparr> # as)))))"

definition distribution_report :: "json \<Rightarrow> json \<Rightarrow> gate_ack list \<Rightarrow> dict" where
  "distribution_report bid version acks =
     [(''type'', JStr ''kinegrant:RevocationDistributionReport''), (''schema_version'', JStr ''0.1''),
      (''bundle_id'', bid), (''bundle_version'', version), (''overall_result'', JStr ''PASS''),
      (''summary'', JDict
         [(''gates'', JInt (int (length acks))),
          (''added_total'', JInt (sum_list (map ga_added acks))),
          (''already_present_total'', JInt (sum_list (map ga_already acks)))]),
      (''acks'', JList (map (\<lambda>a. JDict (gate_ack_to_dict a)) acks))]"

definition distribute ::
  "verifier \<Rightarrow> distributor \<Rightarrow> dict \<Rightarrow> gates \<Rightarrow> list_store \<Rightarrow> list_store \<times> dict res" where
  "distribute V d bundle gates h =
     (case verify_revocation_bundle V bundle (set_or_none (rd_trusted d)) (rd_expected d) of
        Inl x \<Rightarrow> (h, Inl x)
      | Inr revocations \<Rightarrow>
          (case verify_envelope V bundle of
             Inl x \<Rightarrow> (h, Inl x)
           | Inr p \<Rightarrow>
               (case distribute_gates (dget p ''bundle_id'') (rl_entries revocations) (sort_key fst gates) h of
                  (h', acks) \<Rightarrow> (h', rbind acks (\<lambda>as.
                    Inr (distribution_report (dget p ''bundle_id'') (dget p ''version'') as))))))"

section \<open>Verifying a report\<close>

definition check_ack :: "json \<Rightarrow> json \<Rightarrow> unit res" where
  "check_ack bid ack = (case ack of
      JDict a \<Rightarrow>
        if \<not> py_eq (dget a ''bundle_id'') bid then Inl (ValueError ''distribution ack references a different bundle'')
        else if dget a ''applied'' \<noteq> JBool True then Inl (ValueError ''distribution ack is not applied'')
        else if \<not> is_int_nb (dget a ''added_count'')
          then Inl (ValueError ''distribution ack added_count must be an integer'')
        else if \<not> is_int_nb (dget a ''already_present'')
          then Inl (ValueError ''distribution ack already_present must be an integer'')
        else Inr ()
    | _ \<Rightarrow> Inl (ValueError ''distribution report acks must be objects''))"

definition ack_sum :: "string \<Rightarrow> json list \<Rightarrow> int" where
  "ack_sum field acks = sum_list (map (\<lambda>a. the_int (dget (the_dict a) field)) acks)"

definition check_summary :: "json \<Rightarrow> json list \<Rightarrow> unit res" where
  "check_summary summary acks = (case summary of
      JDict s \<Rightarrow>
        if \<not> py_eq (dget s ''gates'') (JInt (int (length acks)))
          then Inl (ValueError ''distribution report gate count is inconsistent'')
        else if \<not> py_eq (dget s ''added_total'') (JInt (ack_sum ''added_count'' acks))
          then Inl (ValueError ''distribution report added_total is inconsistent'')
        else if \<not> py_eq (dget s ''already_present_total'') (JInt (ack_sum ''already_present'' acks))
          then Inl (ValueError ''distribution report already_present_total is inconsistent'')
        else Inr ()
    | _ \<Rightarrow> Inl (ValueError ''distribution report summary must be an object''))"

definition verify_distribution_report ::
  "verifier \<Rightarrow> json \<Rightarrow> dict \<Rightarrow> string list option \<Rightarrow> dict res" where
  "verify_distribution_report V report bundle trusted = (case report of
      JDict r \<Rightarrow>
        if dget r ''type'' \<noteq> JStr ''kinegrant:RevocationDistributionReport''
          then Inl (ValueError ''wrong distribution report type'')
        else if dget r ''schema_version'' \<noteq> JStr ''0.1''
          then Inl (ValueError ''unsupported distribution report version'')
        else if dget r ''overall_result'' \<noteq> JStr ''PASS'' then Inl (ValueError ''distribution report is not PASS'')
        else
        rbind (verify_revocation_bundle V bundle trusted None) (\<lambda>_.
        rbind (verify_envelope V bundle) (\<lambda>p.
        if \<not> py_eq (dget r ''bundle_id'') (dget p ''bundle_id'')
          then Inl (ValueError ''distribution report references a different bundle'')
        else if \<not> py_eq (dget r ''bundle_version'') (dget p ''version'')
          then Inl (ValueError ''distribution report references a different bundle version'')
        else case dget r ''acks'' of
          JList acks \<Rightarrow>
            rbind (rforeach (check_ack (dget p ''bundle_id'')) acks) (\<lambda>_.
            rbind (check_summary (dget r ''summary'') acks) (\<lambda>_. Inr r))
        | _ \<Rightarrow> Inl (ValueError ''distribution report acks must be an array'')))
    | _ \<Rightarrow> Inl (ValueError ''distribution report must be an object''))"

section \<open>Effect on the gates\<close>

lemma revoke_entry: "entry_ok e \<Longrightarrow> revoke m (JStr (re_id e)) (re_reason e) (re_at e) = Inr (rl_add m e, e)"
  by (cases e) (auto simp: revoke_def revocation_entry_init_def entry_ok_def)

definition ids :: "revocation_list \<Rightarrow> string set" where
  "ids m = fst ` set m"

lemma ids_rl_add [simp]: "ids (rl_add m e) = insert (re_id e) (ids m)"
  by (simp add: ids_def fst_set_rl_add)

lemma apply_entries_spec:
  "list_all entry_ok es \<Longrightarrow> \<exists>m' a' b'. apply_entries m es a b = (m', Inr (a', b')) \<and> ids m' = ids m \<union> re_id ` set es
     \<and> a' + b' = a + b + int (length es) \<and> (re_id ` set es \<subseteq> ids m \<longrightarrow> m' = m \<and> a' = a) \<and> (rl_inv m \<longrightarrow> rl_inv m')"
proof (induction es arbitrary: m a b)
  case (Cons e es)
  show ?case
  proof (cases "re_id e \<in> ids m")
    case True
    from Cons.IH [of m a "b + 1"] Cons.prems obtain m' a' b' where
      *: "apply_entries m es a (b + 1) = (m', Inr (a', b'))" "ids m' = ids m \<union> re_id ` set es"
      "a' + b' = a + (b + 1) + int (length es)" "re_id ` set es \<subseteq> ids m \<longrightarrow> m' = m \<and> a' = a" "rl_inv m \<longrightarrow> rl_inv m'"
      by (metis list.pred_inject(2))
    have "apply_entries m (e # es) a b = (m', Inr (a', b'))" using *(1) True by (simp add: ids_def)
    moreover have "ids m' = ids m \<union> re_id ` set (e # es)" using *(2) True by auto
    ultimately show ?thesis using *(3-5) by (intro exI [of _ m'] exI [of _ a'] exI [of _ b']) auto
  next
    case False
    from Cons.prems have e: "entry_ok e" by simp
    from Cons.IH [of "rl_add m e" "a + 1" b] Cons.prems obtain m' a' b' where
      *: "apply_entries (rl_add m e) es (a + 1) b = (m', Inr (a', b'))" "ids m' = insert (re_id e) (ids m) \<union> re_id ` set es"
      "a' + b' = a + 1 + b + int (length es)" "rl_inv (rl_add m e) \<longrightarrow> rl_inv m'"
      by (metis list.pred_inject(2) ids_rl_add)
    from False have "apply_entries m (e # es) a b = (m', Inr (a', b'))"
      using *(1) by (simp add: revoke_entry [OF e] ids_def)
    with * False rl_add_inv [OF _ e] show ?thesis by auto
  qed
qed simp

definition gate_ids :: "list_store \<Rightarrow> gates \<Rightarrow> string \<Rightarrow> string set" where
  "gate_ids h gates g = (case map_of gates g of None \<Rightarrow> {} | Some addr \<Rightarrow> ids (h addr))"

lemma distribute_gates_spec:
  assumes "list_all entry_ok es"
  shows "\<exists>h' acks. distribute_gates bid es gs h = (h', Inr acks) \<and> map ga_gate acks = map fst gs
     \<and> (\<forall>addr. ids (h' addr) = (if addr \<in> snd ` set gs then ids (h addr) \<union> re_id ` set es else ids (h addr)))
     \<and> (\<forall>addr. addr \<notin> snd ` set gs \<longrightarrow> h' addr = h addr)
     \<and> (\<forall>a\<in>set acks. ga_applied a \<and> ga_bundle a = bid \<and> ga_added a + ga_already a = int (length es))
     \<and> ((\<forall>addr\<in>snd ` set gs. re_id ` set es \<subseteq> ids (h addr)) \<longrightarrow> h' = h \<and> (\<forall>a\<in>set acks. ga_added a = 0))"
proof (induction gs arbitrary: h)
  case (Cons g gs)
  obtain gate addr where g: "g = (gate, addr)" by (cases g)
  obtain m a b where m: "apply_entries (h addr) es 0 0 = (m, Inr (a, b))" "ids m = ids (h addr) \<union> re_id ` set es"
    "a + b = int (length es)" "re_id ` set es \<subseteq> ids (h addr) \<longrightarrow> m = h addr \<and> a = 0"
    using apply_entries_spec [OF assms, of "h addr" 0 0] by (metis add_0)
  from Cons.IH [of "h(addr := m)"] obtain h' acks where
    IH: "distribute_gates bid es gs (h(addr := m)) = (h', Inr acks)" "map ga_gate acks = map fst gs"
    "\<forall>x. ids (h' x) = (if x \<in> snd ` set gs then ids ((h(addr := m)) x) \<union> re_id ` set es else ids ((h(addr := m)) x))"
    "\<forall>x. x \<notin> snd ` set gs \<longrightarrow> h' x = (h(addr := m)) x"
    "\<forall>a\<in>set acks. ga_applied a \<and> ga_bundle a = bid \<and> ga_added a + ga_already a = int (length es)"
    "(\<forall>x\<in>snd ` set gs. re_id ` set es \<subseteq> ids ((h(addr := m)) x)) \<longrightarrow> h' = h(addr := m) \<and> (\<forall>a\<in>set acks. ga_added a = 0)"
    by blast
  let ?a = "\<lparr>ga_gate = gate, ga_bundle = bid, ga_applied = True, ga_added = a, ga_already = b, ga_detail = JNull\<rparr>"
  have "distribute_gates bid es (g # gs) h = (h', Inr (?a # acks))" using m(1) IH(1) by (simp add: g)
  moreover have "\<forall>x. ids (h' x) = (if x \<in> snd ` set (g # gs) then ids (h x) \<union> re_id ` set es else ids (h x))"
    using IH(3) m(2) g by auto
  moreover have "\<forall>x. x \<notin> snd ` set (g # gs) \<longrightarrow> h' x = h x" using IH(4) g by auto
  moreover have "h' = h \<and> a = 0 \<and> (\<forall>a\<in>set acks. ga_added a = 0)" if "\<forall>x\<in>snd ` set (g # gs). re_id ` set es \<subseteq> ids (h x)"
  proof -
    have "m = h addr" "a = 0" using that m(4) g by auto
    then have "h(addr := m) = h" by simp
    with IH(6) that \<open>a = 0\<close> show ?thesis by auto
  qed
  ultimately show ?case using IH(2,5) m(3) g
    by (intro exI [of _ h'] exI [of _ "?a # acks"]) auto
qed simp

text \<open>The entries of a verified bundle are well-formed.\<close>

lemma verified_entries_ok:
  assumes "verify_revocation_bundle V env trusted expected = Inr m"
  shows "rl_inv m \<and> list_all entry_ok (rl_entries m)"
proof -
  from assms obtain rs es where es: "rmapM revocation_entry_from_dict rs = Inr es" and m: "m = revocation_list_init es"
    by (rule verify_revocation_bundleD) blast
  have ok: "entry_ok e" if "e \<in> set es" for e
  proof -
    from rmapM_set [OF es that] obtain x where "revocation_entry_from_dict x = Inr e" by blast
    then show ?thesis
      by (cases x) (auto simp: revocation_entry_from_dict_def res_simps intro: revocation_entry_init_ok)
  qed
  have "rl_inv (foldl rl_add m0 es)" if "rl_inv m0" "\<forall>e\<in>set es. entry_ok e" for m0
    using that by (induction es arbitrary: m0) (auto simp: rl_add_inv)
  with ok have "rl_inv m" unfolding m revocation_list_init_def by simp
  then show ?thesis using rl_inv_map by (auto simp: list_all_iff)
qed

lemma verify_without_expectation:
  "verify_revocation_bundle V env trusted expected = Inr m \<Longrightarrow> verify_revocation_bundle V env trusted None = Inr m"
  unfolding verify_revocation_bundle_def by (elim res_elims) simp

lemma distribute_cases:
  assumes "distribute V d bundle gates h = (h', r)"
  obtains (refused) x where "verify_revocation_bundle V bundle (set_or_none (rd_trusted d)) (rd_expected d) = Inl x"
      "h' = h" "r = Inl x"
  | (applied) m p acks where "verify_revocation_bundle V bundle (set_or_none (rd_trusted d)) (rd_expected d) = Inr m"
      "verify_envelope V bundle = Inr p" "list_all entry_ok (rl_entries m)"
      "distribute_gates (dget p ''bundle_id'') (rl_entries m) (sort_key fst gates) h = (h', Inr acks)"
      "r = Inr (distribution_report (dget p ''bundle_id'') (dget p ''version'') acks)"
proof (cases "verify_revocation_bundle V bundle (set_or_none (rd_trusted d)) (rd_expected d)")
  case (Inl x)
  with assms refused show thesis by (simp add: distribute_def)
next
  case (Inr m)
  note ok = verified_entries_ok [OF Inr]
  obtain p where p: "verify_envelope V bundle = Inr p" using Inr by (rule verify_revocation_bundleD)
  obtain h1 acks where d: "distribute_gates (dget p ''bundle_id'') (rl_entries m) (sort_key fst gates) h = (h1, Inr acks)"
    using distribute_gates_spec ok by blast
  show thesis using applied [OF Inr p _ _ _] ok d assms by (simp add: distribute_def Inr p)
qed

lemma re_id_entries: "rl_inv m \<Longrightarrow> re_id ` set (rl_entries m) = ids m"
  by (force simp: rl_inv_def rl_entries_def ids_def image_iff)

text \<open>
  After a distribution every gate has exactly the ids it had and those of the bundle; a list no
  gate refers to is untouched; a bundle that does not verify touches nothing.
\<close>

theorem distribute_effect:
  assumes "distribute V d bundle gates h = (h', Inr report)"
  shows "\<exists>m. verify_revocation_bundle V bundle (set_or_none (rd_trusted d)) (rd_expected d) = Inr m
    \<and> (\<forall>addr. ids (h' addr) = (if addr \<in> snd ` set gates then ids (h addr) \<union> ids m else ids (h addr)))
    \<and> (\<forall>addr. addr \<notin> snd ` set gates \<longrightarrow> h' addr = h addr)"
  using assms
proof (cases rule: distribute_cases)
  case (applied m p acks)
  have "re_id ` set (rl_entries m) = ids m" using verified_entries_ok [OF applied(1)] re_id_entries by blast
  with distribute_gates_spec [OF applied(3), of "dget p ''bundle_id''" "sort_key fst gates" h] applied(1,4)
  show ?thesis by auto
qed simp

theorem distribute_fail_closed:
  "distribute V d bundle gates h = (h', Inl x) \<Longrightarrow> h' = h"
  by (erule distribute_cases) auto

text \<open>Applying the same bundle again changes nothing and adds nothing.\<close>

theorem distribute_idempotent:
  assumes "distribute V d bundle gates h = (h', Inr report)"
  shows "\<exists>report'. distribute V d bundle gates h' = (h', Inr report')
    \<and> dget (the_dict (dget report' ''summary'')) ''added_total'' = JInt 0"
  using assms
proof (cases rule: distribute_cases)
  case (applied m p acks)
  let ?bid = "dget p ''bundle_id''" and ?es = "rl_entries m" and ?gs = "sort_key fst gates"
  have "\<forall>addr\<in>snd ` set ?gs. re_id ` set ?es \<subseteq> ids (h' addr)"
    using distribute_gates_spec [OF applied(3), of ?bid ?gs h] applied(4) by auto
  with distribute_gates_spec [OF applied(3), of ?bid ?gs h'] obtain acks' where
    "distribute_gates ?bid ?es ?gs h' = (h', Inr acks')" "\<forall>a\<in>set acks'. ga_added a = 0" by blast
  moreover from this(2) have "sum_list (map ga_added acks') = 0" by (simp add: sum_list_0 cong: map_cong)
  ultimately show ?thesis using applied(1,2) by (simp add: distribute_def distribution_report_def)
qed simp

text \<open>The report of a distribution verifies against its bundle.\<close>

theorem distribution_report_verifies:
  assumes "distribute V d bundle gates h = (h', Inr report)"
  shows "verify_distribution_report V (JDict report) bundle (set_or_none (rd_trusted d)) = Inr report"
  using assms
proof (cases rule: distribute_cases)
  case (applied m p acks)
  let ?bid = "dget p ''bundle_id''" and ?ds = "map (\<lambda>a. JDict (gate_ack_to_dict a)) acks"
  obtain p' cid where cid: "verify_envelope V bundle = Inr p'" "dget p' ''bundle_id'' = JStr cid"
    using applied(1) by (rule verify_revocation_bundleD)
  from applied(1,2) have "valid_version (dget p ''version'')"
    unfolding verify_revocation_bundle_def by (elim res_elims) simp
  then obtain n where v: "dget p ''version'' = JInt n" by (auto simp: valid_version_def is_int_nb_iff)
  have b: "?bid = JStr cid" using cid applied(2) by simp
  have acks: "rforeach (check_ack ?bid) ?ds = Inr ()"
    using distribute_gates_spec [OF applied(3), of ?bid "sort_key fst gates" h] applied(4)
    by (auto simp: res_simps check_ack_def gate_ack_to_dict_def b)
  have sums: "ack_sum ''added_count'' ?ds = sum_list (map ga_added acks)" "ack_sum ''already_present'' ?ds = sum_list (map ga_already acks)"
    by (simp_all add: ack_sum_def gate_ack_to_dict_def comp_def)
  have r: "report = distribution_report ?bid (dget p ''version'') acks" using applied(5) by simp
  show ?thesis
    unfolding r using verify_without_expectation [OF applied(1)] applied(2) acks sums
    by (simp add: verify_distribution_report_def distribution_report_def check_summary_def v b)
qed simp

interpretation revocation_bundle: signed_statement
  "\<lambda>V env (trusted, expected). verify_revocation_bundle V env trusted expected"
  "''kinegrant:revocation-bundle''" "''bundle_id''" "''issuer''"
  by unfold_locales
    (auto elim!: verify_revocation_bundleD simp: content_addressed_def statement_body_def split: prod.splits)

end
