(* ===== verification/PolicyDistribution.thy ===== *)
theory PolicyDistribution
  imports PolicyRegistry
begin

text \<open>
  \<open>policy_bundle.py\<close>, third part: \<open>PolicyAuthority\<close>, which publishes linked versions, and
  \<open>PolicyDistributor\<close>, which applies one bundle to many registries, with the verification of
  its report. The registries live in a store, as gates may share one.
\<close>

section \<open>The authority\<close>

record policy_authority =
  pa_key :: key_pair
  pa_last :: "(string \<times> dict) list"

definition authority_init :: "key_pair \<Rightarrow> policy_authority" where
  "authority_init k = \<lparr>pa_key = k, pa_last = []\<rparr>"

definition next_version :: "dict option \<Rightarrow> json \<Rightarrow> json" where
  "next_version lst version =
     (if version = JNull then (case lst of None \<Rightarrow> JInt 1 | Some b \<Rightarrow> JInt (the_int (dget b ''version'') + 1))
      else version)"

definition next_previous :: "dict option \<Rightarrow> json \<Rightarrow> json" where
  "next_previous lst previous =
     (if previous = JNull then (case lst of None \<Rightarrow> JNull | Some b \<Rightarrow> dget b ''policy_digest'') else previous)"

definition expiry :: "datetime option \<Rightarrow> datetime option \<Rightarrow> int option \<Rightarrow> datetime \<Rightarrow> datetime res" where
  "expiry not_before not_after ttl now = (case not_after of
      Some t \<Rightarrow> Inr t
    | None \<Rightarrow> (case ttl of
        None \<Rightarrow> Inl (ValueError ''not_after or ttl_seconds is required'')
      | Some s \<Rightarrow> rbind (timedelta_seconds s) (dt_add (case not_before of None \<Rightarrow> now | Some t \<Rightarrow> t))))"

definition publish ::
  "policy_authority \<Rightarrow> string \<Rightarrow> policy_rule list \<Rightarrow> json \<Rightarrow> json \<Rightarrow> datetime \<Rightarrow> datetime option
    \<Rightarrow> datetime option \<Rightarrow> int option \<Rightarrow> policy_authority \<times> dict res" where
  "publish a policy rules version previous now not_before not_after ttl =
     (let lst = map_of (pa_last a) policy;
          r = rbind (expiry not_before not_after ttl now) (\<lambda>upper.
              rbind (build_policy_bundle (JStr policy) rules (JStr (kid (pa_key a))) (next_version lst version)
                       (next_previous lst previous) now not_before (Some upper)) (\<lambda>body.
              rbind (sign_policy_bundle body (pa_key a)) (\<lambda>env. Inr (body, env))))
      in case r of
           Inl x \<Rightarrow> (a, Inl x)
         | Inr (body, env) \<Rightarrow> (a\<lparr>pa_last := dset (pa_last a) policy body\<rparr>, Inr env))"

definition revoke_latest ::
  "policy_authority \<Rightarrow> policy_registry \<Rightarrow> string \<Rightarrow> json \<Rightarrow> datetime \<Rightarrow> policy_registry \<times> policy_revocation res" where
  "revoke_latest a g policy reason now = (case map_of (pa_last a) policy of
      None \<Rightarrow> (g, Inl (ValueError ''no published version to revoke''))
    | Some b \<Rightarrow> policy_revoke g (JStr policy) (dget b ''version'') reason now)"

text \<open>What was published last: the body of the last release of every policy.\<close>

definition authority_ok :: "policy_authority \<Rightarrow> bool" where
  "authority_ok a \<longleftrightarrow> (\<forall>policy b. map_of (pa_last a) policy = Some b \<longrightarrow>
     (\<exists>n\<ge>1. dget b ''version'' = JInt n) \<and> (\<exists>d. dget b ''policy_digest'' = JStr d \<and> is_sha256_text d))"

lemma authority_init_ok: "authority_ok (authority_init k)"
  by (simp add: authority_ok_def authority_init_def)

lemma publishD:
  assumes "publish a policy rules version previous now nb na ttl = (a', Inr env)"
  obtains upper body where "expiry nb na ttl now = Inr upper"
    "build_policy_bundle (JStr policy) rules (JStr (kid (pa_key a))) (next_version (map_of (pa_last a) policy) version)
       (next_previous (map_of (pa_last a) policy) previous) now nb (Some upper) = Inr body"
    "sign_policy_bundle body (pa_key a) = Inr env" "a' = a\<lparr>pa_last := dset (pa_last a) policy body\<rparr>"
  using assms by (auto simp: publish_def Let_def elim!: rbindE split: sum.splits)

text \<open>
  A release without explicit version and predecessor has the next version number and carries the
  digest of the rules of the release before it.
\<close>

theorem publish_links:
  assumes "authority_ok a" "publish a policy rules JNull JNull now nb na ttl = (a', Inr env)"
  shows "authority_ok a' \<and> (\<exists>b. map_of (pa_last a') policy = Some b \<and> dget env ''payload'' = JDict b
    \<and> dget b ''policy_id'' = JStr policy \<and> dget b ''rules'' = JList (map rule_json rules)
    \<and> (case map_of (pa_last a) policy of
         None \<Rightarrow> dget b ''version'' = JInt 1 \<and> dget b ''previous_version_digest'' = JNull
       | Some c \<Rightarrow> dget b ''version'' = JInt (the_int (dget c ''version'') + 1)
           \<and> dget b ''previous_version_digest'' = dget c ''policy_digest''))"
proof -
  from assms(2) obtain upper body where
    b: "build_policy_bundle (JStr policy) rules (JStr (kid (pa_key a))) (next_version (map_of (pa_last a) policy) JNull)
       (next_previous (map_of (pa_last a) policy) JNull) now nb (Some upper) = Inr body"
    and s: "sign_policy_bundle body (pa_key a) = Inr env" and a': "a' = a\<lparr>pa_last := dset (pa_last a) policy body\<rparr>"
    by (rule publishD)
  from b obtain issued lo up pd cid where
    body: "body = bundle_body (JStr policy) (JStr (kid (pa_key a))) (next_version (map_of (pa_last a) policy) JNull)
       (next_previous (map_of (pa_last a) policy) JNull) issued lo up (map rule_json rules)
           @ [(''policy_digest'', JStr pd), (''bundle_id'', JStr cid)]"
    and v: "valid_version (next_version (map_of (pa_last a) policy) JNull)"
    and pd: "rules_digest (JList (map rule_json rules)) = Inr pd"
    by (rule build_policy_bundleD) blast
  have f: "dget body ''policy_id'' = JStr policy" "dget body ''rules'' = JList (map rule_json rules)"
    "dget body ''version'' = next_version (map_of (pa_last a) policy) JNull"
    "dget body ''previous_version_digest'' = next_previous (map_of (pa_last a) policy) JNull"
    "dget body ''policy_digest'' = JStr pd" "dget body ''type'' = JStr ''kinegrant:PolicyBundle''"
    unfolding body by (simp_all add: bundle_body_def)
  have env: "dget env ''payload'' = JDict body"
    using s f(6) by (auto simp: sign_policy_bundle_def sign_envelope_def protected_dict_def Let_def elim!: rbindE)
  have "is_sha256_text pd" using pd digest_shape by (simp add: rules_digest_def)
  moreover obtain n where "n \<ge> 1" "dget body ''version'' = JInt n"
    using v f(3) by (auto simp: valid_version_def is_int_nb_iff)
  ultimately have "authority_ok a'"
    using assms(1) f(5) unfolding authority_ok_def a' by (auto simp: map_of_dset)
  moreover have "map_of (pa_last a') policy = Some body" by (simp add: a' map_of_dset)
  ultimately show ?thesis
    using env f by (auto simp: next_version_def next_previous_def split: option.splits)
qed

section \<open>The distributor\<close>

type_synonym registry_store = "nat \<Rightarrow> policy_registry"

record policy_ack =
  pk_gate :: string
  pk_policy :: json
  pk_bundle :: json
  pk_applied :: bool
  pk_before :: json
  pk_after :: json
  pk_detail :: string

definition policy_ack_to_dict :: "policy_ack \<Rightarrow> dict" where
  "policy_ack_to_dict a =
     [(''gate_id'', JStr (pk_gate a)), (''policy_id'', pk_policy a), (''bundle_id'', pk_bundle a),
      (''applied'', JBool (pk_applied a)), (''current_before'', pk_before a),
      (''current_after'', pk_after a), (''detail'', JStr (pk_detail a))]"

text \<open>\<open>current["version"] if current is not None else None\<close>\<close>

definition version_of :: "dict option \<Rightarrow> json res" where
  "version_of c = (case c of None \<Rightarrow> Inr JNull | Some p \<Rightarrow> dindex p ''version'')"

text \<open>\<open>v is not None and v >= version\<close> for an integer \<open>version\<close>.\<close>

definition at_least :: "json \<Rightarrow> json \<Rightarrow> bool res" where
  "at_least v version =
     (if v = JNull then Inr False
      else rbind (py_greater v version) (\<lambda>g. Inr (g \<or> py_eq v version)))"

text \<open>One round of the loop, on the registry of one gate.\<close>

definition apply_policy ::
  "verifier \<Rightarrow> dict \<Rightarrow> string \<Rightarrow> json \<Rightarrow> json \<Rightarrow> datetime \<Rightarrow> string \<Rightarrow> policy_registry \<Rightarrow> policy_registry \<times> policy_ack res" where
  "apply_policy V bundle policy version bid now gate g =
     (case rbind (current g policy now) (\<lambda>c. rbind (version_of c) (\<lambda>v.
             rbind (at_least v version) (\<lambda>skip. Inr (v, skip)))) of
        Inl x \<Rightarrow> (g, Inl x)
      | Inr (v, True) \<Rightarrow>
          (g, Inr \<lparr>pk_gate = gate, pk_policy = JStr policy, pk_bundle = bid, pk_applied = False,
                   pk_before = v, pk_after = v, pk_detail = ''already at a current version''\<rparr>)
      | Inr (v, False) \<Rightarrow>
          (case activate V g bundle now of
             (g', Inl x) \<Rightarrow> (g', Inl x)
           | (g', Inr _) \<Rightarrow>
               (g', rbind (current g' policy now) (\<lambda>c. rbind (version_of c) (\<lambda>w.
                  Inr \<lparr>pk_gate = gate, pk_policy = JStr policy, pk_bundle = bid, pk_applied = True,
                       pk_before = v, pk_after = w, pk_detail = ''policy bundle activated''\<rparr>)))))"

fun apply_policies ::
  "verifier \<Rightarrow> dict \<Rightarrow> string \<Rightarrow> json \<Rightarrow> json \<Rightarrow> datetime \<Rightarrow> (string \<times> nat) list \<Rightarrow> registry_store
    \<Rightarrow> registry_store \<times> policy_ack list res" where
  "apply_policies V bundle policy version bid now [] h = (h, Inr [])"
| "apply_policies V bundle policy version bid now ((gate, addr) # r) h =
     (case apply_policy V bundle policy version bid now gate (h addr) of
        (g, Inl x) \<Rightarrow> (h(addr := g), Inl x)
      | (g, Inr a) \<Rightarrow>
          (case apply_policies V bundle policy version bid now r (h(addr := g)) of
             (h', as) \<Rightarrow> (h', rbind as (\<lambda>l. Inr (a # l)))))"

definition policy_distribution_report :: "json \<Rightarrow> json \<Rightarrow> json \<Rightarrow> policy_ack list \<Rightarrow> dict" where
  "policy_distribution_report policy bid version acks =
     [(''type'', JStr ''kinegrant:PolicyDistributionReport''), (''schema_version'', JStr ''0.1''),
      (''policy_id'', policy), (''bundle_id'', bid), (''bundle_version'', version),
      (''overall_result'', JStr ''PASS''),
      (''summary'', JDict
         [(''registries'', JInt (int (length acks))),
          (''applied_total'', JInt (int (length (filter pk_applied acks)))),
          (''already_present_total'', JInt (int (length (filter (\<lambda>a. \<not> pk_applied a) acks))))]),
      (''acks'', JList (map (\<lambda>a. JDict (policy_ack_to_dict a)) acks))]"

definition distribute_policy ::
  "verifier \<Rightarrow> string list \<Rightarrow> dict \<Rightarrow> (string \<times> nat) list \<Rightarrow> registry_store \<Rightarrow> datetime \<Rightarrow> registry_store \<times> dict res" where
  "distribute_policy V trusted bundle registries h now =
     (case rbind (verify_policy_bundle V bundle (set_or_none trusted) None now) (\<lambda>p.
             rbind (dindex p ''bundle_id'') (\<lambda>bid. Inr (p, bid))) of
        Inl x \<Rightarrow> (h, Inl x)
      | Inr (p, bid) \<Rightarrow>
          (case apply_policies V bundle (the_str (dget p ''policy_id'')) (dget p ''version'') bid now
                  (sort_key fst registries) h of
             (h', acks) \<Rightarrow> (h', rbind acks (\<lambda>as.
               Inr (policy_distribution_report (dget p ''policy_id'') bid (dget p ''version'') as)))))"

section \<open>Verifying the report\<close>

definition check_policy_ack :: "json \<Rightarrow> json \<Rightarrow> json \<Rightarrow> unit res" where
  "check_policy_ack policy bid ack = (case ack of
      JDict a \<Rightarrow>
        if \<not> nonempty_str (dget a ''gate_id'') then Inl (ValueError ''acknowledgement gate_id is invalid'')
        else if \<not> py_eq (dget a ''policy_id'') policy \<or> \<not> py_eq (dget a ''bundle_id'') bid
          then Inl (ValueError ''acknowledgement references a different bundle'')
        else if \<not> is_bool (dget a ''applied'') then Inl (ValueError ''acknowledgement applied flag is invalid'')
        else Inr ()
    | _ \<Rightarrow> Inl (ValueError ''each acknowledgement must be an object''))"

definition applied_acks :: "json list \<Rightarrow> json list" where
  "applied_acks acks = filter (\<lambda>a. truthy (dget (the_dict a) ''applied'')) acks"

definition check_policy_summary :: "json \<Rightarrow> json list \<Rightarrow> unit res" where
  "check_policy_summary summary acks = (case summary of
      JDict s \<Rightarrow>
        if \<not> py_eq (dget s ''registries'') (JInt (int (length acks)))
          \<or> \<not> py_eq (dget s ''applied_total'') (JInt (int (length (applied_acks acks))))
          \<or> \<not> py_eq (dget s ''already_present_total'') (JInt (int (length acks) - int (length (applied_acks acks))))
        then Inl (ValueError ''policy distribution report summary is inconsistent'') else Inr ()
    | _ \<Rightarrow> Inl (ValueError ''policy distribution report summary is invalid''))"

definition verify_policy_distribution_report ::
  "verifier \<Rightarrow> json \<Rightarrow> dict \<Rightarrow> string list option \<Rightarrow> datetime \<Rightarrow> dict res" where
  "verify_policy_distribution_report V report bundle trusted now = (case report of
      JDict r \<Rightarrow>
        if dget r ''type'' \<noteq> JStr ''kinegrant:PolicyDistributionReport''
          then Inl (ValueError ''wrong policy distribution report type'')
        else if dget r ''schema_version'' \<noteq> JStr ''0.1''
          then Inl (ValueError ''unsupported policy distribution report version'')
        else if dget r ''overall_result'' \<noteq> JStr ''PASS''
          then Inl (ValueError ''policy distribution report is not PASS'')
        else
        rbind (verify_policy_bundle V bundle trusted None now) (\<lambda>p.
        rbind (dindex p ''bundle_id'') (\<lambda>bid.
        if \<not> py_eq (dget r ''policy_id'') (dget p ''policy_id'')
          then Inl (ValueError ''policy distribution report references a different policy'')
        else if \<not> py_eq (dget r ''bundle_id'') bid
          then Inl (ValueError ''policy distribution report references a different bundle'')
        else if \<not> py_eq (dget r ''bundle_version'') (dget p ''version'')
          then Inl (ValueError ''policy distribution report references a different version'')
        else case dget r ''acks'' of
          JList acks \<Rightarrow>
            if acks = [] then Inl (ValueError ''policy distribution report has no acknowledgements'')
            else
            rbind (rforeach (check_policy_ack (dget p ''policy_id'') bid) acks) (\<lambda>_.
            rbind (check_policy_summary (dget r ''summary'') acks) (\<lambda>_. Inr r))
        | _ \<Rightarrow> Inl (ValueError ''policy distribution report has no acknowledgements'')))
    | _ \<Rightarrow> Inl (ValueError ''policy distribution report must be an object''))"

section \<open>No downgrade\<close>

lemma apply_policy_cases:
  assumes "apply_policy V bundle policy version bid now gate g = (g', r)"
  obtains (same) "g' = g" | (active) s where "activate V g bundle now = (g', s)"
  using assms by (auto simp: apply_policy_def split: sum.splits prod.splits bool.splits)

definition version_le :: "int option \<Rightarrow> int option \<Rightarrow> bool" where
  "version_le a b \<longleftrightarrow> (\<forall>v. a = Some v \<longrightarrow> (\<exists>w\<ge>v. b = Some w))"

lemma version_le_refl [simp]: "version_le a a"
  by (auto simp: version_le_def)

lemma version_le_trans: "version_le a b \<Longrightarrow> version_le b c \<Longrightarrow> version_le a c"
  unfolding version_le_def by (metis order.trans)

lemma apply_policy_step:
  assumes "registry_ok V g" "apply_policy V bundle policy version bid now gate g = (g', r)"
  shows "registry_ok V g'" and "\<not> naive t \<Longrightarrow> version_le (current_version g pid t) (current_version g' pid t)"
proof -
  show "registry_ok V g'" using assms(2) by (rule apply_policy_cases) (use assms(1) activate_ok in auto)
  show "version_le (current_version g pid t) (current_version g' pid t)" if "\<not> naive t"
    using assms(2)
  proof (rule apply_policy_cases)
    fix s
    assume "activate V g bundle now = (g', s)"
    from activate_monotone [OF assms(1) this that] show ?thesis by (auto simp: version_le_def)
  qed simp
qed

lemma apply_policies_step:
  assumes "\<forall>addr. registry_ok V (h addr)" "apply_policies V bundle policy version bid now gs h = (h', r)"
  shows "(\<forall>addr. registry_ok V (h' addr)) \<and> (\<not> naive t \<longrightarrow> version_le (current_version (h addr) pid t) (current_version (h' addr) pid t))"
  using assms
proof (induction gs arbitrary: h r)
  case (Cons x gs)
  obtain gate a where x: "x = (gate, a)" by (cases x)
  obtain g s where g: "apply_policy V bundle policy version bid now gate (h a) = (g, s)" by fastforce
  have ok: "registry_ok V (h a)" using Cons.prems(1) by blast
  note step = apply_policy_step [OF ok g]
  have ok': "\<forall>addr. registry_ok V ((h(a := g)) addr)" using Cons.prems(1) step(1) by simp
  have le: "\<not> naive t \<Longrightarrow> version_le (current_version (h addr) pid t) (current_version ((h(a := g)) addr) pid t)"
    using step(2) by simp
  show ?case
  proof (cases s)
    case (Inl e)
    with Cons.prems(2) x g have "h' = h(a := g)" by simp
    with ok' le show ?thesis by blast
  next
    case (Inr ack)
    with Cons.prems(2) x g obtain r' where "apply_policies V bundle policy version bid now gs (h(a := g)) = (h', r')"
      by (auto split: prod.splits)
    from Cons.IH [OF ok' this] le show ?thesis using version_le_trans by blast
  qed
qed auto

text \<open>
  Whatever the outcome of a distribution, an exception in its middle included, no registry
  answers with a lower version than before, and all keep only verified payloads.
\<close>

theorem distribute_policy_no_downgrade:
  assumes "\<forall>addr. registry_ok V (h addr)" "distribute_policy V trusted bundle registries h now = (h', r)" "\<not> naive t"
  shows "registry_ok V (h' addr) \<and> version_le (current_version (h addr) pid t) (current_version (h' addr) pid t)"
proof (cases "rbind (verify_policy_bundle V bundle (set_or_none trusted) None now) (\<lambda>p. rbind (dindex p ''bundle_id'') (\<lambda>bid. Inr (p, bid)))")
  case (Inl x)
  with assms show ?thesis by (simp add: distribute_policy_def)
next
  case (Inr pb)
  then obtain p bid where pb: "pb = (p, bid)" by (cases pb)
  obtain r' where "apply_policies V bundle (the_str (dget p ''policy_id'')) (dget p ''version'') bid now (sort_key fst registries) h = (h', r')"
    using assms(2) by (auto simp: distribute_policy_def Inr pb split: prod.splits)
  from apply_policies_step [OF assms(1) this] assms(3) show ?thesis by blast
qed

theorem distribute_policy_fail_closed:
  assumes "verify_policy_bundle V bundle (set_or_none trusted) None now = Inl x"
  shows "distribute_policy V trusted bundle registries h now = (h, Inl x)"
  using assms by (simp add: distribute_policy_def)

section \<open>The report of a distribution verifies\<close>

lemma apply_policies_acks:
  "apply_policies V bundle policy version bid now gs h = (h', Inr acks) \<Longrightarrow>
    map pk_gate acks = map fst gs \<and> (\<forall>a\<in>set acks. pk_policy a = JStr policy \<and> pk_bundle a = bid)"
proof (induction gs arbitrary: h acks)
  case (Cons x gs)
  obtain gate a where x: "x = (gate, a)" by (cases x)
  obtain g s where g: "apply_policy V bundle policy version bid now gate (h a) = (g, s)" by fastforce
  from Cons.prems g x obtain ack where s: "s = Inr ack" by (cases s) auto
  with Cons.prems g x obtain as where as: "apply_policies V bundle policy version bid now gs (h(a := g)) = (h', Inr as)" "acks = ack # as"
    by (auto simp: res_simps split: prod.splits)
  have "pk_gate ack = gate \<and> pk_policy ack = JStr policy \<and> pk_bundle ack = bid"
    using g s by (auto simp: apply_policy_def res_simps split: sum.splits prod.splits bool.splits)
  with Cons.IH [OF as(1)] as(2) x show ?case by simp
qed simp

theorem policy_report_verifies:
  assumes d: "distribute_policy V trusted bundle registries h now = (h', Inr report)" and ne: "registries \<noteq> []" "\<forall>g\<in>set registries. fst g \<noteq> []"
    and id: "\<And>p. verify_envelope V bundle = Inr p \<Longrightarrow> wf_json (dget p ''bundle_id'')"
  shows "verify_policy_distribution_report V (JDict report) bundle (set_or_none trusted) now = Inr report"
proof -
  from d obtain p bid acks where v: "verify_policy_bundle V bundle (set_or_none trusted) None now = Inr p"
    and bid: "dindex p ''bundle_id'' = Inr bid"
    and a: "apply_policies V bundle (the_str (dget p ''policy_id'')) (dget p ''version'') bid now (sort_key fst registries) h = (h', Inr acks)"
    and r: "report = policy_distribution_report (dget p ''policy_id'') bid (dget p ''version'') acks"
    by (auto simp: distribute_policy_def res_simps split: sum.splits prod.splits)
  note ok = verify_policy_bundleD(1) [OF v]
  from ok obtain s n where p: "dget p ''policy_id'' = JStr s" "dget p ''version'' = JInt n"
    unfolding bundle_ok_def by blast
  have ve: "verify_envelope V bundle = Inr p" using ok by (simp add: bundle_ok_def)
  have wf: "py_eq bid bid" using id [OF ve] dget_dindex [OF bid] py_eq_refl(1) by simp
  note ack = apply_policies_acks [OF a]
  have gates: "\<forall>x\<in>set acks. pk_gate x \<noteq> []"
  proof
    fix x assume "x \<in> set acks"
    then have "pk_gate x \<in> set (map fst (sort_key fst registries))" using ack by (metis image_eqI list.set_map)
    then show "pk_gate x \<noteq> []" using ne(2) by auto
  qed
  have len: "acks \<noteq> []" using ack ne(1) by (metis list.map_disc_iff set_empty set_sort)
  let ?ds = "map (\<lambda>a. JDict (policy_ack_to_dict a)) acks"
  have each: "rforeach (check_policy_ack (JStr s) bid) ?ds = Inr ()"
    using ack gates wf p(1) by (auto simp: res_simps check_policy_ack_def policy_ack_to_dict_def)
  have app: "length (applied_acks ?ds) = length (filter pk_applied acks)"
    by (induction acks) (auto simp: applied_acks_def policy_ack_to_dict_def)
  have "int (length (filter (\<lambda>a. \<not> pk_applied a) acks)) = int (length acks) - int (length (filter pk_applied acks))"
    by (induction acks) auto
  with each app len wf v bid p show ?thesis
    unfolding r by (simp add: verify_policy_distribution_report_def policy_distribution_report_def check_policy_summary_def)
qed

end
