(* ===== verification/DemoTrust.thy ===== *)
theory DemoTrust
  imports Demo Merkle Checkpoint Clock Distribution PolicyDistribution
begin

text \<open>
  The concrete world continued: a policy bundle published by the demo key and activated in a
  registry, a revocation bundle that reaches a gate, a checkpoint, a Merkle redaction.
\<close>

definition demo_registry :: policy_registry where
  "demo_registry = policy_registry_init [kid demo_key]"

lemma demo_policy_bundle:
  obtains b env where
    "build_policy_bundle (JStr ''door'') [demo_rule] (JStr (kid demo_key)) (JInt 1) JNull (demo_time 1) None (Some (demo_time 100)) = Inr b"
    "sign_policy_bundle b demo_key = Inr env"
proof -
  obtain i u where iso: "isoformat (demo_time 1) = Inr i" "isoformat (demo_time 100) = Inr u"
    using demo_iso [of 1] demo_iso [of 100] by auto
  have rj: "serializable (rule_json demo_rule)" using demo_rules_serializable by (simp add: rule_json_def)
  then obtain pd where pd: "rules_digest (JList [rule_json demo_rule]) = Inr pd"
    using digest_total [of "JDict [(''rules'', JList [rule_json demo_rule])]"] by (auto simp: rules_digest_def)
  let ?b = "bundle_body (JStr ''door'') (JStr (kid demo_key)) (JInt 1) JNull i i u [rule_json demo_rule] @ [(''policy_digest'', JStr pd)]"
  have s: "serializable (JDict ?b)" using rj by (simp add: bundle_body_def max_safe_integer_def)
  then have "serializable (JDict (dwithout [''bundle_id''] ?b))" by (auto simp: list_all_iff dwithout_def)
  then obtain cid where c: "content_id ''kinegrant:policy-bundle'' (JDict (dwithout [''bundle_id''] ?b)) = Inr cid"
    using content_id_total by blast
  have n: "nonblank_str (JStr ''door'')" "nonblank_str (JStr (kid demo_key))"
    by (simp_all add: nonblank_str_iff blank_def py_isspace_def kid_def key_id_def demo_key_def)
  have d: "dset (bundle_body (JStr ''door'') (JStr (kid demo_key)) (JInt 1) JNull i i u [rule_json demo_rule]) ''policy_digest'' (JStr pd) = ?b"
    "dset ?b ''bundle_id'' (JStr cid) = ?b @ [(''bundle_id'', JStr cid)]"
    by (simp_all add: bundle_body_def)
  have w: "validate_window (demo_time 1) (demo_time 100) = Inr ()" by (simp add: validate_window_def seconds_def)
  have "build_policy_bundle (JStr ''door'') [demo_rule] (JStr (kid demo_key)) (JInt 1) JNull (demo_time 1) None (Some (demo_time 100))
      = Inr (?b @ [(''bundle_id'', JStr cid)])"
    using n iso w pd c d by (simp add: build_policy_bundle_def Let_def valid_version_def bad_previous_def)
  moreover have "serializable (JDict (?b @ [(''bundle_id'', JStr cid)]))" using s by simp
  from sign_envelope_total [OF this] obtain env where "sign_envelope demo_key (?b @ [(''bundle_id'', JStr cid)]) = Inr env" ..
  then have "sign_policy_bundle (?b @ [(''bundle_id'', JStr cid)]) demo_key = Inr env"
    by (simp add: sign_policy_bundle_def bundle_body_def)
  ultimately show thesis by (rule that)
qed

lemma demo_rule_ok: "rule_ok demo_rule"
  by (simp add: rule_ok_def demo_rule_def blank_def py_isspace_def)

lemma demo_verified_bundle:
  obtains b env where
    "build_policy_bundle (JStr ''door'') [demo_rule] (JStr (kid demo_key)) (JInt 1) JNull (demo_time 1) None (Some (demo_time 100)) = Inr b"
    "sign_policy_bundle b demo_key = Inr env"
    "\<forall>t. 1 \<le> t \<and> t < 100 \<longrightarrow> verify_policy_bundle demo_V env (Some [kid demo_key]) None (demo_time t) = Inr b"
    "dget b ''version'' = JInt 1" "dget b ''policy_id'' = JStr ''door''"
proof -
  obtain b env where b: "build_policy_bundle (JStr ''door'') [demo_rule] (JStr (kid demo_key)) (JInt 1) JNull (demo_time 1) None (Some (demo_time 100)) = Inr b"
    "sign_policy_bundle b demo_key = Inr env" by (rule demo_policy_bundle)
  have v: "verify_policy_bundle demo_V env (Some [kid demo_key]) None (demo_time t) = Inr b" if "1 \<le> t" "t < 100" for t
    using policy_bundle_roundtrip [OF b demo_good_key, of "Some [kid demo_key]" None "demo_time t"] demo_rule_ok demo_utc [of 1] demo_utc [of 100] that
    by (simp add: seconds_def)
  have "dget b ''version'' = JInt 1 \<and> dget b ''policy_id'' = JStr ''door''"
    using b(1)
  proof (rule build_policy_bundleD)
    fix issued lo up pd cid
    assume "b = bundle_body (JStr ''door'') (JStr (kid demo_key)) (JInt 1) JNull issued lo up (map rule_json [demo_rule])
           @ [(''policy_digest'', JStr pd), (''bundle_id'', JStr cid)]"
    then show ?thesis by (simp add: bundle_body_def)
  qed
  with v show thesis by (intro that [OF b]) auto
qed

lemma demo_activated:
  obtains b env g where "activate demo_V demo_registry env (demo_time 2) = (g, Inr b)"
    "usable g (demo_time 2) (''door'', 1) b"
proof -
  obtain b env where
    "build_policy_bundle (JStr ''door'') [demo_rule] (JStr (kid demo_key)) (JInt 1) JNull (demo_time 1) None (Some (demo_time 100)) = Inr b"
    "sign_policy_bundle b demo_key = Inr env"
    and v: "\<forall>t. 1 \<le> t \<and> t < 100 \<longrightarrow> verify_policy_bundle demo_V env (Some [kid demo_key]) None (demo_time t) = Inr b"
    and d: "dget b ''version'' = JInt 1" "dget b ''policy_id'' = JStr ''door''"
    by (rule demo_verified_bundle)
  from v d have b: "verify_policy_bundle demo_V env (Some [kid demo_key]) None (demo_time 2) = Inr b"
    "dget b ''version'' = JInt 1" "dget b ''policy_id'' = JStr ''door''" by simp_all
  then have "activate demo_V demo_registry env (demo_time 2)
      = (demo_registry\<lparr>pg_bundles := AList.update (bundle_key b) b (pg_bundles demo_registry)\<rparr>, Inr b)"
    by (simp add: activate_def demo_registry_def policy_registry_init_def set_or_none_def)
  moreover have "bundle_key b = (''door'', 1)" using b by (simp add: bundle_key_def)
  moreover have "bundle_window b (demo_time 2)" using verify_policy_bundleD(2) [OF b(1)] .
  ultimately show thesis
    by (intro that) (auto simp: usable_def demo_registry_def policy_registry_init_def)
qed

text \<open>A revocation bundle for one capability, verified.\<close>

lemma demo_verified_revocations:
  obtains env where "verify_revocation_bundle demo_V env (Some [kid demo_key]) None = Inr demo_revocations"
proof -
  obtain b env where b: "build_revocation_bundle demo_revocations (JStr (kid demo_key)) (JInt 1) JNull (demo_time 1) = Inr b"
    "sign_revocation_bundle b demo_key = Inr env" by (rule demo_bundle)
  have "rl_inv demo_revocations" "\<forall>e\<in>set (rl_entries demo_revocations). utc_time (re_at e)"
    using demo_utc [of 1] by (simp_all add: demo_revocations_def rl_inv_def entry_ok_def rl_entries_def)
  from bundle_roundtrip [OF demo_good_key this b, of "Some [kid demo_key]" None]
  have "verify_revocation_bundle demo_V env (Some [kid demo_key]) None = Inr demo_revocations" by simp
  then show thesis by (rule that)
qed

definition demo_distributor :: distributor where
  "demo_distributor = \<lparr>rd_trusted = [kid demo_key], rd_expected = None\<rparr>"

lemma demo_distributed:
  obtains env h report where "distribute demo_V demo_distributor env [(''g1'', 0)] (\<lambda>_. []) = (h, Inr report)"
proof -
  obtain env where v: "verify_revocation_bundle demo_V env (Some [kid demo_key]) None = Inr demo_revocations"
    by (rule demo_verified_revocations)
  then have e: "list_all entry_ok (rl_entries demo_revocations)" using verified_entries_ok by blast
  obtain p where p: "verify_envelope demo_V env = Inr p"
    using v unfolding verify_revocation_bundle_def by (elim res_elims) auto
  from distribute_gates_spec [OF e] obtain h acks where
    "distribute_gates (dget p ''bundle_id'') (rl_entries demo_revocations) [(''g1'', 0)] (\<lambda>_. []) = (h, Inr acks)" by blast
  with v p have "distribute demo_V demo_distributor env [(''g1'', 0)] (\<lambda>_. [])
      = (h, Inr (distribution_report (dget p ''bundle_id'') (dget p ''version'') acks))"
    by (simp add: distribute_def demo_distributor_def set_or_none_def del: distribute_gates.simps)
  then show thesis by (rule that)
qed

text \<open>A checkpoint of a chain whose digest is sixty-four zeros.\<close>

definition demo_chain_digest :: string where
  "demo_chain_digest = ''sha256:'' @ replicate 64 (CHR ''0'')"

lemma demo_checkpoint:
  obtains env where "build_receipt_checkpoint (JStr demo_chain_digest) (JStr (kid demo_key)) demo_key (JStr ''2026'') JNull (demo_time 1) = Inr env"
proof -
  obtain i where i: "isoformat (demo_time 1) = Inr i" using demo_iso [of 1] by auto
  let ?b = "checkpoint_body (JStr (kid demo_key)) (JStr demo_chain_digest) (JStr ''2026'') (JStr i)"
  have "serializable (JDict (dwithout [''checkpoint_id''] ?b))" by (simp add: checkpoint_body_def)
  then obtain cid where c: "content_id ''kinegrant:receipt-checkpoint'' (JDict (dwithout [''checkpoint_id''] ?b)) = Inr cid"
    using content_id_total by blast
  have "serializable (JDict (dset ?b ''checkpoint_id'' (JStr cid)))" by (simp add: checkpoint_body_def)
  from sign_envelope_total [OF this] obtain env where "sign_envelope demo_key (dset ?b ''checkpoint_id'' (JStr cid)) = Inr env" ..
  moreover have "sha256_fullmatch (JStr demo_chain_digest) = Inr True"
    by (simp add: sha256_fullmatch_def is_sha256_text_def demo_chain_digest_def is_lower_hex_def startswith_def list_all_iff)
  moreover have "kid demo_key \<noteq> []" by (simp add: kid_def key_id_def demo_key_def)
  ultimately have "build_receipt_checkpoint (JStr demo_chain_digest) (JStr (kid demo_key)) demo_key (JStr ''2026'') JNull (demo_time 1) = Inr env"
    using i c by (simp add: build_receipt_checkpoint_def stamp_or_now_def sign_statement_def)
  then show thesis by (rule that)
qed

text \<open>A Merkle redaction of a document with two fields.\<close>

definition demo_document :: dict where
  "demo_document = [(''name'', JStr ''x''), (''door'', JInt 7)]"

lemma demo_disclosed:
  obtains rt layers path where "document_tree demo_document = Inr (rt, layers)" "verify_field rt ''door'' (JInt 7) path = Inr True"
proof -
  have "serializable (JDict demo_document)" by (simp add: demo_document_def max_safe_integer_def)
  from merkle_proofs_total [OF this] obtain ps where ps: "merkle_proofs demo_document = Inr ps" .
  from ps show thesis
  proof (rule merkle_proofs_proves)
    fix rt layers
    assume t: "document_tree demo_document = Inr (rt, layers)" and k: "map fst ps = sorted_fields demo_document"
      and p: "\<And>field entry. map_of ps field = Some entry \<Longrightarrow> proves demo_document rt field entry"
    have "''door'' \<in> fst ` set ps" using arg_cong [OF k, of set] by (simp add: demo_document_def)
    then have "map_of ps ''door'' \<noteq> None" by (simp add: map_of_eq_None_iff)
    then obtain e where "map_of ps ''door'' = Some e" by blast
    from p [OF this] have "verify_field rt ''door'' (JInt 7) (dget e ''proof'') = Inr True"
      by (simp add: proves_def demo_document_def)
    with t show thesis by (rule that)
  qed
qed

end
