(* ===== verification/Identity.thy ===== *)
theory Identity
  imports PyValue
begin

text \<open>
  \<open>identity.py\<close>: the grammar of identifiers \<open>urn:kinegrant:kind:namespace:local-id\<close>, and
  \<open>wire.py\<close>: the supported wire versions. The regular expressions are given by the recursive
  descent they denote: the alternatives of \<open>kind\<close> and the characters of a namespace exclude
  the separator, so the match is unique. Randomly drawn local ids are an argument.
\<close>

section \<open>Characters\<close>

definition is_lower_alnum :: "char \<Rightarrow> bool" where
  "is_lower_alnum c \<longleftrightarrow> (let n = (of_char c :: nat) in (97 \<le> n \<and> n \<le> 122) \<or> (48 \<le> n \<and> n \<le> 57))"

definition ns_char :: "char \<Rightarrow> bool" where
  "ns_char c \<longleftrightarrow> is_lower_alnum c \<or> c = CHR ''.'' \<or> c = CHR ''-''"

definition local_char :: "char \<Rightarrow> bool" where
  "local_char c \<longleftrightarrow> is_lower_alnum c \<or> c \<in> set ''._:#-''"

definition is_namespace :: "string \<Rightarrow> bool" where
  "is_namespace s \<longleftrightarrow> 1 \<le> length s \<and> length s \<le> 63 \<and> list_all ns_char s"

definition is_local_id :: "string \<Rightarrow> bool" where
  "is_local_id s \<longleftrightarrow> 1 \<le> length s \<and> length s \<le> 128 \<and> list_all local_char s"

section \<open>Building\<close>

definition validate_namespace :: "json \<Rightarrow> string res" where
  "validate_namespace v = (case v of
      JStr s \<Rightarrow> if is_namespace s then Inr s
        else Inl (ValueError ''namespace must be 1-63 chars of lowercase letters, digits, '-' or '.' '')
    | _ \<Rightarrow> Inl (ValueError ''namespace must be 1-63 chars of lowercase letters, digits, '-' or '.' ''))"

definition validate_local_id :: "json \<Rightarrow> string res" where
  "validate_local_id v = (case v of
      JStr s \<Rightarrow> if is_local_id s then Inr s
        else Inl (ValueError ''local_id must be 1-128 chars of lowercase letters, digits, '-', '_', '.', ':' or '#' '')
    | _ \<Rightarrow> Inl (ValueError ''local_id must be 1-128 chars of lowercase letters, digits, '-', '_', '.', ':' or '#' ''))"

definition identifier_text :: "string \<Rightarrow> string \<Rightarrow> string \<Rightarrow> string" where
  "identifier_text kind ns local = ''urn:kinegrant:'' @ kind @ '':'' @ ns @ '':'' @ local"

definition build_id :: "string \<Rightarrow> json \<Rightarrow> json \<Rightarrow> string res" where
  "build_id kind namespace local_id =
     rbind (validate_namespace namespace) (\<lambda>ns.
     rbind (validate_local_id local_id) (\<lambda>local. Inr (identifier_text kind ns local)))"

definition agent_id :: "json \<Rightarrow> json \<Rightarrow> string res" where
  "agent_id namespace local_id = build_id ''agent'' namespace local_id"

definition target_id :: "json \<Rightarrow> json \<Rightarrow> string res" where
  "target_id namespace local_id = build_id ''target'' namespace local_id"

definition policy_id :: "json \<Rightarrow> json \<Rightarrow> string res" where
  "policy_id namespace local_id = build_id ''policy'' namespace local_id"

text \<open>\<open>random_agent_id\<close> and its siblings, given what \<open>secrets.token_hex(12)\<close> returned.\<close>

definition random_agent_id :: "json \<Rightarrow> string \<Rightarrow> string res" where
  "random_agent_id namespace token = agent_id namespace (JStr token)"

definition random_target_id :: "json \<Rightarrow> string \<Rightarrow> string res" where
  "random_target_id namespace token = target_id namespace (JStr token)"

definition random_policy_id :: "json \<Rightarrow> string \<Rightarrow> string res" where
  "random_policy_id namespace token = policy_id namespace (JStr token)"

section \<open>Parsing\<close>

record kg_identifier =
  ki_kind :: string
  ki_namespace :: string
  ki_local_id :: string

definition identifier_value :: "kg_identifier \<Rightarrow> string" where
  "identifier_value i = identifier_text (ki_kind i) (ki_namespace i) (ki_local_id i)"

definition kinds :: "string list" where
  "kinds = [''agent'', ''target'', ''policy'']"

text \<open>The groups of \<open>_IDENTIFIER_RE.fullmatch(value)\<close>.\<close>

definition match_rest :: "string \<Rightarrow> string \<Rightarrow> kg_identifier option" where
  "match_rest kind r =
     (let ns = takeWhile ns_char r; r' = dropWhile ns_char r in
      if is_namespace ns \<and> startswith r' '':'' \<and> is_local_id (drop 1 r')
      then Some \<lparr>ki_kind = kind, ki_namespace = ns, ki_local_id = drop 1 r'\<rparr> else None)"

fun match_kinds :: "string list \<Rightarrow> string \<Rightarrow> kg_identifier option" where
  "match_kinds [] r = None"
| "match_kinds (k # ks) r =
     (if startswith r (k @ '':'') then match_rest k (drop (length k + 1) r) else match_kinds ks r)"

definition match_identifier :: "string \<Rightarrow> kg_identifier option" where
  "match_identifier s = (if startswith s ''urn:kinegrant:'' then match_kinds kinds (drop 14 s) else None)"

definition parse_identifier :: "json \<Rightarrow> kg_identifier res" where
  "parse_identifier v = (case v of
      JStr s \<Rightarrow> (case match_identifier s of
          None \<Rightarrow> Inl (ValueError ''value is not a valid KineGrant identifier'') | Some i \<Rightarrow> Inr i)
    | _ \<Rightarrow> Inl (ValueError ''value is not a valid KineGrant identifier''))"

definition is_kinegrant_identifier :: "json \<Rightarrow> bool" where
  "is_kinegrant_identifier v = (case v of JStr s \<Rightarrow> match_identifier s \<noteq> None | _ \<Rightarrow> False)"

definition is_agent_id :: "json \<Rightarrow> bool" where
  "is_agent_id v \<longleftrightarrow> is_kinegrant_identifier v \<and> startswith (the_str v) ''urn:kinegrant:agent:''"

definition is_target_id :: "json \<Rightarrow> bool" where
  "is_target_id v \<longleftrightarrow> is_kinegrant_identifier v \<and> startswith (the_str v) ''urn:kinegrant:target:''"

definition is_policy_id :: "json \<Rightarrow> bool" where
  "is_policy_id v \<longleftrightarrow> is_kinegrant_identifier v \<and> startswith (the_str v) ''urn:kinegrant:policy:''"

section \<open>Building and parsing are inverse\<close>

definition identifier_ok :: "kg_identifier \<Rightarrow> bool" where
  "identifier_ok i \<longleftrightarrow> ki_kind i \<in> set kinds \<and> is_namespace (ki_namespace i) \<and> is_local_id (ki_local_id i)"

lemma colon_not_ns [simp]: "\<not> ns_char (CHR '':'')"
  by (simp add: ns_char_def is_lower_alnum_def)

lemma match_rest_text:
  "is_namespace ns \<Longrightarrow> is_local_id l \<Longrightarrow>
    match_rest k (ns @ '':'' @ l) = Some \<lparr>ki_kind = k, ki_namespace = ns, ki_local_id = l\<rparr>"
proof -
  assume a: "is_namespace ns" "is_local_id l"
  then have n: "list_all ns_char ns" by (simp add: is_namespace_def)
  have "takeWhile ns_char (ns @ CHR '':'' # l) = ns" "dropWhile ns_char (ns @ CHR '':'' # l) = CHR '':'' # l"
    using n by (simp_all add: takeWhile_append dropWhile_append list_all_iff)
  with a show ?thesis by (simp add: match_rest_def startswith_def)
qed

lemma match_rest_Some:
  "match_rest k r = Some i \<Longrightarrow> is_namespace (ki_namespace i) \<and> is_local_id (ki_local_id i) \<and> ki_kind i = k
    \<and> r = ki_namespace i @ '':'' @ ki_local_id i"
proof -
  assume "match_rest k r = Some i"
  then have *: "is_namespace (takeWhile ns_char r)" "startswith (dropWhile ns_char r) '':''"
    "is_local_id (drop 1 (dropWhile ns_char r))" "i = \<lparr>ki_kind = k, ki_namespace = takeWhile ns_char r, ki_local_id = drop 1 (dropWhile ns_char r)\<rparr>"
    by (auto simp: match_rest_def Let_def split: if_splits)
  have "r = takeWhile ns_char r @ dropWhile ns_char r" by simp
  also have "dropWhile ns_char r = '':'' @ drop 1 (dropWhile ns_char r)" using startswithE [OF *(2)] by simp
  finally show ?thesis using * by simp
qed

theorem parse_identifier_iff: "parse_identifier (JStr s) = Inr i \<longleftrightarrow> identifier_ok i \<and> s = identifier_value i"
proof
  assume "parse_identifier (JStr s) = Inr i"
  then have s: "startswith s ''urn:kinegrant:''" and m: "match_kinds kinds (drop 14 s) = Some i"
    by (auto simp: parse_identifier_def match_identifier_def split: option.splits if_splits)
  have "match_kinds ks r = Some i \<Longrightarrow> \<exists>k\<in>set ks. r = k @ '':'' @ drop (length k + 1) r \<and> match_rest k (drop (length k + 1) r) = Some i"
    for ks r
  proof (induction ks)
    case (Cons k ks)
    then show ?case using startswithE [of r "k @ '':''"] by (auto split: if_splits)
  qed simp
  from this [OF m] obtain k where k: "k \<in> set kinds" "drop 14 s = k @ '':'' @ drop (length k + 1) (drop 14 s)"
    "match_rest k (drop (length k + 1) (drop 14 s)) = Some i" by blast
  from match_rest_Some [OF k(3)] k(1) have "identifier_ok i" by (simp add: identifier_ok_def)
  moreover have len: "length ''urn:kinegrant:'' = 14" by simp
  have "s = ''urn:kinegrant:'' @ drop 14 s" using startswithE [OF s] unfolding len .
  then have "s = identifier_value i"
    using k(2) match_rest_Some [OF k(3)] unfolding identifier_value_def identifier_text_def by metis
  ultimately show "identifier_ok i \<and> s = identifier_value i" ..
next
  assume *: "identifier_ok i \<and> s = identifier_value i"
  then have i: "is_namespace (ki_namespace i)" "is_local_id (ki_local_id i)"
    and k: "ki_kind i = ''agent'' \<or> ki_kind i = ''target'' \<or> ki_kind i = ''policy''"
    by (auto simp: identifier_ok_def kinds_def)
  have "match_identifier s = match_rest (ki_kind i) (ki_namespace i @ '':'' @ ki_local_id i)"
    using k * by (elim disjE) (simp_all add: match_identifier_def identifier_value_def identifier_text_def kinds_def startswith_def)
  then show "parse_identifier (JStr s) = Inr i" by (simp add: parse_identifier_def match_rest_text [OF i, simplified])
qed

lemma build_id_Inr: "build_id k ns l = Inr s \<longleftrightarrow>
    (\<exists>n i. ns = JStr n \<and> l = JStr i \<and> is_namespace n \<and> is_local_id i \<and> s = identifier_text k n i)"
  by (cases ns; cases l) (auto simp: build_id_def validate_namespace_def validate_local_id_def)

lemma build_id_parses:
  "build_id k ns l = Inr s \<Longrightarrow> k \<in> set kinds \<Longrightarrow>
    parse_identifier (JStr s) = Inr \<lparr>ki_kind = k, ki_namespace = the_str ns, ki_local_id = the_str l\<rparr>"
  by (auto simp: build_id_Inr parse_identifier_iff identifier_ok_def identifier_value_def)

section \<open>Wire versions\<close>

definition SUPPORTED_WIRE_VERSIONS :: "string list" where
  "SUPPORTED_WIRE_VERSIONS = [''0.1'', ''0.2'', ''1.0'']"

definition supports :: "json \<Rightarrow> bool" where
  "supports version \<longleftrightarrow> py_in version (map JStr SUPPORTED_WIRE_VERSIONS)"

definition check_compatibility :: "json \<Rightarrow> json \<Rightarrow> bool" where
  "check_compatibility required provided \<longleftrightarrow> py_eq required provided \<and> supports provided"

lemma supports_JStr: "supports (JStr s) \<longleftrightarrow> s \<in> set SUPPORTED_WIRE_VERSIONS"
  by (auto simp: supports_def)

text \<open>Compatible means equal: the relation is symmetric and transitive, and reflexive on the list.\<close>

lemma compatibility_strict:
  "check_compatibility (JStr r) (JStr p) \<longleftrightarrow> r = p \<and> p \<in> set SUPPORTED_WIRE_VERSIONS"
  by (auto simp: check_compatibility_def supports_JStr)

end
