(* ===== verification/Keys.thy ===== *)
theory Keys
  imports Crypto
begin

text \<open>
  \<open>keys.py\<close>: envelope signing through a backend that keeps its private key. A backend is a
  record of what it reveals (its key id, its public key with the type of the key object) and its
  signing function.
\<close>

record signing_backend =
  bk_kid :: string
  bk_public :: "key_type \<times> byte list"
  bk_sign :: "byte list \<Rightarrow> byte list"

text \<open>\<open>SoftwareEd25519Backend\<close> and \<open>SoftwareMLDSA65Backend\<close> over a key pair.\<close>

definition software_backend :: "key_pair \<Rightarrow> signing_backend" where
  "software_backend k = \<lparr>bk_kid = kid k, bk_public = (kp_type k, kp_public k), bk_sign = kp_sign k\<rparr>"

record backed_key_pair =
  bp_backend :: signing_backend
  bp_alg :: string

definition backed_key_pair_init :: "signing_backend \<Rightarrow> string \<Rightarrow> backed_key_pair res" where
  "backed_key_pair_init backend alg =
     (if alg \<notin> set [''EdDSA'', mldsa_name] then Inl (ValueError ''unsupported signature algorithm'')
      else Inr \<lparr>bp_backend = backend, bp_alg = alg\<rparr>)"

definition backed_kid :: "backed_key_pair \<Rightarrow> string" where
  "backed_kid b = bk_kid (bp_backend b)"

definition backed_sign_envelope :: "backed_key_pair \<Rightarrow> dict \<Rightarrow> dict res" where
  "backed_sign_envelope b payload =
     (let prot = protected_dict (bp_alg b) (backed_kid b) payload in
      rbind (canonical_json (JDict prot)) (\<lambda>t.
        Inr (prot @ [(''signature'', JStr (b64url (bk_sign (bp_backend b) (domain_tag @ t))))])))"

text \<open>\<open>key_id(public_key)\<close> takes the key's type from the key object.\<close>

definition key_id_from_backend :: "signing_backend \<Rightarrow> string" where
  "key_id_from_backend b =
     (if startswith (bk_kid b) ''kinegrant:key:mldsa65:''
      then ''kinegrant:key:mldsa65:'' @ b64url (snd (bk_public b))
      else key_id (fst (bk_public b)) (snd (bk_public b)))"

text \<open>A software-backed pair is the key pair itself: same key id, same envelopes.\<close>

lemma backed_is_direct:
  assumes "backed_key_pair_init (software_backend k) (alg_name (kp_type k)) = Inr b"
  shows "backed_kid b = kid k \<and> backed_sign_envelope b payload = sign_envelope k payload"
  using assms
  by (auto simp: backed_key_pair_init_def backed_kid_def backed_sign_envelope_def sign_envelope_def software_backend_def
      Let_def split: if_splits)

lemma backed_init_total: "\<exists>b. backed_key_pair_init (software_backend k) (alg_name (kp_type k)) = Inr b"
  using alg_name_known [of "kp_type k"] by (simp add: backed_key_pair_init_def del: alg_name.simps)

lemma software_backend_key_id: "key_id_from_backend (software_backend k) = kid k"
  by (cases "kp_type k") (auto simp: key_id_from_backend_def software_backend_def kid_def key_id_def startswith_def)

text \<open>
  A wrong algorithm name does not go unnoticed: the envelope carries it, and a verifier takes the
  key's type from the key id but the length of the signature from the name.
\<close>

lemma wrong_alg_rejected:
  assumes "backed_key_pair_init (software_backend k) alg = Inr b" "good_key V k" "alg \<noteq> alg_name (kp_type k)"
    "backed_sign_envelope b payload = Inr env"
  shows "verify_envelope V env = Inl invalid_signature"
proof -
  from assms(1) have alg: "alg = ''EdDSA'' \<or> alg = mldsa_name"
    and b: "b = \<lparr>bp_backend = software_backend k, bp_alg = alg\<rparr>"
    by (auto simp: backed_key_pair_init_def split: if_splits)
  from assms(4) obtain t where env: "env = protected_dict alg (kid k) payload @ [(''signature'', JStr (b64url (kp_sign k (domain_tag @ t))))]"
    by (auto simp: backed_sign_envelope_def b backed_kid_def software_backend_def Let_def res_simps)
  have len: "length (kp_sign k m) = signature_length (kp_type k)" for m using assms(2) by (simp add: good_key_def)
  then have "kp_sign k (domain_tag @ t) \<noteq> []" by (cases "kp_type k") (metis list.size(3) signature_length.simps zero_neq_numeral)+
  then have "unb64url (b64url (kp_sign k (domain_tag @ t))) = Inr (kp_sign k (domain_tag @ t))" by (rule unb64url_b64url)
  then have "\<exists>m. check_signature V alg (kid k) payload (b64url (kp_sign k (domain_tag @ t))) = Inl (ValueError m)"
    using alg assms(3) len [of "domain_tag @ t"] by (cases "kp_type k") (auto simp: check_signature_def mldsa_name_def)
  moreover have "alg \<in> set [''EdDSA'', mldsa_name]" using alg by simp
  ultimately show ?thesis by (auto simp: verify_envelope_def env protected_dict_def)
qed

end
