(* ===== verification/PolicyAudit.thy ===== *)
theory PolicyAudit
  imports PolicyBundle ModelCheck Capability PyStr
begin

text \<open>
  \<open>policy_bundle.py\<close>, the audits of a verified bundle: the static analysis, the bounded
  coverage check and the summary over a fleet of bundles. Each verification reads the clock when
  no time is given, so the times of the verifications are arguments.

  The analysis calls itself conservative. It is for the patterns of \<open>simple_scope\<close>; for two
  globs it can miss a conflict, as the example at the end shows.
\<close>

section \<open>Overlap of scopes\<close>

definition pattern_overlaps :: "string \<Rightarrow> string \<Rightarrow> bool" where
  "pattern_overlaps a b =
     (if a = ''*'' \<or> b = ''*'' \<or> a = b then True
      else if CHR ''*'' \<notin> set a \<and> CHR ''*'' \<notin> set b then False
      else fnmatchcase a b \<or> fnmatchcase b a)"

definition tuple_overlaps :: "string list \<Rightarrow> string list \<Rightarrow> bool" where
  "tuple_overlaps as bs = (if ''*'' \<in> set as \<or> ''*'' \<in> set bs then True else list_ex (\<lambda>a. a \<in> set bs) as)"

definition scope_overlaps :: "policy_rule \<Rightarrow> policy_rule \<Rightarrow> bool" where
  "scope_overlaps a b \<longleftrightarrow> pattern_overlaps (pr_target a) (pr_target b)
     \<and> tuple_overlaps (pr_actions a) (pr_actions b) \<and> tuple_overlaps (pr_purposes a) (pr_purposes b)"

section \<open>Static analysis\<close>

definition finding :: "string \<Rightarrow> string \<Rightarrow> string list \<Rightarrow> string \<Rightarrow> dict" where
  "finding severity code ids message =
     [(''severity'', JStr severity), (''code'', JStr code), (''rule_ids'', JStrs ids), (''message'', JStr message)]"

text \<open>\<open>", ".join(sorted(s))\<close>\<close>

definition join_sorted :: "string list \<Rightarrow> string" where
  "join_sorted names = join_text '', '' (sort (remdups names))"

definition issuer_findings :: "string \<Rightarrow> policy_rule \<Rightarrow> dict list" where
  "issuer_findings signer r =
     (if pr_issuer r \<noteq> signer
      then [finding ''error'' ''rule_issuer_mismatch'' [pr_policy_id r]
              (''rule issuer '' @ pr_issuer r @ '' differs from the bundle signer '' @ signer)]
      else [])"

definition constraint_findings :: "policy_rule \<Rightarrow> dict list" where
  "constraint_findings r =
     (let unknown = filter (\<lambda>k. k \<notin> set SUPPORTED_CONSTRAINTS) (map fst (pr_constraints r)) in
      if unknown \<noteq> []
      then [finding ''error'' ''unknown_constraint'' [pr_policy_id r]
              (''unsupported policy constraints: '' @ join_sorted unknown)]
      else [])"

text \<open>Names that are not text cannot be joined.\<close>

definition obligation_findings :: "policy_rule \<Rightarrow> dict list res" where
  "obligation_findings r =
     (if \<not> list_all hashable (pr_obligations r) then Inl unhashable_exn
      else let unknown = filter (\<lambda>v. v \<notin> JStr ` set KNOWN_OBLIGATIONS) (pr_obligations r) in
        if unknown = [] then Inr []
        else if \<not> list_all is_str unknown then Inl (TypeError ''sequence item is not text'')
        else Inr [finding ''error'' ''unknown_obligation'' [pr_policy_id r]
                    (''unsupported policy obligations: '' @ join_sorted (map the_str unknown))])"

definition broad_findings :: "policy_rule \<Rightarrow> dict list" where
  "broad_findings r =
     (if pr_effect r = Allow \<and> pr_target r = ''*'' \<and> pr_actions r = [''*''] \<and> pr_purposes r = [''*'']
        \<and> pr_constraints r = []
      then [finding ''warning'' ''broad_allow'' [pr_policy_id r] ''unconditional allow rule covering all targets'']
      else [])"

definition rule_findings :: "string \<Rightarrow> policy_rule \<Rightarrow> dict list res" where
  "rule_findings signer r =
     rbind (obligation_findings r) (\<lambda>os.
       Inr (issuer_findings signer r @ constraint_findings r @ os @ broad_findings r))"

definition pair_findings :: "policy_rule \<Rightarrow> policy_rule \<Rightarrow> dict list" where
  "pair_findings a b =
     (if \<not> scope_overlaps a b then []
      else if pr_effect a \<noteq> pr_effect b
        then [finding ''error'' ''conflicting_effect'' [pr_policy_id a, pr_policy_id b]
                (''overlapping '' @ effect_name (pr_effect a) @ '' and '' @ effect_name (pr_effect b)
                 @ '' rules; deny-overrides semantics apply'')]
      else if py_eq (rule_json a) (rule_json b)
        then [finding ''warning'' ''duplicate_rule'' [pr_policy_id a, pr_policy_id b] ''duplicate rules with identical content'']
      else [])"

text \<open>The two nested loops over the indices.\<close>

fun all_pair_findings :: "policy_rule list \<Rightarrow> dict list" where
  "all_pair_findings [] = []"
| "all_pair_findings (a # rs) = concat (map (pair_findings a) rs) @ all_pair_findings rs"

definition severities :: "dict list \<Rightarrow> string \<Rightarrow> dict list" where
  "severities fs s = filter (\<lambda>f. dget f ''severity'' = JStr s) fs"

definition verdict_text :: "bool \<Rightarrow> json" where
  "verdict_text ok = JStr (if ok then ''PASS'' else ''FAIL'')"

definition analysis_report :: "dict \<Rightarrow> json \<Rightarrow> dict list \<Rightarrow> dict" where
  "analysis_report p bid fs =
     [(''type'', JStr ''kinegrant:PolicyBundleAnalysis''), (''schema_version'', JStr ''0.1''),
      (''policy_id'', dget p ''policy_id''), (''bundle_id'', bid), (''bundle_version'', dget p ''version''),
      (''overall_result'', verdict_text (severities fs ''error'' = [])),
      (''summary'', JDict
         [(''findings'', JInt (int (length fs))), (''errors'', JInt (int (length (severities fs ''error'')))),
          (''warnings'', JInt (int (length (severities fs ''warning'')))),
          (''info'', JInt (int (length (severities fs ''info''))))]),
      (''findings'', JList (map JDict fs))]"

text \<open>The payload from one verification at \<open>t1\<close>, the rules from another at \<open>t2\<close>.\<close>

definition analyze_policy_bundle ::
  "verifier \<Rightarrow> dict \<Rightarrow> string list option \<Rightarrow> string option \<Rightarrow> datetime \<Rightarrow> datetime \<Rightarrow> dict res" where
  "analyze_policy_bundle V bundle trusted expected t1 t2 =
     rbind (verify_policy_bundle V bundle trusted expected t1) (\<lambda>p.
     rbind (rules_from_bundle V bundle trusted expected t2) (\<lambda>rules.
     rbind (rmapM (rule_findings (the_str (dget p ''issuer''))) rules) (\<lambda>fss.
     rbind (dindex p ''bundle_id'') (\<lambda>bid.
       Inr (analysis_report p bid (concat fss @ all_pair_findings rules))))))"

section \<open>Coverage\<close>

definition rule_stat_to_dict :: "rule_stat \<Rightarrow> dict" where
  "rule_stat_to_dict s =
     [(''policy_id'', JStr (rs_policy_id s)), (''effect'', JStr (effect_name (rs_effect s))),
      (''applicable_count'', JInt (int (rs_applicable s))), (''winning_count'', JInt (int (rs_winning s))),
      (''reachable'', JBool (rs_reachable s))]"

definition coverage_report :: "dict \<Rightarrow> json \<Rightarrow> mc_report \<Rightarrow> dict" where
  "coverage_report p bid c =
     [(''type'', JStr ''kinegrant:PolicyBundleCoverage''), (''schema_version'', JStr ''0.1''),
      (''policy_id'', dget p ''policy_id''), (''bundle_id'', bid), (''bundle_version'', dget p ''version''),
      (''overall_result'', verdict_text (mr_pass c)),
      (''summary'', JDict
         [(''space_size'', JInt (int (mr_space c))), (''evaluated'', JInt (int (mr_evaluated c))),
          (''allowed'', JInt (int (mr_allowed c))), (''denied'', JInt (int (mr_denied c))),
          (''exceptions'', JInt (int (mr_exceptions c))), (''shadowed_allows'', JInt (int (length (mr_shadowed c))))]),
      (''shadowed_allows'', JStrs (mr_shadowed c)),
      (''rule_stats'', JList (map (\<lambda>s. JDict (rule_stat_to_dict s)) (mr_rules c)))]"

record request_space =
  sp_agents :: "string list"
  sp_targets :: "string list"
  sp_actions :: "string list"
  sp_purposes :: "string list"
  sp_max :: int

definition default_space :: request_space where
  "default_space = \<lparr>sp_agents = [''urn:kinegrant:coverage:agent:1''], sp_targets = [''urn:kinegrant:coverage:target:1''],
     sp_actions = [''open''], sp_purposes = [''delivery''], sp_max = 200\<rparr>"

definition policy_bundle_coverage ::
  "verifier \<Rightarrow> dict \<Rightarrow> string list option \<Rightarrow> string option \<Rightarrow> datetime \<Rightarrow> datetime \<Rightarrow> request_space
    \<Rightarrow> (nat \<Rightarrow> datetime \<times> datetime) \<Rightarrow> dict res" where
  "policy_bundle_coverage V bundle trusted expected t1 t2 sp clocks =
     rbind (verify_policy_bundle V bundle trusted expected t1) (\<lambda>p.
     rbind (rules_from_bundle V bundle trusted expected t2) (\<lambda>rules.
     rbind (policy_engine_init rules [the_str (dget p ''issuer'')] 300 5 False) (\<lambda>e.
     rbind (bounded_model_check e (sp_agents sp) (sp_targets sp) (sp_actions sp) (sp_purposes sp) (sp_max sp) clocks) (\<lambda>c.
     rbind (dindex p ''bundle_id'') (\<lambda>bid. Inr (coverage_report p bid c))))))"

section \<open>The fleet audit\<close>

text \<open>The clock readings used for the bundle of one label.\<close>

record audit_clock =
  ac_analysis :: "datetime \<times> datetime"
  ac_coverage :: "datetime \<times> datetime"
  ac_requests :: "nat \<Rightarrow> datetime \<times> datetime"

definition failed_entry :: "string \<Rightarrow> json \<Rightarrow> dict" where
  "failed_entry label err =
     [(''label'', JStr label), (''verified'', JBool False), (''policy_id'', JNull), (''bundle_version'', JNull),
      (''analysis_result'', JNull), (''coverage_result'', JNull), (''error_findings'', JList []),
      (''shadowed_allows'', JList []), (''error'', err)]"

definition error_codes :: "dict \<Rightarrow> json list" where
  "error_codes analysis =
     map (\<lambda>f. dget (the_dict f) ''code'')
       (filter (\<lambda>f. dget (the_dict f) ''severity'' = JStr ''error'') (the_list (dget analysis ''findings'')))"

definition verified_entry :: "string \<Rightarrow> dict \<Rightarrow> dict \<Rightarrow> dict" where
  "verified_entry label analysis coverage =
     [(''label'', JStr label), (''verified'', JBool True), (''policy_id'', dget analysis ''policy_id''),
      (''bundle_version'', dget analysis ''bundle_version''), (''analysis_result'', dget analysis ''overall_result''),
      (''coverage_result'', dget coverage ''overall_result''), (''error_findings'', JList (error_codes analysis)),
      (''shadowed_allows'', dget coverage ''shadowed_allows''), (''error'', JNull)]"

text \<open>The counters of the loop: findings by code and the totals of the coverage summaries.\<close>

record audit_state =
  as_entries :: "dict list"
  as_codes :: "(string \<times> int) list"
  as_totals :: "(string \<times> int) list"

definition add_totals :: "(string \<times> int) list \<Rightarrow> dict \<Rightarrow> (string \<times> int) list" where
  "add_totals m coverage =
     map (\<lambda>(k, n). (k, n + the_int (dget (the_dict (dget coverage ''summary'')) k))) m"

definition audit_step ::
  "verifier \<Rightarrow> string list option \<Rightarrow> request_space \<Rightarrow> (string \<Rightarrow> audit_clock) \<Rightarrow> audit_state \<Rightarrow> string \<times> dict
    \<Rightarrow> audit_state res" where
  "audit_step V trusted sp clock st lb = (case lb of (label, bundle) \<Rightarrow>
     let c = clock label in
     case rbind (analyze_policy_bundle V bundle trusted None (fst (ac_analysis c)) (snd (ac_analysis c))) (\<lambda>analysis.
          rbind (policy_bundle_coverage V bundle trusted None (fst (ac_coverage c)) (snd (ac_coverage c)) sp (ac_requests c))
            (\<lambda>coverage. Inr (analysis, coverage))) of
       Inr (analysis, coverage) \<Rightarrow>
         Inr (st\<lparr>as_entries := as_entries st @ [verified_entry label analysis coverage],
                as_codes := foldl count_up (as_codes st) (map the_str (error_codes analysis)),
                as_totals := add_totals (as_totals st) coverage\<rparr>)
     | Inl x \<Rightarrow>
         if is_ValueError x \<or> is_TypeError x
         then Inr (st\<lparr>as_entries := as_entries st
                @ [failed_entry label (JStr (exn_name x @ '': '' @ exn_msg x))]\<rparr>)
         else Inl x)"

fun audit_loop ::
  "verifier \<Rightarrow> string list option \<Rightarrow> request_space \<Rightarrow> (string \<Rightarrow> audit_clock) \<Rightarrow> audit_state \<Rightarrow> (string \<times> dict) list
    \<Rightarrow> audit_state res" where
  "audit_loop V trusted sp clock st [] = Inr st"
| "audit_loop V trusted sp clock st (lb # r) =
     rbind (audit_step V trusted sp clock st lb) (\<lambda>st'. audit_loop V trusted sp clock st' r)"

definition audit_totals_init :: "(string \<times> int) list" where
  "audit_totals_init = [(''allowed'', 0), (''denied'', 0), (''exceptions'', 0), (''shadowed_allows'', 0)]"

definition entry_verified :: "dict \<Rightarrow> bool" where
  "entry_verified e \<longleftrightarrow> dget e ''verified'' = JBool True"

definition entry_failed :: "string \<Rightarrow> dict \<Rightarrow> bool" where
  "entry_failed field e \<longleftrightarrow> entry_verified e \<and> dget e field = JStr ''FAIL''"

definition audit_report :: "audit_state \<Rightarrow> dict" where
  "audit_report st =
     (let es = as_entries st; verified = length (filter entry_verified es);
          af = length (filter (entry_failed ''analysis_result'') es);
          cf = length (filter (entry_failed ''coverage_result'') es) in
      [(''type'', JStr ''kinegrant:PolicyAuditSummary''), (''schema_version'', JStr ''0.1''),
       (''overall_result'', verdict_text (verified = length es \<and> af = 0 \<and> cf = 0)),
       (''summary'', JDict
          ([(''bundles_total'', JInt (int (length es))), (''verified'', JInt (int verified)),
            (''failed'', JInt (int (length es) - int verified)), (''analysis_failures'', JInt (int af)),
            (''coverage_failures'', JInt (int cf)),
            (''findings_by_code'', JDict (map (\<lambda>(k, n). (k, JInt n)) (as_codes st)))]
           @ map (\<lambda>(k, n). (k, JInt n)) (as_totals st))),
       (''bundles'', JList (map JDict es))])"

definition audit_policy_bundles ::
  "verifier \<Rightarrow> (string \<times> dict) list \<Rightarrow> string list option \<Rightarrow> request_space \<Rightarrow> (string \<Rightarrow> audit_clock) \<Rightarrow> dict res" where
  "audit_policy_bundles V bundles trusted sp clock =
     (if bundles = [] then Inl (ValueError ''at least one labeled bundle is required'')
      else rbind (audit_loop V trusted sp clock \<lparr>as_entries = [], as_codes = [], as_totals = audit_totals_init\<rparr>
             (sort_key fst bundles)) (\<lambda>st. Inr (audit_report st)))"

section \<open>The analysis is conservative for simple scopes\<close>

text \<open>
  The rules' patterns the analysis is right about: stars are the only wildcards, of the two
  targets one is literal or the star, and actions and purposes are literal or the star.
\<close>

definition star_only :: "string \<Rightarrow> bool" where
  "star_only p \<longleftrightarrow> CHR ''?'' \<notin> set p \<and> CHR ''['' \<notin> set p"

definition plain_pat :: "string \<Rightarrow> bool" where
  "plain_pat p \<longleftrightarrow> p = ''*'' \<or> literal_pat p"

definition simple_scope :: "policy_rule \<Rightarrow> policy_rule \<Rightarrow> bool" where
  "simple_scope a b \<longleftrightarrow> star_only (pr_target a) \<and> star_only (pr_target b)
     \<and> (plain_pat (pr_target a) \<or> plain_pat (pr_target b))
     \<and> list_all plain_pat (pr_actions a @ pr_actions b @ pr_purposes a @ pr_purposes b)"

lemma pattern_overlaps_sound:
  assumes "fnmatchcase s a" "fnmatchcase s b" "star_only a" "star_only b" "plain_pat a \<or> plain_pat b"
  shows "pattern_overlaps a b"
proof -
  have "pattern_overlaps c d \<and> pattern_overlaps d c"
    if "fnmatchcase s c" "fnmatchcase s d" "star_only d" "plain_pat c" for c d
  proof (cases "c = ''*''")
    case False
    with that have "s = c" using fnmatch_literal by (auto simp: plain_pat_def)
    moreover have "literal_pat d \<Longrightarrow> s = d" using that(2) fnmatch_literal by blast
    ultimately show ?thesis using that by (auto simp: pattern_overlaps_def literal_pat_def star_only_def)
  qed (simp add: pattern_overlaps_def)
  with assms show ?thesis by blast
qed

lemma tuple_overlaps_sound:
  assumes "matches_any as s" "matches_any bs s" "list_all plain_pat (as @ bs)"
  shows "tuple_overlaps as bs"
proof -
  obtain a b where ab: "a \<in> set as" "fnmatchcase s a" "b \<in> set bs" "fnmatchcase s b"
    using assms(1,2) by (auto simp: matches_any_def list_ex_iff)
  have "plain_pat a" "plain_pat b" using assms(3) ab by (auto simp: list_all_iff)
  then have "a = ''*'' \<or> b = ''*'' \<or> a = b" using ab fnmatch_literal by (auto simp: plain_pat_def)
  with ab show ?thesis by (auto simp: tuple_overlaps_def list_ex_iff)
qed

text \<open>A request that both rules apply to shows that their scopes overlap.\<close>

lemma rule_applies_matches:
  "rule_applies e q now r = Inr True \<Longrightarrow> fnmatchcase (rq_target q) (pr_target r)
     \<and> matches_any (pr_actions r) (rq_action q) \<and> matches_any (pr_purposes r) (rq_purpose q)"
  by (auto simp: rule_applies_def split: if_splits)

lemma scope_overlaps_sound:
  assumes "rule_applies e q now a = Inr True" "rule_applies e' q now' b = Inr True" "simple_scope a b"
  shows "scope_overlaps a b"
proof -
  note m = rule_applies_matches [OF assms(1)] rule_applies_matches [OF assms(2)]
  have "pattern_overlaps (pr_target a) (pr_target b)"
    using m assms(3) by (intro pattern_overlaps_sound [of "rq_target q"]) (auto simp: simple_scope_def)
  moreover have "tuple_overlaps (pr_actions a) (pr_actions b)" "tuple_overlaps (pr_purposes a) (pr_purposes b)"
    using m assms(3) by (auto intro!: tuple_overlaps_sound simp: simple_scope_def)
  ultimately show ?thesis by (simp add: scope_overlaps_def)
qed

lemma pattern_overlaps_sym: "pattern_overlaps a b = pattern_overlaps b a"
  by (auto simp: pattern_overlaps_def)

lemma tuple_overlaps_sym: "tuple_overlaps a b = tuple_overlaps b a"
  by (auto simp: tuple_overlaps_def list_ex_iff)

lemma scope_overlaps_sym: "scope_overlaps a b = scope_overlaps b a"
  by (simp add: scope_overlaps_def pattern_overlaps_sym [of "pr_target a"] tuple_overlaps_sym [of "pr_actions a"]
      tuple_overlaps_sym [of "pr_purposes a"])

text \<open>A pair of rules with overlapping scopes and different effects leaves an error.\<close>

definition error_finding :: "dict \<Rightarrow> bool" where
  "error_finding f \<longleftrightarrow> dget f ''severity'' = JStr ''error''"

lemma pair_error:
  "scope_overlaps a b \<Longrightarrow> pr_effect a \<noteq> pr_effect b \<Longrightarrow> \<exists>f\<in>set (pair_findings a b). error_finding f"
  by (simp add: pair_findings_def error_finding_def finding_def)

lemma all_pairs_error:
  assumes "a \<in> set rs" "b \<in> set rs" "scope_overlaps a b" "pr_effect a \<noteq> pr_effect b"
  shows "\<exists>f\<in>set (all_pair_findings rs). error_finding f"
  using assms(1,2)
proof (induction rs)
  case (Cons c rs)
  have ne: "a \<noteq> b" using assms(4) by auto
  consider "a = c" "b \<in> set rs" | "b = c" "a \<in> set rs" | "a \<in> set rs" "b \<in> set rs" using Cons.prems ne by auto
  then show ?case
  proof cases
    case 1
    with pair_error [OF assms(3,4)] show ?thesis by auto
  next
    case 2
    with pair_error [of b a] assms(3,4) show ?thesis using scope_overlaps_sym by fastforce
  qed (use Cons.IH in auto)
qed simp

lemma analyze_passD:
  assumes "analyze_policy_bundle V bundle trusted expected t1 t2 = Inr rep" "dget rep ''overall_result'' = JStr ''PASS''"
  obtains p rules where "verify_policy_bundle V bundle trusted expected t1 = Inr p"
    "rules_from_bundle V bundle trusted expected t2 = Inr rules"
    "\<And>r. r \<in> set rules \<Longrightarrow> \<exists>fs. rule_findings (the_str (dget p ''issuer'')) r = Inr fs \<and> (\<forall>f\<in>set fs. \<not> error_finding f)"
    "\<forall>f\<in>set (all_pair_findings rules). \<not> error_finding f"
proof -
  obtain p rules fss bid where
    p: "verify_policy_bundle V bundle trusted expected t1 = Inr p" "rules_from_bundle V bundle trusted expected t2 = Inr rules"
    and f: "rmapM (rule_findings (the_str (dget p ''issuer''))) rules = Inr fss"
    and rep: "rep = analysis_report p bid (concat fss @ all_pair_findings rules)"
    using assms(1) unfolding analyze_policy_bundle_def by (elim res_elims) auto
  have none: "\<forall>f\<in>set (concat fss @ all_pair_findings rules). \<not> error_finding f"
    using assms(2) by (auto simp: rep analysis_report_def verdict_text_def severities_def error_finding_def filter_empty_conv split: if_splits)
  have "\<exists>fs. rule_findings (the_str (dget p ''issuer'')) r = Inr fs \<and> (\<forall>f\<in>set fs. \<not> error_finding f)" if "r \<in> set rules" for r
  proof -
    from that obtain i where i: "i < length rules" "rules ! i = r" by (auto simp: in_set_conv_nth)
    have "rule_findings (the_str (dget p ''issuer'')) r = Inr (fss ! i)" "fss ! i \<in> set fss"
      using rmapM_nth [OF f i(1)] rmapM_length [OF f] i by (simp_all add: i(2))
    with none show ?thesis by (intro exI [of _ "fss ! i"]) auto
  qed
  with none show thesis by (intro that [OF p]) simp_all
qed

theorem analysis_no_conflict:
  assumes "analyze_policy_bundle V bundle trusted expected t1 t2 = Inr rep" "dget rep ''overall_result'' = JStr ''PASS''"
    and "rules_from_bundle V bundle trusted expected t2 = Inr rules" "a \<in> set rules" "b \<in> set rules" "simple_scope a b"
    and "rule_applies e q now a = Inr True" "rule_applies e' q now' b = Inr True"
  shows "pr_effect a = pr_effect b"
  using assms(1,2)
proof (rule analyze_passD)
  fix rules'
  assume "rules_from_bundle V bundle trusted expected t2 = Inr rules'" "\<forall>f\<in>set (all_pair_findings rules'). \<not> error_finding f"
  then show ?thesis
    using all_pairs_error [OF assms(4,5) scope_overlaps_sound [OF assms(7,8,6)]] assms(3) by auto
qed

text \<open>The rules of a bundle that passes are by its signer and use only known obligations.\<close>

lemma analysis_signer:
  assumes "analyze_policy_bundle V bundle trusted expected t1 t2 = Inr rep" "dget rep ''overall_result'' = JStr ''PASS''"
    and "rules_from_bundle V bundle trusted expected t2 = Inr rules" "r \<in> set rules"
  shows "\<exists>p. verify_policy_bundle V bundle trusted expected t1 = Inr p \<and> pr_issuer r = the_str (dget p ''issuer'')
    \<and> (\<forall>v\<in>set (pr_obligations r). v \<in> JStr ` set KNOWN_OBLIGATIONS)"
  using assms(1,2)
proof (rule analyze_passD)
  fix p rules'
  assume a: "verify_policy_bundle V bundle trusted expected t1 = Inr p" "rules_from_bundle V bundle trusted expected t2 = Inr rules'"
    "\<And>r. r \<in> set rules' \<Longrightarrow> \<exists>fs. rule_findings (the_str (dget p ''issuer'')) r = Inr fs \<and> (\<forall>f\<in>set fs. \<not> error_finding f)"
  obtain fs where f: "rule_findings (the_str (dget p ''issuer'')) r = Inr fs" "\<forall>f\<in>set fs. \<not> error_finding f"
    using a(2,3) assms(3,4) by auto
  then show ?thesis using a(1)
    by (intro exI [of _ p])
      (auto simp: rule_findings_def res_simps issuer_findings_def obligation_findings_def error_finding_def finding_def Let_def
        filter_empty_conv split: if_splits)
qed

section \<open>A conflict the analysis misses\<close>

definition glob_rule :: "effect \<Rightarrow> string \<Rightarrow> policy_rule" where
  "glob_rule eff target = \<lparr>pr_policy_id = effect_name eff, pr_issuer = ''owner'', pr_target = target, pr_effect = eff,
     pr_actions = [''open''], pr_subjects = [''*''], pr_purposes = [''*''], pr_constraints = [], pr_obligations = [],
     pr_priority = JInt 0, pr_source = []\<rparr>"

lemma conflict_missed:
  "fnmatchcase ''door-7'' ''door-*'' \<and> fnmatchcase ''door-7'' ''*-7''
   \<and> all_pair_findings [glob_rule Allow ''door-*'', glob_rule Deny ''*-7''] = []"
  by code_simp

section \<open>The fleet audit\<close>

definition audited_as ::
  "verifier \<Rightarrow> string list option \<Rightarrow> request_space \<Rightarrow> (string \<Rightarrow> audit_clock) \<Rightarrow> string \<times> dict \<Rightarrow> dict \<Rightarrow> bool" where
  "audited_as V trusted sp clock lb entry \<longleftrightarrow> (case lb of (label, bundle) \<Rightarrow>
     let c = clock label;
         analysis = analyze_policy_bundle V bundle trusted None (fst (ac_analysis c)) (snd (ac_analysis c));
         coverage = policy_bundle_coverage V bundle trusted None (fst (ac_coverage c)) (snd (ac_coverage c)) sp (ac_requests c)
     in (\<exists>a g. analysis = Inr a \<and> coverage = Inr g \<and> entry = verified_entry label a g)
      \<or> (\<exists>x. (analysis = Inl x \<or> (\<exists>a. analysis = Inr a) \<and> coverage = Inl x)
           \<and> entry = failed_entry label (JStr (exn_name x @ '': '' @ exn_msg x))))"

lemma audit_step_entry:
  assumes "audit_step V trusted sp clock st lb = Inr st'"
  shows "\<exists>e. as_entries st' = as_entries st @ [e] \<and> audited_as V trusted sp clock lb e"
  using assms
  by (cases lb) (auto simp: audit_step_def audited_as_def Let_def rbind_def split: sum.splits prod.splits if_splits)

lemma audit_loop_entries:
  "audit_loop V trusted sp clock st bs = Inr st' \<Longrightarrow>
    \<exists>es. as_entries st' = as_entries st @ es \<and> list_all2 (audited_as V trusted sp clock) bs es"
proof (induction bs arbitrary: st)
  case (Cons b bs)
  then obtain st1 where 1: "audit_step V trusted sp clock st b = Inr st1" "audit_loop V trusted sp clock st1 bs = Inr st'"
    by (auto simp: res_simps)
  from audit_step_entry [OF 1(1)] obtain e where e: "as_entries st1 = as_entries st @ [e]" "audited_as V trusted sp clock b e" by blast
  from Cons.IH [OF 1(2)] obtain es where "as_entries st' = as_entries st1 @ es" "list_all2 (audited_as V trusted sp clock) bs es" by blast
  with e show ?case by (intro exI [of _ "e # es"]) simp
qed simp

lemma analyze_verdict:
  assumes "analyze_policy_bundle V bundle trusted expected t1 t2 = Inr a"
  shows "dget a ''overall_result'' = JStr ''PASS'' \<or> dget a ''overall_result'' = JStr ''FAIL''"
proof -
  obtain p bid fs where "a = analysis_report p bid fs"
    using assms unfolding analyze_policy_bundle_def by (elim res_elims) auto
  then show ?thesis by (simp add: analysis_report_def verdict_text_def)
qed

lemma coverage_verdict:
  assumes "policy_bundle_coverage V bundle trusted expected t1 t2 sp clocks = Inr g"
  shows "dget g ''overall_result'' = JStr ''PASS'' \<or> dget g ''overall_result'' = JStr ''FAIL''"
proof -
  obtain p bid c where "g = coverage_report p bid c"
    using assms unfolding policy_bundle_coverage_def by (elim res_elims) auto
  then show ?thesis by (simp add: coverage_report_def verdict_text_def)
qed

text \<open>A passing audit: every bundle of the fleet verified, its analysis and its coverage passed.\<close>

theorem audit_pass:
  assumes "audit_policy_bundles V bundles trusted sp clock = Inr rep" "dget rep ''overall_result'' = JStr ''PASS''"
    and "(label, bundle) \<in> set bundles"
  defines "c \<equiv> clock label"
  shows "\<exists>a g. analyze_policy_bundle V bundle trusted None (fst (ac_analysis c)) (snd (ac_analysis c)) = Inr a
    \<and> dget a ''overall_result'' = JStr ''PASS''
    \<and> policy_bundle_coverage V bundle trusted None (fst (ac_coverage c)) (snd (ac_coverage c)) sp (ac_requests c) = Inr g
    \<and> dget g ''overall_result'' = JStr ''PASS''"
proof -
  obtain st where l: "audit_loop V trusted sp clock \<lparr>as_entries = [], as_codes = [], as_totals = audit_totals_init\<rparr> (sort_key fst bundles) = Inr st"
    and rep: "rep = audit_report st"
    using assms(1) by (auto simp: audit_policy_bundles_def res_simps split: if_splits)
  from audit_loop_entries [OF l] have es: "list_all2 (audited_as V trusted sp clock) (sort_key fst bundles) (as_entries st)" by auto
  have pass: "length (filter entry_verified (as_entries st)) = length (as_entries st)"
    "length (filter (entry_failed ''analysis_result'') (as_entries st)) = 0"
    "length (filter (entry_failed ''coverage_result'') (as_entries st)) = 0"
    using assms(2) by (auto simp: rep audit_report_def Let_def verdict_text_def split: if_splits)
  obtain i where i: "i < length (sort_key fst bundles)" "sort_key fst bundles ! i = (label, bundle)"
    using assms(3) in_set_conv_nth [of "(label, bundle)" "sort_key fst bundles"] by auto
  define e where "e = as_entries st ! i"
  have e: "audited_as V trusted sp clock (label, bundle) e" "e \<in> set (as_entries st)"
    using list_all2_nthD [OF es i(1)] list_all2_lengthD [OF es] i by (auto simp: e_def)
  have "entry_verified e" "\<not> entry_failed ''analysis_result'' e" "\<not> entry_failed ''coverage_result'' e"
    using pass e(2) length_filter_less [of e "as_entries st" entry_verified] by (auto simp: filter_empty_conv)
  with e(1) obtain a g where a: "analyze_policy_bundle V bundle trusted None (fst (ac_analysis c)) (snd (ac_analysis c)) = Inr a"
    and g: "policy_bundle_coverage V bundle trusted None (fst (ac_coverage c)) (snd (ac_coverage c)) sp (ac_requests c) = Inr g"
    and eq: "e = verified_entry label a g"
    unfolding audited_as_def c_def [symmetric] Let_def prod.case by (auto simp: entry_verified_def failed_entry_def)
  have "dget a ''overall_result'' \<noteq> JStr ''FAIL''" "dget g ''overall_result'' \<noteq> JStr ''FAIL''"
    using \<open>\<not> entry_failed ''analysis_result'' e\<close> \<open>\<not> entry_failed ''coverage_result'' e\<close>
    by (simp_all add: entry_failed_def entry_verified_def eq verified_entry_def)
  with a g analyze_verdict [OF a] coverage_verdict [OF g] show ?thesis by blast
qed

end
