(* ===== verification/Privacy.thy ===== *)
theory Privacy
  imports Identity PyTime Canonical
begin

text \<open>
  \<open>privacy.py\<close>: the registry of rotating identifiers (a state machine over the dictionary of
  active ephemeral ids) and redaction by digest. The random part of an ephemeral id and the time
  (\<open>now or utc_now()\<close>) are arguments.
\<close>

section \<open>The registry\<close>

text \<open>The value of an active entry: namespace, static id, time of creation.\<close>

type_synonym ephemeral_entry = "string \<times> string \<times> datetime"

record rotating_registry =
  rr_lifetime :: int
  rr_active :: "(string \<times> ephemeral_entry) list"

definition rotating_registry_init :: "json \<Rightarrow> rotating_registry res" where
  "rotating_registry_init lifetime =
     (if \<not> is_int_nb lifetime \<or> the_int lifetime < 1
      then Inl (ValueError ''lifetime_seconds must be a positive integer'')
      else rbind (timedelta_seconds (the_int lifetime)) (\<lambda>us. Inr \<lparr>rr_lifetime = us, rr_active = []\<rparr>))"

definition ephemeral_text :: "string \<Rightarrow> string \<Rightarrow> string" where
  "ephemeral_text namespace token = ''urn:kinegrant:ephemeral:'' @ namespace @ '':'' @ token"

text \<open>\<open>_EPHEMERAL_RE.fullmatch(s)\<close>\<close>

definition is_ephemeral :: "string \<Rightarrow> bool" where
  "is_ephemeral s \<longleftrightarrow> startswith s ''urn:kinegrant:ephemeral:'' \<and>
     (let r = drop 24 s; token = drop 1 (dropWhile ns_char r) in
      is_namespace (takeWhile ns_char r) \<and> startswith (dropWhile ns_char r) '':'' \<and>
      length token = 24 \<and> list_all is_lower_hex token)"

definition registry_issue ::
  "rotating_registry \<Rightarrow> json \<Rightarrow> json \<Rightarrow> string \<Rightarrow> datetime \<Rightarrow> rotating_registry \<times> string res" where
  "registry_issue r namespace static_id token now =
     (if \<not> (is_str namespace \<and> is_namespace (the_str namespace))
        then (r, Inl (ValueError ''namespace must match the KineGrant namespace grammar''))
      else if \<not> nonempty_str static_id then (r, Inl (ValueError ''static_id must be a non-empty string''))
      else let e = ephemeral_text (the_str namespace) token in
        (r\<lparr>rr_active := dset (rr_active r) e (the_str namespace, the_str static_id, now)\<rparr>, Inr e))"

definition registry_resolve :: "rotating_registry \<Rightarrow> string \<Rightarrow> datetime \<Rightarrow> rotating_registry \<times> string res" where
  "registry_resolve r e now =
     (if \<not> is_ephemeral e then (r, Inl (ValueError ''not a valid ephemeral identifier''))
      else case map_of (rr_active r) e of
        None \<Rightarrow> (r, Inl (ValueError ''ephemeral identifier ''))
      | Some (_, static_id, created) \<Rightarrow>
          (case dt_diff now created of
             Inl x \<Rightarrow> (r, Inl x)
           | Inr age \<Rightarrow>
               if age > rr_lifetime r
               then (r\<lparr>rr_active := dwithout [e] (rr_active r)\<rparr>, Inl (ValueError ''ephemeral identifier ''))
               else (r, Inr static_id)))"

text \<open>The comprehension compares with the arguments before they are validated.\<close>

definition registry_rotate ::
  "rotating_registry \<Rightarrow> json \<Rightarrow> json \<Rightarrow> string \<Rightarrow> datetime \<Rightarrow> rotating_registry \<times> string res" where
  "registry_rotate r namespace static_id token now =
     (let stale = map fst (filter (\<lambda>(_, ns, sid, _). JStr ns = namespace \<and> JStr sid = static_id) (rr_active r)) in
      registry_issue (r\<lparr>rr_active := dwithout stale (rr_active r)\<rparr>) namespace static_id token now)"

definition registry_revoke :: "rotating_registry \<Rightarrow> string \<Rightarrow> rotating_registry \<times> unit res" where
  "registry_revoke r e =
     (if map_of (rr_active r) e = None then (r, Inl (ValueError ''ephemeral identifier ''))
      else (r\<lparr>rr_active := dwithout [e] (rr_active r)\<rparr>, Inr ()))"

definition active_count :: "rotating_registry \<Rightarrow> nat" where
  "active_count r = length (rr_active r)"

section \<open>What the registry guarantees\<close>

definition ephemeral_ok :: "string \<times> ephemeral_entry \<Rightarrow> bool" where
  "ephemeral_ok x \<longleftrightarrow> (case x of (e, ns, sid, _) \<Rightarrow>
     is_namespace ns \<and> sid \<noteq> [] \<and> (\<exists>token. e = ephemeral_text ns token))"

definition registry_inv :: "rotating_registry \<Rightarrow> bool" where
  "registry_inv r \<longleftrightarrow> distinct (map fst (rr_active r)) \<and> 0 < rr_lifetime r \<and>
     (\<forall>x\<in>set (rr_active r). ephemeral_ok x)"

lemma registry_init_inv: "rotating_registry_init l = Inr r \<Longrightarrow> registry_inv r"
  by (auto simp: rotating_registry_init_def registry_inv_def timedelta_seconds_def res_simps seconds_def split: if_splits)

lemma set_dset: "x \<in> set (dset d k v) \<Longrightarrow> x = (k, v) \<or> x \<in> set d"
  by (induction d k v rule: dset.induct) (auto split: if_splits)

lemma set_dset_other: "k' \<noteq> k \<Longrightarrow> (k', w) \<in> set (dset d k v) \<longleftrightarrow> (k', w) \<in> set d"
  by (induction d k v rule: dset.induct) auto

lemma in_dset: "(k, v) \<in> set (dset d k v)"
  by (induction d k v rule: dset.induct) auto

lemma distinct_dwithout: "distinct (map fst d) \<Longrightarrow> distinct (map fst (dwithout ks d))"
  unfolding dwithout_def by (rule distinct_map_filter)

lemma set_dwithout: "(k, v) \<in> set (dwithout ks d) \<longleftrightarrow> (k, v) \<in> set d \<and> k \<notin> set ks"
  by (auto simp: dwithout_def)

lemma registry_inv_without: "registry_inv r \<Longrightarrow> registry_inv (r\<lparr>rr_active := dwithout ks (rr_active r)\<rparr>)"
  by (auto simp: registry_inv_def distinct_dwithout set_dwithout)

lemma registry_issue_inv: "registry_inv r \<Longrightarrow> registry_inv (fst (registry_issue r ns sid token now))"
proof -
  assume inv: "registry_inv r"
  then have d: "distinct (map fst (dset (rr_active r) e v))" for e v
    by (auto simp: registry_inv_def intro: distinct_dset)
  have ok: "\<forall>x\<in>set (dset (rr_active r) (ephemeral_text n token) (n, s, now)). ephemeral_ok x"
    if "is_namespace n" "s \<noteq> []" for n s
    using set_dset that inv by (fastforce simp: registry_inv_def ephemeral_ok_def)
  show ?thesis
  proof (cases "is_str ns \<and> is_namespace (the_str ns) \<and> nonempty_str sid")
    case True
    then have "the_str sid \<noteq> []" by (auto simp: nonempty_str_iff)
    then have "\<forall>x\<in>set (dset (rr_active r) (ephemeral_text (the_str ns) token) (the_str ns, the_str sid, now)). ephemeral_ok x"
      using ok True by blast
    with True inv d show ?thesis by (simp add: registry_issue_def registry_inv_def Let_def)
  qed (use inv in \<open>auto simp: registry_issue_def\<close>)
qed

text \<open>Every operation keeps the invariant.\<close>

lemma registry_ops_inv:
  assumes "registry_inv r"
  shows "registry_inv (fst (registry_resolve r e now))" "registry_inv (fst (registry_rotate r ns sid token now))"
    "registry_inv (fst (registry_revoke r e))"
proof -
  show "registry_inv (fst (registry_resolve r e now))"
    using assms registry_inv_without [OF assms, of "[e]"]
    by (auto simp: registry_resolve_def split: option.splits sum.splits if_splits)
  show "registry_inv (fst (registry_rotate r ns sid token now))"
    unfolding registry_rotate_def Let_def by (intro registry_issue_inv registry_inv_without assms)
  show "registry_inv (fst (registry_revoke r e))"
    using assms registry_inv_without [OF assms, of "[e]"] by (auto simp: registry_revoke_def)
qed

text \<open>An ephemeral id resolves to its static id exactly during its lifetime.\<close>

theorem issued_resolves:
  assumes "registry_issue r ns (JStr sid) token t0 = (r', Inr e)" "length token = 24" "list_all is_lower_hex token"
    and "\<not> naive t0" "\<not> naive t"
  shows "snd (registry_resolve r' e t) =
    (if dt_us t - dt_us t0 \<le> rr_lifetime r then Inr sid else Inl (ValueError ''ephemeral identifier ''))"
proof -
  from assms(1) obtain n where n: "ns = JStr n" "is_namespace n" "e = ephemeral_text n token"
    "r' = r\<lparr>rr_active := dset (rr_active r) e (n, sid, t0)\<rparr>"
    by (auto simp: registry_issue_def Let_def is_str_iff split: if_splits)
  have ns: "takeWhile ns_char (n @ CHR '':'' # token) = n" "dropWhile ns_char (n @ CHR '':'' # token) = CHR '':'' # token"
    using n(2) by (simp_all add: is_namespace_def takeWhile_append dropWhile_append list_all_iff)
  have "drop 24 e = n @ CHR '':'' # token" unfolding n(3) ephemeral_text_def by simp
  moreover have "startswith e ''urn:kinegrant:ephemeral:''" unfolding n(3) ephemeral_text_def by (rule startswith_append)
  ultimately have "is_ephemeral e" using ns n(2) assms(2,3) by (simp add: is_ephemeral_def startswith_def)
  moreover have "map_of (rr_active r') e = Some (n, sid, t0)" by (simp add: n(4) map_of_dset)
  ultimately show ?thesis using assms(4,5) n(4) by (simp add: registry_resolve_def dt_diff_def)
qed

lemma distinct_set_single: "distinct xs \<Longrightarrow> set xs = {a} \<Longrightarrow> xs = [a]"
proof (cases xs)
  case (Cons y ys)
  assume "distinct xs" "set xs = {a}"
  with Cons have "y = a" "a \<notin> set ys" "set ys \<subseteq> {a}" by auto
  then have "set ys = {}" using subset_singletonD by fastforce
  with Cons \<open>y = a\<close> show ?thesis by simp
qed simp

text \<open>After a rotation exactly one active entry belongs to the identity: the new one.\<close>

theorem rotate_leaves_one:
  assumes "registry_inv r" "registry_rotate r (JStr n) (JStr sid) token now = (r', Inr e)"
  shows "filter (\<lambda>(_, ns, s, _). ns = n \<and> s = sid) (rr_active r') = [(e, n, sid, now)]"
proof -
  define stale where "stale = map fst (filter (\<lambda>(_, ns, s, _). JStr ns = JStr n \<and> JStr s = JStr sid) (rr_active r))"
  from assms(2) have e: "e = ephemeral_text n token"
    and r': "rr_active r' = dset (dwithout stale (rr_active r)) e (n, sid, now)"
    by (auto simp: registry_rotate_def registry_issue_def Let_def stale_def split: if_splits)
  have "registry_inv r'" using registry_ops_inv(2) [OF assms(1), of "JStr n" "JStr sid" token now] assms(2) by simp
  then have d: "distinct (map fst (rr_active r'))" by (simp add: registry_inv_def)
  let ?P = "\<lambda>(_, ns, s, _). ns = n \<and> s = sid"
  have sub: "x = (e, n, sid, now)" if x: "x \<in> set (rr_active r')" "?P x" for x
  proof (rule ccontr)
    assume ne: "x \<noteq> (e, n, sid, now)"
    obtain k t where xk: "x = (k, n, sid, t)" using x(2) by (cases x) auto
    have "(e, n, sid, now) \<in> set (rr_active r')" unfolding r' by (rule in_dset)
    with x(1) ne xk d have "k \<noteq> e" by (metis eq_key_imp_eq_value)
    with x(1) xk have "(k, n, sid, t) \<in> set (rr_active r)" "k \<notin> set stale"
      unfolding r' by (simp_all add: set_dset_other set_dwithout)
    then show False by (force simp: stale_def)
  qed
  have "(e, n, sid, now) \<in> set (rr_active r')" unfolding r' by (rule in_dset)
  then have "(e, n, sid, now) \<in> set (filter ?P (rr_active r'))" by simp
  moreover have "x = (e, n, sid, now)" if "x \<in> set (filter ?P (rr_active r'))" for x
    using that sub unfolding set_filter by blast
  ultimately have s: "set (filter ?P (rr_active r')) = {(e, n, sid, now)}" by blast
  have "distinct (rr_active r')" using d by (simp add: distinct_map)
  then have "distinct (filter ?P (rr_active r'))" by (rule distinct_filter)
  from distinct_set_single [OF this s] show ?thesis .
qed

section \<open>Redaction by digest\<close>

definition kept_fields :: "dict \<Rightarrow> string list option \<Rightarrow> string list option \<Rightarrow> string list" where
  "kept_fields document visible hidden = filter (\<lambda>k. case visible of
       Some vs \<Rightarrow> k \<in> set vs
     | None \<Rightarrow> (case hidden of Some hs \<Rightarrow> k \<notin> set hs | None \<Rightarrow> True)) (map fst document)"

definition redact :: "dict \<Rightarrow> string list option \<Rightarrow> string list option \<Rightarrow> dict res" where
  "redact document visible hidden =
     (if visible \<noteq> None \<and> hidden \<noteq> None then Inl (ValueError ''provide visible or hidden, not both'')
      else let keep = kept_fields document visible hidden in
        rbind (digest (JDict document)) (\<lambda>full. Inr
          [(''type'', JStr ''kinegrant:Redaction''), (''schema_version'', JStr ''0.1''),
           (''visible_fields'', JList (map JStr (sort keep))),
           (''hidden_fields'', JList (map JStr (sort (filter (\<lambda>k. k \<notin> set keep) (map fst document))))),
           (''full_digest'', JStr full),
           (''redacted'', JDict (map (\<lambda>(k, v). (k, if k \<in> set keep then v else JNull)) document))]))"

text \<open>A set of values equals the set of a document's field names.\<close>

definition names_eq :: "json list \<Rightarrow> dict \<Rightarrow> bool res" where
  "names_eq vs full =
     (if list_all hashable vs
      then Inr (list_all (\<lambda>v. \<exists>k\<in>set (map fst full). v = JStr k) vs \<and> list_all (\<lambda>k. JStr k \<in> set vs) (map fst full))
      else Inl unhashable_exn)"

text \<open>The body of the \<open>try\<close> block of \<open>verify_redaction\<close>; both dictionaries have distinct keys.\<close>

definition check_redaction :: "dict \<Rightarrow> dict \<Rightarrow> bool res" where
  "check_redaction r full =
     (if dget r ''type'' \<noteq> JStr ''kinegrant:Redaction'' then Inr False
      else if dget r ''schema_version'' \<noteq> JStr ''0.1'' then Inr False
      else rbind (digest (JDict full)) (\<lambda>h.
        if dget r ''full_digest'' \<noteq> JStr h then Inr False
        else case dget r ''redacted'' of
          JDict red \<Rightarrow>
            if \<not> dkeys_eq red (map fst full) then Inr False
            else (case (dget_or r ''visible_fields'' (JList []), dget_or r ''hidden_fields'' (JList [])) of
              (JList vis, JList hid) \<Rightarrow>
                rbind (names_eq (vis @ hid) full) (\<lambda>same.
                  if \<not> same then Inr False
                  else if list_ex (\<lambda>v. v \<in> set hid) vis then Inr False
                  else if list_ex (\<lambda>v. \<not> py_eq (dget red (the_str v)) (dget full (the_str v))) vis then Inr False
                  else if list_ex (\<lambda>v. dget red (the_str v) \<noteq> JNull) hid then Inr False
                  else Inr True)
            | _ \<Rightarrow> Inr False)
        | _ \<Rightarrow> Inr False))"

definition verify_redaction :: "dict \<Rightarrow> dict \<Rightarrow> bool res" where
  "verify_redaction r full = (case check_redaction r full of
      Inr b \<Rightarrow> Inr b
    | Inl e \<Rightarrow> if is_TypeError e \<or> is_ValueError e then Inr False else Inl e)"

text \<open>An accepted redaction commits to the document, shows the visible fields and hides the others.\<close>

lemma verify_redaction_sound:
  assumes "verify_redaction r full = Inr True"
  obtains h red vis hid where "digest (JDict full) = Inr h" "dget r ''full_digest'' = JStr h"
    "dget r ''redacted'' = JDict red" "fst ` set red = fst ` set full"
    "set vis \<union> set hid = fst ` set full" "set vis \<inter> set hid = {}"
    "\<And>k. k \<in> set vis \<Longrightarrow> py_eq (dget red k) (dget full k)" "\<And>k. k \<in> set hid \<Longrightarrow> dget red k = JNull"
proof -
  from assms have "check_redaction r full = Inr True"
    by (auto simp: verify_redaction_def split: sum.splits if_splits)
  then obtain h red vis hid where *: "digest (JDict full) = Inr h" "dget r ''full_digest'' = JStr h"
    "dget r ''redacted'' = JDict red" "dkeys_eq red (map fst full)" "names_eq (vis @ hid) full = Inr True"
    "\<not> list_ex (\<lambda>v. v \<in> set hid) vis" "\<not> list_ex (\<lambda>v. \<not> py_eq (dget red (the_str v)) (dget full (the_str v))) vis"
    "\<not> list_ex (\<lambda>v. dget red (the_str v) \<noteq> JNull) hid"
    by (auto simp: check_redaction_def elim!: rbindE split: if_splits json.splits)
  from *(5) have n: "\<forall>v\<in>set vis \<union> set hid. \<exists>k\<in>fst ` set full. v = JStr k" "\<forall>k\<in>fst ` set full. JStr k \<in> set vis \<union> set hid"
    by (auto simp: names_eq_def list_all_iff split: if_splits)
  have ks: "fst ` set red = fst ` set full" using *(4) by (simp add: dkeys_eq_set)
  have V: "set vis \<union> set hid = JStr ` fst ` set full" using n by blast
  then have "the_str ` (set vis \<union> set hid) = fst ` set full" by (simp add: image_image)
  then have un: "the_str ` set vis \<union> the_str ` set hid = fst ` set full" by (simp add: image_Un)
  have "inj_on the_str (set vis \<union> set hid)" unfolding V by (rule inj_onI) auto
  moreover have "set vis \<inter> set hid = {}" using *(6) by (auto simp: list_ex_iff)
  ultimately have di: "the_str ` set vis \<inter> the_str ` set hid = {}"
    by (metis Un_upper1 Un_upper2 image_empty inj_on_image_Int)
  have v: "py_eq (dget red k) (dget full k)" if "k \<in> the_str ` set vis" for k
    using that *(7) by (auto simp: list_ex_iff)
  have d: "dget red k = JNull" if "k \<in> the_str ` set hid" for k
    using that *(8) by (auto simp: list_ex_iff)
  show thesis
    by (rule that [of h red "map the_str vis" "map the_str hid"]) (simp_all add: *(1-3) ks un di v d)
qed

lemma dget_masked: "dget (map (\<lambda>(k, v). (k, if k \<in> K then v else JNull)) d) k = (if k \<in> K then dget d k else JNull)"
  by (induction d) auto

lemma redact_verifies:
  assumes "redact document visible hidden = Inr r" "distinct (map fst document)" "wf_items document"
  shows "verify_redaction r document = Inr True"
proof -
  let ?keep = "kept_fields document visible hidden"
  let ?hide = "filter (\<lambda>k. k \<notin> set ?keep) (map fst document)"
  let ?red = "map (\<lambda>(k, v). (k, if k \<in> set ?keep then v else JNull)) document"
  from assms(1) obtain h where h: "digest (JDict document) = Inr h"
    and r: "r = [(''type'', JStr ''kinegrant:Redaction''), (''schema_version'', JStr ''0.1''),
           (''visible_fields'', JList (map JStr (sort ?keep))), (''hidden_fields'', JList (map JStr (sort ?hide))),
           (''full_digest'', JStr h), (''redacted'', JDict ?red)]"
    by (auto simp: redact_def Let_def elim!: rbindE split: if_splits)
  have keys: "fst ` set ?red = fst ` set document" by (force simp: image_iff)
  have keep: "set ?keep \<subseteq> fst ` set document" by (auto simp: kept_fields_def)
  have names: "names_eq (map JStr (sort ?keep) @ map JStr (sort ?hide)) document = Inr True"
    using keep by (auto simp: names_eq_def list_all_iff)
  have get: "dget ?red k = (if k \<in> set ?keep then dget document k else JNull)" for k
    by (rule dget_masked)
  have eq: "py_eq (dget document k) (dget document k)" for k using py_eq_refl(1) [OF wf_dget [OF assms(3)]] .
  have "check_redaction r document = Inr True"
    using h names keys by (simp add: check_redaction_def r dkeys_eq_set get eq) (auto simp: list_ex_iff get eq)
  then show ?thesis by (simp add: verify_redaction_def)
qed

end
