(* ===== verification/ReceiptAudit.thy ===== *)
theory ReceiptAudit
  imports Compliance Statement PyStr
begin

text \<open>
  \<open>audit.py\<close>: queries over a receipt chain. The auditor caches the verdict on the chain and the
  payloads of its envelopes; both caches are part of its state and are shown to be transparent.
  The command line and the self test are not modelled.
\<close>

section \<open>The auditor\<close>

record audit_filter =
  af_capability_id :: "string option"
  af_agent :: "string option"
  af_target :: "string option"
  af_action :: "string option"
  af_purpose :: "string option"
  af_result :: "string option"
  af_since :: "datetime option"
  af_until :: "datetime option"

record auditor =
  au_entries :: "dict list"
  au_trusted :: "string list"
  au_chain_valid :: "bool option"
  au_verified :: "dict list option"

definition auditor_init :: "dict list \<Rightarrow> string list \<Rightarrow> auditor" where
  "auditor_init entries trusted =
     \<lparr>au_entries = entries, au_trusted = trusted, au_chain_valid = None, au_verified = None\<rparr>"

definition chain_valid :: "verifier \<Rightarrow> auditor \<Rightarrow> auditor \<times> bool res" where
  "chain_valid V a = (case au_chain_valid a of
      Some b \<Rightarrow> (a, Inr b)
    | None \<Rightarrow> (case verify_receipt_chain V (au_entries a) (set_or_none (au_trusted a)) None of
          Inl x \<Rightarrow> (a, Inl x)
        | Inr b \<Rightarrow> (a\<lparr>au_chain_valid := Some b\<rparr>, Inr b)))"

fun verified_payloads :: "verifier \<Rightarrow> dict list \<Rightarrow> dict list res" where
  "verified_payloads V [] = Inr []"
| "verified_payloads V (e # es) = (case verify_envelope V e of
      Inr p \<Rightarrow> rbind (verified_payloads V es) (\<lambda>ps. Inr (p # ps))
    | Inl x \<Rightarrow> if is_TypeError x \<or> is_ValueError x then verified_payloads V es else Inl x)"

text \<open>The second half of \<open>_payloads\<close>.\<close>

definition cached_payloads :: "verifier \<Rightarrow> auditor \<Rightarrow> auditor \<times> dict list res" where
  "cached_payloads V a = (case au_verified a of
      Some ps \<Rightarrow> (a, Inr ps)
    | None \<Rightarrow> (case verified_payloads V (au_entries a) of
          Inl x \<Rightarrow> (a, Inl x)
        | Inr ps \<Rightarrow> (a\<lparr>au_verified := Some ps\<rparr>, Inr ps)))"

definition audit_payloads :: "verifier \<Rightarrow> auditor \<Rightarrow> bool \<Rightarrow> auditor \<times> dict list res" where
  "audit_payloads V a strict =
     (if \<not> strict then cached_payloads V a
      else case chain_valid V a of
          (a1, Inl x) \<Rightarrow> (a1, Inl x)
        | (a1, Inr b) \<Rightarrow>
            if \<not> b then (a1, Inl (ValueError ''receipt chain is invalid; refusing to audit an unverifiable chain''))
            else cached_payloads V a1)"

section \<open>Queries\<close>

definition unless :: "string option \<Rightarrow> json \<Rightarrow> bool" where
  "unless want v \<longleftrightarrow> (case want of None \<Rightarrow> True | Some s \<Rightarrow> v = JStr s)"

definition texts_match :: "audit_filter \<Rightarrow> dict \<Rightarrow> bool" where
  "texts_match f p \<longleftrightarrow> unless (af_capability_id f) (dget p ''capability_id'') \<and> unless (af_agent f) (dget p ''agent'')
     \<and> unless (af_target f) (dget p ''target'') \<and> unless (af_action f) (dget p ''action'')
     \<and> unless (af_purpose f) (dget p ''purpose'') \<and> unless (af_result f) (dget p ''result'')"

text \<open>\<open>try: parse_time(payload[k]) except (KeyError, TypeError, ValueError): None\<close>\<close>

definition time_or_none :: "dict \<Rightarrow> string \<Rightarrow> datetime option res" where
  "time_or_none p k = (case rbind (dindex p k) parse_time of
      Inr t \<Rightarrow> Inr (Some t)
    | Inl x \<Rightarrow> if is_KeyError x \<or> is_TypeError x \<or> is_ValueError x then Inr None else Inl x)"

definition not_before_since :: "datetime option \<Rightarrow> datetime option \<Rightarrow> bool res" where
  "not_before_since since started = (case since of
      None \<Rightarrow> Inr True
    | Some s \<Rightarrow> (case started of None \<Rightarrow> Inr False | Some t \<Rightarrow> rbind (dt_less t s) (\<lambda>b. Inr (\<not> b))))"

definition not_after_until :: "datetime option \<Rightarrow> datetime option \<Rightarrow> bool res" where
  "not_after_until until started = (case until of
      None \<Rightarrow> Inr True
    | Some u \<Rightarrow> (case started of None \<Rightarrow> Inr False | Some t \<Rightarrow> rbind (dt_less u t) (\<lambda>b. Inr (\<not> b))))"

definition selects :: "audit_filter \<Rightarrow> dict \<Rightarrow> bool res" where
  "selects f p =
     (if \<not> texts_match f p then Inr False
      else rbind (time_or_none p ''started_at'') (\<lambda>started.
      rbind (not_before_since (af_since f) started) (\<lambda>ok.
      if \<not> ok then Inr False else not_after_until (af_until f) started)))"

definition audit_query :: "verifier \<Rightarrow> auditor \<Rightarrow> audit_filter \<Rightarrow> bool \<Rightarrow> auditor \<times> dict list res" where
  "audit_query V a f strict = (case audit_payloads V a strict of
      (a1, r) \<Rightarrow> (a1, rbind r (rfilter (selects f))))"

section \<open>Summary, compliance and packets\<close>

definition count_texts :: "string \<Rightarrow> dict list \<Rightarrow> (string \<times> int) list" where
  "count_texts k ps = foldl (\<lambda>m p. case dget p k of JStr s \<Rightarrow> count_up m s | _ \<Rightarrow> m) [] ps"

definition sorted_counts :: "(string \<times> int) list \<Rightarrow> json" where
  "sorted_counts m = JDict (map (\<lambda>(k, n). (k, JInt n)) (sort_key fst m))"

text \<open>\<open>t.isoformat()\<close> of a value that \<open>parse_time\<close> returned, which is in UTC.\<close>

definition utc_text :: "datetime \<Rightarrow> json" where
  "utc_text t = JStr (iso_text (dt_us t) @ ''+00:00'')"

fun earliest :: "datetime list \<Rightarrow> datetime option" where
  "earliest [] = None"
| "earliest (t # ts) = (case earliest ts of
      None \<Rightarrow> Some t | Some u \<Rightarrow> if dt_us u < dt_us t then Some u else Some t)"

fun latest :: "datetime list \<Rightarrow> datetime option" where
  "latest [] = None"
| "latest (t # ts) = (case latest ts of
      None \<Rightarrow> Some t | Some u \<Rightarrow> if dt_us t < dt_us u then Some u else Some t)"

definition text_or_null :: "datetime option \<Rightarrow> json" where
  "text_or_null t = (case t of None \<Rightarrow> JNull | Some t \<Rightarrow> utc_text t)"

definition summary_of :: "dict list \<Rightarrow> datetime list \<Rightarrow> bool \<Rightarrow> dict" where
  "summary_of ps stamps valid =
     [(''type'', JStr ''kinegrant:ReceiptAuditSummary''), (''schema_version'', JStr ''0.1''),
      (''chain_valid'', JBool valid), (''total'', JInt (int (length ps))),
      (''by_result'', sorted_counts (count_texts ''result'' ps)),
      (''by_action'', sorted_counts (count_texts ''action'' ps)),
      (''first_finished_at'', text_or_null (earliest stamps)),
      (''last_finished_at'', text_or_null (latest stamps))]"

definition audit_summary :: "verifier \<Rightarrow> auditor \<Rightarrow> bool \<Rightarrow> auditor \<times> dict res" where
  "audit_summary V a strict = (case audit_payloads V a strict of
      (a1, Inl x) \<Rightarrow> (a1, Inl x)
    | (a1, Inr ps) \<Rightarrow>
        (case rmapM (\<lambda>p. time_or_none p ''finished_at'') ps of
           Inl x \<Rightarrow> (a1, Inl x)
         | Inr ts \<Rightarrow> (case chain_valid V a1 of
              (a2, r) \<Rightarrow> (a2, rbind r (\<lambda>valid. Inr (summary_of ps (List.map_filter id ts) valid))))))"

definition compliance_for :: "verifier \<Rightarrow> auditor \<Rightarrow> dict \<Rightarrow> string list option \<Rightarrow> compliance_verdict res" where
  "compliance_for V a capability trusted =
     (let executors = (case trusted of None \<Rightarrow> au_trusted a | Some ts \<Rightarrow> ts) in
      if executors = [] then Inl (ValueError ''trusted_executors are required for obligation compliance'')
      else compliance_evaluate V capability (au_entries a) (Some executors))"

text \<open>The columns of \<open>export_csv\<close>.\<close>

definition csv_columns :: "string list" where
  "csv_columns = [''receipt_id'', ''capability_id'', ''agent'', ''target'', ''action'', ''purpose'', ''result'',
     ''started_at'', ''finished_at'', ''evidence_hash'', ''previous_receipt_hash'', ''failure_reason'',
     ''obligation_results'']"

definition csv_cells :: "dict \<Rightarrow> json list" where
  "csv_cells p =
     map (\<lambda>k. dget_or p k (JStr [])) (take 9 csv_columns)
     @ map (\<lambda>k. if truthy (dget p k) then dget p k else JStr []) [''evidence_hash'', ''previous_receipt_hash'', ''failure_reason'']
     @ [if dget p ''obligation_results'' = JNull then JStr [] else JStr (json_dumps (dget p ''obligation_results''))]"

definition export_csv :: "verifier \<Rightarrow> auditor \<Rightarrow> audit_filter \<Rightarrow> bool \<Rightarrow> auditor \<times> string res" where
  "export_csv V a f strict = (case audit_query V a f strict of
      (a1, r) \<Rightarrow> (a1, rbind r (\<lambda>ps.
        Inr (csv_row (map JStr csv_columns) @ concat (map (\<lambda>p. csv_row (csv_cells p)) ps)))))"

definition packet_body :: "dict \<Rightarrow> dict list \<Rightarrow> dict" where
  "packet_body summary receipts =
     [(''type'', JStr ''kinegrant:ReceiptEvidencePacket''), (''schema_version'', JStr ''0.1''),
      (''summary'', JDict summary), (''receipts'', JList (map JDict receipts))]"

definition export_packet :: "verifier \<Rightarrow> auditor \<Rightarrow> audit_filter \<Rightarrow> bool \<Rightarrow> auditor \<times> dict res" where
  "export_packet V a f strict = (case audit_query V a f strict of
      (a1, Inl x) \<Rightarrow> (a1, Inl x)
    | (a1, Inr ps) \<Rightarrow> (case audit_summary V a1 strict of
        (a2, r) \<Rightarrow> (a2, rbind r (\<lambda>summary.
          let packet = packet_body summary ps in
          rbind (digest (JDict (dwithout [''packet_digest''] packet))) (\<lambda>h.
            Inr (dset packet ''packet_digest'' (JStr h)))))))"

section \<open>The caches are transparent\<close>

definition auditor_inv :: "verifier \<Rightarrow> auditor \<Rightarrow> bool" where
  "auditor_inv V a \<longleftrightarrow>
     (\<forall>b. au_chain_valid a = Some b \<longrightarrow> verify_receipt_chain V (au_entries a) (set_or_none (au_trusted a)) None = Inr b)
     \<and> (\<forall>ps. au_verified a = Some ps \<longrightarrow> verified_payloads V (au_entries a) = Inr ps)"

definition same_source :: "auditor \<Rightarrow> auditor \<Rightarrow> bool" where
  "same_source a b \<longleftrightarrow> au_entries a = au_entries b \<and> au_trusted a = au_trusted b"

lemma auditor_init_inv: "auditor_inv V (auditor_init es ts)"
  by (simp add: auditor_inv_def auditor_init_def)

lemma chain_valid_spec:
  assumes "auditor_inv V a" "chain_valid V a = (a', r)"
  shows "auditor_inv V a' \<and> same_source a' a
    \<and> r = verify_receipt_chain V (au_entries a) (set_or_none (au_trusted a)) None"
  using assms by (auto simp: chain_valid_def auditor_inv_def same_source_def split: option.splits sum.splits)

lemma cached_payloads_spec:
  assumes "auditor_inv V a" "cached_payloads V a = (a', r)"
  shows "auditor_inv V a' \<and> same_source a' a \<and> r = verified_payloads V (au_entries a)"
  using assms by (auto simp: cached_payloads_def auditor_inv_def same_source_def split: option.splits sum.splits)

text \<open>What \<open>_payloads\<close> computes, without the caches.\<close>

definition fresh_payloads :: "verifier \<Rightarrow> dict list \<Rightarrow> string list \<Rightarrow> bool \<Rightarrow> dict list res" where
  "fresh_payloads V es ts strict =
     rbind (if strict then verify_receipt_chain V es (set_or_none ts) None else Inr True) (\<lambda>valid.
     if \<not> valid then Inl (ValueError ''receipt chain is invalid; refusing to audit an unverifiable chain'')
     else verified_payloads V es)"

lemma audit_payloads_spec:
  assumes "auditor_inv V a" "audit_payloads V a strict = (a', r)"
  shows "auditor_inv V a' \<and> same_source a' a \<and> r = fresh_payloads V (au_entries a) (au_trusted a) strict"
proof (cases strict)
  case False
  with assms cached_payloads_spec [OF assms(1)] show ?thesis by (simp add: audit_payloads_def fresh_payloads_def)
next
  case True
  obtain a1 b where 1: "chain_valid V a = (a1, b)" by fastforce
  from chain_valid_spec [OF assms(1) this] have c: "auditor_inv V a1" "same_source a1 a"
    "verify_receipt_chain V (au_entries a) (set_or_none (au_trusted a)) None = b" by simp_all
  show ?thesis
  proof (cases b)
    case (Inl x)
    with True 1 assms(2) c show ?thesis by (auto simp: audit_payloads_def fresh_payloads_def)
  next
    case (Inr v)
    obtain a2 r2 where 2: "cached_payloads V a1 = (a2, r2)" by fastforce
    from cached_payloads_spec [OF c(1) this] True 1 2 Inr assms(2) c show ?thesis
      by (cases v) (auto simp: audit_payloads_def fresh_payloads_def same_source_def)
  qed
qed

theorem audit_query_spec:
  assumes "auditor_inv V a" "audit_query V a f strict = (a', r)"
  shows "auditor_inv V a' \<and> same_source a' a
    \<and> r = rbind (fresh_payloads V (au_entries a) (au_trusted a) strict) (rfilter (selects f))"
  using assms audit_payloads_spec [OF assms(1)] by (auto simp: audit_query_def split: prod.splits)

text \<open>In a chain that verifies every envelope verifies, so no receipt is skipped.\<close>

lemma chain_run_payloads:
  "chain_run V tr ex st es = Inr (Some st') \<Longrightarrow> \<exists>ps. verified_payloads V es = Inr ps \<and> list_all2 (\<lambda>e p. verify_envelope V e = Inr p) es ps"
proof (induction es arbitrary: st)
  case (Cons e es)
  then obtain st1 where 1: "receipt_step V tr ex st e = Inr (Some st1)" "chain_run V tr ex st1 es = Inr (Some st')"
    by (auto simp: res_simps split: option.splits)
  then obtain p where p: "verify_envelope V e = Inr p" by (auto simp: receipt_step_def split: sum.splits if_splits)
  from Cons.IH [OF 1(2)] p show ?case by auto
qed simp

lemma chain_payloads:
  "verify_receipt_chain V es tr ex = Inr True \<Longrightarrow>
    \<exists>ps. verified_payloads V es = Inr ps \<and> list_all2 (\<lambda>e p. verify_envelope V e = Inr p) es ps"
  using chain_run_payloads [of V tr ex "(None, [])" es] by (auto simp: verify_receipt_chain_def res_simps)

theorem strict_query_sound:
  assumes "auditor_inv V a" "audit_query V a f True = (a', Inr rs)"
  shows "verify_receipt_chain V (au_entries a) (set_or_none (au_trusted a)) None = Inr True
    \<and> (\<exists>ps. list_all2 (\<lambda>e p. verify_envelope V e = Inr p) (au_entries a) ps \<and> rs = filter (\<lambda>p. selects f p = Inr True) ps)"
proof -
  have "rbind (fresh_payloads V (au_entries a) (au_trusted a) True) (rfilter (selects f)) = Inr rs"
    using audit_query_spec [OF assms] by simp
  then obtain ps where v: "verify_receipt_chain V (au_entries a) (set_or_none (au_trusted a)) None = Inr True"
    and ps: "verified_payloads V (au_entries a) = Inr ps" "rfilter (selects f) ps = Inr rs"
    by (auto simp: fresh_payloads_def res_simps split: if_splits)
  moreover from chain_payloads [OF v] ps have "list_all2 (\<lambda>e p. verify_envelope V e = Inr p) (au_entries a) ps" by auto
  moreover have "rfilter g xs = Inr ys \<Longrightarrow> ys = filter (\<lambda>p. g p = Inr True) xs" for g :: "dict \<Rightarrow> bool res" and xs ys
    by (induction xs arbitrary: ys) (auto simp: res_simps split: if_splits)
  ultimately show ?thesis by blast
qed

theorem strict_query_refuses:
  assumes "auditor_inv V a" "verify_receipt_chain V (au_entries a) (set_or_none (au_trusted a)) None = Inr False"
  shows "snd (audit_query V a f True) = Inl (ValueError ''receipt chain is invalid; refusing to audit an unverifiable chain'')"
  using audit_query_spec [OF assms(1), of f True] assms(2)
  by (cases "audit_query V a f True") (simp add: fresh_payloads_def)

section \<open>Packets and summaries\<close>

lemma audit_summary_spec:
  assumes "auditor_inv V a" "audit_summary V a strict = (a', Inr s)"
  shows "auditor_inv V a' \<and> same_source a' a \<and> (\<exists>ps stamps valid.
      fresh_payloads V (au_entries a) (au_trusted a) strict = Inr ps
      \<and> verify_receipt_chain V (au_entries a) (set_or_none (au_trusted a)) None = Inr valid
      \<and> s = summary_of ps stamps valid)"
proof -
  obtain a1 r1 where 1: "audit_payloads V a strict = (a1, r1)" by fastforce
  with assms(2) obtain ps where ps: "r1 = Inr ps" by (cases r1) (auto simp: audit_summary_def)
  from audit_payloads_spec [OF assms(1) 1] ps have p: "auditor_inv V a1" "same_source a1 a"
    "fresh_payloads V (au_entries a) (au_trusted a) strict = Inr ps" by auto
  obtain ts where ts: "rmapM (\<lambda>p. time_or_none p ''finished_at'') ps = Inr ts"
    using assms(2) 1 ps by (auto simp: audit_summary_def split: sum.splits)
  obtain a2 r2 where 2: "chain_valid V a1 = (a2, r2)" by fastforce
  from assms(2) 1 2 ps ts obtain v where v: "a' = a2" "r2 = Inr v" "s = summary_of ps (List.map_filter id ts) v"
    by (auto simp: audit_summary_def res_simps)
  have c: "auditor_inv V a2" "same_source a2 a1" "verify_receipt_chain V (au_entries a1) (set_or_none (au_trusted a1)) None = Inr v"
    using chain_valid_spec [OF p(1) 2] v(2) by simp_all
  then have "verify_receipt_chain V (au_entries a) (set_or_none (au_trusted a)) None = Inr v" using p(2) by (simp add: same_source_def)
  with c p v show ?thesis by (auto simp: same_source_def)
qed

text \<open>The packet's digest commits to its summary and receipts.\<close>

theorem packet_self_verifying:
  assumes "auditor_inv V a" "export_packet V a f strict = (a', Inr packet)"
  shows "\<exists>h. dget packet ''packet_digest'' = JStr h \<and> digest (JDict (dwithout [''packet_digest''] packet)) = Inr h
    \<and> (\<exists>rs. dget packet ''receipts'' = JList (map JDict rs) \<and> snd (audit_query V a f strict) = Inr rs)"
proof -
  obtain a1 r1 where 1: "audit_query V a f strict = (a1, r1)" by fastforce
  with assms(2) obtain rs where rs: "r1 = Inr rs" by (cases r1) (auto simp: export_packet_def)
  obtain a2 r2 where 2: "audit_summary V a1 strict = (a2, r2)" by fastforce
  with assms(2) 1 rs obtain s h where "r2 = Inr s" and h: "digest (JDict (dwithout [''packet_digest''] (packet_body s rs))) = Inr h"
    and p: "packet = dset (packet_body s rs) ''packet_digest'' (JStr h)"
    by (auto simp: export_packet_def res_simps Let_def)
  have "packet = packet_body s rs @ [(''packet_digest'', JStr h)]" by (simp add: p packet_body_def)
  with h 1 rs show ?thesis by (simp add: packet_body_def)
qed

lemma count_texts_sum:
  "sum_list (map snd (count_texts k ps)) = int (length (filter (\<lambda>p. is_str (dget p k)) ps))"
proof (induction ps rule: rev_induct)
  case (snoc p ps)
  have "count_texts k (ps @ [p]) = (case dget p k of JStr s \<Rightarrow> count_up (count_texts k ps) s | _ \<Rightarrow> count_texts k ps)"
    by (simp add: count_texts_def cong: json.case_cong)
  with snoc show ?case by (auto simp: count_up_sum split: json.splits)
qed (simp add: count_texts_def)

lemma earliest_spec: "earliest ts = Some t \<Longrightarrow> t \<in> set ts \<and> (\<forall>u\<in>set ts. dt_us t \<le> dt_us u)"
proof (induction ts arbitrary: t)
  case (Cons a ts)
  show ?case
  proof (cases "earliest ts")
    case None
    then have "ts = []" by (cases ts) (auto split: option.splits if_splits)
    with Cons.prems show ?thesis by simp
  next
    case (Some u)
    from Cons.IH [OF this] Cons.prems Some show ?thesis by (fastforce split: if_splits)
  qed
qed simp

section \<open>Compliance needs a trust set\<close>

lemma compliance_for_trust:
  assumes "compliance_for V a capability trusted = Inr v"
  shows "\<exists>ts. ts \<noteq> [] \<and> compliance_evaluate V capability (au_entries a) (Some ts) = Inr v"
  using assms by (auto simp: compliance_for_def Let_def split: if_splits)

end
