(* ===== verification/Ros2Bridge.thy ===== *)
theory Ros2Bridge
  imports Gate PyStr "HOL-Library.Multiset"
begin

text \<open>
  \<open>bridges/ros2.py\<close>: action goals over the gate, and policy rules as an SROS2-style mapping in
  JSON and XML. The results: accepting a goal is the gate's authorization, and what a rule says can
  not add elements to the XML.
\<close>

section \<open>Goals\<close>

definition accept_goal ::
  "verifier \<Rightarrow> ('s \<Rightarrow> 'e \<Rightarrow> string \<Rightarrow> datetime \<Rightarrow> 's \<times> bool res) \<Rightarrow> gate_config \<Rightarrow> 's \<Rightarrow> 'e
    \<Rightarrow> dict \<Rightarrow> action_request \<Rightarrow> datetime \<Rightarrow> dict option \<Rightarrow> 's \<times> verified_capability res" where
  "accept_goal V consume g s env capability q now parent = authorize V consume g s env capability q now parent"

text \<open>The tuple is an option of what was verified and the name and message of the rejection.\<close>

definition try_accept_goal ::
  "verifier \<Rightarrow> ('s \<Rightarrow> 'e \<Rightarrow> string \<Rightarrow> datetime \<Rightarrow> 's \<times> bool res) \<Rightarrow> gate_config \<Rightarrow> 's \<Rightarrow> 'e
    \<Rightarrow> dict \<Rightarrow> action_request \<Rightarrow> datetime \<Rightarrow> dict option
    \<Rightarrow> 's \<times> (bool \<times> verified_capability option \<times> string option) res" where
  "try_accept_goal V consume g s env capability q now parent =
     (case accept_goal V consume g s env capability q now parent of
        (s', Inr vc) \<Rightarrow> (s', Inr (True, Some vc, None))
      | (s', Inl x) \<Rightarrow>
          if is_PermissionError x \<or> is_ValueError x
          then (s', Inr (False, None, Some (exn_name x @ '': '' @ exn_msg x))) else (s', Inl x))"

section \<open>The mapping\<close>

record sros2_mapping =
  sm_rules :: "policy_rule list"
  sm_domain :: int

definition sros2_mapping_init :: "policy_rule list \<Rightarrow> json \<Rightarrow> sros2_mapping res" where
  "sros2_mapping_init rules domain =
     (if \<not> is_int_nb domain \<or> the_int domain < 0 then Inl (ValueError ''domain must be a non-negative integer'')
      else Inr \<lparr>sm_rules = rules, sm_domain = the_int domain\<rparr>)"

text \<open>\<open>sorted(self.rules, key=lambda item: (item.policy_id, item.actions))\<close>: the key as one list of
  texts, which orders the same.\<close>

definition sorted_rules :: "sros2_mapping \<Rightarrow> policy_rule list" where
  "sorted_rules m = sort_key (\<lambda>r. pr_policy_id r # pr_actions r) (sm_rules m)"

definition topic_pattern :: "string \<Rightarrow> string" where
  "topic_pattern action = ''kg/'' @ action @ ''/goal''"

definition declaration_of :: "policy_rule \<Rightarrow> string \<Rightarrow> dict" where
  "declaration_of r action =
     [(''policy_id'', JStr (pr_policy_id r)), (''action'', JStr action), (''effect'', JStr (effect_name (pr_effect r))),
      (''target_pattern'', JStr (pr_target r)), (''subjects'', JStrs (pr_subjects r)), (''purposes'', JStrs (pr_purposes r)),
      (''topic_pattern'', JStr (topic_pattern action))]"

definition sros2_to_dict :: "sros2_mapping \<Rightarrow> dict" where
  "sros2_to_dict m =
     [(''schema'', JStr ''kinegrant:sros2-mapping:v0.1''), (''domain'', JInt (sm_domain m)), (''enforcement'', JStr ''enforce''),
      (''declarations'', JList (map JDict (concat (map (\<lambda>r. map (declaration_of r) (pr_actions r)) (sorted_rules m))))),
      (''note'', JStr (''Non-normative reference mapping. SROS2 conformance and '' @ ''certification are intentionally out of scope.''))]"

definition xml_profile :: "policy_rule \<Rightarrow> string \<Rightarrow> string list" where
  "xml_profile r action =
     [''    <profile name='' @ [CHR 0x22] @ ''*'' @ [CHR 0x22] @ ''>'',
      ''      <topic>'' @ xml_escape (topic_pattern action) @ ''</topic>'',
      ''      <kgp>policy_id='' @ xml_escape (pr_policy_id r) @ '';effect='' @ effect_name (pr_effect r) @ ''</kgp>'',
      ''    </profile>'']"

definition sros2_to_xml :: "sros2_mapping \<Rightarrow> string" where
  "sros2_to_xml m = join_text [CHR 0x0A]
     ([''<?xml version='' @ [CHR 0x22] @ ''1.0'' @ [CHR 0x22] @ '' encoding='' @ [CHR 0x22] @ ''UTF-8'' @ [CHR 0x22] @ ''?>'',
       ''<policy version='' @ [CHR 0x22] @ ''0.2.0'' @ [CHR 0x22] @ ''>'', ''  <enforcement>enforce</enforcement>'', ''  <profiles>'']
      @ concat (map (\<lambda>r. concat (map (xml_profile r) (pr_actions r))) (sorted_rules m))
      @ [''  </profiles>'', ''</policy>'']) @ [CHR 0x0A]"

section \<open>Facts\<close>

text \<open>A goal is accepted exactly when the gate authorizes it, and no refusal of the gate escapes.\<close>

theorem try_accept_goal_gate:
  "try_accept_goal V consume g s env cap q now parent = (s', r) \<Longrightarrow>
     (\<forall>vc. authorize V consume g s env cap q now parent = (s', Inr vc) \<longleftrightarrow> r = Inr (True, Some vc, None))
     \<and> (\<forall>x. r = Inl x \<longrightarrow> \<not> is_PermissionError x \<and> \<not> is_ValueError x)"
  by (auto simp: try_accept_goal_def accept_goal_def split: prod.splits sum.splits if_splits)

text \<open>One declaration for every action of every rule, whatever the order.\<close>

lemma declarations_complete:
  assumes "r \<in> set (sm_rules m)" "a \<in> set (pr_actions r)"
  shows "JDict (declaration_of r a) \<in> set (the_list (dget (sros2_to_dict m) ''declarations''))"
  using assms by (auto simp: sros2_to_dict_def sorted_rules_def)

lemma declarations_sound:
  assumes "JDict d \<in> set (the_list (dget (sros2_to_dict m) ''declarations''))"
  shows "\<exists>r\<in>set (sm_rules m). \<exists>a\<in>set (pr_actions r). d = declaration_of r a"
  using assms by (auto simp: sros2_to_dict_def sorted_rules_def)

lemma xml_escape_plain: "CHR ''<'' \<notin> set (xml_escape s) \<and> CHR ''>'' \<notin> set (xml_escape s)"
  by (induction s) (auto simp: xml_escape_def)

text \<open>The number of opening brackets depends on the number of actions only, so no policy id and no
  action can add an element.\<close>

definition brackets :: "string \<Rightarrow> nat" where
  "brackets s = length (filter (\<lambda>c. c = CHR ''<'') s)"

lemma brackets_append [simp]: "brackets (s @ t) = brackets s + brackets t" "brackets (c # t) = (if c = CHR ''<'' then 1 else 0) + brackets t"
  "brackets [] = 0"
  by (simp_all add: brackets_def)

lemma brackets_escape [simp]: "brackets (xml_escape s) = 0"
  using xml_escape_plain [of s] by (auto simp: brackets_def filter_empty_conv)

lemma brackets_join: "CHR ''<'' \<notin> set sep \<Longrightarrow> brackets (join_text sep ss) = sum_list (map brackets ss)"
proof (induction ss rule: induct_list012)
  case (3 x y zs)
  have "brackets sep = 0" using 3(3) by (auto simp: brackets_def filter_empty_conv)
  with 3 show ?case by simp
qed simp_all

lemma brackets_profile: "sum_list (map brackets (xml_profile r a)) = 6"
  by (cases "pr_effect r") (simp_all add: xml_profile_def)

theorem xml_elements:
  "brackets (sros2_to_xml m) = 7 + 6 * sum_list (map (\<lambda>r. length (pr_actions r)) (sm_rules m))"
proof -
  have one: "sum_list (map brackets (concat (map (xml_profile r) as))) = 6 * length as" for r as
    by (induction as) (simp_all add: brackets_profile)
  have all: "sum_list (map brackets (concat (map (\<lambda>r. concat (map (xml_profile r) (pr_actions r))) rs)))
      = 6 * sum_list (map (\<lambda>r. length (pr_actions r)) rs)" for rs
    by (induction rs) (simp_all add: one)
  have "sum_list (map (\<lambda>r. length (pr_actions r)) (sorted_rules m)) = sum_list (map (\<lambda>r. length (pr_actions r)) (sm_rules m))"
    unfolding sorted_rules_def sum_mset_sum_list [symmetric] by simp
  then show ?thesis by (simp add: sros2_to_xml_def brackets_join all)
qed

end
