(* ===== verification/SensorEvidence.thy ===== *)
theory SensorEvidence
  imports Checkpoint
begin

text \<open>
  \<open>sensor_evidence.py\<close>: commitments to sensor readings. A commitment may be unsigned; the
  verifier then checks only its digests. The lemmas at the end state what the verifier does not
  check: the claimed sensor of a signed commitment against the signing key, and the trust set
  for an unsigned one.
\<close>

record sensor_reading =
  sr_kind :: string
  sr_value :: dict
  sr_source :: string
  sr_confidence :: json
  sr_observed_at :: string

definition f_le :: "pyfloat \<Rightarrow> pyfloat \<Rightarrow> bool" where
  "f_le a b \<longleftrightarrow> f_less a b \<or> f_eq a b"

text \<open>\<open>0 <= v <= 1\<close> for a number.\<close>

definition unit_interval :: "json \<Rightarrow> bool" where
  "unit_interval v \<longleftrightarrow> (case num_of v of None \<Rightarrow> False | Some x \<Rightarrow> f_le (FFin 0) x \<and> f_le x (FFin 1))"

definition sensor_reading_init :: "json \<Rightarrow> json \<Rightarrow> json \<Rightarrow> json \<Rightarrow> json \<Rightarrow> sensor_reading res" where
  "sensor_reading_init kind v source confidence observed_at =
     (if \<not> nonempty_str kind then Inl (ValueError ''kind must be a non-empty string'')
      else if \<not> is_dict v then Inl (ValueError ''value must be an object'')
      else if \<not> nonempty_str source then Inl (ValueError ''source_id must be a non-empty string'')
      else if \<not> is_num_nb confidence \<or> \<not> unit_interval confidence
        then Inl (ValueError ''confidence must be a number between 0 and 1'')
      else if \<not> nonempty_str observed_at then Inl (ValueError ''observed_at must be a non-empty string'')
      else Inr \<lparr>sr_kind = the_str kind, sr_value = the_dict v, sr_source = the_str source,
                sr_confidence = confidence, sr_observed_at = the_str observed_at\<rparr>)"

definition value_hash :: "dict \<Rightarrow> string res" where
  "value_hash v = digest (JDict v)"

definition sensor_reading_to_dict :: "sensor_reading \<Rightarrow> dict res" where
  "sensor_reading_to_dict r =
     rbind (value_hash (sr_value r)) (\<lambda>h. Inr
       [(''kind'', JStr (sr_kind r)), (''value_hash'', JStr h), (''source_id'', JStr (sr_source r)),
        (''confidence'', sr_confidence r), (''observed_at'', JStr (sr_observed_at r))])"

definition commitment_body :: "json list \<Rightarrow> string \<Rightarrow> json \<Rightarrow> json \<Rightarrow> dict" where
  "commitment_body entries readings_digest sensor committed_at =
     [(''type'', JStr ''kinegrant:SensorEvidenceCommitment''), (''schema_version'', JStr ''0.1''),
      (''readings'', JList entries), (''readings_digest'', JStr readings_digest),
      (''sensor'', sensor), (''committed_at'', committed_at)]"

definition readings_digest_of :: "json list \<Rightarrow> string res" where
  "readings_digest_of entries = digest (JDict [(''readings'', JList entries)])"

definition build_sensor_commitment ::
  "sensor_reading list \<Rightarrow> json \<Rightarrow> key_pair option \<Rightarrow> json \<Rightarrow> datetime \<Rightarrow> dict res" where
  "build_sensor_commitment readings sensor key_pair committed_at clock =
     rbind (rmapM sensor_reading_to_dict readings) (\<lambda>ds.
     if ds = [] then Inl (ValueError ''at least one sensor reading is required'')
     else let entries = map JDict ds in
       rbind (readings_digest_of entries) (\<lambda>rd.
       rbind (stamp_or_now committed_at clock) (\<lambda>stamp.
       let body = commitment_body entries rd sensor stamp in
       rbind (content_id ''kinegrant:sensor-evidence'' (JDict (dwithout [''commitment_id''] body))) (\<lambda>cid.
       let body = dset body ''commitment_id'' (JStr cid) in
       case key_pair of
         None \<Rightarrow> Inr body
       | Some k \<Rightarrow>
           if sensor = JNull \<or> sensor \<noteq> JStr (kid k)
             then Inl (ValueError ''sensor_kid must match the signing key pair'')
           else sign_envelope k body))))"

text \<open>The part of the verifier after the payload has been obtained.\<close>

definition check_commitment :: "dict \<Rightarrow> dict res" where
  "check_commitment p =
     (if dget p ''type'' \<noteq> JStr ''kinegrant:SensorEvidenceCommitment'' then Inl (ValueError ''wrong commitment type'')
      else if dget p ''schema_version'' \<noteq> JStr ''0.1'' then Inl (ValueError ''unsupported commitment version'')
      else case dget p ''readings'' of
        JList readings \<Rightarrow>
          if readings = [] then Inl (ValueError ''readings must be a non-empty array'')
          else
          rbind (readings_digest_of readings) (\<lambda>rd.
          if dget p ''readings_digest'' \<noteq> JStr rd then Inl (ValueError ''readings digest is inconsistent'')
          else
          rbind (content_id ''kinegrant:sensor-evidence'' (JDict (dwithout [''commitment_id''] p))) (\<lambda>cid.
          if dget p ''commitment_id'' \<noteq> JStr cid then Inl (ValueError ''commitment identifier is inconsistent'')
          else Inr p))
      | _ \<Rightarrow> Inl (ValueError ''readings must be a non-empty array''))"

definition verify_sensor_commitment :: "verifier \<Rightarrow> dict \<Rightarrow> string list option \<Rightarrow> dict res" where
  "verify_sensor_commitment V commitment trusted =
     (if dget commitment ''alg'' \<noteq> JNull
      then rbind (verify_envelope V commitment) (\<lambda>p.
           rbind (trusts trusted (dget p ''sensor'')) (\<lambda>ok.
           if \<not> ok then Inl (ValueError ''untrusted sensor'') else check_commitment p))
      else check_commitment commitment)"

definition evidence_hash_for_commitment :: "verifier \<Rightarrow> dict \<Rightarrow> string res" where
  "evidence_hash_for_commitment V commitment =
     rbind (verify_sensor_commitment V commitment None) (\<lambda>p. digest (JDict p))"

section \<open>What is built verifies\<close>

lemma check_built:
  assumes "readings_digest_of entries = Inr rd" "entries \<noteq> []"
    "content_id ''kinegrant:sensor-evidence'' (JDict (dwithout [''commitment_id''] (commitment_body entries rd sensor stamp))) = Inr cid"
  defines "p \<equiv> dset (commitment_body entries rd sensor stamp) ''commitment_id'' (JStr cid)"
  shows "check_commitment p = Inr p" "dget p ''sensor'' = sensor" "dget p ''readings'' = JList entries" "dget p ''alg'' = JNull"
proof -
  have p: "p = commitment_body entries rd sensor stamp @ [(''commitment_id'', JStr cid)]"
    unfolding p_def by (rule dset_new) (simp add: commitment_body_def)
  show "dget p ''sensor'' = sensor" "dget p ''readings'' = JList entries" "dget p ''alg'' = JNull"
    unfolding p by (simp_all add: commitment_body_def)
  show "check_commitment p = Inr p"
    using assms(1-3) by (simp add: check_commitment_def p commitment_body_def)
qed

lemma commitment_roundtrip:
  assumes build: "build_sensor_commitment readings sensor key committed_at clock = Inr env"
    and key: "\<And>k. key = Some k \<Longrightarrow> good_key V k \<and> (\<forall>ts. trusted = Some ts \<longrightarrow> kid k \<in> set ts)"
  obtains p ds where "verify_sensor_commitment V env trusted = Inr p" "dget p ''sensor'' = sensor"
    "rmapM sensor_reading_to_dict readings = Inr ds" "dget p ''readings'' = JList (map JDict ds)"
proof -
  from build obtain ds rd stamp cid where ds: "rmapM sensor_reading_to_dict readings = Inr ds" "ds \<noteq> []"
    and rd: "readings_digest_of (map JDict ds) = Inr rd"
    and cid: "content_id ''kinegrant:sensor-evidence'' (JDict (dwithout [''commitment_id''] (commitment_body (map JDict ds) rd sensor stamp))) = Inr cid"
    and env: "(case key of None \<Rightarrow> Inr (dset (commitment_body (map JDict ds) rd sensor stamp) ''commitment_id'' (JStr cid))
       | Some k \<Rightarrow> if sensor = JNull \<or> sensor \<noteq> JStr (kid k) then Inl (ValueError ''sensor_kid must match the signing key pair'')
           else sign_envelope k (dset (commitment_body (map JDict ds) rd sensor stamp) ''commitment_id'' (JStr cid))) = Inr env"
    unfolding build_sensor_commitment_def Let_def by (elim res_elims) auto
  let ?p = "dset (commitment_body (map JDict ds) rd sensor stamp) ''commitment_id'' (JStr cid)"
  note c = check_built [OF rd _ cid]
  have "verify_sensor_commitment V env trusted = Inr ?p"
  proof (cases key)
    case None
    with env ds(2) c show ?thesis by (simp add: verify_sensor_commitment_def)
  next
    case (Some k)
    with env have s: "sensor = JStr (kid k)" "sign_envelope k ?p = Inr env" by (auto split: if_splits)
    have "good_key V k" using key Some by blast
    note v = sign_verify [OF this s(2)]
    then have "dget env ''alg'' \<noteq> JNull" by (auto elim: verify_envelopeD)
    with v(1) c ds(2) s(1) key Some show ?thesis by (auto simp: verify_sensor_commitment_def split: option.splits)
  qed
  with that c ds show thesis by simp
qed

section \<open>What the verifier does not check\<close>

text \<open>Whoever holds any key can sign a commitment that claims a trusted sensor.\<close>

lemma sensor_claim_not_bound:
  assumes "build_sensor_commitment readings (JStr claimed) None committed_at clock = Inr body"
    "sign_envelope k body = Inr env" "good_key V k" "claimed \<in> set ts"
  shows "verify_sensor_commitment V env (Some ts) = Inr body \<and> dget env ''kid'' = JStr (kid k)
    \<and> dget body ''sensor'' = JStr claimed"
proof -
  obtain p where p: "verify_sensor_commitment V body None = Inr p" "dget p ''sensor'' = JStr claimed"
    by (rule commitment_roundtrip [OF assms(1)]) auto
  from assms(1) have "dget body ''alg'' = JNull"
    unfolding build_sensor_commitment_def Let_def
    by (elim res_elims) (auto simp: commitment_body_def)
  with p have c: "check_commitment body = Inr p" by (simp add: verify_sensor_commitment_def)
  then have "p = body" unfolding check_commitment_def by (elim res_elims) auto
  note v = sign_verify [OF assms(3,2)]
  then have "dget env ''alg'' \<noteq> JNull" by (auto elim: verify_envelopeD)
  with v c p(2) assms(4) \<open>p = body\<close> show ?thesis by (simp add: verify_sensor_commitment_def)
qed

text \<open>The trust set has no effect on a commitment without a signature.\<close>

lemma unsigned_ignores_trust:
  "dget commitment ''alg'' = JNull \<Longrightarrow>
    verify_sensor_commitment V commitment trusted = verify_sensor_commitment V commitment None"
  by (simp add: verify_sensor_commitment_def)

end
