(* ===== verification/Terms.thy ===== *)
theory Terms
  imports Policy PyStr
begin

text \<open>
  \<open>adapters/ieee7012.py\<close>: a MyTerms document as policy rules. An effect is deny unless the term
  says otherwise, and an allow term must say who, what for and where.
\<close>

definition DOCUMENT_FIELDS :: "string list" where
  "DOCUMENT_FIELDS = [''id'', ''subject'', ''issuer'', ''target'', ''terms'', ''profile'', ''version'']"

definition TERM_FIELDS :: "string list" where
  "TERM_FIELDS = [''action'', ''effect'', ''target'', ''agents'', ''purposes'', ''constraints'', ''obligations'']"

definition as_tuple :: "json \<Rightarrow> string list \<Rightarrow> string list" where
  "as_tuple v dflt = (case v of JNull \<Rightarrow> dflt | JList xs \<Rightarrow> map py_str xs | _ \<Rightarrow> [py_str v])"

record terms_document =
  td_id :: string
  td_subject :: string
  td_issuer :: string
  td_target :: json
  td_profile :: json
  td_version :: json

definition term_to_rule :: "terms_document \<Rightarrow> nat \<times> json \<Rightarrow> policy_rule res" where
  "term_to_rule doc = (\<lambda>(index, v). case v of
      JDict t \<Rightarrow>
        if \<not> list_all (\<lambda>(k, _). k \<in> set TERM_FIELDS) t then Inl (ValueError ''unsupported term fields: '')
        else
        let eff = py_str (dget_or t ''effect'' (JStr ''deny'')) in
        if eff \<notin> {''allow'', ''deny''} then Inl (ValueError ''term effect must be allow or deny'')
        else if \<not> dhas t ''action'' then Inl (ValueError ''term action is required'')
        else if eff = ''allow'' \<and> \<not> dhas t ''target'' \<and> td_target doc = JNull
          then Inl (ValueError ''allow term target must be explicit'')
        else if eff = ''allow'' \<and> \<not> dhas t ''agents'' then Inl (ValueError ''allow term agents must be explicit'')
        else if eff = ''allow'' \<and> \<not> dhas t ''purposes'' then Inl (ValueError ''allow term purposes must be explicit'')
        else (case dget_or t ''constraints'' (JDict []) of
          JDict cs \<Rightarrow>
            if \<not> list_all (\<lambda>(k, _). k \<in> set SUPPORTED_CONSTRAINTS) cs
              then Inl (ValueError ''unsupported term constraints: '')
            else
              policy_rule_init (JStr (td_id doc @ ''#term-'' @ nat_str index)) (JStr (td_issuer doc))
                (JStr (py_str (dget_or t ''target'' (if td_target doc \<noteq> JNull then td_target doc else JStr ''*''))))
                (JStr eff) [JStr (py_str (dget t ''action''))] (map JStr (as_tuple (dget t ''agents'') [''*'']))
                (map JStr (as_tuple (dget t ''purposes'') [''*''])) (JDict cs)
                (map JStr (as_tuple (dget t ''obligations'') [])) (JInt 0)
                (JDict [(''standard'', JStr ''IEEE 7012-2025 bridge''), (''rights_subject'', JStr (td_subject doc)),
                  (''profile'', td_profile doc), (''version'', td_version doc)])
        | _ \<Rightarrow> Inl (ValueError ''term constraints must be an object''))
    | _ \<Rightarrow> Inl (ValueError ''terms entries must be objects''))"

definition myterms_to_rules :: "dict \<Rightarrow> policy_rule list res" where
  "myterms_to_rules d =
     (if \<not> list_all (\<lambda>(k, _). k \<in> set DOCUMENT_FIELDS) d then Inl (ValueError ''unsupported terms document fields: '')
      else
      rbind (dindex d ''subject'') (\<lambda>s.
      let subject = py_str s;
          doc = \<lparr>td_id = py_str (dget_or d ''id'' (JStr ''myterms:anonymous'')), td_subject = subject,
                 td_issuer = py_str (dget_or d ''issuer'' (JStr subject)), td_target = dget d ''target'',
                 td_profile = dget d ''profile'', td_version = dget d ''version''\<rparr>
      in (case dget_or d ''terms'' (JList []) of
           JList terms \<Rightarrow> rmapM (term_to_rule doc) (enumerate 0 terms)
         | _ \<Rightarrow> Inl (ValueError ''terms must be an array''))))"

section \<open>Facts\<close>

lemma policy_rule_init_Inr:
  assumes "policy_rule_init (JStr pid) (JStr iss) (JStr tg) (JStr eff) (map JStr acts) (map JStr subs) (map JStr purps)
     (JDict cs) obs prio (JDict src) = Inr r"
  shows "pr_issuer r = iss \<and> pr_target r = tg \<and> parse_effect (JStr eff) = Some (pr_effect r) \<and> pr_actions r = acts
    \<and> pr_subjects r = subs \<and> pr_purposes r = purps \<and> pr_constraints r = cs"
  using assms by (auto simp: policy_rule_init_def res_simps comp_def split: option.splits if_splits)

lemma term_to_ruleE:
  assumes "term_to_rule doc (i, v) = Inr r"
  obtains t where "v = JDict t" "rule_ok r" "pr_issuer r = td_issuer doc"
    "list_all (\<lambda>(k, _). k \<in> set SUPPORTED_CONSTRAINTS) (pr_constraints r)"
    "parse_effect (JStr (py_str (dget_or t ''effect'' (JStr ''deny'')))) = Some (pr_effect r)"
    "py_str (dget_or t ''effect'' (JStr ''deny'')) = ''allow'' \<longrightarrow>
       dhas t ''agents'' \<and> dhas t ''purposes'' \<and> (dhas t ''target'' \<or> td_target doc \<noteq> JNull)"
    "pr_subjects r = as_tuple (dget t ''agents'') [''*'']" "pr_purposes r = as_tuple (dget t ''purposes'') [''*'']"
proof -
  obtain t cs src tg where t: "v = JDict t"
    and c: "list_all (\<lambda>(k, _). k \<in> set SUPPORTED_CONSTRAINTS) cs"
    and ex: "py_str (dget_or t ''effect'' (JStr ''deny'')) = ''allow'' \<longrightarrow>
       dhas t ''agents'' \<and> dhas t ''purposes'' \<and> (dhas t ''target'' \<or> td_target doc \<noteq> JNull)"
    and r: "policy_rule_init (JStr (td_id doc @ ''#term-'' @ nat_str i)) (JStr (td_issuer doc)) (JStr tg)
                (JStr (py_str (dget_or t ''effect'' (JStr ''deny'')))) (map JStr [py_str (dget t ''action'')])
                (map JStr (as_tuple (dget t ''agents'') [''*'']))
                (map JStr (as_tuple (dget t ''purposes'') [''*''])) (JDict cs)
                (map JStr (as_tuple (dget t ''obligations'') [])) (JInt 0) (JDict src) = Inr r"
    using assms unfolding term_to_rule_def Let_def by (elim res_elims) auto
  show thesis
    by (rule that [OF t policy_rule_init_ok [OF r]]) (use policy_rule_init_Inr [OF r] c ex in auto)
qed

lemma parse_effect_Allow: "parse_effect (JStr s) = Some e \<Longrightarrow> e = Allow \<longleftrightarrow> s = ''allow''"
  by (auto simp: parse_effect_def split: if_splits)

text \<open>Every rule of a document is well formed, is issued by the document's issuer and has known
  constraints; and who an allow rule is for has been said.\<close>

lemma rmapM_member: "rmapM f xs = Inr ys \<Longrightarrow> y \<in> set ys \<Longrightarrow> \<exists>x\<in>set xs. f x = Inr y"
  by (induction xs arbitrary: ys) (auto simp: res_simps)

theorem terms_rules_ok:
  assumes "myterms_to_rules d = Inr rules"
  shows "list_all (\<lambda>r. rule_ok r \<and> list_all (\<lambda>(k, _). k \<in> set SUPPORTED_CONSTRAINTS) (pr_constraints r)) rules"
proof -
  obtain doc terms where r: "rmapM (term_to_rule doc) (enumerate 0 terms) = Inr rules"
    using assms unfolding myterms_to_rules_def Let_def by (elim res_elims) auto
  have "rule_ok r \<and> list_all (\<lambda>(k, _). k \<in> set SUPPORTED_CONSTRAINTS) (pr_constraints r)" if m: "r \<in> set rules" for r
  proof -
    obtain x where "term_to_rule doc x = Inr r" using rmapM_member [OF \<open>rmapM _ _ = _\<close> m] by blast
    then have "term_to_rule doc (fst x, snd x) = Inr r" by simp
    then show ?thesis by (rule term_to_ruleE) auto
  qed
  then show ?thesis by (simp add: list_all_iff)
qed

text \<open>A term that does not say allow denies.\<close>

lemma term_default_deny:
  assumes "term_to_rule doc (i, JDict t) = Inr r" "\<not> dhas t ''effect''"
  shows "pr_effect r = Deny"
proof -
  have "dget_or t ''effect'' (JStr ''deny'') = JStr ''deny''" using assms(2) by (simp add: dget_or_def dhas_def)
  then have e: "py_str (dget_or t ''effect'' (JStr ''deny'')) = ''deny''" by simp
  from assms(1) show ?thesis
  proof (rule term_to_ruleE)
    fix t'
    assume "JDict t = JDict t'" "parse_effect (JStr (py_str (dget_or t' ''effect'' (JStr ''deny'')))) = Some (pr_effect r)"
    then have "parse_effect (JStr ''deny'') = Some (pr_effect r)" using e by simp
    then show ?thesis by (simp add: parse_effect_def)
  qed
qed

text \<open>Saying who with \<open>null\<close> passes the check and means everybody.\<close>

lemma null_agents_are_everybody:
  assumes "term_to_rule doc (i, JDict t) = Inr r" "dget t ''agents'' = JNull"
  shows "pr_subjects r = [''*'']"
  using assms(1) by (rule term_to_ruleE) (simp add: assms(2) as_tuple_def)

definition null_term :: json where
  "null_term = JDict [(''action'', JStr ''open''), (''effect'', JStr ''allow''), (''agents'', JNull), (''purposes'', JNull)]"

lemma null_term_allows:
  "\<exists>r. term_to_rule \<lparr>td_id = ''t'', td_subject = ''s'', td_issuer = ''s'', td_target = JStr ''door'', td_profile = JNull,
      td_version = JNull\<rparr> (0, null_term) = Inr r \<and> pr_effect r = Allow \<and> pr_subjects r = [''*''] \<and> pr_purposes r = [''*'']"
  by (simp add: term_to_rule_def null_term_def TERM_FIELDS_def as_tuple_def policy_rule_init_def parse_effect_def
      require_def nonblank_strs_def blank_def py_isspace_def)

end
