(* ===== verification/Spec2Isabelle.thy ===== *)
theory Spec2Isabelle
  imports Adapters Attenuation Attestation BoundaryCheck Cache Calendar Canonical CanonicalInj Capability Checkpoint Clock Compliance Crypto Demo DemoDevice DemoSerial DemoService DemoTrust Device DeviceStore Distribution Fnmatch FrameSize Frames Gate Gatekeeper GatekeeperSafety Identity JsonRoundtrip Keys Merkle ModelCheck Models Odrl Policy PolicyAudit PolicyBundle PolicyDistribution PolicyRegistry PolicyState Prelude Privacy PyStr PyTime PyValue Receipt ReceiptAudit ReplayStore Revocation Ros2Bridge Semantics SensorEvidence Sequence Serial SerialLoop Server Sha256 Statement StrictJson Terms Vocabulary
begin

text \<open>
  A model of the Python reference implementation of the KineGrant protocol
  (\<open>src/src/kinegrant/\<close>) and the theorems that make it correct.

  The program authorizes single physical actions of agents. A policy engine decides an
  \<open>ActionRequest\<close>; an issuer turns an allowed decision into a short-lived signed capability;
  an action gate in front of the actuator verifies and consumes the capability once; the executed
  action is written to a hash-chained log of signed receipts, against which the obligations of the
  capability are checked. Capabilities can be attenuated and delegated, and revoked by the id of
  their root. \<open>gatekeeper.py\<close> composes these parts into one call.

  \<^bold>\<open>Theories.\<close> Each names the file it models; operations keep the source's names (with a prefix where
  several classes share a method name) and the order of the source's checks, early returns and
  exceptions.

  \<^item> \<open>Prelude\<close>, \<open>PyValue\<close>: exceptions and results (\<open>'a res\<close>, \<open>Inl\<close> an exception), the
    collections \<open>res_simps\<close> and \<open>res_elims\<close>, loops that may raise, text; the Python values that
    travel through the program (\<open>json\<close>) with the interpreter's equality, ordering, truth, hashing
    and dictionary access.
  \<^item> \<open>Calendar\<close>, \<open>PyTime\<close>: \<open>datetime\<close> with \<open>isoformat\<close> and \<open>parse_time\<close> of \<open>models.py\<close>.
  \<^item> \<open>Fnmatch\<close>: \<open>fnmatch.fnmatchcase\<close>. \<open>Sha256\<close>: \<open>hashlib.sha256\<close>.
  \<^item> \<open>Canonical\<close>, \<open>CanonicalInj\<close>: \<open>canonical.py\<close> and the injectivity of the canonical form.
  \<^item> \<open>Crypto\<close>: \<open>crypto.py\<close>. \<open>Vocabulary\<close>: \<open>vocabulary.py\<close>, \<open>obligations.py\<close>. \<open>Models\<close>: \<open>models.py\<close>.
  \<^item> \<open>Policy\<close>, \<open>Semantics\<close>, \<open>Cache\<close>, \<open>ModelCheck\<close>, \<open>Sequence\<close>: \<open>policy.py\<close>, \<open>semantics.py\<close>,
    \<open>cache.py\<close>, \<open>modelcheck.py\<close>, \<open>sequence.py\<close>.
  \<^item> \<open>Attenuation\<close>, \<open>Capability\<close>, \<open>Revocation\<close>: \<open>attenuation.py\<close>, \<open>capability.py\<close>, \<open>revocation.py\<close>.
  \<^item> \<open>ReplayStore\<close>, \<open>Gate\<close>: \<open>gate.py\<close>. The locale \<open>replay_store\<close> is what the gate relies on; it is
    interpreted on the in-memory store and on the SQLite store, and the gate's and the
    gatekeeper's at-most-once lemmas are proved once inside it.
  \<^item> \<open>Receipt\<close>, \<open>Compliance\<close>, \<open>Gatekeeper\<close>: \<open>receipt.py\<close>, \<open>compliance.py\<close>, \<open>gatekeeper.py\<close>;
    \<open>GatekeeperSafety\<close> has the cases of one call, the step relation over histories of calls and
    its invariants; \<open>BoundaryCheck\<close> is \<open>gatekeeper_modelcheck.py\<close> and proves when its report passes.
  \<^item> \<open>Statement\<close>: what signed statements with a content id have in common (the locale
    \<open>signed_statement\<close>: what is signed verifies, what verifies has its id); its interpretations are
    \<open>Checkpoint\<close>, \<open>Attestation\<close>, \<open>Distribution\<close> and \<open>Device\<close>, the models of \<open>checkpoint.py\<close>,
    \<open>attestation.py\<close>, \<open>distribution.py\<close> and \<open>experimental/esp32c3.py\<close>. \<open>SensorEvidence\<close>: \<open>sensor_evidence.py\<close>.
  \<^item> \<open>Merkle\<close>, \<open>Privacy\<close>, \<open>Keys\<close>, \<open>Clock\<close>, \<open>Identity\<close>: \<open>merkle.py\<close>, \<open>privacy.py\<close>, \<open>keys.py\<close>,
    \<open>trust.py\<close>, \<open>identity.py\<close> and \<open>wire.py\<close>.
  \<^item> \<open>PolicyBundle\<close>, \<open>PolicyRegistry\<close>, \<open>PolicyState\<close>,
    \<open>PolicyDistribution\<close>, \<open>PolicyAudit\<close>: \<open>policy_bundle.py\<close> (bundles, registries and their saved
    form, distribution, audit). \<open>PyStr\<close>: the text operations these files need. \<open>ReceiptAudit\<close>: \<open>audit.py\<close>.
  \<^item> \<open>Odrl\<close>, \<open>Terms\<close>, \<open>Adapters\<close>, \<open>Ros2Bridge\<close>: \<open>adapters/\<close>, \<open>discovery.py\<close>, \<open>bridges/ros2.py\<close>.
  \<^item> \<open>DeviceStore\<close>, \<open>Device\<close>: \<open>experimental/esp32c3.py\<close>. The locale \<open>device_store\<close> states the contract of
    the persistent state of a device by an abstract view that both stores refine; the honest path and
    at-most-once actuation across boots are proved once inside it.
  \<^item> \<open>StrictJson\<close>, \<open>Frames\<close>: \<open>experimental/esp32c3_transport.py\<close> and the \<open>json.loads\<close> it configures. \<open>JsonRoundtrip\<close>
    shows that canonical text reads back, \<open>FrameSize\<close> bounds its length. \<open>Serial\<close>: \<open>experimental/esp32c3_serial.py\<close>;
    \<open>SerialLoop\<close> composes it with \<open>Device\<close>: what crosses the line as frames means the same at the other end.
  \<^item> \<open>Server\<close>: \<open>server.py\<close>. A session of HTTP requests is a run of the gate, so the gate's lemmas carry over.
  \<^item> \<open>Demo\<close>, \<open>DemoTrust\<close>, \<open>DemoDevice\<close>, \<open>DemoSerial\<close>, \<open>DemoService\<close>: a concrete world in which the hypotheses of the
    properties hold; the witnesses use it.

  \<^bold>\<open>State.\<close> Stateful classes are records passed explicitly (the engine, the cache, the receipt log,
  the gatekeeper) or lists (journal, revocation list, replay stores); an operation that can raise
  after a change returns the new state and the result. The clock (\<open>utc_now\<close>) and random values
  (the nonce) are arguments.

  \<^bold>\<open>Third-party code.\<close> The signature schemes are a parameter \<open>V\<close> (verification) and a field of the key
  pair (signing); \<open>good_key\<close> is the documented behaviour that is relied on. SHA-256 is computed;
  theorems about tampering end in an explicit collision, nothing is assumed about it.

  \<^bold>\<open>Bounds.\<close> Text is a list of code points below 256; the sign of a zero float is not observed; the
  shortest decimal of a float is searched with up to 17 digits, which suffice for every double.
  Messages of exceptions are cut before interpolated values. Threads are not modelled: a store
  operation is atomic, as its lock and its transaction make it. The nesting depth that \<open>json.loads\<close> accepts
  is a parameter \<open>n\<close>; three levels suffice for the objects of the device protocol. A read loop over a serial
  line is given the clock readings of its passes and has the result \<open>None\<close> when they do not reach its
  deadline (\<open>read_loop_returns\<close>: otherwise it returns).

  \<^bold>\<open>Not modelled\<close> are the test drivers (\<open>mpt.py\<close>, \<open>conformance.py\<close>, \<open>redteam.py\<close>, \<open>fuzz.py\<close>), which call
  the modelled parts and report pass or fail; the port wrapper \<open>PySerialTransport\<close> and the demonstrations
  over subprocesses under \<open>experimental/\<close>; the command lines, key files and the socket loop of the service.
\<close>

section \<open>The action boundary\<close>

text \<open>C1. Gate soundness: whatever \<open>authorize\<close> accepts is a signed capability of a trusted issuer for this very request, in scope, inside its window, not revoked (nor its root), with a content-addressed id, and it was consumed from the replay store in the same call.\<close>

theorem gate_sound:
  assumes "authorize V consume g s env cap q now parent = (s', Inr vc)"
  shows "\<exists>c x. authorized V g cap q now (vc_claims vc) c x \<and> consume s env c x = (s', Inr True)
    \<and> vc_authorized_at vc = now"
  using assms authorize_checks_sound(1) by (fastforce simp: authorize_Inr)

theorem gate_sound_witness:
  "\<exists>env s' vc c x. authorize demo_V memory_consume demo_gate [] (\<lambda>_. demo_time 2) env demo_request (demo_time 2) None = (s', Inr vc)
     \<and> authorized demo_V demo_gate env demo_request (demo_time 2) (vc_claims vc) c x"
proof -
  obtain env p c x where "authorize_checks demo_V demo_gate env demo_request (demo_time 2) None = Inr (p, c, x)"
    by (rule demo_path)
  then have a: "authorize demo_V memory_consume demo_gate [] (\<lambda>_. demo_time 2) env demo_request (demo_time 2) None
      = ([(c, x)], Inr \<lparr>vc_claims = p, vc_authorized_at = demo_time 2\<rparr>)"
    by (simp add: authorize_def demo_consume)
  with gate_sound [OF a] show ?thesis by blast
qed

text \<open>C2. At most one run of the actuator per capability: in every history of gatekeeper calls over the in-memory store (whose clock does not run ahead of the verification times), the ids of the capabilities the actuator was called with are distinct, or two of these capabilities exhibit a SHA-256 collision.\<close>

theorem gatekeeper_once:
  assumes "gatekeeper_run k readings_le s0 key T st" "gk_consume k = memory_consume" "memory_ok s0"
  shows "distinct (actuated_ids st) \<or> (\<exists>v\<in>set (gs_actuated st). \<exists>w\<in>set (gs_actuated st). claims_collide v w)"
  using assms by (rule memory.gatekeeper_runs_once)

theorem gatekeeper_once_witness:
  "\<exists>env st. gatekeeper_run demo_gatekeeper readings_le [] demo_key (dt_us (demo_time 2)) st \<and> length (actuated_ids st) = 1
     \<and> (distinct (actuated_ids st) \<or> (\<exists>v\<in>set (gs_actuated st). \<exists>w\<in>set (gs_actuated st). claims_collide v w))"
proof -
  obtain env p c x where a: "authorize_checks demo_V demo_gate env demo_request (demo_time 2) None = Inr (p, c, x)"
    by (rule demo_path)
  let ?x = "demo_execution env"
  obtain st r where e: "execute demo_gatekeeper (gatekeeper_start [] demo_key) ?x = (st, r)" by fastforce
  have now: "ex_now ?x = demo_time 2" "ex_env ?x = (\<lambda>_. demo_time 2)" by (simp_all add: demo_execution_def)
  have run: "gatekeeper_run demo_gatekeeper readings_le [] demo_key (dt_us (demo_time 2)) st"
    using gatekeeper_run.call [OF gatekeeper_run.start [of _ _ _ _ 0] _ _ e] now
    by (simp add: readings_le_def clock_aware_def seconds_def)
  have "length (actuated_ids st) = 1"
    using e demo_admits [OF a]
    by (auto elim!: execute_actuated simp: gate_admits_def actuated_ids_def gatekeeper_start_def demo_gatekeeper_def
        demo_execution_def authorize_def demo_consume a execute_def sequence_evaluate_def gatekeeper_revoked_def
        run_actuator_def Let_def finish_execution_def split: sum.splits prod.splits if_splits)
  moreover have "memory_ok []" by (simp add: memory_ok_def)
  ultimately show ?thesis
    using run gatekeeper_once [OF run] by (auto simp: demo_gatekeeper_def)
qed

text \<open>C3. In every history of a gatekeeper whose own executor is trusted, the receipt log verifies, every receipt is of a capability the actuator was called with, there are at least as many receipts as journal entries, and the journal is well-formed.\<close>

theorem gatekeeper_invariant:
  assumes "gatekeeper_run k le s0 key T st" "good_key (gk_verifier k) key" "kid key \<in> set (gk_trusted k)"
  shows "verify_receipt_chain (gk_verifier k) (rl_log (gs_log st)) (Some (gk_trusted k)) None = Inr True
    \<and> (\<forall>e\<in>set (rl_log (gs_log st)). \<exists>vc\<in>set (gs_actuated st). receipt_of (gk_verifier k) e vc)
    \<and> length (gs_journal st) \<le> length (rl_log (gs_log st)) \<and> journal_ok (gs_journal st)"
  using gatekeeper_run_inv [OF assms] by (simp_all add: gatekeeper_inv_def)

theorem gatekeeper_invariant_witness:
  "\<exists>env st r. execute demo_gatekeeper (gatekeeper_start [] demo_key) (demo_execution env) = (st, r)
     \<and> verify_receipt_chain demo_V (rl_log (gs_log st)) (Some [kid demo_key]) None = Inr True"
proof -
  obtain st r where e: "execute demo_gatekeeper (gatekeeper_start [] demo_key) (demo_execution []) = (st, r)" by fastforce
  have run: "gatekeeper_run demo_gatekeeper readings_le [] demo_key (dt_us (demo_time 2)) st"
    using gatekeeper_run.call [OF gatekeeper_run.start [of _ _ _ _ 0] _ _ e]
    by (simp add: readings_le_def clock_aware_def seconds_def demo_execution_def)
  show ?thesis
    using gatekeeper_invariant [OF run] e demo_good_key by (auto simp: demo_gatekeeper_def)
qed

text \<open>C4. Fail closed: an allowed outcome means that the sequence policy, the revocation check and the gate admitted the call, that the actuator ran without raising, that its receipt was appended, that the obligations are compliant and that the action was journaled.\<close>

theorem gatekeeper_allowed:
  assumes "execute k st x = (st', Inr out)" "go_allowed out"
  shows "\<exists>s' vc env a. gate_admits k st x s' vc \<and> ex_actuator x vc = None
    \<and> receipt_append (gs_log st) vc a = Inr (gs_log st', env)
    \<and> (\<exists>v. compliance_evaluate (gk_verifier k) (ex_capability x) (rl_log (gs_log st')) (Some (gk_trusted k)) = Inr v \<and> cv_compliant v)
    \<and> gs_actuated st' = gs_actuated st @ [vc] \<and> length (gs_journal st') = Suc (length (gs_journal st))
    \<and> go_stage out = ''complete''"
  using assms(1)
proof (cases rule: execute_cases)
  case (ran s' vc)
  from ran(2) show ?thesis
  proof (cases rule: run_actuator_cases)
    case (receipt lg env)
    from receipt(2) show ?thesis
    proof (cases rule: finish_execution_cases)
      case (complete j e out' v)
      then have "length j = Suc (length (gs_journal st))" by (auto simp: journal_record_def res_simps)
      with complete ran(1) receipt(1) show ?thesis by auto
    qed (use assms in auto)
  qed (use assms in auto)
qed (use assms in auto)

theorem gatekeeper_allowed_witness:
  "\<exists>env st' out s' vc. execute demo_gatekeeper (gatekeeper_start [] demo_key) (demo_execution env) = (st', Inr out)
     \<and> gate_admits demo_gatekeeper (gatekeeper_start [] demo_key) (demo_execution env) s' vc \<and> go_stage out = ''complete''"
proof -
  obtain env st' out where e: "execute demo_gatekeeper (gatekeeper_start [] demo_key) (demo_execution env) = (st', Inr out)"
    and a: "go_allowed out"
    by (rule demo_completes)
  from gatekeeper_allowed [OF e a] e show ?thesis by blast
qed



text \<open>C6. The gate over the SQLite store accepts a capability at most once: in any sequence of calls with non-decreasing verification times and a store clock never ahead of them, the ids of the accepted capabilities are distinct, or two of them exhibit a SHA-256 collision.\<close>

theorem sqlite_at_most_once:
  assumes "sqlite_ok s" "gate_run V sqlite_consume g s evs = (s', rs)" "sorted (map (\<lambda>ev. dt_us (ge_now ev)) evs)"
    "\<forall>ev\<in>set evs. sqlite_clock_le (ge_env ev) (dt_us (ge_now ev))"
  shows "distinct (accepted_ids rs) \<or> (\<exists>v w. Inr v \<in> set rs \<and> Inr w \<in> set rs \<and> claims_collide v w)"
  using assms by (rule sqlite.gate_run_once)

theorem sqlite_at_most_once_witness:
  "\<exists>env s' rs. gate_run demo_V sqlite_consume demo_gate [] (replicate 2 (demo_event env)) = (s', rs)
     \<and> accepted_ids rs \<noteq> [] \<and> (distinct (accepted_ids rs) \<or> (\<exists>v w. Inr v \<in> set rs \<and> Inr w \<in> set rs \<and> claims_collide v w))"
proof -
  obtain env p c x where a: "authorize_checks demo_V demo_gate env demo_request (demo_time 2) None = Inr (p, c, x)"
    by (rule demo_path)
  let ?evs = "replicate 2 (demo_event env)"
  obtain s' rs where run: "gate_run demo_V sqlite_consume demo_gate [] ?evs = (s', rs)" by fastforce
  have two: "?evs = [demo_event env, demo_event env]" by (simp add: numeral_2_eq_2)
  have "accepted_ids rs \<noteq> []"
    using run a unfolding two
    by (auto simp: gate_step_def demo_event_def authorize_def sqlite_consume_def sqlite_delete_expired_def
        sqlite_insert_or_ignore_def accepted_ids_def split: if_splits)
  moreover have "distinct (accepted_ids rs) \<or> (\<exists>v w. Inr v \<in> set rs \<and> Inr w \<in> set rs \<and> claims_collide v w)"
    by (rule sqlite_at_most_once [OF _ run]) (simp_all add: sqlite_ok_def two demo_event_def sqlite_clock_le_def)
  ultimately show ?thesis using run by blast
qed



text \<open>The in-memory store purges by its own clock: when that clock has passed the expiry of a consumed capability while the gate still verifies at an earlier time inside the window, the same capability is authorized a second time.\<close>

theorem skewed_store_readmits:
  assumes "authorize_checks V g cap q now parent = Inr (p, c, x)" "\<not> naive (clock 0)" "dt_us x < dt_us (clock 0)"
  shows "snd (authorize V memory_consume g [(c, x)] clock cap q now parent) = Inr \<lparr>vc_claims = p, vc_authorized_at = now\<rparr>"
proof -
  have "\<not> naive x"
    using authorize_checks_sound(1) [OF assms(1)] by (auto simp: authorized_def in_window_def dest!: time_fieldD simp: utc_time_def)
  then have "memory_purge clock [(c, x)] = Inr []"
    using assms(2,3) by (simp add: memory_purge_def dt_less_aware)
  then show ?thesis using assms(1) by (simp add: authorize_def memory_consume_def)
qed

theorem skewed_store_readmits_witness:
  "\<exists>env c x p. authorize demo_V memory_consume demo_gate [] (\<lambda>_. demo_time 2) env demo_request (demo_time 2) None
       = ([(c, x)], Inr \<lparr>vc_claims = p, vc_authorized_at = demo_time 2\<rparr>)
     \<and> snd (authorize demo_V memory_consume demo_gate [(c, x)] (\<lambda>_. utc_dt (dt_us x + 1)) env demo_request (demo_time 2) None)
       = Inr \<lparr>vc_claims = p, vc_authorized_at = demo_time 2\<rparr>"
proof -
  obtain env p c x where a: "authorize_checks demo_V demo_gate env demo_request (demo_time 2) None = Inr (p, c, x)"
    by (rule demo_path)
  then have "authorize demo_V memory_consume demo_gate [] (\<lambda>_. demo_time 2) env demo_request (demo_time 2) None
       = ([(c, x)], Inr \<lparr>vc_claims = p, vc_authorized_at = demo_time 2\<rparr>)"
    by (simp add: authorize_def demo_consume)
  with skewed_store_readmits [OF a, of "\<lambda>_. utc_dt (dt_us x + 1)"] show ?thesis by fastforce
qed

section \<open>Receipts and obligations\<close>

text \<open>Appending keeps the log verifiable: the new log is the old one and the signed receipt, and it passes \<open>verify_receipt_chain\<close> for every trust set that holds the executor.\<close>

theorem receipt_log_grows_verified:
  assumes "receipt_append l vc a = Inr (l', env)" "good_key V (rl_key l)" "dget (vc_claims vc) ''capability_id'' = JStr c"
    "verify_receipt_chain V (rl_log l) tr None = Inr True" "\<forall>ts. tr = Some ts \<longrightarrow> kid (rl_key l) \<in> set ts"
  shows "rl_log l' = rl_log l @ [env] \<and> verify_receipt_chain V (rl_log l') tr None = Inr True"
  using receipt_append_of [OF assms(1,2)] receipt_append_verifies [OF assms(1,2,4)] assms(3,5) by auto

theorem receipt_log_grows_verified_witness:
  "\<exists>vc l env. receipt_append (receipt_log_init demo_key) vc demo_receipt_args = Inr (l, env)
     \<and> rl_log l = [env] \<and> verify_receipt_chain demo_V (rl_log l) (Some [kid demo_key]) None = Inr True"
proof -
  obtain env p c x renv where r: "receipt_append (receipt_log_init demo_key) \<lparr>vc_claims = p, vc_authorized_at = demo_time 2\<rparr> demo_receipt_args
       = Inr ((receipt_log_init demo_key)\<lparr>rl_log := [renv]\<rparr>, renv)" and c: "dget p ''capability_id'' = JStr c"
    by (rule demo_path) blast
  have "verify_receipt_chain demo_V (rl_log (receipt_log_init demo_key)) (Some [kid demo_key]) None = Inr True"
    by (simp add: verify_receipt_chain_def receipt_log_init_def)
  then have "rl_log ((receipt_log_init demo_key)\<lparr>rl_log := [renv]\<rparr>) = rl_log (receipt_log_init demo_key) @ [renv]
      \<and> verify_receipt_chain demo_V (rl_log ((receipt_log_init demo_key)\<lparr>rl_log := [renv]\<rparr>)) (Some [kid demo_key]) None = Inr True"
    using receipt_log_grows_verified [OF r, of demo_V c "Some [kid demo_key]"] c demo_good_key
    by (simp add: receipt_log_init_def)
  moreover have "rl_log (receipt_log_init demo_key) = []" by (simp add: receipt_log_init_def)
  ultimately show ?thesis using r by (metis append_Nil)
qed

text \<open>C8. Tamper evidence: two receipt chains that verify and whose last envelopes have the same digest agree entry by entry (up to equal canonical JSON), or two of their entries exhibit a SHA-256 collision; the verifiers and trust sets may differ.\<close>

theorem receipt_chain_tamper_evident:
  assumes "verify_receipt_chain V es tr ex = Inr True" "verify_receipt_chain W fs tr' ex' = Inr True"
    and "es \<noteq> []" "fs \<noteq> []" "digest (JDict (last es)) = Inr h" "digest (JDict (last fs)) = Inr h"
  shows "list_all2 (\<lambda>a b. jequiv (JDict a) (JDict b)) es fs \<or> (\<exists>e\<in>set es. \<exists>f\<in>set fs. collide (JDict e) (JDict f))"
  using assms(5,6)
proof (rule digest_inject)
  assume "jequiv (JDict (last es)) (JDict (last fs))"
  with assms(1-4) show ?thesis by (auto simp: verify_chain_iff dest: chain_tamper_evident)
next
  assume "collide (JDict (last es)) (JDict (last fs))"
  with assms(3,4) last_in_set show ?thesis by blast
qed

theorem receipt_chain_tamper_evident_witness:
  "\<exists>renv. verify_receipt_chain demo_V [renv] (Some [kid demo_key]) None = Inr True
     \<and> (list_all2 (\<lambda>a b. jequiv (JDict a) (JDict b)) [renv] [renv] \<or> (\<exists>e\<in>set [renv]. \<exists>f\<in>set [renv]. collide (JDict e) (JDict f)))"
proof -
  obtain env p c x renv where a: "authorize_checks demo_V demo_gate env demo_request (demo_time 2) None = Inr (p, c, x)"
    and c: "dget p ''capability_id'' = JStr c"
    and r: "receipt_append (receipt_log_init demo_key) \<lparr>vc_claims = p, vc_authorized_at = demo_time 2\<rparr> demo_receipt_args
       = Inr ((receipt_log_init demo_key)\<lparr>rl_log := [renv]\<rparr>, renv)" by (rule demo_path) blast
  note v = demo_chain(1) [OF a c r]
  obtain h where "digest (JDict renv) = Inr h"
    using r by (auto elim!: receipt_appendE dest!: sign_envelope_serializable digest_total)
  with receipt_chain_tamper_evident [OF v v] v show ?thesis by auto
qed

text \<open>A chain that verifies has at most one receipt per capability: the capability ids of its entries are pairwise distinct.\<close>

theorem receipts_once:
  assumes "verify_receipt_chain V es tr ex = Inr True"
  shows "distinct (receipt_ids V es)"
  using assms by (rule chain_ids_distinct)

theorem receipts_once_witness:
  "\<exists>renv. verify_receipt_chain demo_V [renv] (Some [kid demo_key]) None = Inr True \<and> distinct (receipt_ids demo_V [renv])"
proof -
  obtain env p c x renv where a: "authorize_checks demo_V demo_gate env demo_request (demo_time 2) None = Inr (p, c, x)"
    and c: "dget p ''capability_id'' = JStr c"
    and r: "receipt_append (receipt_log_init demo_key) \<lparr>vc_claims = p, vc_authorized_at = demo_time 2\<rparr> demo_receipt_args
       = Inr ((receipt_log_init demo_key)\<lparr>rl_log := [renv]\<rparr>, renv)" by (rule demo_path) blast
  from demo_chain(1) [OF a c r] receipts_once [OF demo_chain(1) [OF a c r]] show ?thesis by blast
qed



section \<open>The policy engine\<close>

text \<open>C10. The evaluator refines its specification: a decision allows exactly when the request is known and fresh, some trusted allow rule applies to it and no deny rule applies (default deny, deny overrides).\<close>

theorem evaluate_refines:
  assumes "evaluate e q now = Inr d" "\<not> naive (rq_issued_at q)"
  shows "dc_allowed d \<longleftrightarrow> grants e q now"
  using assms by (rule evaluate_grants)

theorem evaluate_refines_witness: "grants demo_engine demo_request (demo_time 1)"
proof -
  obtain d where d: "evaluate demo_engine demo_request (demo_time 1) = Inr d" "dc_allowed d" by (rule demo_evaluate)
  with evaluate_refines [OF d(1)] show ?thesis by (simp add: demo_request_def)
qed

text \<open>C11. Every engine that can be built (constructed, then extended by \<open>add\<close>) holds only validated rules with pairwise distinct ids and has valid freshness settings.\<close>

theorem engine_stays_valid:
  assumes "engine_built e"
  shows "distinct (map pr_policy_id (pe_rules e))
    \<and> (\<forall>r\<in>set (pe_rules e). validate_rule r (pe_require_known e) = Inr ())
    \<and> 0 < pe_max_age e \<and> 0 \<le> pe_skew e"
  using engine_built_inv [OF assms] by (simp_all add: engine_inv_def)

theorem engine_stays_valid_witness:
  "\<exists>e. policy_engine_init [demo_rule] [''owner''] 300 5 False = Inr e \<and> distinct (map pr_policy_id (pe_rules e))"
proof -
  have "validate_rule demo_rule False = Inr ()"
    by (simp add: validate_rule_def demo_rule_def bad_limit_def bad_zones_def)
  then have "\<exists>e. policy_engine_init [demo_rule] [''owner''] 300 5 False = Inr e" by (simp add: policy_engine_init_def)
  then show ?thesis using engine_stays_valid [OF built_init] by blast
qed

text \<open>C12. Rules of untrusted issuers can restrict but never grant: if adding them yields an engine that allows a request, the engine without them meets the specification of a grant for it.\<close>

theorem untrusted_rules_never_grant:
  assumes "engine_add e rs = Inr e'" "\<forall>r\<in>set rs. pr_issuer r \<notin> set (pe_trusted e)"
    "evaluate e' q now = Inr d" "dc_allowed d" "\<not> naive (rq_issued_at q)"
  shows "grants e q now"
  using untrusted_never_grant [OF assms(1,2)] evaluate_grants [OF assms(3,5)] assms(4) by blast

theorem untrusted_rules_never_grant_witness:
  "\<exists>e' d. engine_add demo_engine [demo_untrusted] = Inr e' \<and> evaluate e' demo_request (demo_time 1) = Inr d \<and> dc_allowed d
     \<and> grants demo_engine demo_request (demo_time 1)"
proof -
  obtain e' d where e: "engine_add demo_engine [demo_untrusted] = Inr e'" "evaluate e' demo_request (demo_time 1) = Inr d" "dc_allowed d"
    by (rule demo_extended)
  have "grants demo_engine demo_request (demo_time 1)"
    by (rule untrusted_rules_never_grant [OF e(1) _ e(2,3)])
      (simp_all add: demo_untrusted_def demo_rule_def demo_engine_def demo_request_def)
  with e show ?thesis by blast
qed



text \<open>A deny rule with a force limit applies to every matching request that carries no numeric force: missing evidence counts as a violation.\<close>

theorem missing_evidence_denies:
  assumes "pr_effect r = Deny" "dget (pr_constraints r) ''max_force_newtons'' \<noteq> JNull"
    "\<not> is_num_nb (dget (rq_context q) ''force_newtons'')"
    "context_hold (pr_constraints r) (rq_context q) (eval_time q now) = Inr True"
    "fnmatchcase (rq_target q) (pr_target r)" "matches_any (pr_actions r) (rq_action q)"
    "matches_any (pr_subjects r) (rq_agent q)" "matches_any (pr_purposes r) (rq_purpose q)"
  shows "applies e q now r"
  using assms by (simp add: applies_def rule_applies_def constraints_hold_def physical_hold_def limit_step_def violates_def)

theorem missing_evidence_denies_witness:
  "applies demo_engine demo_request (demo_time 1)
     (demo_rule\<lparr>pr_effect := Deny, pr_constraints := [(''max_force_newtons'', JInt 10)]\<rparr>)"
  by (rule missing_evidence_denies)
    (simp_all add: demo_rule_def demo_request_def demo_matches context_hold_def required_ok_def dget_or_def dhas_def dget_def)

text \<open>C14. Soundness of the shadowing analysis for deny rules without constraints: when such a deny rule covers an allow rule in every dimension, a request the allow rule applies to is never allowed.\<close>

theorem shadowed_rule_never_grants:
  assumes "shadows deny allow" "pr_effect deny = Deny" "pr_constraints deny = []" "deny \<in> set (pe_rules e)"
    "applies e q now allow" "evaluate e q now = Inr d" "\<not> naive (rq_issued_at q)"
  shows "\<not> dc_allowed d"
  using shadowed_never_grants [OF assms(1-5)] evaluate_grants [OF assms(6,7)] by blast

theorem shadowed_rule_never_grants_witness:
  "\<exists>d. evaluate (demo_engine\<lparr>pe_rules := [demo_rule, demo_deny]\<rparr>) demo_request (demo_time 1) = Inr d \<and> \<not> dc_allowed d"
proof -
  obtain d where d: "evaluate (demo_engine\<lparr>pe_rules := [demo_rule, demo_deny]\<rparr>) demo_request (demo_time 1) = Inr d"
    by (rule demo_denied)
  have s: "shadows demo_deny demo_rule"
    by (simp add: shadows_def demo_deny_def demo_rule_def covers_def set_covers_def)
  have a: "applies (demo_engine\<lparr>pe_rules := [demo_rule, demo_deny]\<rparr>) demo_request (demo_time 1) demo_rule"
    using demo_applies by (simp add: applies_def rule_applies_def)
  have "\<not> dc_allowed d"
    by (rule shadowed_rule_never_grants [OF s _ _ _ a d]) (simp_all add: demo_deny_def demo_request_def demo_rule_def)
  with d show ?thesis by blast
qed

text \<open>The analysis ignores constraints: it reports the allow rule of this snapshot as one that can never win, because a deny rule "applies on every matching request", although that deny rule is out of its time window and the snapshot grants the request.\<close>

theorem shadow_ignores_constraints:
  "(\<exists>f\<in>set (analyze [demo_rule, demo_windowed_deny] [''owner'']). ri_check f = ''deny_shadows_allow'' \<and> ri_rule_id f = Some ''p1'')
   \<and> grants (demo_engine\<lparr>pe_rules := [demo_rule, demo_windowed_deny]\<rparr>) demo_request (demo_time 1)"
proof -
  have "shadows demo_windowed_deny demo_rule"
    by (simp add: shadows_def demo_windowed_deny_def demo_deny_def demo_rule_def covers_def set_covers_def)
  then have f: "shadow_findings demo_rule demo_windowed_deny = [failing ''deny_shadows_allow'' (Some ''p1'')
      (''allow can never win: deny rule '' @ pr_policy_id demo_windowed_deny @ '' applies on every matching request'')]"
    by (simp add: shadow_findings_def demo_windowed_deny_def demo_deny_def demo_rule_def)
  have "pr_effect demo_rule = Allow" "pr_effect demo_windowed_deny = Deny"
    by (simp_all add: demo_windowed_deny_def demo_deny_def demo_rule_def)
  then have "set (shadow_findings demo_rule demo_windowed_deny) \<subseteq> set (analyze [demo_rule, demo_windowed_deny] [''owner''])"
    by (simp add: analyze_def, blast)
  with f demo_windowed show ?thesis by (force simp: failing_def)
qed



text \<open>A cached decision does not age: once stored, it is returned at any later clock reading, also when the engine itself would call the request stale by then.\<close>

theorem cached_decision_never_expires:
  assumes "cache_inv c" "cache_evaluate c q None t1 = (c', Inr d)" "dc_reason d \<noteq> ''future_request''"
  shows "snd (cache_evaluate c' q None t2) = Inr d"
  using assms by (rule cache_hit_any_time)

theorem cached_decision_never_expires_witness:
  "\<exists>c c' d. cached_engine_init demo_engine (JInt 2) = Inr c \<and> cache_evaluate c demo_request None (demo_time 1) = (c', Inr d)
     \<and> snd (cache_evaluate c' demo_request None (demo_time 900)) = Inr d \<and> dc_allowed d
     \<and> \<not> grants demo_engine demo_request (demo_time 900)"
proof -
  obtain c c' d where c: "cached_engine_init demo_engine (JInt 2) = Inr c" "dc_allowed d" "dc_reason d = ''explicit_allow''"
    and e: "cache_evaluate c demo_request None (demo_time 1) = (c', Inr d)" by (rule demo_cached)
  have "\<not> grants demo_engine demo_request (demo_time 900)"
    by (simp add: grants_def fresh_def demo_engine_def demo_request_def seconds_def)
  with cached_decision_never_expires [OF cached_engine_init_inv [OF c(1)] e, of "demo_time 900"] c e show ?thesis
    by force
qed

text \<open>The bounded model check evaluates exactly the first \<open>max_requests\<close> points of the product space and its allowed, denied and exception counts add up to the points evaluated.\<close>

theorem model_check_counts:
  assumes "bounded_model_check e as ts acs ps n clocks = Inr r"
  shows "mr_allowed r + mr_denied r + mr_exceptions r = mr_evaluated r
    \<and> mr_evaluated r = min (nat n) (length as * (length ts * (length acs * length ps)))"
  using mr_counts [OF assms] by blast

theorem model_check_counts_witness:
  "\<exists>r. bounded_model_check demo_engine [''a''] [''t''] [''open''] [''p''] 5 (\<lambda>_. (demo_time 0, demo_time 1)) = Inr r
     \<and> mr_evaluated r = 1"
proof -
  have "\<exists>r. bounded_model_check demo_engine [''a''] [''t''] [''open''] [''p''] 5 (\<lambda>_. (demo_time 0, demo_time 1)) = Inr r"
    using demo_iso [of 0]
    by (auto simp: bounded_model_check_def product4_def mc_step_def action_request_init_def blank_def py_isspace_def
        numeral_eq_Suc Let_def)
  then obtain r where r: "bounded_model_check demo_engine [''a''] [''t''] [''open''] [''p''] 5 (\<lambda>_. (demo_time 0, demo_time 1)) = Inr r" ..
  from model_check_counts [OF this] r show ?thesis by auto
qed

section \<open>Attenuation\<close>

text \<open>C16. What the builder derives the independent verifier accepts: every capability body returned by \<open>attenuate_capability\<close> passes \<open>verify_attenuation\<close> against its parent (for a fresh delegate and hashable policy ids).\<close>

theorem attenuation_round:
  assumes "attenuate_capability p a now nonce = Inr c" "wf_items p" "utc_time now"
    "list_all hashable (the_list (dget p ''matched_policy_ids''))"
    "aa_delegate a \<noteq> JNull \<longrightarrow> aa_delegate a \<noteq> dget p ''delegate_agent''"
  shows "verify_attenuation c p = Inr True"
  using assms by (intro attenuate_verifies) auto

theorem attenuation_round_witness:
  "\<exists>c. attenuate_capability (demo_parent (zulu 0) (zulu 30000000)) (no_args\<lparr>aa_ttl := JInt 5\<rparr>) (demo_time 1) demo_nonce = Inr c
     \<and> verify_attenuation c (demo_parent (zulu 0) (zulu 30000000)) = Inr True"
proof -
  let ?p = "demo_parent (zulu 0) (zulu 30000000)" and ?a = "no_args\<lparr>aa_ttl := JInt 5\<rparr>"
  obtain c where c: "attenuate_capability ?p ?a (demo_time 1) demo_nonce = Inr c" by (rule demo_attenuates)
  have "wf_items ?p \<and> list_all hashable (the_list (dget ?p ''matched_policy_ids''))"
    by (simp add: demo_parent_def dget_def)
  with attenuation_round [OF c] demo_utc [of 1] c show ?thesis by (auto simp: no_args_def)
qed

text \<open>C17. Scope never widens along a chain of verified attenuations with literal targets: every (target, action, purpose) a descendant admits, its root admits.\<close>

theorem descendants_narrower:
  assumes "descends anc c" "admits c t a u"
  shows "admits anc t a u"
  using assms by (rule descends_admits)

theorem descendants_narrower_witness:
  "admits (demo_parent (zulu 0) (zulu 30000000)) ''door-7'' ''open'' ''p''"
proof (rule descendants_narrower [OF demo_descends])
  have "fnmatchcase ''door-7'' ''door-7''" by code_simp
  then show "admits (demo_lit (zulu 0) (zulu 30000000)) ''door-7'' ''open'' ''p''"
    by (simp add: admits_def parent_scope_def demo_lit_def demo_parent_def is_v2_def str_scope_def blank_def py_isspace_def)
qed

text \<open>Along every chain of verified attenuations the root capability id is kept and the expiry never moves past the root's.\<close>

theorem descendants_root_expiry:
  assumes "descends anc c" "dget anc ''root_capability_id'' = JStr r" "r \<noteq> []" "parse_time (dget anc ''expires_at'') = Inr tr"
  shows "dget c ''root_capability_id'' = JStr r
    \<and> (\<exists>tc. parse_time (dget c ''expires_at'') = Inr tc \<and> dt_us tc \<le> dt_us tr)"
  using descends_same_root [OF assms(1-3)] descends_expiry [OF assms(1,4)] by blast

theorem descendants_root_expiry_witness:
  "dget (demo_lit (zulu 0) (zulu 30000000)) ''root_capability_id'' = JStr ''c1''"
  using descendants_root_expiry [OF demo_descends, of "''c1''" "utc_dt 30000000"] by (simp add: demo_parent_def)

text \<open>C18. Delegation is bounded: a verified child's depth is at most 3 and at most one more than its parent's, and a new delegate needs a parent that allows delegation and yields a child that does not.\<close>

theorem delegation_is_bounded:
  assumes "verify_attenuation c p = Inr True"
  shows "\<exists>n m. dget_or c ''delegation_depth'' (JInt 0) = JInt n \<and> 0 \<le> n \<and> n \<le> 3
    \<and> dget_or p ''delegation_depth'' (JInt 0) = JInt m \<and> (n = m \<or> n = m + 1)
    \<and> (\<not> py_eq (dget c ''delegate_agent'') (dget p ''delegate_agent'') \<longrightarrow> n = m + 1
         \<and> dget_or p ''delegation_allowed'' (JBool False) = JBool True
         \<and> dget_or c ''delegation_allowed'' (JBool False) = JBool False)"
  using assms by (rule delegation_bounds)

theorem delegation_is_bounded_witness:
  "\<exists>n. dget_or (demo_lit (zulu 0) (zulu 30000000)) ''delegation_depth'' (JInt 0) = JInt n \<and> n \<le> 3"
  using delegation_is_bounded [OF demo_lit_verifies] by blast


section \<open>The gate service, ODRL policies and the device\<close>



text \<open>C21. In any session of HTTP requests over the SQLite store, whatever the routes and errors, the capabilities that \<open>/verify\<close> and \<open>/run\<close> accept have pairwise distinct ids, or two of them exhibit a SHA-256 collision (verification times do not decrease, the store's clock is not ahead of them).\<close>

theorem http_session_once:
  assumes "sqlite_ok (gsv_store sv)" "http_serve V sqlite_consume version sv reqs = (sv', replies, vcs)"
    "sorted (map (\<lambda>(env, h). dt_us (se_gate env)) reqs)"
    "\<forall>(env, h)\<in>set reqs. sqlite_clock_le (se_store env) (dt_us (se_gate env))"
  shows "distinct (map (\<lambda>vc. dget (vc_claims vc) ''capability_id'') vcs) \<or> (\<exists>v\<in>set vcs. \<exists>w\<in>set vcs. claims_collide v w)"
  using assms by (rule sqlite.http_serve_once)

theorem http_session_once_witness:
  "\<exists>x sv' replies vcs. http_serve demo_V sqlite_consume ''1.0'' (demo_service []) [x, x] = (sv', replies, vcs) \<and> vcs \<noteq> []
     \<and> (distinct (map (\<lambda>vc. dget (vc_claims vc) ''capability_id'') vcs) \<or> (\<exists>v\<in>set vcs. \<exists>w\<in>set vcs. claims_collide v w))"
proof -
  obtain ts env vc s' where h: "http_handle demo_V sqlite_consume ''1.0'' (demo_service []) (demo_service_env (demo_time 2, None)) (demo_verify ts env)
      = (demo_service s', (200, JDict (verify_reply vc)), [vc])" by (rule demo_http_accepts)
  let ?x = "(demo_service_env (demo_time 2, None), demo_verify ts env)"
  obtain sv' replies vcs where r: "http_serve demo_V sqlite_consume ''1.0'' (demo_service []) [?x, ?x] = (sv', replies, vcs)"
    by (metis prod.exhaust)
  with h have "vcs \<noteq> []" by (auto split: prod.splits)
  moreover have "distinct (map (\<lambda>vc. dget (vc_claims vc) ''capability_id'') vcs) \<or> (\<exists>v\<in>set vcs. \<exists>w\<in>set vcs. claims_collide v w)"
    by (rule http_session_once [OF _ r]) (simp_all add: sqlite_ok_def sqlite_clock_le_def)
  ultimately show ?thesis using r by blast
qed

text \<open>C22. Starting from a valid receipt chain, every session of HTTP requests, whatever it asks and whichever calls fail, leaves the service with a receipt log that verifies against its executor.\<close>

theorem http_log_valid:
  assumes "http_serve V consume version sv reqs = (sv', replies, vcs)" "good_key V (gsv_executor sv)" "service_ok V sv"
  shows "chain_reply V sv' = Inr True"
  using http_serve_chain [OF assms] by (simp add: service_ok_def)

theorem http_log_valid_witness:
  "\<exists>ts. isoformat (demo_time 0) = Inr ts
     \<and> (\<forall>env. chain_reply demo_V (fst (http_serve demo_V memory_consume ''1.0'' (demo_service []) (map (Pair (demo_service_env (\<lambda>_. demo_time 2)))
         [demo_verify ts env, demo_receipt ts env, demo_post ''/run'' (the_dict (demo_request_json ts))]))) = Inr True)"
proof -
  obtain ts where ts: "isoformat (demo_time 0) = Inr ts" using demo_iso [of 0] by auto
  have "chain_reply demo_V (fst (http_serve demo_V memory_consume ''1.0'' (demo_service []) (map (Pair (demo_service_env (\<lambda>_. demo_time 2)))
         [demo_verify ts env, demo_receipt ts env, demo_post ''/run'' (the_dict (demo_request_json ts))]))) = Inr True"
    (is "chain_reply _ (fst (http_serve _ _ _ _ ?reqs)) = _") for env
  proof -
    obtain sv' replies vcs where r: "http_serve demo_V memory_consume ''1.0'' (demo_service []) ?reqs = (sv', replies, vcs)"
      by (metis prod.exhaust)
    have "chain_reply demo_V sv' = Inr True"
      by (rule http_log_valid [OF r]) (simp_all add: demo_service_ok, simp add: demo_service_def demo_good_key)
    with r show ?thesis by simp
  qed
  with ts show ?thesis by blast
qed



text \<open>The honest path reaches the actuator: a command issued for the device's live challenge by a trusted executor is executed within its ten seconds, over the SQLite store, and the acknowledgement verifies against the device's key.\<close>

theorem device_answers:
  assumes "challenge sqlite_device_store s e dev0 nonce t = (dev, Inr ch)"
    and "issue_command consume k rs renv vc q ch now = (rs', Inr command)"
    and "good_key V k" "kid k \<in> set (dv_trusted dev0)"
    and "rq_action q = ''move_paper_barrier''" "dget (rq_context q) ''device_parameters'' = JDict [(''position'', JStr pos)]"
      "pos \<in> {''open'', ''closed''}"
    and "is_hex_id ''kinegrant:cap:'' (dget (vc_claims vc) ''capability_id'')" "t \<le> m" "m < t + 10"
    and "sqlite_device_ok s" "e = None" "ss_actuator_count sqlite_device_store s e (dv_id dev0) = Inr c" "0 \<le> c" "c < max_safe_integer"
    and "\<forall>p cid. check_command V dev (JDict command) = Inr (p, cid) \<longrightarrow> (dv_id dev0, cid) \<notin> dw_consumed (sqlite_device_view s)"
  shows "\<exists>s' dev' ack. device_execute V sqlite_device_store s e dev (JDict command) m = (s', dev', Inr ack)
    \<and> (\<forall>W. good_key W (dv_key dev0) \<longrightarrow>
        verify_device_ack W (JDict ack) [kid (dv_key dev0)] None (Some [dv_id dev0]) None = Inr True)"
  using assms by (rule sqlite_device.device_loop)

theorem device_answers_witness:
  "\<exists>dev command s' dev' ack. challenge sqlite_device_store barrier_store None barrier_device demo_nonce 0 = (dev, Inr barrier_challenge)
     \<and> device_execute demo_V sqlite_device_store barrier_store None dev (JDict command) 1 = (s', dev', Inr ack)
     \<and> verify_device_ack demo_V (JDict ack) [kid demo_key] None (Some [''barrier-1'']) None = Inr True"
proof -
  obtain vc rs command where c: "issue_command memory_consume demo_key [] (\<lambda>_. demo_time 2) vc barrier_request barrier_challenge (demo_time 2) = (rs, Inr command)"
    "dget (vc_claims vc) ''capability_id'' = JStr barrier_capability" by (rule barrier_issued)
  let ?dev = "barrier_device\<lparr>dv_active := Some (barrier_challenge, 0)\<rparr>"
  have dev: "dv_id barrier_device = ''barrier-1''" "dv_key barrier_device = demo_key" "dv_trusted barrier_device = [kid demo_key]"
    by (simp_all add: barrier_device_def)
  obtain s' dev' ack where x: "device_execute demo_V sqlite_device_store barrier_store None ?dev (JDict command) 1 = (s', dev', Inr ack)"
    and all: "\<forall>W. good_key W (dv_key barrier_device) \<longrightarrow>
        verify_device_ack W (JDict ack) [kid (dv_key barrier_device)] None (Some [dv_id barrier_device]) None = Inr True"
    using device_answers [OF barrier_challenged c(1), of demo_V "''open''" 1 0] c(2) barrier_ready demo_good_key dev
    by (auto simp: max_safe_integer_def)
  have "verify_device_ack demo_V (JDict ack) [kid demo_key] None (Some [''barrier-1'']) None = Inr True"
    using all demo_good_key dev by auto
  with x barrier_challenged show ?thesis by blast
qed

text \<open>C24. Over one SQLite database, whatever device objects are booted, challenged and sent commands, also after restarts and failing statements: no command is actuated twice, and the actuator count grows by exactly the number of actuations.\<close>

theorem device_actuates_once:
  assumes "sqlite_device_ok s" "world_run V sqlite_device_store d k trusted (s, []) evs = ((s', devs), outs)"
  shows "distinct (map fst outs) \<and> view_count (sqlite_device_view s') d = view_count (sqlite_device_view s) d + int (length outs)"
  using sqlite_device.run_moves [OF assms(1) _ assms(2)] by (simp add: devices_of_def)

theorem device_actuates_once_witness:
  "\<exists>command s' devs outs. world_run demo_V sqlite_device_store ''barrier-1'' demo_key [kid demo_key] (empty_device_store, [])
       [Boot None, Challenge 0 None demo_nonce 0, Execute 0 None (JDict command) 1, Boot None, Execute 1 None (JDict command) 1] = ((s', devs), outs)
     \<and> outs \<noteq> [] \<and> distinct (map fst outs) \<and> view_count (sqlite_device_view s') ''barrier-1'' = int (length outs)"
proof -
  obtain command s' dev' ack where c: "device_execute demo_V sqlite_device_store barrier_store None
      (barrier_device\<lparr>dv_active := Some (barrier_challenge, 0)\<rparr>) (JDict command) 1 = (s', dev', Inr ack)"
    by (rule barrier_executed)
  let ?evs = "[Boot None, Challenge 0 None demo_nonce 0, Execute 0 None (JDict command) 1, Boot None, Execute 1 None (JDict command) 1]"
  obtain s'' devs outs where r: "world_run demo_V sqlite_device_store ''barrier-1'' demo_key [kid demo_key] (empty_device_store, []) ?evs = ((s'', devs), outs)"
    by (metis prod.exhaust)
  have "outs \<noteq> []"
    using r c by (auto simp: barrier_boot barrier_challenged device_execute_def split: prod.splits sum.splits)
  moreover have "view_count (sqlite_device_view empty_device_store) ''barrier-1'' = 0"
    by (simp add: view_count_def sqlite_device_view_def empty_device_store_def)
  ultimately show ?thesis using device_actuates_once [OF barrier_ready(5) r] r by auto
qed

section \<open>The serial line\<close>

text \<open>C25. Frames are total and lossless: an object without floats, with distinct names, within the nesting and byte limits is written as its canonical text and LF; the frame decodes to an object with the same members, whose canonical text, so every digest and signature over it, is the same.\<close>

theorem frame_round:
  assumes "canonical_json (JDict d) = Inr b" "strict_value n (JDict d)" "limit_ok m" "int (length b) < the_int m"
  shows "encode_frame n m (JDict d) = Inr (b @ [10]) \<and> decode_frame n m (b @ [10]) = Inr (plain_members d)
    \<and> canonical_json (JDict (plain_members d)) = Inr b \<and> (\<forall>k. dget (plain_members d) k = plain (dget d k))"
proof -
  have e: "encode_frame n m (JDict d) = Inr (b @ [10])" by (rule frame_written [OF assms])
  have "decode_frame n m (b @ [10]) = Inr (plain_members d)"
    using frame_reads_back [OF e] by (auto simp: plain_JDict simp del: plain.simps(7))
  moreover have "canonical_json (JDict (plain_members d)) = Inr b"
    using jcs_plain [OF assms(2)] assms(1) by (simp add: canonical_json_def plain_JDict del: plain.simps(7) jcs.simps(7))
  moreover have "distinct (map fst d)" using assms(2) by (simp add: strict_JDict)
  ultimately show ?thesis using e by (simp add: dget_plain)
qed

theorem frame_round_witness:
  "\<exists>f w. encode_frame 1 (JInt 64) (JDict [(''b'', JInt 1), (''a'', JStr ''x'')]) = Inr f
     \<and> decode_frame 1 (JInt 64) f = Inr w \<and> dget w ''a'' = JStr ''x'' \<and> dget w ''b'' = JInt 1"
proof -
  let ?d = "[(''b'', JInt 1), (''a'', JStr ''x'')]"
  have st: "strict_value 1 (JDict ?d)" by (simp add: strict_JDict)
  obtain b where b: "canonical_json (JDict ?d) = Inr b"
    using canonical_json_total [of "JDict ?d"] by (auto simp: max_safe_integer_def)
  obtain t where "jcs (JDict ?d) = Inr t" "b = encode_utf8 t" using b by (auto simp: canonical_json_def res_simps)
  then have "length b \<le> 47" using canonical_size [OF _ st, of t] by simp
  moreover have "limit_ok (JInt 64)" by (simp add: limit_ok_def)
  ultimately have r: "encode_frame 1 (JInt 64) (JDict ?d) = Inr (b @ [10]) \<and> decode_frame 1 (JInt 64) (b @ [10]) = Inr (plain_members ?d)
      \<and> canonical_json (JDict (plain_members ?d)) = Inr b \<and> (\<forall>k. dget (plain_members ?d) k = plain (dget ?d k))"
    by (intro frame_round [OF b st]) simp_all
  then have "dget (plain_members ?d) ''a'' = JStr ''x''" "dget (plain_members ?d) ''b'' = JInt 1" by simp_all
  with r show ?thesis by blast
qed

text \<open>C26. The incremental decoder computes the reference: bytes fed one at a time give \<open>ds\<close> exactly when the complete lines of the stream decode to \<open>ds\<close> and the last part is below the limit; and whatever the chunks, a stream that is accepted gives that same result.\<close>

theorem stream_decoding:
  assumes "ndjson_init m = Inr st"
  shows "((\<exists>st'. nj_feeds n st (map (\<lambda>b. [b]) s) = (st', Inr ds)) \<longleftrightarrow>
      rmapM (decode_frame n m) (fst (lines_of s)) = Inr ds \<and> int (length (snd (lines_of s))) < the_int m)
    \<and> (\<forall>chunks st' es. nj_feeds n st chunks = (st', Inr es) \<and> concat chunks = s \<longrightarrow>
      rmapM (decode_frame n m) (fst (lines_of s)) = Inr es \<and> nj_buffer st' = snd (lines_of s))"
  using bytewise_iff [OF assms] nj_feeds_lines [of st n] ndjson_init_ok [OF assms] by fastforce

theorem stream_decoding_witness:
  "\<exists>st st'. ndjson_init (JInt 3) = Inr st \<and> nj_feeds 1 st (map (\<lambda>b. [b]) (two_frames @ two_frames)) = (st', Inr [[], []])"
proof -
  let ?st = "\<lparr>nj_max = 3, nj_buffer = [], nj_closed = False, nj_faulted = False\<rparr>"
  have st: "ndjson_init (JInt 3) = Inr ?st" by (simp add: ndjson_init_def limit_ok_def)
  have "rmapM (decode_frame 1 (JInt 3)) (fst (lines_of (two_frames @ two_frames))) = Inr [[], []]" by code_simp
  moreover have "snd (lines_of (two_frames @ two_frames)) = []" by code_simp
  ultimately show ?thesis using stream_decoding [OF st, of 1 "two_frames @ two_frames" "[[], []]"] st by auto
qed

text \<open>C27. An exchange that the serial client returns is verified: the one frame it wrote is the command issued for the challenge it read, and the acknowledgement it read is signed by a trusted device key and names this command, its capability and the target of the request.\<close>

theorem exchange_is_verified:
  assumes "execute_once n V consume k trusted wc wa peer s env now vc q = (s', ws, Some (Inr x))"
  shows "\<exists>ch frame p cid cap. read_device_challenge n wc (sp_greeting peer) = Some (Inr ch) \<and> ch_device_id ch = rq_target q
    \<and> issue_command consume k s env vc q ch now = (s', Inr (se_command x))
    \<and> ws = [frame] \<and> encode_frame n (JInt MAX_FRAME_BYTES) (JDict (se_command x)) = Inr frame
    \<and> verify_envelope V (se_command x) = Inr p \<and> dget p ''command_id'' = JStr cid \<and> dget p ''capability_id'' = JStr cap
    \<and> read_serial_object n wa (JInt MAX_FRAME_BYTES) (sp_answer peer frame) = Some (Inr (se_ack x))
    \<and> verify_device_ack V (JDict (se_ack x)) trusted (Some [cid]) (Some [rq_target q]) (Some [cap]) = Inr True"
proof (rule exchange_verified [OF assms])
  fix ch command frame ack p cid cap
  assume iss: "issue_command consume k s env vc q ch now = (s', Inr command)" and rest:
    "read_device_challenge n wc (sp_greeting peer) = Some (Inr ch)"
    "encode_frame n (JInt MAX_FRAME_BYTES) (JDict command) = Inr frame" "ws = [frame]"
    "read_serial_object n wa (JInt MAX_FRAME_BYTES) (sp_answer peer frame) = Some (Inr ack)"
    "verify_envelope V command = Inr p" "dget p ''command_id'' = JStr cid" "dget p ''capability_id'' = JStr cap"
    "verify_device_ack V (JDict ack) trusted (Some [cid]) (Some [ch_device_id ch]) (Some [cap]) = Inr True"
    "x = \<lparr>se_challenge = challenge_to_dict ch, se_command = command, se_ack = ack, se_frame = frame\<rparr>"
  have "rq_target q = ch_device_id ch" using iss by (rule issue_commandE)
  with iss rest show ?thesis by auto
qed

theorem exchange_is_verified_witness:
  "\<exists>vc peer s ws x cid cap. execute_once 3 demo_V memory_consume demo_key [kid demo_key] (JInt 3) (JInt 3) peer [] (\<lambda>_. demo_time 2) (demo_time 2) vc barrier_request
       = (s, ws, Some (Inr x))
     \<and> verify_device_ack demo_V (JDict (se_ack x)) [kid demo_key] (Some [cid]) (Some [''barrier-1'']) (Some [cap]) = Inr True"
proof -
  obtain vc peer s ws x where e: "execute_once 3 demo_V memory_consume demo_key [kid demo_key] (JInt 3) (JInt 3) peer [] (\<lambda>_. demo_time 2) (demo_time 2) vc barrier_request
       = (s, ws, Some (Inr x))" by (rule barrier_exchanged)
  moreover have "rq_target barrier_request = ''barrier-1''" by (simp add: barrier_request_def)
  ultimately show ?thesis using exchange_is_verified [OF e] by metis
qed

text \<open>C28. The whole serial path works: with a device that sends its live challenge, executes the command it reads and answers, in whatever chunks before the deadlines, the command issued moves the barrier once (over the SQLite store) and the client returns the exchange with the verified acknowledgement.\<close>

theorem serial_line_works:
  assumes "challenge sqlite_device_store s e dev0 nonce t = (dev, Inr ch)"
    and "issue_command consume k rs renv vc q ch now = (rs', Inr command)"
    and "good_key V k" "kid k \<in> set (dv_trusted dev0)"
    and "rq_action q = ''move_paper_barrier''" "dget (rq_context q) ''device_parameters'' = JDict [(''position'', JStr pos)]"
      "pos \<in> {''open'', ''closed''}"
    and "is_hex_id ''kinegrant:cap:'' (dget (vc_claims vc) ''capability_id'')" "t \<le> m" "m < t + 10"
    and "sqlite_device_ok s" "e = None" "ss_actuator_count sqlite_device_store s e (dv_id dev0) = Inr c" "0 \<le> c" "c < max_safe_integer"
    and "\<forall>p cid. check_command V dev (JDict command) = Inr (p, cid) \<longrightarrow> (dv_id dev0, cid) \<notin> dw_consumed (sqlite_device_view s)"
    and "good_key V (dv_key dev0)" "kid (dv_key dev0) \<in> set trusted" "3 \<le> n"
    and "fits_frame (JDict (challenge_to_dict ch))" "fits_frame (JDict command)"
      "\<And>s' dev' ack. device_execute V sqlite_device_store s e dev (JDict command) m = (s', dev', Inr ack) \<Longrightarrow> fits_frame (JDict ack)"
    and "honest_peer n V sqlite_device_store s e dev ch m wc wa peer"
  shows "\<exists>frame x d s' ack p cid. execute_once n V consume k trusted wc wa peer rs renv now vc q = (rs', [frame], Some (Inr x))
    \<and> decode_frame n (JInt MAX_FRAME_BYTES) frame = Inr d
    \<and> actuate V sqlite_device_store s e dev (JDict d) m = (s', dev0\<lparr>dv_active := None\<rparr>, Inr (p, cid, c + 1))
    \<and> device_execute V sqlite_device_store s e dev (JDict d) m = (s', dev0\<lparr>dv_active := None\<rparr>, Inr ack)
    \<and> se_command x = command \<and> se_ack x = plain_members ack"
  using assms by (rule sqlite_device.serial_round)

theorem serial_line_works_witness:
  "\<exists>vc rs frame x d s' dev' p cid. execute_once 3 demo_V memory_consume demo_key [kid demo_key] (JInt 3) (JInt 3)
       (device_peer 3 demo_V sqlite_device_store barrier_store None (barrier_device\<lparr>dv_active := Some (barrier_challenge, 0)\<rparr>) barrier_challenge 1)
       [] (\<lambda>_. demo_time 2) (demo_time 2) vc barrier_request = (rs, [frame], Some (Inr x))
     \<and> actuate demo_V sqlite_device_store barrier_store None (barrier_device\<lparr>dv_active := Some (barrier_challenge, 0)\<rparr>) (JDict d) 1
       = (s', dev', Inr (p, cid, 1))"
proof -
  obtain vc rs command where c: "issue_command memory_consume demo_key [] (\<lambda>_. demo_time 2) vc barrier_request barrier_challenge (demo_time 2) = (rs, Inr command)"
    "dget (vc_claims vc) ''capability_id'' = JStr barrier_capability" by (rule barrier_issued)
  have dev: "dv_id barrier_device = ''barrier-1''" "dv_key barrier_device = demo_key" "dv_trusted barrier_device = [kid demo_key]"
    by (simp_all add: barrier_device_def)
  let ?dev = "barrier_device\<lparr>dv_active := Some (barrier_challenge, 0)\<rparr>"
  have fits: "fits_frame (JDict ack)"
    if "device_execute demo_V sqlite_device_store barrier_store None ?dev (JDict command) 1 = (s', dev', Inr ack)" for s' dev' ack
    using barrier_ack_fits [OF that] dev by simp
  show ?thesis
    using serial_line_works [OF barrier_challenged c(1) demo_good_key, of "''open''" 1 0 "[kid demo_key]" 3 "JInt 3" "JInt 3"
        "device_peer 3 demo_V sqlite_device_store barrier_store None ?dev barrier_challenge 1"]
      c(2) barrier_ready demo_good_key dev barrier_fits [OF c] fits device_peer_honest
    by (fastforce simp: max_safe_integer_def)
qed

section \<open>Canonical form, envelopes and texts\<close>

text \<open>What a key signs verifies: the envelope \<open>sign_envelope\<close> returns is accepted by \<open>verify_envelope\<close>, with the signed payload, under the key's own id.\<close>

theorem signed_envelope_round:
  assumes "good_key V k" "sign_envelope k payload = Inr env"
  shows "verify_envelope V env = Inr payload \<and> dget env ''kid'' = JStr (kid k)"
  using sign_verify [OF assms] by blast

theorem signed_envelope_round_witness:
  "\<exists>env. sign_envelope demo_key [(''a'', JInt 1)] = Inr env \<and> verify_envelope demo_V env = Inr [(''a'', JInt 1)]"
proof -
  obtain env where e: "sign_envelope demo_key [(''a'', JInt 1)] = Inr env"
    using sign_envelope_total [of "[(''a'', JInt 1)]"] by (auto simp: max_safe_integer_def)
  with signed_envelope_round [OF demo_good_key e] show ?thesis by blast
qed

text \<open>C29. An accepted envelope is signed: its \<open>kid\<close> encodes a public key of the right length, and the signature scheme accepted its signature over the domain tag and the canonical bytes of algorithm, key id and payload.\<close>

theorem accepted_envelope_is_signed:
  assumes "verify_envelope V env = Inr p"
  shows "\<exists>alg kt pub raw b. dget env ''kid'' = JStr (key_id kt pub) \<and> length pub = public_length kt
    \<and> dget env ''signature'' = JStr (b64url raw) \<and> dget env ''payload'' = JDict p
    \<and> canonical_json (JDict (protected_dict alg (key_id kt pub) p)) = Inr b \<and> V kt pub raw (domain_tag @ b)"
  using assms by (elim verify_envelopeD) (metis unb64url_Inr)

theorem accepted_envelope_is_signed_witness:
  "\<exists>env kt pub. verify_envelope demo_V env = Inr [(''a'', JInt 1)] \<and> dget env ''kid'' = JStr (key_id kt pub)"
proof -
  obtain env where e: "sign_envelope demo_key [(''a'', JInt 1)] = Inr env"
    using sign_envelope_total [of "[(''a'', JInt 1)]"] by (auto simp: max_safe_integer_def)
  note v = sign_verify(1) [OF demo_good_key e]
  from accepted_envelope_is_signed [OF v] v show ?thesis by blast
qed




text \<open>base64url: decoding the encoding of any non-empty bytes gives them back.\<close>

theorem base64url_round:
  assumes "bs \<noteq> []"
  shows "unb64url (b64url bs) = Inr bs"
  using assms by (rule unb64url_b64url)

theorem base64url_round_witness: "unb64url (b64url [1, 2]) = Inr [1, 2]"
  by (rule base64url_round) simp

text \<open>Every UTC instant of the years 1 to 9999, to the microsecond, has a text and \<open>parse_time\<close> reads it back.\<close>

theorem timestamp_round:
  assumes "utc_time d"
  shows "\<exists>s. isoformat d = Inr s \<and> parse_time (JStr s) = Inr d"
  using assms by (rule utc_time_iso)

theorem timestamp_round_witness: "\<exists>s. isoformat (demo_time 1) = Inr s \<and> parse_time (JStr s) = Inr (demo_time 1)"
  by (rule timestamp_round) (rule demo_utc; simp)

text \<open>A revocation list survives its signed bundle: building, signing and verifying it with the authority trusted returns the same list.\<close>

theorem revocation_bundle_round:
  assumes "good_key V k" "rl_inv m" "\<forall>e\<in>set (rl_entries m). utc_time (re_at e)"
    "build_revocation_bundle m (JStr (kid k)) version previous issued_at = Inr b" "sign_revocation_bundle b k = Inr env"
    "\<forall>ts. trusted = Some ts \<longrightarrow> kid k \<in> set ts" "\<forall>s. expected = Some s \<longrightarrow> previous = JStr s"
  shows "verify_revocation_bundle V env trusted expected = Inr m"
  using assms by (intro bundle_roundtrip) auto

theorem revocation_bundle_round_witness:
  "\<exists>b env. build_revocation_bundle demo_revocations (JStr (kid demo_key)) (JInt 1) JNull (demo_time 1) = Inr b
     \<and> sign_revocation_bundle b demo_key = Inr env
     \<and> verify_revocation_bundle demo_V env (Some [kid demo_key]) None = Inr demo_revocations"
proof -
  obtain b env where b: "build_revocation_bundle demo_revocations (JStr (kid demo_key)) (JInt 1) JNull (demo_time 1) = Inr b"
    "sign_revocation_bundle b demo_key = Inr env" by (rule demo_bundle)
  have "rl_inv demo_revocations" "\<forall>e\<in>set (rl_entries demo_revocations). utc_time (re_at e)"
    using demo_utc [of 1] by (simp_all add: demo_revocations_def rl_inv_def entry_ok_def rl_entries_def)
  from revocation_bundle_round [OF demo_good_key this b, of "Some [kid demo_key]" None] b show ?thesis by auto
qed

section \<open>Sequences of actions\<close>

text \<open>C32. The sequence evaluator refines its specification: a request is denied exactly when some forbidden combination is triggered by it and each of its patterns was observed in the journal inside the window.\<close>

theorem sequence_refines:
  assumes "journal_ok j" "sequence_evaluate p q j now = Inr v"
  shows "sv_allowed v \<longleftrightarrow> \<not> (\<exists>c\<in>set p. combination_denies c q
           \<and> (\<forall>x\<in>set (fc_patterns c). observed j (fc_window c) now x))"
  using assms by (rule sequence_evaluate_spec)

theorem sequence_refines_witness:
  "combination_denies demo_combination demo_request
     \<and> list_all (observed demo_journal (fc_window demo_combination) (demo_time 100)) (fc_patterns demo_combination)"
proof -
  obtain v where v: "sequence_evaluate [demo_combination] demo_request demo_journal (demo_time 100) = Inr v" "\<not> sv_allowed v"
    by (rule demo_forbidden)
  have "journal_ok demo_journal" by (simp add: journal_ok_def demo_journal_def py_isspace_def)
  from sequence_refines [OF this v(1)] v(2) show ?thesis by (simp add: list_all_iff)
qed

text \<open>The action registry is well-formed (terms distinct, categories known, risk tiers from 1 to 5) and the validation of actions accepts exactly lists of registered terms.\<close>

theorem registry_well_formed:
  "validate_registry \<and> distinct (map as_term ACTIONS)
   \<and> (validate_actions acts = Inr () \<longleftrightarrow> list_all (\<lambda>a. \<exists>s\<in>set ACTIONS. as_term s = a) acts)"
  using registry_valid terms_distinct by (auto simp: validate_actions_Inr known_action_def list_all_iff)

section \<open>Policy bundles, registries and their distribution\<close>

text \<open>C33. Policy bundle round trip: a bundle of validated rules that is built and signed verifies for whoever trusts the signer, at every time of its window, and \<open>rules_from_bundle\<close> gives back exactly the rules.\<close>

theorem policy_bundle_round:
  assumes "build_policy_bundle (JStr policy) rules (JStr (kid k)) version previous now nb (Some upper) = Inr b"
    and "sign_policy_bundle b k = Inr env" "good_key V k"
    and "\<forall>ts. trusted = Some ts \<longrightarrow> kid k \<in> set ts" "\<forall>s. expected = Some s \<longrightarrow> policy = s"
    and "\<forall>r\<in>set rules. rule_ok r" "utc_time (case nb of None \<Rightarrow> now | Some t \<Rightarrow> t)" "utc_time upper"
    and "\<not> naive t" "dt_us (case nb of None \<Rightarrow> now | Some t \<Rightarrow> t) \<le> dt_us t" "dt_us t < dt_us upper"
  shows "verify_policy_bundle V env trusted expected t = Inr b \<and> rules_from_bundle V env trusted expected t = Inr rules"
  using assms by (intro policy_bundle_roundtrip) auto

theorem policy_bundle_round_witness:
  "\<exists>b env. build_policy_bundle (JStr ''door'') [demo_rule] (JStr (kid demo_key)) (JInt 1) JNull (demo_time 1) None (Some (demo_time 100)) = Inr b
     \<and> sign_policy_bundle b demo_key = Inr env \<and> rules_from_bundle demo_V env (Some [kid demo_key]) (Some ''door'') (demo_time 2) = Inr [demo_rule]"
proof -
  obtain b env where b: "build_policy_bundle (JStr ''door'') [demo_rule] (JStr (kid demo_key)) (JInt 1) JNull (demo_time 1) None (Some (demo_time 100)) = Inr b"
    "sign_policy_bundle b demo_key = Inr env" by (rule demo_policy_bundle)
  have "rules_from_bundle demo_V env (Some [kid demo_key]) (Some ''door'') (demo_time 2) = Inr [demo_rule]"
    using policy_bundle_round [OF b demo_good_key, of "Some [kid demo_key]" "Some ''door''" "demo_time 2"]
      demo_rule_ok demo_utc [of 1] demo_utc [of 100] by (simp add: seconds_def)
  with b show ?thesis by blast
qed

text \<open>C34. Whatever a bundle that verifies contains, the rules read from it are well-formed: there is at least one, and each has satisfied every check of the \<open>PolicyRule\<close> constructor.\<close>

theorem bundle_rules_typed:
  assumes "rules_from_bundle V env trusted expected now = Inr rs"
  shows "rs \<noteq> [] \<and> (\<forall>r\<in>set rs. rule_ok r)"
  using assms by (rule rules_from_bundle_ok)

theorem bundle_rules_typed_witness:
  "\<exists>env. rules_from_bundle demo_V env (Some [kid demo_key]) None (demo_time 2) = Inr [demo_rule] \<and> rule_ok demo_rule"
proof -
  obtain b env where b: "build_policy_bundle (JStr ''door'') [demo_rule] (JStr (kid demo_key)) (JInt 1) JNull (demo_time 1) None (Some (demo_time 100)) = Inr b"
    "sign_policy_bundle b demo_key = Inr env" by (rule demo_policy_bundle)
  have r: "rules_from_bundle demo_V env (Some [kid demo_key]) None (demo_time 2) = Inr [demo_rule]"
    using policy_bundle_roundtrip [OF b demo_good_key, of "Some [kid demo_key]" None "demo_time 2"]
      demo_rule_ok demo_utc [of 1] demo_utc [of 100] by (simp add: seconds_def)
  with bundle_rules_typed [OF r] show ?thesis by auto
qed

text \<open>C35. \<open>PolicyRegistry.current\<close> meets its specification: it never raises on a registry of verified bundles and answers with the stored bundle of the policy that is unrevoked, inside its window and of the highest version, or with none exactly when there is no such bundle.\<close>

theorem policy_current:
  assumes "registry_ok V g" "\<not> naive now"
  shows "\<exists>r. current g pid now = Inr r \<and> (case r of
      None \<Rightarrow> \<nexists>v p. usable g now (pid, v) p
    | Some p \<Rightarrow> \<exists>v. usable g now (pid, v) p \<and> dget p ''version'' = JInt v \<and> dget p ''policy_id'' = JStr pid
        \<and> (\<forall>v' p'. usable g now (pid, v') p' \<longrightarrow> v' \<le> v))"
  using assms by (rule current_spec)

theorem policy_current_witness:
  "\<exists>env g b p. activate demo_V demo_registry env (demo_time 2) = (g, Inr b)
     \<and> current g ''door'' (demo_time 2) = Inr (Some p) \<and> dget p ''policy_id'' = JStr ''door''"
proof -
  obtain b env g where a: "activate demo_V demo_registry env (demo_time 2) = (g, Inr b)"
    "usable g (demo_time 2) (''door'', 1) b" by (rule demo_activated)
  have "registry_ok demo_V g"
    using activate_ok [OF _ a(1)] registry_init_ok by (simp add: demo_registry_def)
  from policy_current [OF this demo_aware(1) [of 2], of "''door''"] a(2) obtain p where
    "current g ''door'' (demo_time 2) = Inr (Some p)" "dget p ''policy_id'' = JStr ''door''"
    by (auto split: option.splits)
  with a(1) show ?thesis by blast
qed

text \<open>C36. No downgrade: whatever bundle is distributed, and also when the distribution stops with an error, no registry afterwards answers with a lower version of any policy than it did before, and all of them still hold only verified bundles.\<close>

theorem policy_no_downgrade:
  assumes "\<forall>addr. registry_ok V (h addr)" "distribute_policy V trusted bundle registries h now = (h', r)" "\<not> naive t"
  shows "registry_ok V (h' addr) \<and> version_le (current_version (h addr) pid t) (current_version (h' addr) pid t)"
  using assms by (rule distribute_policy_no_downgrade)

theorem policy_no_downgrade_witness:
  "\<exists>h r. distribute_policy demo_V [kid demo_key] [] [(''g1'', 0)] (\<lambda>_. demo_registry) (demo_time 2) = (h, r)
     \<and> registry_ok demo_V (h 0)"
proof -
  obtain h r where d: "distribute_policy demo_V [kid demo_key] [] [(''g1'', 0)] (\<lambda>_. demo_registry) (demo_time 2) = (h, r)"
    by fastforce
  have "\<forall>addr::nat. registry_ok demo_V ((\<lambda>_. demo_registry) addr)" by (simp add: demo_registry_def registry_init_ok)
  from policy_no_downgrade [OF this d demo_aware(1) [of 2]] d show ?thesis by blast
qed

section \<open>Distribution of revocations\<close>

text \<open>Distribution of a revocation bundle: if it raises, no list has changed; if it returns, every gate's list holds its old ids and those of the bundle, other lists are untouched, and distributing again changes nothing and reports no addition.\<close>

theorem distribution_all_or_nothing:
  assumes "distribute V d bundle gates h = (h', r)"
  shows "case r of Inl x \<Rightarrow> h' = h
    | Inr report \<Rightarrow> (\<exists>m. verify_revocation_bundle V bundle (set_or_none (rd_trusted d)) (rd_expected d) = Inr m
        \<and> (\<forall>addr. ids (h' addr) = (if addr \<in> snd ` set gates then ids (h addr) \<union> ids m else ids (h addr)))
        \<and> (\<forall>addr. addr \<notin> snd ` set gates \<longrightarrow> h' addr = h addr))
      \<and> (\<exists>report'. distribute V d bundle gates h' = (h', Inr report')
        \<and> dget (the_dict (dget report' ''summary'')) ''added_total'' = JInt 0)"
  using assms distribute_effect [of V d "bundle" gates h h'] distribute_fail_closed [of V d "bundle" gates h h']
    distribute_idempotent [of V d "bundle" gates h h'] by (cases r) simp_all

theorem distribution_all_or_nothing_witness:
  "\<exists>env h report m. distribute demo_V demo_distributor env [(''g1'', 0)] (\<lambda>_. []) = (h, Inr report)
     \<and> verify_revocation_bundle demo_V env (Some [kid demo_key]) None = Inr m \<and> ids (h 0) = ids m"
proof -
  obtain env h report where d: "distribute demo_V demo_distributor env [(''g1'', 0)] (\<lambda>_. []) = (h, Inr report)"
    by (rule demo_distributed)
  from distribution_all_or_nothing [OF d] obtain m where
    "verify_revocation_bundle demo_V env (Some [kid demo_key]) None = Inr m" "ids (h 0) = ids m"
    by (auto simp: demo_distributor_def set_or_none_def ids_def)
  with d show ?thesis by blast
qed

section \<open>Merkle redactions, checkpoints and clocks\<close>

text \<open>C37. The Merkle tree is always built: the padding loop ends with the least power of two that is not below the number of leaves, and the loop over the layers ends with a root after logarithmically many layers.\<close>

theorem merkle_tree_built:
  "\<exists>k rt layers. pad_to_power_of_two (length leaves) = Some (2 ^ k) \<and> length leaves \<le> 2 ^ k
     \<and> (k = 0 \<or> 2 ^ (k - 1) < length leaves) \<and> build_tree leaves = Inr (rt, layers) \<and> length layers = Suc k"
  by (rule build_tree_shape)

text \<open>C38. Every non-empty selection of fields of a serializable document can be disclosed: \<open>merkle_redact\<close> returns a redaction, and that redaction verifies.\<close>

theorem merkle_redaction_round:
  assumes "serializable (JDict document)" "visible \<noteq> []" "set visible \<subseteq> fst ` set document"
  shows "\<exists>r. merkle_redact document visible = Inr r \<and> verify_merkle_redaction r = Inr True"
  using assms by (rule merkle_redact_total)

theorem merkle_redaction_round_witness:
  "\<exists>r. merkle_redact demo_document [''door''] = Inr r \<and> verify_merkle_redaction r = Inr True"
  by (rule merkle_redaction_round) (simp_all add: demo_document_def max_safe_integer_def)

text \<open>C39. Soundness of disclosure: a field and value that verify against the root of a document's tree are a field of that document with that value, or two of the values hashed on the two sides are an explicit collision of SHA-256.\<close>

theorem merkle_field_sound:
  assumes "document_tree document = Inr (rt, layers)" "verify_field rt field v path = Inr True"
  shows "(\<exists>w. map_of document field = Some w \<and> jequiv v w)
    \<or> (\<exists>a\<in>set (path_inputs field v path). \<exists>b\<in>set (tree_inputs document layers). collide a b)"
  using assms by (rule verify_field_sound)

theorem merkle_field_sound_witness:
  "\<exists>rt layers path. document_tree demo_document = Inr (rt, layers) \<and> verify_field rt ''door'' (JInt 7) path = Inr True
     \<and> ((\<exists>w. map_of demo_document ''door'' = Some w \<and> jequiv (JInt 7) w)
       \<or> list_ex (\<lambda>a. list_ex (collide a) (tree_inputs demo_document layers)) (path_inputs ''door'' (JInt 7) path))"
proof -
  obtain rt layers path where d: "document_tree demo_document = Inr (rt, layers)" "verify_field rt ''door'' (JInt 7) path = Inr True"
    by (rule demo_disclosed)
  with merkle_field_sound [OF d] show ?thesis by (fastforce simp: list_ex_iff)
qed

text \<open>A checkpoint's id commits to the chain: two checkpoints that verify and carry the same id vouch for the same receipt chain digest, or their bodies are an explicit collision of SHA-256.\<close>

theorem checkpoint_binds_chain:
  assumes "verify_receipt_checkpoint V a ta = Inr g" "verify_receipt_checkpoint W b tb = Inr h"
    "verify_envelope V a = Inr p" "verify_envelope W b = Inr q" "dget p ''checkpoint_id'' = dget q ''checkpoint_id''"
  shows "g = h \<or> collide (statement_body ''checkpoint_id'' p) (statement_body ''checkpoint_id'' q)"
  using assms by (rule checkpoint_id_determines_chain)

theorem checkpoint_binds_chain_witness:
  "\<exists>env h p. verify_receipt_checkpoint demo_V env (Some [kid demo_key]) = Inr h \<and> verify_receipt_checkpoint demo_V env None = Inr h
     \<and> verify_envelope demo_V env = Inr p \<and> (h = demo_chain_digest \<or> collide (statement_body ''checkpoint_id'' p) (statement_body ''checkpoint_id'' p))"
proof -
  obtain env where b: "build_receipt_checkpoint (JStr demo_chain_digest) (JStr (kid demo_key)) demo_key (JStr ''2026'') JNull (demo_time 1) = Inr env"
    by (rule demo_checkpoint)
  have v: "verify_receipt_checkpoint demo_V env (Some [kid demo_key]) = Inr demo_chain_digest"
    "verify_receipt_checkpoint demo_V env None = Inr demo_chain_digest"
    using checkpoint_roundtrip [OF b demo_good_key, of "Some [kid demo_key]"] checkpoint_roundtrip [OF b demo_good_key, of None] by simp_all
  from verify_receipt_checkpointD [OF v(1)] obtain p where p: "verify_envelope demo_V env = Inr p" by metis
  from checkpoint_binds_chain [OF v p p] v p show ?thesis by blast
qed

text \<open>C40. Every time the trusted clock returns is aware of its zone, not earlier than the one returned before and not more than the allowed jump later, whatever the source of time reports in between.\<close>

theorem trusted_clock_steady:
  assumes "trusted_clock_init max_jump = Inr c" "clock_run c readings = (c', ts)"
  shows "steady (tc_max_jump c) ts \<and> tc_last c' = (if ts = [] then None else Some (last ts))"
  using assms trusted_clock_init_inv [of max_jump c] clock_run_steady [of c readings c' ts] by auto

theorem trusted_clock_steady_witness:
  "\<exists>c c'. trusted_clock_init (JInt 10) = Inr c
     \<and> clock_run c [Some (demo_time 1), None, Some (demo_time 0), Some (demo_time 3), Some (demo_time 99)] = (c', [demo_time 1, demo_time 3])
     \<and> steady (tc_max_jump c) [demo_time 1, demo_time 3]"
proof -
  define c where "c = \<lparr>tc_max_jump = seconds 10, tc_last = None\<rparr>"
  then have c: "trusted_clock_init (JInt 10) = Inr c" "tc_max_jump c = seconds 10" "tc_last c = None"
    by (simp_all add: trusted_clock_init_def timedelta_seconds_def seconds_def)
  then have "\<exists>c'. clock_run c [Some (demo_time 1), None, Some (demo_time 0), Some (demo_time 3), Some (demo_time 99)] = (c', [demo_time 1, demo_time 3])"
    by (simp add: clock_now_def seconds_def)
  then obtain c' where r: "clock_run c [Some (demo_time 1), None, Some (demo_time 0), Some (demo_time 3), Some (demo_time 99)] = (c', [demo_time 1, demo_time 3])" ..
  from trusted_clock_steady [OF c(1) r] c(1) r show ?thesis by blast
qed

end
